(* ===== verification/Prelude.thy ===== *)
theory Prelude
  imports Main "HOL-Library.Word"
begin

text \<open>
  Shared vocabulary of the development: the integer types of \<open>ff.h\<close> and
  \<open>types.h\<close> as words, byte-addressed memory, the theorem collections the component
  proofs draw on, and the interface of a fixed-width little-endian field, which the
  load/store pairs of both C libraries provide.
\<close>

unbundle bit_operations_syntax

section \<open>Integer types and memory\<close>

type_synonym BYTE = "8 word"
type_synonym WORD = "16 word"
type_synonym DWORD = "32 word"
type_synonym QWORD = "64 word"
type_synonym UINT = "32 word"
type_synonym LBA = "32 word"
type_synonym FSIZE = "64 word"
type_synonym WCHAR = "16 word"

text \<open>A C buffer: the byte at each offset from its base.\<close>

type_synonym mem = "nat \<Rightarrow> BYTE"

named_theorems frame_simps \<open>fields an operation leaves as they were\<close>
named_theorems unfold_defs \<open>definitions unfolded together by the component proofs\<close>

section \<open>Copying between buffers\<close>

text \<open>\<open>memcpy(dst + d, src + s, n)\<close> and \<open>memset(dst + d, c, n)\<close>.\<close>

definition mem_cpy :: "mem \<Rightarrow> nat \<Rightarrow> mem \<Rightarrow> nat \<Rightarrow> nat \<Rightarrow> mem" where
  "mem_cpy dst d src s n = (\<lambda>i. if d \<le> i \<and> i < d + n then src (s + (i - d)) else dst i)"

definition mem_set :: "mem \<Rightarrow> nat \<Rightarrow> BYTE \<Rightarrow> nat \<Rightarrow> mem" where
  "mem_set dst d c n = (\<lambda>i. if d \<le> i \<and> i < d + n then c else dst i)"

text \<open>\<open>memcmp(a + p, b + q, n) == 0\<close>.\<close>

fun mem_eq :: "mem \<Rightarrow> nat \<Rightarrow> mem \<Rightarrow> nat \<Rightarrow> nat \<Rightarrow> bool" where
  "mem_eq a p b q 0 = True"
| "mem_eq a p b q (Suc n) = (a p = b q \<and> mem_eq a (Suc p) b (Suc q) n)"

lemma mem_cpy_inside [simp]: "d \<le> i \<Longrightarrow> i < d + n \<Longrightarrow> mem_cpy dst d src s n i = src (s + (i - d))"
  by (simp add: mem_cpy_def)

lemma mem_cpy_outside [simp]: "i < d \<or> d + n \<le> i \<Longrightarrow> mem_cpy dst d src s n i = dst i"
  by (auto simp: mem_cpy_def)

lemma mem_set_inside [simp]: "d \<le> i \<Longrightarrow> i < d + n \<Longrightarrow> mem_set dst d c n i = c"
  by (simp add: mem_set_def)

lemma mem_set_outside [simp]: "i < d \<or> d + n \<le> i \<Longrightarrow> mem_set dst d c n i = dst i"
  by (auto simp: mem_set_def)

lemma mem_eq_iff: "mem_eq a p b q n \<longleftrightarrow> (\<forall>k<n. a (p + k) = b (q + k))"
proof (induction n arbitrary: p q)
  case 0
  then show ?case by simp
next
  case (Suc n)
  have "(\<forall>k<Suc n. a (p + k) = b (q + k)) \<longleftrightarrow>
      a p = b q \<and> (\<forall>k<n. a (Suc p + k) = b (Suc q + k))"
    by (simp add: All_less_Suc2)
  then show ?case by (simp add: Suc.IH)
qed

section \<open>The interface of a fixed-width field\<close>

text \<open>
  A load/store pair over a buffer: what a load returns after a store at the same place,
  that a store touches \<open>w\<close> bytes only, that both depend on the bytes of the field only and
  not on where it lies, and that storing what was loaded changes nothing.
\<close>

locale field_codec =
  fixes ld :: "mem \<Rightarrow> nat \<Rightarrow> 'v"
    and st :: "mem \<Rightarrow> nat \<Rightarrow> 'v \<Rightarrow> mem"
    and w :: nat
  assumes ld_st: "ld (st m p v) p = v"
    and st_outside: "q < p \<or> p + w \<le> q \<Longrightarrow> st m p v q = m q"
    and ld_shift: "(\<And>j. j < w \<Longrightarrow> m (p + j) = m' (q + j)) \<Longrightarrow> ld m p = ld m' q"
    and st_shift: "j < w \<Longrightarrow> st m p v (p + j) = st m' q v (q + j)"
    and st_ld: "st m p (ld m p) = m"
begin

lemma ld_cong: "(\<And>q. p \<le> q \<Longrightarrow> q < p + w \<Longrightarrow> m q = m' q) \<Longrightarrow> ld m p = ld m' p"
  by (rule ld_shift) simp

lemma ld_st_disjoint:
  assumes "p + w \<le> q \<or> q + w \<le> p"
  shows "ld (st m p v) q = ld m q"
  by (rule ld_cong) (use assms in \<open>auto intro!: st_outside\<close>)

lemma st_inject: "st m p v = st m p v' \<longleftrightarrow> v = v'"
  by (metis ld_st)

text \<open>A store into a buffer that shows a part of a larger one is a store into the larger one.\<close>

lemma st_in_view:
  assumes view: "\<And>i. i < z \<Longrightarrow> v i = m (base + i)" and fit: "p + w \<le> z" and "i < z"
  shows "st v p x i = st m (base + p) x (base + i)"
proof (cases "p \<le> i \<and> i < p + w")
  case True
  then obtain j where "i = p + j" "j < w" by (metis le_iff_add nat_add_left_cancel_less)
  then show ?thesis by (metis st_shift add.assoc)
next
  case False
  then show ?thesis using assms by (auto simp: st_outside)
qed

end

section \<open>Word arithmetic shared by the components\<close>

lemma unat_byte_less: "unat (b :: BYTE) < 256"
  using unsigned_less [of b, where ?'a = nat] by simp

lemma unat_word_less: "unat (b :: WORD) < 65536"
  using unsigned_less [of b, where ?'a = nat] by simp

lemma unat_dword_less: "unat (b :: DWORD) < 4294967296"
  using unsigned_less [of b, where ?'a = nat] by simp

lemmas unat_bounds = unat_byte_less unat_word_less unat_dword_less

lemma unat_minus_less:
  fixes a b n :: "'a::len word"
  shows "a - b < n \<longleftrightarrow> (\<exists>k<n. a = b + k)"
proof
  assume "a - b < n"
  then show "\<exists>k<n. a = b + k" by (intro exI [of _ "a - b"]) simp
qed auto

lemma word_add_left_inj:
  fixes a b c :: "'a::len word"
  shows "a + b = a + c \<longleftrightarrow> b = c"
  by simp

lemma word_2_le [simp]: "\<not> (2 :: DWORD) \<le> 1" "\<not> (2 :: DWORD) \<le> 0"
  by (simp_all add: word_le_nat_alt)

lemma word_ge2: "x \<noteq> 0 \<Longrightarrow> x \<noteq> 1 \<Longrightarrow> 2 \<le> (x :: DWORD)"
  by (simp add: word_le_nat_alt word_unat_eq_iff)

text \<open>
  The bits of the masks the code writes as hexadecimal constants; the simplifier reduces
  bits of a numeral word to bits of the integer.
\<close>

lemma mask_consts:
  "(0x0F :: int) = mask 4" "(0xF0 :: int) = push_bit 4 (mask 4)" "(0xFFF :: int) = mask 12"
  "(0xFFFF :: int) = mask 16" "(0x0FFFFFFF :: int) = mask 28" "(0x7FFFFFFF :: int) = mask 31"
  "(0xF0000000 :: int) = push_bit 28 (mask 4)"
  by (simp_all add: mask_eq_exp_minus_1)

lemma bit_mask_consts:
  "bit (0x0F :: int) n \<longleftrightarrow> n < 4"
  "bit (0xF0 :: int) n \<longleftrightarrow> 4 \<le> n \<and> n < 8"
  "bit (0xFFF :: int) n \<longleftrightarrow> n < 12"
  "bit (0xFFFF :: int) n \<longleftrightarrow> n < 16"
  "bit (0x0FFFFFFF :: int) n \<longleftrightarrow> n < 28"
  "bit (0x7FFFFFFF :: int) n \<longleftrightarrow> n < 31"
  "bit (0xF0000000 :: int) n \<longleftrightarrow> 28 \<le> n \<and> n < 32"
  unfolding mask_consts by (auto simp: bit_simps)

end
