(* ===== verification/FfBytes.thy ===== *)
theory FfBytes
  imports Prelude
begin

text \<open>
  The multi-byte load/store routines of \<open>ff/src/ff/ff.c\<close> (\<open>ld_word\<close>,
  \<open>ld_dword\<close>, \<open>ld_qword\<close>, \<open>st_word\<close>, \<open>st_dword\<close>, \<open>st_qword\<close>). A pointer
  argument is a buffer and an offset into it. Each pair provides the interface
  \<open>field_codec\<close>.
\<close>

section \<open>Loads\<close>

definition ld_word :: "mem \<Rightarrow> nat \<Rightarrow> WORD" where
  "ld_word m p =
     (let rv = ucast (m (p + 1)) in
      push_bit 8 rv OR ucast (m p))"

definition ld_dword :: "mem \<Rightarrow> nat \<Rightarrow> DWORD" where
  "ld_dword m p =
     (let rv = ucast (m (p + 3));
          rv = push_bit 8 rv OR ucast (m (p + 2));
          rv = push_bit 8 rv OR ucast (m (p + 1)) in
      push_bit 8 rv OR ucast (m p))"

definition ld_qword :: "mem \<Rightarrow> nat \<Rightarrow> QWORD" where
  "ld_qword m p =
     (let rv = ucast (m (p + 7));
          rv = push_bit 8 rv OR ucast (m (p + 6));
          rv = push_bit 8 rv OR ucast (m (p + 5));
          rv = push_bit 8 rv OR ucast (m (p + 4));
          rv = push_bit 8 rv OR ucast (m (p + 3));
          rv = push_bit 8 rv OR ucast (m (p + 2));
          rv = push_bit 8 rv OR ucast (m (p + 1)) in
      push_bit 8 rv OR ucast (m p))"

section \<open>Stores\<close>

definition st_word :: "mem \<Rightarrow> nat \<Rightarrow> WORD \<Rightarrow> mem" where
  "st_word m p val =
     (let m = m(p := ucast val); val = drop_bit 8 val in
      m(p + 1 := ucast val))"

definition st_dword :: "mem \<Rightarrow> nat \<Rightarrow> DWORD \<Rightarrow> mem" where
  "st_dword m p val =
     (let m = m(p := ucast val); val = drop_bit 8 val;
          m = m(p + 1 := ucast val); val = drop_bit 8 val;
          m = m(p + 2 := ucast val); val = drop_bit 8 val in
      m(p + 3 := ucast val))"

definition st_qword :: "mem \<Rightarrow> nat \<Rightarrow> QWORD \<Rightarrow> mem" where
  "st_qword m p val =
     (let m = m(p := ucast val); val = drop_bit 8 val;
          m = m(p + 1 := ucast val); val = drop_bit 8 val;
          m = m(p + 2 := ucast val); val = drop_bit 8 val;
          m = m(p + 3 := ucast val); val = drop_bit 8 val;
          m = m(p + 4 := ucast val); val = drop_bit 8 val;
          m = m(p + 5 := ucast val); val = drop_bit 8 val;
          m = m(p + 6 := ucast val); val = drop_bit 8 val in
      m(p + 7 := ucast val))"

section \<open>Byte k of a word\<close>

text \<open>
  The value loaded is characterised by its bits: bit \<open>n\<close> comes from byte \<open>n div 8\<close>.
  The byte stored at offset \<open>k\<close> is the truncated \<open>drop_bit (8 * k)\<close>.
\<close>

lemma not_bit_byte: "8 \<le> j \<Longrightarrow> \<not> bit (b :: BYTE) j"
  by (auto dest: bit_imp_le_length)

lemma bit_shift_in:
  fixes rv :: "'a::len word" and b :: BYTE
  assumes "n < LENGTH('a)" and "8 \<le> LENGTH('a)"
  shows "bit (push_bit 8 rv OR ucast b) n = (if n < 8 then bit b n else bit rv (n - 8))"
  using assms by (auto simp: bit_simps not_bit_byte)

lemma div8_less: "n < 8 * w \<Longrightarrow> n div 8 < (w :: nat)"
  by (simp add: less_mult_imp_div_less mult.commute)

lemma byte_index:
  assumes "n < 8 * w"
  obtains k r :: nat where "n = 8 * k + r" and "r < 8" and "k < w" and "n div 8 = k" and "n mod 8 = r"
proof
  show "n = 8 * (n div 8) + n mod 8" by simp
  show "n div 8 < w" using assms by (rule div8_less)
qed simp_all

lemma bit_ld_word: "bit (ld_word m p) n \<longleftrightarrow> n < 16 \<and> bit (m (p + n div 8)) (n mod 8)"
proof (cases "n < 16")
  case True
  then have "n < 8 * 2" by simp
  then obtain k r where kr: "n = 8 * k + r" "r < 8" "k < 2" "n div 8 = k" "n mod 8 = r"
    by (rule byte_index)
  from \<open>k < 2\<close> have "k = 0 \<or> k = 1" by arith
  with kr True show ?thesis
    by (elim disjE) (simp_all add: ld_word_def Let_def bit_shift_in bit_ucast_iff del: push_bit_or)
qed (auto dest: bit_imp_le_length)

lemma bit_ld_dword: "bit (ld_dword m p) n \<longleftrightarrow> n < 32 \<and> bit (m (p + n div 8)) (n mod 8)"
proof (cases "n < 32")
  case True
  then have "n < 8 * 4" by simp
  then obtain k r where kr: "n = 8 * k + r" "r < 8" "k < 4" "n div 8 = k" "n mod 8 = r"
    by (rule byte_index)
  from \<open>k < 4\<close> have "k = 0 \<or> k = 1 \<or> k = 2 \<or> k = 3" by arith
  with kr True show ?thesis
    by (elim disjE) (simp_all add: ld_dword_def Let_def bit_shift_in bit_ucast_iff del: push_bit_or)
qed (auto dest: bit_imp_le_length)

lemma bit_ld_qword: "bit (ld_qword m p) n \<longleftrightarrow> n < 64 \<and> bit (m (p + n div 8)) (n mod 8)"
proof (cases "n < 64")
  case True
  then have "n < 8 * 8" by simp
  then obtain k r where kr: "n = 8 * k + r" "r < 8" "k < 8" "n div 8 = k" "n mod 8 = r"
    by (rule byte_index)
  from \<open>k < 8\<close> have "k = 0 \<or> k = 1 \<or> k = 2 \<or> k = 3 \<or> k = 4 \<or> k = 5 \<or> k = 6 \<or> k = 7" by arith
  with kr True show ?thesis
    by (elim disjE) (simp_all add: ld_qword_def Let_def bit_shift_in bit_ucast_iff del: push_bit_or)
qed (auto dest: bit_imp_le_length)

lemma st_word_byte:
  "st_word m p v i = (if p \<le> i \<and> i < p + 2 then ucast (drop_bit (8 * (i - p)) v) else m i)"
proof -
  have "p \<le> i \<and> i < p + 2 \<Longrightarrow> i = p \<or> i = p + 1" by arith
  then show ?thesis by (auto simp: st_word_def Let_def)
qed

lemma st_dword_byte:
  "st_dword m p v i = (if p \<le> i \<and> i < p + 4 then ucast (drop_bit (8 * (i - p)) v) else m i)"
proof -
  have "p \<le> i \<and> i < p + 4 \<Longrightarrow> i = p \<or> i = p + 1 \<or> i = p + 2 \<or> i = p + 3" by arith
  then show ?thesis by (auto simp: st_dword_def Let_def)
qed

lemma st_qword_byte:
  "st_qword m p v i = (if p \<le> i \<and> i < p + 8 then ucast (drop_bit (8 * (i - p)) v) else m i)"
proof -
  have "p \<le> i \<and> i < p + 8 \<Longrightarrow> i = p \<or> i = p + 1 \<or> i = p + 2 \<or> i = p + 3
      \<or> i = p + 4 \<or> i = p + 5 \<or> i = p + 6 \<or> i = p + 7" by arith
  then show ?thesis by (auto simp: st_qword_def Let_def)
qed

section \<open>The pairs as field codecs\<close>

lemma byte_of_ld:
  fixes f :: "'a::len word" and m :: mem and k w p :: nat
  assumes bits: "\<And>n. bit f n \<longleftrightarrow> n < 8 * w \<and> bit (m (p + n div 8)) (n mod 8)" and "k < w"
  shows "(ucast (drop_bit (8 * k) f) :: BYTE) = m (p + k)"
proof (rule bit_word_eqI)
  fix n :: nat assume "n < LENGTH(8)"
  then have "n < 8" by simp
  then have "(8 * k + n) div 8 = k" "(8 * k + n) mod 8 = n" by simp_all
  moreover from \<open>n < 8\<close> \<open>k < w\<close> have "8 * k + n < 8 * w" by linarith
  ultimately show "bit (ucast (drop_bit (8 * k) f) :: BYTE) n = bit (m (p + k)) n"
    using \<open>n < 8\<close> by (simp add: bit_ucast_iff bit_drop_bit_eq bits)
qed

lemma store_of_load:
  fixes f :: "'a::len word" and m m' :: mem and w p :: nat
  assumes bits: "\<And>n. bit f n \<longleftrightarrow> n < 8 * w \<and> bit (m (p + n div 8)) (n mod 8)"
    and st: "\<And>i. m' i = (if p \<le> i \<and> i < p + w then ucast (drop_bit (8 * (i - p)) f) else m i)"
  shows "m' = m"
proof
  fix i
  show "m' i = m i"
  proof (cases "p \<le> i \<and> i < p + w")
    case True
    then have "i - p < w" and "p + (i - p) = i" by auto
    with byte_of_ld [OF bits \<open>i - p < w\<close>] True show ?thesis by (simp add: st)
  qed (auto simp: st)
qed

interpretation wd: field_codec ld_word st_word 2
proof unfold_locales
  fix m :: mem and p v
  show "ld_word (st_word m p v) p = v"
    using div8_less [of _ 2] by (intro bit_word_eqI) (simp add: bit_ld_word st_word_byte bit_simps)
next
  fix q p m v
  show "q < p \<or> p + 2 \<le> q \<Longrightarrow> st_word m p v q = m q" by (auto simp: st_word_byte)
next
  fix p q and m m' :: mem
  assume "\<And>j. j < 2 \<Longrightarrow> m (p + j) = m' (q + j)"
  then show "ld_word m p = ld_word m' q"
    using div8_less [of _ 2] by (intro bit_word_eqI) (simp add: bit_ld_word)
next
  fix j p q :: nat and m m' :: mem and v
  show "j < 2 \<Longrightarrow> st_word m p v (p + j) = st_word m' q v (q + j)" by (simp add: st_word_byte)
next
  fix m :: mem and p
  show "st_word m p (ld_word m p) = m"
    by (rule store_of_load [of "ld_word m p" 2 m p]) (simp_all add: bit_ld_word st_word_byte)
qed

interpretation dw: field_codec ld_dword st_dword 4
proof unfold_locales
  fix m :: mem and p v
  show "ld_dword (st_dword m p v) p = v"
    using div8_less [of _ 4] by (intro bit_word_eqI) (simp add: bit_ld_dword st_dword_byte bit_simps)
next
  fix q p m v
  show "q < p \<or> p + 4 \<le> q \<Longrightarrow> st_dword m p v q = m q" by (auto simp: st_dword_byte)
next
  fix p q and m m' :: mem
  assume "\<And>j. j < 4 \<Longrightarrow> m (p + j) = m' (q + j)"
  then show "ld_dword m p = ld_dword m' q"
    using div8_less [of _ 4] by (intro bit_word_eqI) (simp add: bit_ld_dword)
next
  fix j p q :: nat and m m' :: mem and v
  show "j < 4 \<Longrightarrow> st_dword m p v (p + j) = st_dword m' q v (q + j)" by (simp add: st_dword_byte)
next
  fix m :: mem and p
  show "st_dword m p (ld_dword m p) = m"
    by (rule store_of_load [of "ld_dword m p" 4 m p]) (simp_all add: bit_ld_dword st_dword_byte)
qed

interpretation qw: field_codec ld_qword st_qword 8
proof unfold_locales
  fix m :: mem and p v
  show "ld_qword (st_qword m p v) p = v"
    using div8_less [of _ 8] by (intro bit_word_eqI) (simp add: bit_ld_qword st_qword_byte bit_simps)
next
  fix q p m v
  show "q < p \<or> p + 8 \<le> q \<Longrightarrow> st_qword m p v q = m q" by (auto simp: st_qword_byte)
next
  fix p q and m m' :: mem
  assume "\<And>j. j < 8 \<Longrightarrow> m (p + j) = m' (q + j)"
  then show "ld_qword m p = ld_qword m' q"
    using div8_less [of _ 8] by (intro bit_word_eqI) (simp add: bit_ld_qword)
next
  fix j p q :: nat and m m' :: mem and v
  show "j < 8 \<Longrightarrow> st_qword m p v (p + j) = st_qword m' q v (q + j)" by (simp add: st_qword_byte)
next
  fix m :: mem and p
  show "st_qword m p (ld_qword m p) = m"
    by (rule store_of_load [of "ld_qword m p" 8 m p]) (simp_all add: bit_ld_qword st_qword_byte)
qed

lemmas ld_st_simps [simp] = wd.ld_st dw.ld_st qw.ld_st

text \<open>Little-endian order as numbers: the low byte comes first.\<close>

lemma unat_ld_word: "unat (ld_word m p) = unat (m p) + 256 * unat (m (p + 1))"
proof -
  let ?h = "push_bit 8 (ucast (m (p + 1)) :: WORD)" and ?l = "ucast (m p) :: WORD"
  have "ld_word m p = ?h + ?l"
    unfolding ld_word_def Let_def
    by (rule disjunctive_add [symmetric]) (auto simp: bit_simps not_bit_byte)
  moreover have "unat ?l = unat (m p)"
    using unat_byte_less [of "m p"] by (simp add: unsigned_ucast_eq take_bit_nat_eq_self)
  moreover have "unat ?h = 256 * unat (m (p + 1))"
    using unat_byte_less [of "m (p + 1)"]
    by (simp add: unsigned_ucast_eq unsigned_push_bit_eq take_bit_nat_eq_self push_bit_nat_def
        del: push_bit_numeral)
  ultimately show ?thesis
    using unat_byte_less [of "m p"] unat_byte_less [of "m (p + 1)"]
    by (simp add: unat_add_lem [THEN iffD1])
qed

end
