(* ===== verification/FfTypes.thy ===== *)
theory FfTypes
  imports FfBytes
begin

text \<open>
  The types of \<open>ff/src/ff/ff.h\<close> as configured by \<open>ffconf.h\<close> (\<open>FF_FS_EXFAT = 1\<close>,
  \<open>FF_USE_LFN = 3\<close>, \<open>FF_LFN_UNICODE = 1\<close>, \<open>FF_LBA64 = 0\<close>, \<open>FF_FS_TINY = 0\<close>,
  \<open>FF_FS_LOCK = 0\<close>, \<open>FF_VOLUMES = 1\<close>), and the constants of \<open>ff.c\<close> the model uses.
  The backing store \<open>T\<close> of the Rust wrapper (\<open>ff/src/lib.rs\<close>) is the record
  \<open>device\<close>: its contents and its answers to \<open>seek\<close>, \<open>read\<close>, \<open>write_all\<close> and \<open>flush\<close>.
\<close>

section \<open>Result codes\<close>

datatype FRESULT =
    FR_OK | FR_DISK_ERR | FR_INT_ERR | FR_NOT_READY | FR_NO_FILE | FR_NO_PATH
  | FR_INVALID_NAME | FR_DENIED | FR_EXIST | FR_INVALID_OBJECT | FR_WRITE_PROTECTED
  | FR_INVALID_DRIVE | FR_NOT_ENABLED | FR_NO_FILESYSTEM | FR_MKFS_ABORTED | FR_TIMEOUT
  | FR_LOCKED | FR_NOT_ENOUGH_CORE | FR_TOO_MANY_OPEN_FILES | FR_INVALID_PARAMETER

datatype DRESULT = RES_OK | RES_ERROR | RES_WRPRT | RES_NOTRDY | RES_PARERR

section \<open>The backing device\<close>

text \<open>
  \<open>d_read d off len\<close> is the outcome of \<open>Read::read\<close> on a buffer of \<open>len\<close> bytes at
  offset \<open>off\<close>: the number of bytes it filled, or \<open>None\<close> for \<open>Err\<close>.
  \<open>d_write d off len\<close> is the number of bytes \<open>Write::write_all\<close> stores; it succeeds when
  that is all of them. \<open>d_seek d off\<close> and \<open>d_flush d\<close> say whether those calls return \<open>Ok\<close>.
  The record also stands for the rest of the environment: \<open>d_alloc d n\<close> says whether
  \<open>ff_memalloc(n)\<close> returns a block, and \<open>d_uni2oem\<close> and \<open>d_oem2uni\<close> are the two code page
  tables of \<open>ffunicode.c\<close>, of 7390 pairs each.
\<close>

record device =
  d_bytes :: mem
  d_read :: "nat \<Rightarrow> nat \<Rightarrow> nat option"
  d_write :: "nat \<Rightarrow> nat \<Rightarrow> nat"
  d_seek :: "nat \<Rightarrow> bool"
  d_flush :: bool
  d_sector_size :: DWORD
  d_alloc :: "nat \<Rightarrow> bool"
  d_uni2oem :: "WCHAR list"
  d_oem2uni :: "WCHAR list"

section \<open>FATFS, FFOBJID, DIR, FIL, FILINFO\<close>

text \<open>
  The volume owns its device: \<open>pdrv\<close> holds the device itself. The identifier field
  \<open>id\<close> is \<open>fs_id\<close> and \<open>obj_id\<close> here. A pointer into \<open>win[]\<close> (\<open>DIR.dir\<close>,
  \<open>FIL.dir_ptr\<close>) is the offset in it, and \<open>FFOBJID.fs\<close> is whether it points to the volume.
\<close>

record FATFS =
  fs_type :: BYTE
  pdrv :: device
  n_fats :: BYTE
  wflag :: BYTE
  fsi_flag :: BYTE
  fs_id :: WORD
  n_rootdir :: WORD
  csize :: WORD
  ssize :: WORD
  lfnbuf :: "nat \<Rightarrow> WCHAR"
  dirbuf :: mem
  last_clst :: DWORD
  free_clst :: DWORD
  n_fatent :: DWORD
  fsize :: DWORD
  volbase :: LBA
  fatbase :: LBA
  dirbase :: LBA
  database :: LBA
  bitbase :: LBA
  winsect :: LBA
  win :: mem

record FFOBJID =
  obj_fs :: bool
  obj_id :: WORD
  attr :: BYTE
  stat :: BYTE
  sclust :: DWORD
  objsize :: FSIZE
  n_cont :: DWORD
  n_frag :: DWORD
  c_scl :: DWORD
  c_size :: DWORD
  c_ofs :: DWORD

record FDIR =
  d_obj :: FFOBJID
  dptr :: DWORD
  d_clust :: DWORD
  d_sect :: LBA
  d_dir :: nat
  fn :: mem
  blk_ofs :: DWORD

record FIL =
  f_obj :: FFOBJID
  flag :: BYTE
  f_err :: FRESULT
  fptr :: FSIZE
  f_clust :: DWORD
  f_sect :: LBA
  dir_sect :: LBA
  dir_ptr :: nat
  buf :: mem

record FILINFO =
  fi_fsize :: FSIZE
  fdate :: WORD
  ftime :: WORD
  fattrib :: BYTE
  altname :: "nat \<Rightarrow> WCHAR"
  fname :: "nat \<Rightarrow> WCHAR"

section \<open>Constants\<close>

abbreviation (input) "FS_FAT12 \<equiv> (1 :: BYTE)"
abbreviation (input) "FS_FAT16 \<equiv> (2 :: BYTE)"
abbreviation (input) "FS_FAT32 \<equiv> (3 :: BYTE)"
abbreviation (input) "FS_EXFAT \<equiv> (4 :: BYTE)"

abbreviation (input) "FF_MIN_SS \<equiv> (512 :: WORD)"
abbreviation (input) "FF_MAX_SS \<equiv> (4096 :: WORD)"
abbreviation (input) "FF_MAX_LFN \<equiv> (255 :: nat)"
abbreviation (input) "SZDIRE \<equiv> (32 :: nat)"

text \<open>The macro \<open>SS(fs)\<close>, as an unsigned 32-bit operand and as a number of bytes.\<close>

definition SS :: "FATFS \<Rightarrow> DWORD" where
  "SS fs = ucast (ssize fs)"

definition SSn :: "FATFS \<Rightarrow> nat" where
  "SSn fs = unat (ssize fs)"

lemma unat_SS [simp]: "unat (SS fs) = SSn fs"
  by (simp add: SS_def SSn_def unsigned_ucast_eq take_bit_nat_eq_self
      order_less_trans [OF unsigned_less])

lemma SS_frame [frame_simps]:
  "ssize fs' = ssize fs \<Longrightarrow> SS fs' = SS fs" "ssize fs' = ssize fs \<Longrightarrow> SSn fs' = SSn fs"
  by (simp_all add: SS_def SSn_def)

lemma SS_update [simp]:
  "SS (fs\<lparr>win := x0\<rparr>) = SS fs" "SSn (fs\<lparr>win := x0\<rparr>) = SSn fs"
  "SS (fs\<lparr>wflag := x1\<rparr>) = SS fs" "SSn (fs\<lparr>wflag := x1\<rparr>) = SSn fs"
  "SS (fs\<lparr>winsect := x2\<rparr>) = SS fs" "SSn (fs\<lparr>winsect := x2\<rparr>) = SSn fs"
  "SS (fs\<lparr>pdrv := x3\<rparr>) = SS fs" "SSn (fs\<lparr>pdrv := x3\<rparr>) = SSn fs"
  "SS (fs\<lparr>last_clst := x4\<rparr>) = SS fs" "SSn (fs\<lparr>last_clst := x4\<rparr>) = SSn fs"
  "SS (fs\<lparr>free_clst := x5\<rparr>) = SS fs" "SSn (fs\<lparr>free_clst := x5\<rparr>) = SSn fs"
  "SS (fs\<lparr>fsi_flag := x6\<rparr>) = SS fs" "SSn (fs\<lparr>fsi_flag := x6\<rparr>) = SSn fs"
  "SS (fs\<lparr>lfnbuf := x7\<rparr>) = SS fs" "SSn (fs\<lparr>lfnbuf := x7\<rparr>) = SSn fs"
  "SS (fs\<lparr>dirbuf := x8\<rparr>) = SS fs" "SSn (fs\<lparr>dirbuf := x8\<rparr>) = SSn fs"
  by (simp_all add: SS_def SSn_def)

end
