(* ===== verification/DiskIo.thy ===== *)
theory DiskIo
  imports FfTypes
begin

text \<open>
  The disk layer below FatFs: \<open>diskio.c\<close> forwards to \<open>ff_disk_read\<close>,
  \<open>ff_disk_write\<close>, \<open>ff_disk_ioctl\<close> of \<open>ff/src/ff_extern.rs\<close>, which seek and transfer on
  the device. The interface FatFs relies on is the locale \<open>sector_device\<close>, provided by
  these definitions for a device whose reads do not fail.
\<close>

section \<open>Operations\<close>

definition ff_disk_read :: "device \<Rightarrow> mem \<Rightarrow> LBA \<Rightarrow> UINT \<Rightarrow> DRESULT \<times> mem" where
  "ff_disk_read d buff sector count =
     (let off = unat sector * unat (d_sector_size d);
          len = unat count * unat (d_sector_size d) in
      if \<not> d_seek d off then (RES_ERROR, buff)
      else case d_read d off len of
          Some n \<Rightarrow> if n \<noteq> len then (RES_ERROR, buff)
                    else (RES_OK, mem_cpy buff 0 (d_bytes d) off len)
        | None \<Rightarrow> (RES_OK, mem_set buff 0 0 len))"

definition ff_disk_write :: "device \<Rightarrow> mem \<Rightarrow> LBA \<Rightarrow> UINT \<Rightarrow> DRESULT \<times> device" where
  "ff_disk_write d buff sector count =
     (let off = unat sector * unat (d_sector_size d);
          len = unat count * unat (d_sector_size d) in
      if \<not> d_seek d off then (RES_ERROR, d)
      else let n = min (d_write d off len) len;
               d' = d\<lparr>d_bytes := mem_cpy (d_bytes d) off buff 0 n\<rparr> in
        (if n = len then RES_OK else RES_ERROR, d'))"

definition disk_read :: "device \<Rightarrow> mem \<Rightarrow> LBA \<Rightarrow> UINT \<Rightarrow> DRESULT \<times> mem" where
  "disk_read d buff sector count = ff_disk_read d buff sector count"

definition disk_write :: "device \<Rightarrow> mem \<Rightarrow> LBA \<Rightarrow> UINT \<Rightarrow> DRESULT \<times> device" where
  "disk_write d buff sector count = ff_disk_write d buff sector count"

text \<open>\<open>disk_ioctl\<close> with \<open>CTRL_SYNC\<close>.\<close>

definition disk_ioctl_sync :: "device \<Rightarrow> DRESULT" where
  "disk_ioctl_sync d = (if d_flush d then RES_OK else RES_ERROR)"

lemmas [unfold_defs] = disk_read_def disk_write_def ff_disk_read_def ff_disk_write_def

section \<open>Contents of a sector\<close>

definition dev_sect :: "device \<Rightarrow> LBA \<Rightarrow> mem" where
  "dev_sect d s i = d_bytes d (unat s * unat (d_sector_size d) + i)"

text \<open>The device never answers a read with \<open>Err\<close>.\<close>

definition reads_ok :: "device \<Rightarrow> bool" where
  "reads_ok d \<longleftrightarrow> (\<forall>off len. d_read d off len \<noteq> None)"

definition same_device :: "device \<Rightarrow> device \<Rightarrow> bool" where
  "same_device d d' \<longleftrightarrow> d_read d' = d_read d \<and> d_write d' = d_write d \<and> d_seek d' = d_seek d
     \<and> d_flush d' = d_flush d \<and> d_sector_size d' = d_sector_size d \<and> d_alloc d' = d_alloc d
     \<and> d_uni2oem d' = d_uni2oem d \<and> d_oem2uni d' = d_oem2uni d"

lemma same_device_refl [simp, intro]: "same_device d d"
  by (simp add: same_device_def)

lemma same_device_trans [trans]: "same_device a b \<Longrightarrow> same_device b c \<Longrightarrow> same_device a c"
  by (simp add: same_device_def)

lemma reads_ok_same: "same_device d d' \<Longrightarrow> reads_ok d' = reads_ok d"
  by (simp add: same_device_def reads_ok_def)

lemma disk_write_same: "disk_write d b s n = (r, d') \<Longrightarrow> same_device d d'"
  by (auto simp: unfold_defs Let_def same_device_def split: if_splits)

lemma disk_read_one:
  assumes "disk_read d b s 1 = (RES_OK, b')" and "reads_ok d" and "i < unat (d_sector_size d)"
  shows "b' i = dev_sect d s i"
proof -
  obtain n where "d_read d (unat s * unat (d_sector_size d)) (unat (d_sector_size d)) = Some n"
    using assms(2) by (fastforce simp: reads_ok_def)
  with assms(1,3) show ?thesis
    by (auto simp: unfold_defs Let_def dev_sect_def split: if_splits)
qed

lemma sector_disjoint:
  fixes a b z :: nat
  assumes "a \<noteq> b" and "i < z" and "j < z"
  shows "a * z + i \<noteq> b * z + j"
proof
  assume eq: "a * z + i = b * z + j"
  have "(a * z + i) div z = a" "(b * z + j) div z = b" using assms by simp_all
  with eq assms show False by simp
qed

lemma sector_outside:
  fixes a b z :: nat
  assumes "a \<noteq> b" and "i < z" and "n \<le> z"
  shows "a * z + i < b * z \<or> b * z + n \<le> a * z + i"
proof (rule ccontr)
  assume "\<not> ?thesis"
  then have "b * z \<le> a * z + i" and "a * z + i - b * z < z" using assms(3) by linarith+
  then show False using sector_disjoint [OF assms(1,2), of "a * z + i - b * z"] by simp
qed

lemma disk_write_other:
  assumes w: "disk_write d b s 1 = (r, d')" and ne: "t \<noteq> s" and i: "i < unat (d_sector_size d)"
  shows "dev_sect d' t i = dev_sect d t i"
proof -
  let ?z = "unat (d_sector_size d)"
  have "unat t \<noteq> unat s" using ne by (simp add: word_unat_eq_iff)
  then have "unat t * ?z + i < unat s * ?z \<or> unat s * ?z + n \<le> unat t * ?z + i" if "n \<le> ?z" for n
    using that i sector_outside by blast
  with w show ?thesis
    by (auto simp: unfold_defs Let_def dev_sect_def split: if_splits)
qed

lemma disk_write_one:
  assumes w: "disk_write d b s 1 = (RES_OK, d')" and i: "i < unat (d_sector_size d)"
  shows "dev_sect d' t i = (if t = s then b i else dev_sect d t i)"
proof (cases "t = s")
  case True
  with w i show ?thesis
    by (auto simp: unfold_defs Let_def dev_sect_def split: if_splits)
next
  case False
  with disk_write_other [OF w False i] show ?thesis by simp
qed

section \<open>The interface to the layer above\<close>

text \<open>
  Reads return the sector's contents, a write that reports success replaces exactly one
  sector, and neither changes how the device behaves.
\<close>

locale sector_device =
  fixes rd :: "'d \<Rightarrow> mem \<Rightarrow> LBA \<Rightarrow> UINT \<Rightarrow> DRESULT \<times> mem"
    and wr :: "'d \<Rightarrow> mem \<Rightarrow> LBA \<Rightarrow> UINT \<Rightarrow> DRESULT \<times> 'd"
    and sect :: "'d \<Rightarrow> LBA \<Rightarrow> mem"
    and ssz :: "'d \<Rightarrow> nat"
    and ok :: "'d \<Rightarrow> bool"
  assumes rd_sect: "ok d \<Longrightarrow> rd d b s 1 = (RES_OK, b') \<Longrightarrow> i < ssz d \<Longrightarrow> b' i = sect d s i"
    and wr_sect: "ok d \<Longrightarrow> wr d b s 1 = (RES_OK, d') \<Longrightarrow> i < ssz d \<Longrightarrow>
      sect d' t i = (if t = s then b i else sect d t i)"
    and wr_other: "ok d \<Longrightarrow> wr d b s 1 = (r, d') \<Longrightarrow> t \<noteq> s \<Longrightarrow> i < ssz d \<Longrightarrow> sect d' t i = sect d t i"
    and wr_ok: "ok d \<Longrightarrow> wr d b s n = (r, d') \<Longrightarrow> ok d' \<and> ssz d' = ssz d"
begin

text \<open>Read after write, the law a cache above the device rests on.\<close>

lemma rd_after_wr:
  assumes "ok d" and "wr d b s 1 = (RES_OK, d')" and "rd d' c t 1 = (RES_OK, c')" and "i < ssz d"
  shows "c' i = (if t = s then b i else sect d t i)"
  using assms rd_sect [of d' c t c' i] wr_ok [of d b s 1 RES_OK d'] wr_sect [of d b s d' i t] by simp

text \<open>Writing back what a sector already holds changes no sector.\<close>

lemma wr_same:
  assumes "ok d" and "wr d b s 1 = (RES_OK, d')" and "\<And>i. i < ssz d \<Longrightarrow> b i = sect d s i" and "i < ssz d"
  shows "sect d' t i = sect d t i"
  using assms wr_sect [of d b s d' i t] by simp

end

interpretation dio: sector_device disk_read disk_write dev_sect "\<lambda>d. unat (d_sector_size d)" reads_ok
proof unfold_locales
  fix d b s b' and i :: nat
  assume "reads_ok d" "disk_read d b s 1 = (RES_OK, b')" "i < unat (d_sector_size d)"
  then show "b' i = dev_sect d s i" by (blast intro: disk_read_one)
next
  fix d b s d' and i :: nat and t
  assume "reads_ok d" "disk_write d b s 1 = (RES_OK, d')" "i < unat (d_sector_size d)"
  then show "dev_sect d' t i = (if t = s then b i else dev_sect d t i)" by (intro disk_write_one)
next
  fix d b s r d' t and i :: nat
  assume "reads_ok d" "disk_write d b s 1 = (r, d')" "t \<noteq> s" "i < unat (d_sector_size d)"
  then show "dev_sect d' t i = dev_sect d t i" by (blast intro: disk_write_other)
next
  fix d b s n r d'
  assume "reads_ok d" "disk_write d b s n = (r, d')"
  then show "reads_ok d' \<and> unat (d_sector_size d') = unat (d_sector_size d)"
    using disk_write_same [of d b s n r d'] reads_ok_same [of d d'] by (auto simp: same_device_def)
qed

end
