(* ===== verification/FfWindow.thy ===== *)
theory FfWindow
  imports DiskIo
begin

text \<open>
  The disk access window of a volume: \<open>sync_window\<close>, \<open>move_window\<close>, \<open>sync_fs\<close> and
  \<open>clst2sect\<close> of \<open>ff.c\<close>. The window is a one-sector write-back cache. Its contract is
  stated on the logical contents of the volume, \<open>lsect\<close>: the window where it lies over a
  sector, the device elsewhere. Moving the window shows the requested sector and changes
  no logical sector outside the second copy of the FAT, which the write-back maintains.
\<close>

section \<open>Operations\<close>

definition sync_window :: "FATFS \<Rightarrow> FRESULT \<times> FATFS" where
  "sync_window fs =
     (if wflag fs \<noteq> 0 then
        (case disk_write (pdrv fs) (win fs) (winsect fs) 1 of (r, d) \<Rightarrow>
          let fs = fs\<lparr>pdrv := d\<rparr> in
          if r = RES_OK then
            let fs = fs\<lparr>wflag := 0\<rparr> in
            if winsect fs - fatbase fs < fsize fs then
              if n_fats fs = 2 then
                (FR_OK, fs\<lparr>pdrv := snd (disk_write (pdrv fs) (win fs) (winsect fs + fsize fs) 1)\<rparr>)
              else (FR_OK, fs)
            else (FR_OK, fs)
          else (FR_DISK_ERR, fs))
      else (FR_OK, fs))"

definition move_window :: "FATFS \<Rightarrow> LBA \<Rightarrow> FRESULT \<times> FATFS" where
  "move_window fs sect =
     (if sect \<noteq> winsect fs then
        (case sync_window fs of (res, fs) \<Rightarrow>
          if res = FR_OK then
            (case disk_read (pdrv fs) (win fs) sect 1 of (r, b) \<Rightarrow>
              let fs = fs\<lparr>win := b\<rparr> in
              if r \<noteq> RES_OK then (FR_DISK_ERR, fs\<lparr>winsect := 0 - 1\<rparr>)
              else (FR_OK, fs\<lparr>winsect := sect\<rparr>))
          else (res, fs))
      else (FR_OK, fs))"

definition sync_fs :: "FATFS \<Rightarrow> FRESULT \<times> FATFS" where
  "sync_fs fs =
     (case sync_window fs of (res, fs) \<Rightarrow>
      if res = FR_OK then
        let fs =
          (if fs_type fs = FS_FAT32 \<and> fsi_flag fs = 1 then
             let w = mem_set (win fs) 0 0 4096;
                 w = st_word w 510 0xAA55;
                 w = st_dword w 0 0x41615252;
                 w = st_dword w 484 0x61417272;
                 w = st_dword w 488 (free_clst fs);
                 w = st_dword w 492 (last_clst fs);
                 fs = fs\<lparr>win := w, winsect := volbase fs + 1\<rparr>;
                 fs = fs\<lparr>pdrv := snd (disk_write (pdrv fs) (win fs) (winsect fs) 1)\<rparr> in
             fs\<lparr>fsi_flag := 0\<rparr>
           else fs) in
        (if disk_ioctl_sync (pdrv fs) \<noteq> RES_OK then FR_DISK_ERR else FR_OK, fs)
      else (res, fs))"

definition clst2sect :: "FATFS \<Rightarrow> DWORD \<Rightarrow> LBA" where
  "clst2sect fs clst =
     (let clst = clst - 2 in
      if clst \<ge> n_fatent fs - 2 then 0
      else database fs + ucast (csize fs) * clst)"

section \<open>What the operations leave alone\<close>

definition geom_eq :: "FATFS \<Rightarrow> FATFS \<Rightarrow> bool" where
  "geom_eq fs fs' \<longleftrightarrow>
     fs_type fs' = fs_type fs \<and> n_fats fs' = n_fats fs \<and> fs_id fs' = fs_id fs \<and>
     n_rootdir fs' = n_rootdir fs \<and> csize fs' = csize fs \<and> ssize fs' = ssize fs \<and>
     n_fatent fs' = n_fatent fs \<and> fsize fs' = fsize fs \<and> volbase fs' = volbase fs \<and>
     fatbase fs' = fatbase fs \<and> dirbase fs' = dirbase fs \<and> database fs' = database fs \<and>
     bitbase fs' = bitbase fs \<and> same_device (pdrv fs) (pdrv fs')"

definition alloc_eq :: "FATFS \<Rightarrow> FATFS \<Rightarrow> bool" where
  "alloc_eq fs fs' \<longleftrightarrow>
     last_clst fs' = last_clst fs \<and> free_clst fs' = free_clst fs \<and> fsi_flag fs' = fsi_flag fs \<and>
     lfnbuf fs' = lfnbuf fs \<and> dirbuf fs' = dirbuf fs"

lemma geom_eq_refl [simp, intro]: "geom_eq fs fs" and alloc_eq_refl [simp, intro]: "alloc_eq fs fs"
  by (simp_all add: geom_eq_def alloc_eq_def)

lemma geom_eq_trans [trans]: "geom_eq a b \<Longrightarrow> geom_eq b c \<Longrightarrow> geom_eq a c"
  unfolding geom_eq_def by (metis same_device_trans)

lemma alloc_eq_trans [trans]: "alloc_eq a b \<Longrightarrow> alloc_eq b c \<Longrightarrow> alloc_eq a c"
  by (simp add: alloc_eq_def)

lemma geom_eqD:
  assumes "geom_eq fs fs'"
  shows "fs_type fs' = fs_type fs" "n_fats fs' = n_fats fs" "csize fs' = csize fs" "ssize fs' = ssize fs"
    "n_fatent fs' = n_fatent fs" "fsize fs' = fsize fs" "fatbase fs' = fatbase fs"
    "database fs' = database fs" "bitbase fs' = bitbase fs" "dirbase fs' = dirbase fs"
    "n_rootdir fs' = n_rootdir fs" "volbase fs' = volbase fs" "fs_id fs' = fs_id fs"
    "SS fs' = SS fs" "SSn fs' = SSn fs" "same_device (pdrv fs) (pdrv fs')"
  using assms by (simp_all add: geom_eq_def SS_def SSn_def)

lemma sync_window_frame:
  assumes "sync_window fs = (r, fs')"
  shows "geom_eq fs fs' \<and> alloc_eq fs fs' \<and> winsect fs' = winsect fs \<and> win fs' = win fs"
proof -
  obtain r1 d1 where w: "disk_write (pdrv fs) (win fs) (winsect fs) 1 = (r1, d1)" by (cases "disk_write (pdrv fs) (win fs) (winsect fs) 1")
  have sd: "same_device (pdrv fs) d1" by (rule disk_write_same [OF w])
  have sd2: "same_device (pdrv fs) (snd (disk_write d1 b s n))" for b s n
    by (metis disk_write_same prod.collapse same_device_trans sd)
  show ?thesis
    using assms w sd sd2
    by (auto simp: sync_window_def Let_def geom_eq_def alloc_eq_def split: if_splits)
qed

lemma move_window_frame:
  assumes "move_window fs s = (r, fs')"
  shows "geom_eq fs fs' \<and> alloc_eq fs fs'"
proof (cases "sync_window fs")
  case (Pair r1 fs1)
  have "geom_eq fs fs1 \<and> alloc_eq fs fs1" using sync_window_frame [OF Pair] by blast
  then show ?thesis
    using assms Pair
    by (auto simp: move_window_def Let_def geom_eq_def alloc_eq_def split: if_splits prod.splits)
qed

lemmas move_window_geom = move_window_frame [THEN conjunct1]
lemmas move_window_alloc = move_window_frame [THEN conjunct2]

section \<open>Logical contents and the window invariant\<close>

definition lsect :: "FATFS \<Rightarrow> LBA \<Rightarrow> mem" where
  "lsect fs s i = (if s = winsect fs then win fs i else dev_sect (pdrv fs) s i)"

definition in_fat1 :: "FATFS \<Rightarrow> LBA \<Rightarrow> bool" where
  "in_fat1 fs s \<longleftrightarrow> s - fatbase fs < fsize fs"

definition in_fat2 :: "FATFS \<Rightarrow> LBA \<Rightarrow> bool" where
  "in_fat2 fs s \<longleftrightarrow> n_fats fs = 2 \<and> s - fsize fs - fatbase fs < fsize fs"

text \<open>
  A clean window holds what the device holds under it; the value \<open>-1\<close> of \<open>winsect\<close> marks
  a window over no sector.
\<close>

definition win_ok :: "FATFS \<Rightarrow> bool" where
  "win_ok fs \<longleftrightarrow>
     reads_ok (pdrv fs) \<and> d_sector_size (pdrv fs) = ucast (ssize fs) \<and>
     (wflag fs = 0 \<longrightarrow> winsect fs \<noteq> -1 \<longrightarrow>
        (\<forall>i<SSn fs. win fs i = dev_sect (pdrv fs) (winsect fs) i))"

text \<open>Equal logical contents outside the second FAT.\<close>

definition vol_eq :: "FATFS \<Rightarrow> FATFS \<Rightarrow> bool" where
  "vol_eq fs fs' \<longleftrightarrow>
     (\<forall>s i. i < SSn fs \<longrightarrow> s \<noteq> -1 \<longrightarrow> \<not> in_fat2 fs s \<longrightarrow> lsect fs' s i = lsect fs s i)"

lemma vol_eq_refl [simp, intro]: "vol_eq fs fs"
  by (simp add: vol_eq_def)

lemma in_fat_geom: "geom_eq fs fs' \<Longrightarrow> in_fat1 fs' s = in_fat1 fs s \<and> in_fat2 fs' s = in_fat2 fs s"
  by (simp add: in_fat1_def in_fat2_def geom_eq_def)

lemma vol_eq_trans:
  assumes "vol_eq a b" and "vol_eq b c" and "geom_eq a b"
  shows "vol_eq a c"
  using assms in_fat_geom [OF assms(3)] by (simp add: vol_eq_def geom_eqD)

lemma win_ok_sector_size: "win_ok fs \<Longrightarrow> unat (d_sector_size (pdrv fs)) = SSn fs"
  by (metis SS_def unat_SS win_ok_def)

text \<open>
  Writing the window back keeps every logical sector outside the second FAT, whether or
  not the device accepts the write: on failure the window stays dirty and still wins over
  the torn sector below it.
\<close>

lemma sync_window_ok:
  assumes "win_ok fs" and "sync_window fs = (r, fs')"
  shows "win_ok fs' \<and> vol_eq fs fs' \<and> (if r = FR_OK then wflag fs' = 0 else r = FR_DISK_ERR \<and> wflag fs' \<noteq> 0)"
proof (cases "wflag fs = 0")
  case True
  with assms show ?thesis by (auto simp: sync_window_def)
next
  case False
  obtain r1 d1 where w: "disk_write (pdrv fs) (win fs) (winsect fs) 1 = (r1, d1)"
    by (cases "disk_write (pdrv fs) (win fs) (winsect fs) 1")
  have ok: "reads_ok (pdrv fs)" using assms(1) by (simp add: win_ok_def)
  note ssz = win_ok_sector_size [OF assms(1)]
  have d1: "reads_ok d1" "same_device (pdrv fs) d1"
    using dio.wr_ok [OF ok w] disk_write_same [OF w] by blast+
  have ssz1: "unat (d_sector_size d1) = SSn fs"
    using d1(2) ssz by (simp add: same_device_def)
  have o1: "dev_sect d1 t i = dev_sect (pdrv fs) t i" if "t \<noteq> winsect fs" "i < SSn fs" for t i
    using dio.wr_other [OF ok w that(1)] that(2) by (simp add: ssz)
  show ?thesis
  proof (cases "r1 = RES_OK")
    case bad: False
    have fs': "fs' = fs\<lparr>pdrv := d1\<rparr>" and r: "r = FR_DISK_ERR"
      using assms(2) False w bad by (auto simp: sync_window_def Let_def)
    show ?thesis
      using assms(1) False d1 by (simp add: r fs' win_ok_def vol_eq_def lsect_def same_device_def SSn_def o1)
  next
    case good: True
    have s1: "dev_sect d1 t i = (if t = winsect fs then win fs i else dev_sect (pdrv fs) t i)"
      if "i < SSn fs" for t i
      using dio.wr_sect [OF ok w [unfolded good]] that by (simp add: ssz)
    show ?thesis
    proof (cases "in_fat1 fs (winsect fs) \<and> n_fats fs = 2")
      case no_mirror: False
      then have fs': "fs' = fs\<lparr>pdrv := d1, wflag := 0\<rparr>" and r: "r = FR_OK"
        using assms(2) False w good
        by (auto simp: sync_window_def Let_def in_fat1_def split: if_splits)
      show ?thesis
        using assms(1) d1 by (simp add: r fs' win_ok_def vol_eq_def lsect_def same_device_def SSn_def s1)
    next
      case mirror: True
      define d2 where "d2 = snd (disk_write d1 (win fs) (winsect fs + fsize fs) 1)"
      have fs': "fs' = fs\<lparr>pdrv := d2, wflag := 0\<rparr>" and r: "r = FR_OK"
        using assms(2) False w good mirror
        by (auto simp: sync_window_def Let_def in_fat1_def d2_def split: if_splits)
      obtain r2 where w2: "disk_write d1 (win fs) (winsect fs + fsize fs) 1 = (r2, d2)"
        unfolding d2_def by (metis prod.collapse)
      have d2: "reads_ok d2" "same_device (pdrv fs) d2"
        using dio.wr_ok [OF d1(1) w2] same_device_trans [OF d1(2) disk_write_same [OF w2]] by blast+
      have s2: "dev_sect d2 t i = dev_sect d1 t i"
        if "t \<noteq> winsect fs + fsize fs" "i < SSn fs" for t i
        using dio.wr_other [OF d1(1) w2 that(1)] that(2) by (simp add: ssz1)
      have mir: "in_fat2 fs (winsect fs + fsize fs)" and ne: "winsect fs \<noteq> winsect fs + fsize fs"
        using mirror by (auto simp: in_fat1_def in_fat2_def)
      have neq: "s \<noteq> winsect fs + fsize fs" if "\<not> in_fat2 fs s" for s using that mir by auto
      have "win_ok fs'"
        using assms(1) d2 ne by (simp add: fs' win_ok_def same_device_def SSn_def s1 s2)
      moreover have "vol_eq fs fs'"
        by (simp add: fs' vol_eq_def lsect_def neq s1 s2)
      ultimately show ?thesis by (simp add: r fs')
    qed
  qed
qed

lemma sync_window_facts:
  assumes "win_ok fs" and "sync_window fs = (r, fs')"
  shows "win_ok fs'" "vol_eq fs fs'" "geom_eq fs fs'" "alloc_eq fs fs'"
    "winsect fs' = winsect fs" "win fs' = win fs"
    "r = FR_OK \<Longrightarrow> wflag fs' = 0" "r \<noteq> FR_OK \<Longrightarrow> r = FR_DISK_ERR"
  using sync_window_ok [OF assms] sync_window_frame [OF assms(2)] by (auto split: if_splits)

text \<open>The contract of \<open>move_window\<close>, for either outcome.\<close>

lemma move_window_ok:
  assumes "win_ok fs" and "move_window fs s = (r, fs')"
  shows "win_ok fs'" "vol_eq fs fs'" "geom_eq fs fs'" "alloc_eq fs fs'"
    "r = FR_OK \<Longrightarrow> winsect fs' = s" "r \<noteq> FR_OK \<Longrightarrow> r = FR_DISK_ERR"
proof -
  have "win_ok fs' \<and> vol_eq fs fs' \<and> (if r = FR_OK then winsect fs' = s else r = FR_DISK_ERR)"
  proof (cases "s = winsect fs")
    case True
    with assms show ?thesis by (auto simp: move_window_def)
  next
    case False
    obtain r1 fs1 where sw: "sync_window fs = (r1, fs1)" by (cases "sync_window fs")
    note sw1 = sync_window_facts [OF assms(1) sw]
    show ?thesis
    proof (cases "r1 = FR_OK")
      case bad: False
      with assms(2) False sw have "r = r1" "fs' = fs1" by (auto simp: move_window_def)
      with sw1 bad show ?thesis by auto
    next
      case good: True
      obtain r2 b where rd: "disk_read (pdrv fs1) (win fs1) s 1 = (r2, b)"
        by (cases "disk_read (pdrv fs1) (win fs1) s 1")
      have ok1: "reads_ok (pdrv fs1)" using sw1(1) by (simp add: win_ok_def)
      have clean: "win fs1 i = dev_sect (pdrv fs1) (winsect fs1) i"
        if "winsect fs1 \<noteq> -1" "i < SSn fs1" for i
        using sw1(1) sw1(7) [OF good] that by (simp add: win_ok_def)
      have r: "r = (if r2 = RES_OK then FR_OK else FR_DISK_ERR)"
        and fs': "fs' = fs1\<lparr>win := b, winsect := if r2 = RES_OK then s else -1\<rparr>"
        using assms(2) False sw good rd by (auto simp: move_window_def Let_def)
      have b: "b i = dev_sect (pdrv fs1) s i" if "i < SSn fs1" "r2 = RES_OK" for i
        using dio.rd_sect [OF ok1 rd [unfolded that(2)]] that by (simp add: win_ok_sector_size [OF sw1(1)])
      have "win_ok fs'" using sw1(1) b by (auto simp: fs' win_ok_def SSn_def)
      moreover have "vol_eq fs1 fs'" using b clean by (auto simp: fs' vol_eq_def lsect_def)
      ultimately show ?thesis
        using vol_eq_trans [OF sw1(2) _ sw1(3)] by (auto simp: r fs')
    qed
  qed
  then show "win_ok fs'" "vol_eq fs fs'" "r = FR_OK \<Longrightarrow> winsect fs' = s" "r \<noteq> FR_OK \<Longrightarrow> r = FR_DISK_ERR"
    by auto
  show "geom_eq fs fs'" "alloc_eq fs fs'" using move_window_frame [OF assms(2)] by auto
qed

text \<open>
  The frame of an operation that only reads the volume: the invariant, the logical
  contents, the geometry and the allocation state are as before.
\<close>

definition same_vol :: "FATFS \<Rightarrow> FATFS \<Rightarrow> bool" where
  "same_vol fs fs' \<longleftrightarrow> win_ok fs' \<and> vol_eq fs fs' \<and> geom_eq fs fs' \<and> alloc_eq fs fs'"

lemma same_volI [intro]:
  "win_ok fs' \<Longrightarrow> vol_eq fs fs' \<Longrightarrow> geom_eq fs fs' \<Longrightarrow> alloc_eq fs fs' \<Longrightarrow> same_vol fs fs'"
  by (simp add: same_vol_def)

lemma same_volD:
  assumes "same_vol fs fs'"
  shows "win_ok fs'" "vol_eq fs fs'" "geom_eq fs fs'" "alloc_eq fs fs'"
  using assms by (simp_all add: same_vol_def)

lemma same_vol_refl [simp]: "same_vol fs fs = win_ok fs"
  by (simp add: same_vol_def)

lemma same_vol_trans [trans]: "same_vol a b \<Longrightarrow> same_vol b c \<Longrightarrow> same_vol a c"
  unfolding same_vol_def by (meson vol_eq_trans geom_eq_trans alloc_eq_trans)

lemma move_window_same: "win_ok fs \<Longrightarrow> move_window fs s = (r, fs') \<Longrightarrow> same_vol fs fs'"
  by (simp add: same_vol_def move_window_ok)

text \<open>After a successful move the window shows the requested sector.\<close>

lemma move_window_shows:
  assumes "win_ok fs" and "move_window fs s = (FR_OK, fs')" and "i < SSn fs"
    and "s \<noteq> -1" and "\<not> in_fat2 fs s"
  shows "win fs' i = lsect fs s i"
proof -
  have "lsect fs' s i = lsect fs s i"
    using move_window_ok(2) [OF assms(1,2)] assms(3-5) by (simp add: vol_eq_def)
  with move_window_ok(5) [OF assms(1,2)] show ?thesis by (simp add: lsect_def)
qed

text \<open>The allocation counters are not part of the contents, the geometry or the invariant.\<close>

lemma counters_frame [simp]:
  "lsect (fs\<lparr>last_clst := x\<rparr>) = lsect fs" "lsect (fs\<lparr>free_clst := x\<rparr>) = lsect fs" "lsect (fs\<lparr>fsi_flag := y\<rparr>) = lsect fs"
  "win_ok (fs\<lparr>last_clst := x\<rparr>) = win_ok fs" "win_ok (fs\<lparr>free_clst := x\<rparr>) = win_ok fs"
  "win_ok (fs\<lparr>fsi_flag := y\<rparr>) = win_ok fs"
  "geom_eq fs0 (fs\<lparr>last_clst := x\<rparr>) = geom_eq fs0 fs" "geom_eq fs0 (fs\<lparr>free_clst := x\<rparr>) = geom_eq fs0 fs"
  "geom_eq fs0 (fs\<lparr>fsi_flag := y\<rparr>) = geom_eq fs0 fs"
  by (auto simp: fun_eq_iff lsect_def win_ok_def geom_eq_def)

section \<open>Clusters and sectors\<close>

lemma clst2sect_valid:
  assumes "2 \<le> clst" and "clst < n_fatent fs"
  shows "clst2sect fs clst = database fs + ucast (csize fs) * (clst - 2)"
proof -
  have "clst - 2 < n_fatent fs - 2"
    using assms by (simp add: word_less_nat_alt word_le_nat_alt unat_sub)
  then have "\<not> n_fatent fs - 2 \<le> clst - 2" by (simp add: not_le)
  then show ?thesis by (simp add: clst2sect_def Let_def)
qed

lemma clst2sect_invalid:
  assumes "clst < 2 \<or> n_fatent fs \<le> clst" and "2 \<le> n_fatent fs"
  shows "clst2sect fs clst = 0"
proof -
  have "n_fatent fs - 2 \<le> clst - 2"
  proof (cases "clst < 2")
    case True
    then have "unat (clst - 2) = unat clst + 4294967296 - 2"
      by (simp add: unat_sub_if' word_less_nat_alt)
    with assms(2) unat_dword_less [of "n_fatent fs"] show ?thesis
      by (simp add: word_le_nat_alt unat_sub)
  next
    case False
    with assms show ?thesis by (simp add: word_le_nat_alt word_less_nat_alt unat_sub)
  qed
  then show ?thesis by (simp add: clst2sect_def Let_def)
qed

text \<open>
  Where the data area is not larger than the address space, the sectors of different
  clusters are different.
\<close>

lemma clst2sect_disjoint:
  assumes "2 \<le> a" "a < n_fatent fs" "2 \<le> b" "b < n_fatent fs"
    and "i < ucast (csize fs)" "j < ucast (csize fs)"
    and fits: "unat (csize fs) * unat (n_fatent fs) \<le> 2 ^ 32"
    and eq: "clst2sect fs a + i = clst2sect fs b + j"
  shows "a = b \<and> i = j"
proof -
  let ?c = "unat (csize fs)"
  have c: "unat (ucast (csize fs) :: DWORD) = ?c"
    using unat_word_less [of "csize fs"] by (simp add: unsigned_ucast_eq take_bit_nat_eq_self)
  have lin: "unat (ucast (csize fs) * (x - 2) + k) = ?c * (unat x - 2) + unat k"
    if "2 \<le> x" "x < n_fatent fs" "k < ucast (csize fs)" for x k :: DWORD
  proof -
    have x2: "unat (x - 2) = unat x - 2" using that(1) by (simp add: unat_sub)
    have k: "unat k < ?c" using that(3) c by (simp add: word_less_nat_alt)
    have "?c * (unat x - 2) + unat k < ?c * (unat x - 2) + ?c" using k by simp
    also have "\<dots> = ?c * (unat x - 1)" using that(1) by (simp add: word_le_nat_alt algebra_simps diff_mult_distrib2)
    also have "\<dots> \<le> ?c * unat (n_fatent fs)" using that(2) by (intro mult_le_mono2) (simp add: word_less_nat_alt)
    finally have lt: "?c * (unat x - 2) + unat k < 2 ^ 32" using fits by simp
    then have "unat (ucast (csize fs) * (x - 2)) = ?c * (unat x - 2)"
      using c x2 by (subst unat_mult_lem [THEN iffD1]) auto
    with lt show ?thesis by (subst unat_add_lem [THEN iffD1]) auto
  qed
  have "ucast (csize fs) * (a - 2) + i = ucast (csize fs) * (b - 2) + j"
    using eq by (simp add: clst2sect_valid assms add.assoc)
  then have e: "?c * (unat a - 2) + unat i = ?c * (unat b - 2) + unat j"
    using lin [OF assms(1,2,5)] lin [OF assms(3,4,6)] by simp
  have ij: "unat i < ?c" "unat j < ?c" using assms(5,6) c by (simp_all add: word_less_nat_alt)
  have "unat a - 2 = unat b - 2"
    using sector_disjoint [of "unat a - 2" "unat b - 2" "unat i" ?c "unat j"] e ij
    by (auto simp: mult.commute)
  with e have "unat a = unat b" "unat i = unat j" using assms(1,3) by (auto simp: word_le_nat_alt)
  then show ?thesis by (simp add: word_unat_eq_iff)
qed

end
