(* ===== verification/FfFat.thy ===== *)
theory FfFat
  imports FfWindow
begin

text \<open>
  Access to the file allocation table: \<open>get_fat\<close> and \<open>put_fat\<close> of \<open>ff.c\<close> for the four
  layouts (12, 16 and 32 bit entries, exFAT). The table as a function of the logical
  contents of the volume is \<open>fat_entry\<close>; \<open>get_fat\<close> reads it, \<open>put_fat\<close> changes one
  entry of it, and chains of clusters are reasoned about in the locale \<open>link_table\<close>.
\<close>

section \<open>Operations\<close>

definition get_fat :: "FATFS \<Rightarrow> FFOBJID \<Rightarrow> DWORD \<Rightarrow> DWORD \<times> FATFS" where
  "get_fat fs obj clst =
     (if clst < 2 \<or> clst \<ge> n_fatent fs then (1, fs)
      else if fs_type fs = FS_FAT12 then
        let bc = clst; bc = bc + bc div 2 in
        (case move_window fs (fatbase fs + bc div SS fs) of (res, fs) \<Rightarrow>
          if res \<noteq> FR_OK then (0xFFFFFFFF, fs)
          else let wc = ucast (win fs (unat (bc mod SS fs))) :: UINT; bc = bc + 1 in
            (case move_window fs (fatbase fs + bc div SS fs) of (res, fs) \<Rightarrow>
              if res \<noteq> FR_OK then (0xFFFFFFFF, fs)
              else let wc = wc OR push_bit 8 (ucast (win fs (unat (bc mod SS fs)))) in
                (if clst AND 1 \<noteq> 0 then drop_bit 4 wc else wc AND 0xFFF, fs)))
      else if fs_type fs = FS_FAT16 then
        (case move_window fs (fatbase fs + clst div (SS fs div 2)) of (res, fs) \<Rightarrow>
          if res \<noteq> FR_OK then (0xFFFFFFFF, fs)
          else (ucast (ld_word (win fs) (unat (clst * 2 mod SS fs))), fs))
      else if fs_type fs = FS_FAT32 then
        (case move_window fs (fatbase fs + clst div (SS fs div 4)) of (res, fs) \<Rightarrow>
          if res \<noteq> FR_OK then (0xFFFFFFFF, fs)
          else (ld_dword (win fs) (unat (clst * 4 mod SS fs)) AND 0x0FFFFFFF, fs))
      else if fs_type fs = FS_EXFAT then
        if objsize obj \<noteq> 0 \<and> sclust obj \<noteq> 0 \<or> stat obj = 0 then
          let cofs = clst - sclust obj;
              clen = ucast ((objsize obj - 1) div ucast (ssize fs)) div ucast (csize fs) in
          if stat obj = 2 \<and> cofs \<le> clen then (if cofs = clen then 0x7FFFFFFF else clst + 1, fs)
          else if stat obj = 3 \<and> cofs < n_cont obj then (clst + 1, fs)
          else if stat obj \<noteq> 2 then
            if n_frag obj \<noteq> 0 then (0x7FFFFFFF, fs)
            else (case move_window fs (fatbase fs + clst div (SS fs div 4)) of (res, fs) \<Rightarrow>
              if res \<noteq> FR_OK then (0xFFFFFFFF, fs)
              else (ld_dword (win fs) (unat (clst * 4 mod SS fs)) AND 0x7FFFFFFF, fs))
          else (1, fs)
        else (1, fs)
      else (1, fs))"

definition put_fat :: "FATFS \<Rightarrow> DWORD \<Rightarrow> DWORD \<Rightarrow> FRESULT \<times> FATFS" where
  "put_fat fs clst val =
     (if clst \<ge> 2 \<and> clst < n_fatent fs then
        if fs_type fs = FS_FAT12 then
          let bc = clst; bc = bc + bc div 2 in
          (case move_window fs (fatbase fs + bc div SS fs) of (res, fs) \<Rightarrow>
            if res \<noteq> FR_OK then (res, fs)
            else
              let p = unat (bc mod SS fs); bc = bc + 1;
                  b = (if clst AND 1 \<noteq> 0 then (win fs p AND 0x0F) OR push_bit 4 (ucast val)
                       else ucast val);
                  fs = fs\<lparr>win := (win fs)(p := b), wflag := 1\<rparr> in
              (case move_window fs (fatbase fs + bc div SS fs) of (res, fs) \<Rightarrow>
                if res \<noteq> FR_OK then (res, fs)
                else
                  let p = unat (bc mod SS fs);
                      b = (if clst AND 1 \<noteq> 0 then ucast (drop_bit 4 val)
                           else (win fs p AND 0xF0) OR (ucast (drop_bit 8 val) AND 0x0F)) in
                  (FR_OK, fs\<lparr>win := (win fs)(p := b), wflag := 1\<rparr>)))
        else if fs_type fs = FS_FAT16 then
          (case move_window fs (fatbase fs + clst div (SS fs div 2)) of (res, fs) \<Rightarrow>
            if res \<noteq> FR_OK then (res, fs)
            else (FR_OK, fs\<lparr>win := st_word (win fs) (unat (clst * 2 mod SS fs)) (ucast val), wflag := 1\<rparr>))
        else if fs_type fs = FS_FAT32 \<or> fs_type fs = FS_EXFAT then
          (case move_window fs (fatbase fs + clst div (SS fs div 4)) of (res, fs) \<Rightarrow>
            if res \<noteq> FR_OK then (res, fs)
            else
              let p = unat (clst * 4 mod SS fs);
                  val = (if fs_type fs \<noteq> FS_EXFAT
                         then (val AND 0x0FFFFFFF) OR (ld_dword (win fs) p AND 0xF0000000)
                         else val) in
              (FR_OK, fs\<lparr>win := st_dword (win fs) p val, wflag := 1\<rparr>))
        else (FR_INT_ERR, fs)
      else (FR_INT_ERR, fs))"

section \<open>The table as a byte array\<close>

text \<open>
  The four on-disk layouts of the table, over a flat byte array: the value of entry \<open>c\<close>
  and the array with entry \<open>c\<close> replaced. This is the abstract specification of
  \<open>get_fat\<close> and \<open>put_fat\<close>.
\<close>

definition fat12_get :: "mem \<Rightarrow> nat \<Rightarrow> DWORD" where
  "fat12_get m c =
     (let b = c + c div 2; w = ucast (m b) OR push_bit 8 (ucast (m (b + 1))) in
      if odd c then drop_bit 4 w else w AND 0xFFF)"

definition fat12_put :: "mem \<Rightarrow> nat \<Rightarrow> DWORD \<Rightarrow> mem" where
  "fat12_put m c v =
     (let b = c + c div 2 in
      if odd c
      then m(b := (m b AND 0x0F) OR push_bit 4 (ucast v), b + 1 := ucast (drop_bit 4 v))
      else m(b := ucast v, b + 1 := (m (b + 1) AND 0xF0) OR (ucast (drop_bit 8 v) AND 0x0F)))"

definition fat16_get :: "mem \<Rightarrow> nat \<Rightarrow> DWORD" where
  "fat16_get m c = ucast (ld_word m (2 * c))"

definition fat16_put :: "mem \<Rightarrow> nat \<Rightarrow> DWORD \<Rightarrow> mem" where
  "fat16_put m c v = st_word m (2 * c) (ucast v)"

definition fat32_get :: "mem \<Rightarrow> nat \<Rightarrow> DWORD" where
  "fat32_get m c = ld_dword m (4 * c) AND 0x0FFFFFFF"

definition fat32_put :: "mem \<Rightarrow> nat \<Rightarrow> DWORD \<Rightarrow> mem" where
  "fat32_put m c v =
     st_dword m (4 * c) ((v AND 0x0FFFFFFF) OR (ld_dword m (4 * c) AND 0xF0000000))"

definition exfat_get :: "mem \<Rightarrow> nat \<Rightarrow> DWORD" where
  "exfat_get m c = ld_dword m (4 * c) AND 0x7FFFFFFF"

definition exfat_put :: "mem \<Rightarrow> nat \<Rightarrow> DWORD \<Rightarrow> mem" where
  "exfat_put m c v = st_dword m (4 * c) v"

text \<open>
  What every layout promises: replacing an entry changes that entry to the value cut to
  the layout's width, and no other entry.
\<close>

locale fat_layout =
  fixes get :: "mem \<Rightarrow> nat \<Rightarrow> DWORD"
    and put :: "mem \<Rightarrow> nat \<Rightarrow> DWORD \<Rightarrow> mem"
    and msk :: DWORD
  assumes get_put_same: "get (put m c v) c = v AND msk"
    and get_put_other: "c \<noteq> c' \<Longrightarrow> get (put m c v) c' = get m c'"
    and get_masked: "get m c AND msk = get m c"
begin

lemma get_put: "get (put m c v) = (get m)(c := v AND msk)"
  by (auto simp: get_put_same get_put_other)

lemma put_get: "get (put m c (get m c)) = get m"
  by (simp add: get_put get_masked)

lemma put_put: "get (put (put m c v) c v') = get (put m c v')"
  by (simp add: get_put)

lemma put_commute: "c \<noteq> c' \<Longrightarrow> get (put (put m c v) c' v') = get (put (put m c' v') c v)"
  by (simp add: get_put fun_upd_twist)

end

lemma mask_idem: "((x::'a::len word) AND m) AND m = x AND m"
  by (simp add: and.assoc)

interpretation l16: fat_layout fat16_get fat16_put "0xFFFF"
proof unfold_locales
  fix m c v
  have "ucast (ucast v :: WORD) = v AND 0xFFFF" for v :: DWORD
    by (rule bit_word_eqI) (auto simp: bit_simps bit_mask_consts)
  then show "fat16_get (fat16_put m c v) c = v AND 0xFFFF"
    by (simp add: fat16_get_def fat16_put_def)
next
  fix c c' :: nat and m v
  assume "c \<noteq> c'"
  then have "2 * c + 2 \<le> 2 * c' \<or> 2 * c' + 2 \<le> 2 * c" by arith
  then show "fat16_get (fat16_put m c v) c' = fat16_get m c'"
    by (simp add: fat16_get_def fat16_put_def wd.ld_st_disjoint)
next
  fix m c
  show "fat16_get m c AND 0xFFFF = fat16_get m c"
    by (rule bit_word_eqI) (auto simp: fat16_get_def bit_simps bit_mask_consts dest: bit_imp_le_length)
qed

interpretation l32: fat_layout fat32_get fat32_put "0x0FFFFFFF"
proof unfold_locales
  fix m c v
  show "fat32_get (fat32_put m c v) c = v AND 0x0FFFFFFF"
    by (simp add: fat32_get_def fat32_put_def bit.conj_disj_distrib2 and.assoc)
next
  fix c c' :: nat and m v
  assume "c \<noteq> c'"
  then have "4 * c + 4 \<le> 4 * c' \<or> 4 * c' + 4 \<le> 4 * c" by arith
  then show "fat32_get (fat32_put m c v) c' = fat32_get m c'"
    by (simp add: fat32_get_def fat32_put_def dw.ld_st_disjoint)
next
  fix m c
  show "fat32_get m c AND 0x0FFFFFFF = fat32_get m c"
    by (simp add: fat32_get_def and.assoc)
qed

interpretation lex: fat_layout exfat_get exfat_put "0x7FFFFFFF"
proof unfold_locales
  fix m c v
  show "exfat_get (exfat_put m c v) c = v AND 0x7FFFFFFF"
    by (simp add: exfat_get_def exfat_put_def)
next
  fix c c' :: nat and m v
  assume "c \<noteq> c'"
  then have "4 * c + 4 \<le> 4 * c' \<or> 4 * c' + 4 \<le> 4 * c" by arith
  then show "exfat_get (exfat_put m c v) c' = exfat_get m c'"
    by (simp add: exfat_get_def exfat_put_def dw.ld_st_disjoint)
next
  fix m c
  show "exfat_get m c AND 0x7FFFFFFF = exfat_get m c"
    by (simp add: exfat_get_def and.assoc)
qed

lemma fat12_cases:
  fixes c c' :: nat
  assumes "c \<noteq> c'"
  shows "c' + c' div 2 + 1 < c + c div 2 \<or> c + c div 2 + 1 < c' + c' div 2
    \<or> odd c \<and> c = Suc c' \<and> even c' \<and> c + c div 2 = c' + c' div 2 + 1
    \<or> even c \<and> c' = Suc c \<and> odd c' \<and> c' + c' div 2 = c + c div 2 + 1"
proof -
  define a b x y where "a = c div 2" and "b = c' div 2" and "x = c mod 2" and "y = c' mod 2"
  have c: "c = 2 * a + x" "c' = 2 * b + y" "x < 2" "y < 2"
    by (simp_all add: a_def b_def x_def y_def)
  have "3 * b + y + 1 < 3 * a + x \<or> 3 * a + x + 1 < 3 * b + y
      \<or> x = 1 \<and> y = 0 \<and> a = b \<or> x = 0 \<and> y = 1 \<and> a = b"
    using assms c by linarith
  moreover have "odd c \<longleftrightarrow> x = 1" "odd c' \<longleftrightarrow> y = 1" "c div 2 = a" "c' div 2 = b"
    by (auto simp: a_def b_def x_def y_def odd_iff_mod_2_eq_one)
  ultimately show ?thesis using c by auto
qed

interpretation l12: fat_layout fat12_get fat12_put "0xFFF"
proof unfold_locales
  fix m c v
  show "fat12_get (fat12_put m c v) c = v AND 0xFFF"
    by (rule bit_word_eqI)
      (auto simp: fat12_get_def fat12_put_def Let_def bit_simps bit_mask_consts dest: bit_imp_le_length)
next
  fix c c' :: nat and m v
  assume "c \<noteq> c'"
  from fat12_cases [OF this] show "fat12_get (fat12_put m c v) c' = fat12_get m c'"
  proof (elim disjE)
    assume "odd c \<and> c = Suc c' \<and> even c' \<and> c + c div 2 = c' + c' div 2 + 1"
    then show ?thesis
      by (intro bit_word_eqI)
        (auto simp: fat12_get_def fat12_put_def Let_def bit_simps bit_mask_consts dest: bit_imp_le_length)
  next
    assume "even c \<and> c' = Suc c \<and> odd c' \<and> c' + c' div 2 = c + c div 2 + 1"
    then show ?thesis
      by (intro bit_word_eqI)
        (auto simp: fat12_get_def fat12_put_def Let_def bit_simps bit_mask_consts dest: bit_imp_le_length)
  qed (auto simp: fat12_get_def fat12_put_def Let_def)
next
  fix m c
  show "fat12_get m c AND 0xFFF = fat12_get m c"
    by (rule bit_word_eqI) (auto simp: fat12_get_def Let_def bit_simps bit_mask_consts dest: bit_imp_le_length)
qed

section \<open>The table of a volume\<close>

definition fat_get :: "BYTE \<Rightarrow> mem \<Rightarrow> nat \<Rightarrow> DWORD" where
  "fat_get ty =
     (if ty = FS_FAT12 then fat12_get else if ty = FS_FAT16 then fat16_get
      else if ty = FS_FAT32 then fat32_get else exfat_get)"

definition fat_put :: "BYTE \<Rightarrow> mem \<Rightarrow> nat \<Rightarrow> DWORD \<Rightarrow> mem" where
  "fat_put ty =
     (if ty = FS_FAT12 then fat12_put else if ty = FS_FAT16 then fat16_put
      else if ty = FS_FAT32 then fat32_put else exfat_put)"

definition fat_mask :: "BYTE \<Rightarrow> DWORD" where
  "fat_mask ty =
     (if ty = FS_FAT12 then 0xFFF else if ty = FS_FAT16 then 0xFFFF
      else if ty = FS_FAT32 then 0x0FFFFFFF else 0x7FFFFFFF)"

text \<open>Bytes a table of \<open>n\<close> entries takes.\<close>

definition fat_bytes :: "BYTE \<Rightarrow> nat \<Rightarrow> nat" where
  "fat_bytes ty n =
     (if ty = FS_FAT12 then (3 * n + 1) div 2 else if ty = FS_FAT16 then 2 * n else 4 * n)"

lemma fat_bytes_12: "fat_bytes FS_FAT12 n = (3 * n + 1) div 2"
  by (simp add: fat_bytes_def)

interpretation lay: fat_layout "fat_get ty" "fat_put ty" "fat_mask ty" for ty
  by unfold_locales
    (auto simp: fat_get_def fat_put_def fat_mask_def
      l12.get_put_same l16.get_put_same l32.get_put_same lex.get_put_same
      l12.get_put_other l16.get_put_other l32.get_put_other lex.get_put_other
      l12.get_masked l16.get_masked l32.get_masked lex.get_masked)

definition fatmem :: "FATFS \<Rightarrow> mem" where
  "fatmem fs k = lsect fs (fatbase fs + of_nat (k div SSn fs)) (k mod SSn fs)"

definition fatlen :: "FATFS \<Rightarrow> nat" where
  "fatlen fs = unat (fsize fs) * SSn fs"

definition fat_entry :: "FATFS \<Rightarrow> DWORD \<Rightarrow> DWORD" where
  "fat_entry fs c = fat_get (fs_type fs) (fatmem fs) (unat c)"

text \<open>
  A volume whose table can be accessed: a supported sector size, every entry inside the
  first FAT, the FAT copies not overlapping, at least one cluster, and every cluster number
  smaller than the end mark of the layout.
\<close>

definition fat_ok :: "FATFS \<Rightarrow> bool" where
  "fat_ok fs \<longleftrightarrow>
     ssize fs \<in> {512, 1024, 2048, 4096} \<and>
     \<not> in_fat1 fs (-1) \<and>
     (n_fats fs = 2 \<longrightarrow> 2 * unat (fsize fs) \<le> 2 ^ 32) \<and>
     fat_bytes (fs_type fs) (unat (n_fatent fs)) \<le> fatlen fs \<and>
     3 \<le> n_fatent fs \<and> n_fatent fs \<le> fat_mask (fs_type fs)"

lemma fat_okD:
  assumes "fat_ok fs"
  shows "\<not> in_fat1 fs (-1)" and "n_fats fs = 2 \<Longrightarrow> 2 * unat (fsize fs) \<le> 2 ^ 32"
    and "fat_bytes (fs_type fs) (unat (n_fatent fs)) \<le> fatlen fs"
    and "n_fatent fs \<le> fat_mask (fs_type fs)" and "3 \<le> n_fatent fs"
  using assms unfolding fat_ok_def by blast+

lemma fat_ok_geom: "geom_eq fs fs' \<Longrightarrow> fat_ok fs' = fat_ok fs"
  by (simp add: fat_ok_def geom_eqD fatlen_def in_fat_geom)

lemma fat_ok_sector: "fat_ok fs \<Longrightarrow> SSn fs \<in> {512, 1024, 2048, 4096}"
  by (auto simp: fat_ok_def SSn_def)

text \<open>Sectors of the first FAT are not in the second and not the invalid sector.\<close>

lemma fat1_sector:
  assumes "fat_ok fs" and "w < fsize fs"
  shows "fatbase fs + w \<noteq> -1" and "\<not> in_fat2 fs (fatbase fs + w)" and "in_fat1 fs (fatbase fs + w)"
proof -
  show in1: "in_fat1 fs (fatbase fs + w)" using assms(2) by (simp add: in_fat1_def)
  show "fatbase fs + w \<noteq> -1" using in1 assms(1) by (auto simp: fat_ok_def)
  show "\<not> in_fat2 fs (fatbase fs + w)"
  proof
    assume "in_fat2 fs (fatbase fs + w)"
    then have n: "n_fats fs = 2" and lt: "w - fsize fs < fsize fs"
      by (simp_all add: in_fat2_def algebra_simps)
    from assms(2) have "unat (w - fsize fs) = unat w + 2 ^ 32 - unat (fsize fs)"
      by (simp add: unat_sub_if' word_less_nat_alt word_le_nat_alt)
    moreover have "unat (fsize fs) \<le> 2147483648" using n assms(1) by (simp add: fat_ok_def)
    ultimately show False using lt by (simp add: word_less_nat_alt)
  qed
qed

text \<open>
  Moving the window into the FAT shows the bytes of the table there, and overwriting the
  window then overwrites exactly those bytes.
\<close>

lemma fat_window:
  assumes ok: "fat_ok fs" "win_ok fs" and w: "w < fsize fs"
    and mv: "move_window fs (fatbase fs + w) = (FR_OK, fs')"
  shows "\<And>i. i < SSn fs \<Longrightarrow> win fs' i = fatmem fs (unat w * SSn fs + i)"
    and "\<And>W k. k < fatlen fs \<Longrightarrow>
      fatmem (fs'\<lparr>win := W, wflag := 1\<rparr>) k = (if k div SSn fs = unat w then W (k mod SSn fs) else fatmem fs k)"
    and "\<And>W. win_ok (fs'\<lparr>win := W, wflag := 1\<rparr>)"
proof -
  note mw = move_window_ok [OF ok(2) mv]
  note g = geom_eqD [OF mw(3)]
  note sec = fat1_sector [OF ok(1)]
  show "win fs' i = fatmem fs (unat w * SSn fs + i)" if "i < SSn fs" for i
    using move_window_shows [OF ok(2) mv that sec(1,2) [OF w]] that by (simp add: fatmem_def)
  show "fatmem (fs'\<lparr>win := W, wflag := 1\<rparr>) k = (if k div SSn fs = unat w then W (k mod SSn fs) else fatmem fs k)"
    if k: "k < fatlen fs" for W k
  proof -
    have z: "0 < SSn fs" using fat_ok_sector [OF ok(1)] by auto
    have q: "k div SSn fs < unat (fsize fs)"
      using k z by (simp add: fatlen_def less_mult_imp_div_less)
    then have uq: "unat (of_nat (k div SSn fs) :: DWORD) = k div SSn fs"
      using unat_dword_less [of "fsize fs"] by (simp add: unat_of_nat)
    then have wq: "of_nat (k div SSn fs) = w \<longleftrightarrow> k div SSn fs = unat w"
      by (metis word_unat_eq_iff)
    have "of_nat (k div SSn fs) < fsize fs" using q uq by (simp add: word_less_nat_alt)
    note s = sec(1,2) [OF this]
    have "lsect fs' (fatbase fs + of_nat (k div SSn fs)) (k mod SSn fs)
        = lsect fs (fatbase fs + of_nat (k div SSn fs)) (k mod SSn fs)"
      using mw(2) s z by (simp add: vol_eq_def)
    then show ?thesis
      using mw(5) wq by (cases "k div SSn fs = unat w") (simp_all add: fatmem_def lsect_def g)
  qed
  show "win_ok (fs'\<lparr>win := W, wflag := 1\<rparr>)" for W
    using mw(1) by (simp add: win_ok_def)
qed

lemma fatmem_vol_eq:
  assumes "fat_ok fs" and "vol_eq fs fs'" and "geom_eq fs fs'" and "k < fatlen fs"
  shows "fatmem fs' k = fatmem fs k"
proof -
  have z: "0 < SSn fs" using fat_ok_sector [OF assms(1)] by auto
  have "k div SSn fs < unat (fsize fs)"
    using assms(4) z by (simp add: fatlen_def less_mult_imp_div_less)
  then have "of_nat (k div SSn fs) < fsize fs"
    using unat_dword_less [of "fsize fs"] by (simp add: word_less_nat_alt unat_of_nat)
  from fat1_sector(1,2) [OF assms(1) this] show ?thesis
    using assms(2) z by (simp add: fatmem_def vol_eq_def geom_eqD [OF assms(3)])
qed

section \<open>Where an entry lies\<close>

lemma div_mod_scale:
  fixes c e q :: nat
  assumes "0 < e" and "0 < q"
  shows "c div q * (e * q) + e * c mod (e * q) = e * c" and "e * c mod (e * q) + e \<le> e * q"
proof -
  have m: "e * c mod (e * q) = e * (c mod q)" by (simp only: mult_mod_right)
  have "c div q * (e * q) + e * (c mod q) = e * (c div q * q + c mod q)"
    by (simp only: distrib_left ac_simps)
  then show "c div q * (e * q) + e * c mod (e * q) = e * c" by (simp only: m div_mult_mod_eq)
  have "e * (c mod q) + e = e * Suc (c mod q)" by simp
  also have "\<dots> \<le> e * q" using assms(2) by (intro mult_le_mono2) (simp add: Suc_leI)
  finally show "e * c mod (e * q) + e \<le> e * q" by (simp add: m)
qed

lemma unat_mod_SS:
  assumes "fat_ok fs"
  shows "unat (x mod SS fs) = unat x mod SSn fs" and "unat (x * y mod SS fs) = unat x * unat y mod SSn fs"
    and "unat (x div SS fs) = unat x div SSn fs"
proof -
  show "unat (x mod SS fs) = unat x mod SSn fs" "unat (x div SS fs) = unat x div SSn fs"
    by (simp_all add: unat_mod unat_div)
  have "SSn fs dvd 2 ^ 32" using fat_ok_sector [OF assms] by auto
  then show "unat (x * y mod SS fs) = unat x * unat y mod SSn fs"
    by (simp add: unat_mod unat_word_ariths mod_mod_cancel)
qed

text \<open>Entries of two or four bytes.\<close>

lemma fat_pos:
  fixes e :: DWORD
  assumes ok: "fat_ok fs" and e: "e = 2 \<or> e = 4" and c: "c < n_fatent fs"
    and fit: "unat e * unat (n_fatent fs) \<le> fatlen fs"
  defines "w \<equiv> c div (SS fs div e)" and "p \<equiv> unat (c * e mod SS fs)"
  shows "w < fsize fs" and "unat w * SSn fs + p = unat e * unat c" and "p + unat e \<le> SSn fs"
proof -
  let ?q = "SSn fs div unat e"
  have z: "SSn fs = unat e * ?q" "0 < ?q" "0 < unat e"
    using fat_ok_sector [OF ok] e by auto
  have w: "unat w = unat c div ?q" by (simp add: w_def unat_div)
  have p: "p = unat e * unat c mod (unat e * ?q)"
    using unat_mod_SS(2) [OF ok, of c e] z(1) by (simp add: p_def mult.commute)
  note dm = div_mod_scale [OF z(3,2), of "unat c"]
  show pos: "unat w * SSn fs + p = unat e * unat c" using dm(1) z(1) w p by metis
  show "p + unat e \<le> SSn fs" using dm(2) z(1) p by metis
  have "unat e * unat c < fatlen fs"
    using c z(3) fit by (intro less_le_trans [OF _ fit]) (simp add: word_less_nat_alt)
  then have "unat w * SSn fs < unat (fsize fs) * SSn fs" unfolding fatlen_def using pos by linarith
  then show "w < fsize fs" by (simp add: word_less_nat_alt)
qed

text \<open>The two bytes of a 12-bit entry, each in the sector the code computes for it.\<close>

lemma fat12_fit:
  fixes c n :: nat
  assumes "c < n"
  shows "c + c div 2 + 1 < (3 * n + 1) div 2"
proof -
  obtain h r where c: "c = 2 * h + r" "r < 2" using that [of "c div 2" "c mod 2"] by simp
  then have d: "c div 2 = h" by simp
  have "2 * (3 * h + r + 2) \<le> 3 * n + 1" using assms c by simp
  then have "3 * h + r + 2 \<le> (3 * n + 1) div 2"
    using div_le_mono [of "2 * (3 * h + r + 2)" "3 * n + 1" 2] by simp
  moreover have "c + c div 2 + 1 = 3 * h + r + 1" unfolding d by (simp add: c(1))
  ultimately show ?thesis by simp
qed

lemma fat12_pos:
  assumes ok: "fat_ok fs" and ty: "fs_type fs = FS_FAT12" and c: "c < n_fatent fs"
  defines "b \<equiv> c + c div 2"
  shows "unat b = unat c + unat c div 2" and "unat (b + 1) = unat b + 1"
    and "b div SS fs < fsize fs" and "(b + 1) div SS fs < fsize fs"
proof -
  have "fat_bytes FS_FAT12 (unat (n_fatent fs)) \<le> fatlen fs" and n1: "unat (n_fatent fs) \<le> 4095"
    using fat_okD(3,4) [OF ok] ty by (simp_all add: fat_mask_def word_le_nat_alt)
  then have n2: "(3 * unat (n_fatent fs) + 1) div 2 \<le> fatlen fs" by (simp only: fat_bytes_12)
  have cl: "unat c < unat (n_fatent fs)" using c by (simp add: word_less_nat_alt)
  have cb: "unat c < 5000" using cl n1 by (rule less_le_trans [THEN less_le_trans]) simp
  have d: "unat (c div 2) = unat c div 2" by (simp add: unat_div)
  show b: "unat b = unat c + unat c div 2"
    unfolding b_def using cb by (simp add: unat_word_ariths(1) d)
  have "unat c div 2 \<le> unat c" by simp
  then have "unat b < 10000" using b cb by linarith
  then show b1: "unat (b + 1) = unat b + 1" by (simp add: unat_word_ariths(1))
  have "unat c + unat c div 2 + 1 < (3 * unat (n_fatent fs) + 1) div 2" using cl by (rule fat12_fit)
  then have lim: "unat b + 1 < unat (fsize fs) * SSn fs"
    unfolding b fatlen_def [symmetric] using n2 by (rule less_le_trans)
  show "b div SS fs < fsize fs" "(b + 1) div SS fs < fsize fs"
    using less_mult_imp_div_less [of "unat b" "unat (fsize fs)" "SSn fs"]
      less_mult_imp_div_less [OF lim] lim b1 by (simp_all add: word_less_nat_alt unat_div)
qed

section \<open>Fields of the table seen through the window\<close>

lemma fat_byte_window:
  assumes ok: "fat_ok fs" "win_ok fs" and w: "b div SS fs < fsize fs"
    and mv: "move_window fs (fatbase fs + b div SS fs) = (FR_OK, fs')"
  shows "win fs' (unat (b mod SS fs)) = fatmem fs (unat b)"
    and "\<And>x k. k < fatlen fs \<Longrightarrow>
      fatmem (fs'\<lparr>win := (win fs')(unat (b mod SS fs) := x), wflag := 1\<rparr>) k = ((fatmem fs)(unat b := x)) k"
proof -
  note fw = fat_window [OF ok w mv] and u = unat_mod_SS [OF ok(1)]
  have z: "0 < SSn fs" using fat_ok_sector [OF ok(1)] by auto
  show "win fs' (unat (b mod SS fs)) = fatmem fs (unat b)"
    using fw(1) [of "unat (b mod SS fs)"] z by (simp add: u)
  fix x k
  assume k: "k < fatlen fs"
  show "fatmem (fs'\<lparr>win := (win fs')(unat (b mod SS fs) := x), wflag := 1\<rparr>) k = ((fatmem fs)(unat b := x)) k"
  proof (cases "k div SSn fs = unat b div SSn fs")
    case True
    then have "k mod SSn fs = unat b mod SSn fs \<longleftrightarrow> k = unat b" by (metis div_mult_mod_eq)
    moreover have "win fs' (k mod SSn fs) = fatmem fs k"
      using fw(1) [of "k mod SSn fs"] z True by (metis div_mult_mod_eq mod_less_divisor u(3))
    ultimately show ?thesis using True by (simp add: fw(2) [OF k] u)
  next
    case False
    then show ?thesis by (auto simp: fw(2) [OF k] u)
  qed
qed

context field_codec
begin

lemma ld_window:
  assumes "fat_ok fs" "win_ok fs" "n < fsize fs" "move_window fs (fatbase fs + n) = (FR_OK, fs')"
    and q: "unat n * SSn fs + p = q" and fit: "p + w \<le> SSn fs"
  shows "ld (win fs') p = ld (fatmem fs) q"
proof (rule ld_shift)
  fix j
  assume "j < w"
  then show "win fs' (p + j) = fatmem fs (q + j)"
    using fat_window(1) [OF assms(1-4), of "p + j"] fit q by (simp add: add.assoc [symmetric])
qed

lemma st_window:
  assumes ok: "fat_ok fs" "win_ok fs" "n < fsize fs" "move_window fs (fatbase fs + n) = (FR_OK, fs')"
    and q: "unat n * SSn fs + p = q" and fit: "p + w \<le> SSn fs" and k: "k < fatlen fs"
  shows "fatmem (fs'\<lparr>win := st (win fs') p v, wflag := 1\<rparr>) k = st (fatmem fs) q v k"
proof (cases "k div SSn fs = unat n")
  case True
  have z: "0 < SSn fs" using fat_ok_sector [OF ok(1)] by auto
  have "st (win fs') p v (k mod SSn fs) = st (fatmem fs) (unat n * SSn fs + p) v (unat n * SSn fs + k mod SSn fs)"
    using z by (intro st_in_view [where z = "SSn fs"] fat_window(1) [OF ok] fit) auto
  then show ?thesis using True q by (simp add: fat_window(2) [OF ok k]) (metis div_mult_mod_eq)
next
  case False
  have "k < q \<or> q + w \<le> k"
    using sector_outside [OF False, of "k mod SSn fs" "SSn fs" "p + w"] fit q fat_ok_sector [OF ok(1)]
    by auto
  then show ?thesis using False by (simp add: fat_window(2) [OF ok k] st_outside)
qed

end

section \<open>get\_fat reads the table\<close>

text \<open>
  When the chain of \<open>obj\<close> at \<open>c\<close> is recorded in the table: always on FAT12/16/32; on
  exFAT unless the object is contiguous (\<open>stat = 2\<close>), its fragment is (\<open>stat = 3\<close>), or its last
  fragment is still growing (\<open>n_frag\<close>).
\<close>

definition via_table :: "FATFS \<Rightarrow> FFOBJID \<Rightarrow> DWORD \<Rightarrow> bool" where
  "via_table fs obj c \<longleftrightarrow>
     fs_type fs \<in> {FS_FAT12, FS_FAT16, FS_FAT32} \<or>
     fs_type fs = FS_EXFAT \<and> (objsize obj \<noteq> 0 \<and> sclust obj \<noteq> 0 \<or> stat obj = 0) \<and>
       stat obj \<noteq> 2 \<and> \<not> (stat obj = 3 \<and> c - sclust obj < n_cont obj) \<and> n_frag obj = 0"

lemma word_odd: "x AND 1 \<noteq> 0 \<longleftrightarrow> odd (unat x)" for x :: DWORD
  by (simp add: and_one_eq mod_2_eq_odd flip: bit_0) (simp add: bit_unsigned_iff)

lemma get_fat12_table:
  assumes ok: "fat_ok fs" "win_ok fs" and c: "2 \<le> c" "c < n_fatent fs" and ty: "fs_type fs = FS_FAT12"
    and get: "get_fat fs obj c = (v, fs')"
  shows "same_vol fs fs' \<and> (v = fat_entry fs c \<or> v = 0xFFFFFFFF)"
proof -
  define b where "b = c + c div 2"
  note pos = fat12_pos [OF ok(1) ty c(2), folded b_def]
  obtain r1 fs1 where m1: "move_window fs (fatbase fs + b div SS fs) = (r1, fs1)" by fastforce
  obtain r2 fs2 where m2: "move_window fs1 (fatbase fs1 + (b + 1) div SS fs1) = (r2, fs2)" by fastforce
  note sv1 = move_window_same [OF ok(2) m1]
  note sv2 = move_window_same [OF same_volD(1) [OF sv1] m2]
  note g = geom_eqD [OF same_volD(3) [OF sv1]]
  have ok1: "fat_ok fs1" using ok(1) fat_ok_geom [OF same_volD(3) [OF sv1]] by simp
  have sv: "same_vol fs fs2" using sv1 sv2 by (rule same_vol_trans)
  note g2 = geom_eqD [OF same_volD(3) [OF sv]]
  have not: "\<not> (c < 2 \<or> n_fatent fs \<le> c)" using c by auto
  show ?thesis
  proof (cases "r1 = FR_OK \<and> r2 = FR_OK")
    case True
    then have m: "move_window fs (fatbase fs + b div SS fs) = (FR_OK, fs1)"
      "move_window fs1 (fatbase fs1 + (b + 1) div SS fs1) = (FR_OK, fs2)" using m1 m2 by auto
    have len: "unat (b + 1) < fatlen fs"
      using pos(4) unat_mod_SS(3) [OF ok(1)] fat_ok_sector [OF ok(1)]
      by (auto simp: word_less_nat_alt fatlen_def div_less_iff_less_mult)
    have x: "win fs1 (unat (b mod SS fs)) = fatmem fs (unat b)"
      by (rule fat_byte_window(1) [OF ok pos(3) m(1)])
    have y: "win fs2 (unat ((b + 1) mod SS fs)) = fatmem fs (unat (b + 1))"
      using fat_byte_window(1) [OF ok1 same_volD(1) [OF sv1] _ m(2)] pos(4)
        fatmem_vol_eq [OF ok(1) same_volD(2,3) [OF sv1] len] by (simp add: g)
    have "v = fat_entry fs c \<and> fs' = fs2"
      using get not ty m(1) m(2) [unfolded g] x y pos(1,2) g2(14)
      by (auto simp: get_fat_def b_def [symmetric] fat_entry_def fat_get_def fat12_get_def Let_def g word_odd)
    with sv show ?thesis by simp
  next
    case False
    then show ?thesis
      using get not ty m1 m2 [unfolded g] sv sv1
      by (auto simp: get_fat_def b_def [symmetric] Let_def g split: if_splits)
  qed
qed



lemma get_fat_table:
  assumes ok: "fat_ok fs" "win_ok fs" and c: "2 \<le> c" "c < n_fatent fs" and via: "via_table fs obj c"
    and get: "get_fat fs obj c = (v, fs')"
  shows "same_vol fs fs' \<and> (v = fat_entry fs c \<or> v = 0xFFFFFFFF)"
proof (cases "fs_type fs = FS_FAT12")
  case True
  then show ?thesis using get_fat12_table [OF ok c _ get] by blast
next
  case False
  define e :: DWORD where "e = (if fs_type fs = FS_FAT16 then 2 else 4)"
  obtain r1 fs1 where m: "move_window fs (fatbase fs + c div (SS fs div e)) = (r1, fs1)" by fastforce
  note sv = move_window_same [OF ok(2) m]
  note g = geom_eqD [OF same_volD(3) [OF sv]]
  have "unat e * unat (n_fatent fs) \<le> fatlen fs"
    using fat_okD(3) [OF ok(1)] False by (simp add: fat_bytes_def e_def split: if_splits)
  note pos = fat_pos [OF ok(1) _ c(2) this]
  have e: "e = 2 \<or> e = 4" by (simp add: e_def)
  note w = pos(1) [OF e] and at = pos(2,3) [OF e]
  have not: "\<not> (c < 2 \<or> n_fatent fs \<le> c)" using c by auto
  have ld: "ld_word (win fs1) (unat (c * 2 mod SS fs)) = ld_word (fatmem fs) (2 * unat c)"
    if "e = 2" "r1 = FR_OK"
    using wd.ld_window [OF ok w m [unfolded that(2)] at(1)] at(2) that by simp
  have ld4: "ld_dword (win fs1) (unat (c * 4 mod SS fs)) = ld_dword (fatmem fs) (4 * unat c)"
    if "e = 4" "r1 = FR_OK"
    using dw.ld_window [OF ok w m [unfolded that(2)] at(1)] at(2) that by simp
  show ?thesis
    using get not False via m sv ld ld4 g(14)
    by (auto simp: get_fat_def e_def fat_entry_def fat_get_def fat16_get_def fat32_get_def exfat_get_def
        via_table_def Let_def split: if_splits)
qed

section \<open>put\_fat changes one entry\<close>

text \<open>
  The frame of an operation that changes the table: sectors outside both FATs, the geometry
  and the allocation state are as before.
\<close>

definition data_eq :: "FATFS \<Rightarrow> FATFS \<Rightarrow> bool" where
  "data_eq fs fs' \<longleftrightarrow>
     (\<forall>s i. i < SSn fs \<longrightarrow> s \<noteq> -1 \<longrightarrow> \<not> in_fat1 fs s \<longrightarrow> \<not> in_fat2 fs s \<longrightarrow> lsect fs' s i = lsect fs s i)"

definition fat_step :: "FATFS \<Rightarrow> FATFS \<Rightarrow> bool" where
  "fat_step fs fs' \<longleftrightarrow> win_ok fs' \<and> data_eq fs fs' \<and> geom_eq fs fs' \<and> alloc_eq fs fs'"

lemma fat_stepD:
  assumes "fat_step fs fs'"
  shows "win_ok fs'" "data_eq fs fs'" "geom_eq fs fs'" "alloc_eq fs fs'"
  using assms by (simp_all add: fat_step_def)

lemma fat_step_refl [simp]: "fat_step fs fs = win_ok fs"
  by (simp add: fat_step_def data_eq_def)

lemma same_vol_fat_step: "same_vol fs fs' \<Longrightarrow> fat_step fs fs'"
  by (simp add: same_vol_def fat_step_def vol_eq_def data_eq_def)

lemma fat_step_trans [trans]:
  assumes "fat_step a b" and "fat_step b c"
  shows "fat_step a c"
proof -
  note g = fat_stepD(3) [OF assms(1)]
  have "data_eq a c"
    using fat_stepD(2) [OF assms(1)] fat_stepD(2) [OF assms(2)] in_fat_geom [OF g]
    by (simp add: data_eq_def geom_eqD [OF g])
  then show ?thesis
    using assms unfolding fat_step_def by (meson geom_eq_trans alloc_eq_trans)
qed

lemma fat_window_step:
  assumes ok: "fat_ok fs" "win_ok fs" "n < fsize fs" "move_window fs (fatbase fs + n) = (FR_OK, fs')"
  shows "fat_step fs (fs'\<lparr>win := W, wflag := 1\<rparr>)"
proof -
  note sv = move_window_same [OF ok(2,4)]
  have in1: "in_fat1 fs (winsect fs')"
    using fat1_sector(3) [OF ok(1,3)] move_window_ok(5) [OF ok(2,4)] by simp
  have l: "lsect (fs'\<lparr>win := W, wflag := 1\<rparr>) s i = lsect fs' s i" if "\<not> in_fat1 fs s" for s i
    using in1 that by (auto simp: lsect_def)
  have "data_eq fs (fs'\<lparr>win := W, wflag := 1\<rparr>)"
    using same_volD(2) [OF sv] by (simp add: data_eq_def vol_eq_def l)
  then show ?thesis
    using same_volD(3,4) [OF sv] fat_window(3) [OF ok] by (simp add: fat_step_def geom_eq_def alloc_eq_def)
qed

lemma fat_get_cong:
  assumes "\<And>k. k < fat_bytes ty n \<Longrightarrow> m k = m' k" and "c < n"
  shows "fat_get ty m c = fat_get ty m' c"
proof -
  have "fat12_get m c = fat12_get m' c" if "ty = FS_FAT12"
    using assms(1) fat12_fit [OF assms(2)] that by (simp add: fat12_get_def fat_bytes_def Let_def)
  moreover have "ld_word m (2 * c) = ld_word m' (2 * c)" if "ty = FS_FAT16"
    by (rule wd.ld_cong) (use assms that in \<open>simp add: fat_bytes_def\<close>)
  moreover have "ld_dword m (4 * c) = ld_dword m' (4 * c)" if "ty \<noteq> FS_FAT12" "ty \<noteq> FS_FAT16"
    by (rule dw.ld_cong) (use assms that in \<open>simp add: fat_bytes_def\<close>)
  ultimately show ?thesis
    by (simp add: fat_get_def fat16_get_def fat32_get_def exfat_get_def)
qed

text \<open>What the table reads after its bytes have become those of \<open>m\<close>.\<close>

lemma fat_entry_mem:
  assumes "fat_ok fs" and "geom_eq fs fs'" and "\<And>k. k < fatlen fs \<Longrightarrow> fatmem fs' k = m k" and "c < n_fatent fs"
  shows "fat_entry fs' c = fat_get (fs_type fs) m (unat c)"
  unfolding fat_entry_def geom_eqD(1) [OF assms(2)]
  by (rule fat_get_cong [where n = "unat (n_fatent fs)"])
    (use assms fat_okD(3) [OF assms(1)] in \<open>auto simp: word_less_nat_alt\<close>)

lemma fat_entry_same_vol:
  assumes "fat_ok fs" and "same_vol fs fs'" and "c < n_fatent fs"
  shows "fat_entry fs' c = fat_entry fs c"
  using fat_entry_mem [OF assms(1) same_volD(3) [OF assms(2)]
    fatmem_vol_eq [OF assms(1) same_volD(2,3) [OF assms(2)]] assms(3)]
  by (simp add: fat_entry_def)

text \<open>
  The table after an attempt to set entry \<open>c\<close>. An attempt that fails may leave a 12-bit
  entry half written, but every other entry is intact.
\<close>

definition fat_upd :: "FATFS \<Rightarrow> DWORD \<Rightarrow> DWORD \<Rightarrow> FRESULT \<Rightarrow> FATFS \<Rightarrow> bool" where
  "fat_upd fs c v r fs' \<longleftrightarrow>
     fat_step fs fs' \<and> (r = FR_OK \<or> r = FR_DISK_ERR) \<and>
     (\<forall>c'<n_fatent fs. c' \<noteq> c \<longrightarrow> fat_entry fs' c' = fat_entry fs c') \<and>
     (r = FR_OK \<longrightarrow> fat_entry fs' c = v AND fat_mask (fs_type fs))"

lemma fat_upd_done:
  assumes "fat_ok fs" and "fat_step fs fs'" and "c < n_fatent fs"
    and "\<And>k. k < fatlen fs \<Longrightarrow> fatmem fs' k = fat_put (fs_type fs) (fatmem fs) (unat c) v k"
  shows "fat_upd fs c v FR_OK fs'"
proof -
  have e: "fat_entry fs' c' = fat_get (fs_type fs) (fat_put (fs_type fs) (fatmem fs) (unat c) v) (unat c')"
    if "c' < n_fatent fs" for c'
    using that by (intro fat_entry_mem [OF assms(1) fat_stepD(3) [OF assms(2)]] assms(4))
  have "fat_entry fs' c' = fat_entry fs c'" if "c' < n_fatent fs" "c' \<noteq> c" for c'
    using e [OF that(1)] that(2) by (simp add: lay.get_put_other word_unat_eq_iff fat_entry_def)
  then show ?thesis
    using e [OF assms(3)] assms(2) by (simp add: fat_upd_def lay.get_put_same)
qed

lemma fat_upd_failed:
  assumes "fat_ok fs" and "same_vol fs fs'"
  shows "fat_upd fs c v FR_DISK_ERR fs'"
  using fat_entry_same_vol [OF assms] same_vol_fat_step [OF assms(2)] by (simp add: fat_upd_def)

text \<open>The first byte \<open>put_fat\<close> writes for a 12-bit entry, and that it harms no neighbour.\<close>

definition fat12_first :: "mem \<Rightarrow> nat \<Rightarrow> DWORD \<Rightarrow> BYTE" where
  "fat12_first m c v =
     (if odd c then (m (c + c div 2) AND 0x0F) OR push_bit 4 (ucast v) else ucast v)"

lemma fat12_first_neighbours:
  assumes "c \<noteq> c'"
  shows "fat12_get (m(c + c div 2 := fat12_first m c v)) c' = fat12_get m c'"
  using fat12_cases [OF assms]
proof (elim disjE)
  assume "odd c \<and> c = Suc c' \<and> even c' \<and> c + c div 2 = c' + c' div 2 + 1"
  then show ?thesis
    by (intro bit_word_eqI)
      (auto simp: fat12_get_def fat12_first_def Let_def bit_simps bit_mask_consts dest: bit_imp_le_length)
qed (auto simp: fat12_get_def Let_def)

lemma put_fat12_eq:
  fixes c b :: DWORD
  assumes c: "2 \<le> c" "c < n_fatent fs" "fs_type fs = FS_FAT12" and b: "b = c + c div 2"
    and m1: "move_window fs (fatbase fs + b div SS fs) = (FR_OK, fs1)"
    and fs1': "fs1' = fs1\<lparr>win := (win fs1)(unat (b mod SS fs) :=
        if odd (unat c) then (win fs1 (unat (b mod SS fs)) AND 0x0F) OR push_bit 4 (ucast v) else ucast v),
      wflag := 1\<rparr>"
    and m2: "move_window fs1' (fatbase fs + (b + 1) div SS fs) = (r2, fs2)"
    and g: "fatbase fs1 = fatbase fs" "SS fs1 = SS fs" "SS fs2 = SS fs"
  shows "put_fat fs c v =
    (if r2 \<noteq> FR_OK then (r2, fs2)
     else (FR_OK, fs2\<lparr>win := (win fs2)(unat ((b + 1) mod SS fs) :=
        if odd (unat c) then ucast (drop_bit 4 v)
        else (win fs2 (unat ((b + 1) mod SS fs)) AND 0xF0) OR (ucast (drop_bit 8 v) AND 0x0F)), wflag := 1\<rparr>))"
  using c m1 m2 unfolding fs1'
  by (cases "odd (unat c)") (simp_all add: put_fat_def b [symmetric] Let_def word_odd g)

lemma put_fat12_second:
  assumes ok: "fat_ok fs" and st: "fat_step fs fs1" and ty: "fs_type fs = FS_FAT12" and c: "c < n_fatent fs"
    and b: "b = c + c div 2"
    and mem: "\<And>k. k < fatlen fs \<Longrightarrow> fatmem fs1 k = ((fatmem fs)(unat b := fat12_first (fatmem fs) (unat c) v)) k"
    and m2: "move_window fs1 (fatbase fs + (b + 1) div SS fs) = (r2, fs2)"
    and fs': "fs' = (if r2 \<noteq> FR_OK then fs2 else fs2\<lparr>win := (win fs2)(unat ((b + 1) mod SS fs) :=
        if odd (unat c) then ucast (drop_bit 4 v)
        else (win fs2 (unat ((b + 1) mod SS fs)) AND 0xF0) OR (ucast (drop_bit 8 v) AND 0x0F)), wflag := 1\<rparr>)"
  shows "fat_upd fs c v r2 fs'"
proof -
  note pos = fat12_pos [OF ok ty c, folded b]
  note g = geom_eqD [OF fat_stepD(3) [OF st]]
  have ok1: "fat_ok fs1" "win_ok fs1"
    using ok fat_ok_geom [OF fat_stepD(3) [OF st]] fat_stepD(1) [OF st] by simp_all
  have len: "fatlen fs1 = fatlen fs" by (simp add: fatlen_def g)
  note sv2 = move_window_same [OF ok1(2) m2]
  show ?thesis
  proof (cases "r2 = FR_OK")
    case False
    have mem2: "fatmem fs2 k = ((fatmem fs)(unat b := fat12_first (fatmem fs) (unat c) v)) k" if "k < fatlen fs" for k
      using fatmem_vol_eq [OF ok1(1) same_volD(2,3) [OF sv2], of k] that len mem by simp
    have st2: "fat_step fs fs2" using st same_vol_fat_step [OF sv2] by (rule fat_step_trans)
    have "fat_entry fs2 c' = fat_entry fs c'" if "c' < n_fatent fs" "c' \<noteq> c" for c'
    proof -
      have "unat c \<noteq> unat c'" using that(2) by (simp add: word_unat_eq_iff)
      moreover have "fat_entry fs2 c' = fat_get (fs_type fs)
          ((fatmem fs)(unat b := fat12_first (fatmem fs) (unat c) v)) (unat c')"
        using that(1) by (intro fat_entry_mem [OF ok fat_stepD(3) [OF st2]] mem2)
      ultimately show ?thesis
        using fat12_first_neighbours [of "unat c" "unat c'" "fatmem fs" v]
        by (simp add: ty fat_get_def fat_entry_def pos(1))
    qed
    then show ?thesis
      using False st2 move_window_ok(6) [OF ok1(2) m2] by (simp add: fat_upd_def fs')
  next
    case True
    have w: "(b + 1) div SS fs1 < fsize fs1" using pos(4) by (simp add: g)
    have m2': "move_window fs1 (fatbase fs1 + (b + 1) div SS fs1) = (FR_OK, fs2)" using m2 True by (simp add: g)
    note fw = fat_byte_window [OF ok1 w m2']
    have "unat (b + 1) < fatlen fs"
      using pos(4) unat_mod_SS(3) [OF ok] fat_ok_sector [OF ok]
      by (auto simp: word_less_nat_alt fatlen_def div_less_iff_less_mult)
    then have y: "win fs2 (unat ((b + 1) mod SS fs)) = fatmem fs (unat b + 1)"
      using fw(1) mem pos(2) by (simp add: g)
    have "fat_step fs fs'"
      using fat_step_trans [OF st fat_window_step [OF ok1 w m2']] True by (simp add: fs')
    moreover have "fatmem fs' k = fat_put (fs_type fs) (fatmem fs) (unat c) v k" if "k < fatlen fs" for k
      using fw(2) [of k] that True mem [of k] pos(1,2)
      by (simp add: fs' len g y ty fat_put_def fat12_put_def fat12_first_def Let_def)
    ultimately show ?thesis using True fat_upd_done [OF ok _ c] by blast
  qed
qed

lemma put_fat12_upd:
  assumes ok: "fat_ok fs" "win_ok fs" and c: "2 \<le> c" "c < n_fatent fs" and ty: "fs_type fs = FS_FAT12"
    and put: "put_fat fs c v = (r, fs')"
  shows "fat_upd fs c v r fs'"
proof -
  define b where "b = c + c div 2"
  note pos = fat12_pos [OF ok(1) ty c(2), folded b_def]
  obtain r1 fs1 where m1: "move_window fs (fatbase fs + b div SS fs) = (r1, fs1)" by fastforce
  note sv1 = move_window_same [OF ok(2) m1]
  note g1 = geom_eqD [OF same_volD(3) [OF sv1]]
  show ?thesis
  proof (cases "r1 = FR_OK")
    case False
    then have "r = FR_DISK_ERR \<and> fs' = fs1"
      using put c ty m1 move_window_ok(6) [OF ok(2) m1] by (simp add: put_fat_def b_def [symmetric] Let_def)
    then show ?thesis using fat_upd_failed [OF ok(1) sv1] by simp
  next
    case True
    note w1 = fat_byte_window [OF ok pos(3) m1 [unfolded True]]
    define x where "x = fat12_first (fatmem fs) (unat c) v"
    define fs1' where "fs1' = fs1\<lparr>win := (win fs1)(unat (b mod SS fs) := x), wflag := 1\<rparr>"
    obtain r2 fs2 where m2: "move_window fs1' (fatbase fs + (b + 1) div SS fs) = (r2, fs2)" by fastforce
    have st1: "fat_step fs fs1'"
      unfolding fs1'_def by (rule fat_window_step [OF ok pos(3) m1 [unfolded True]])
    have mem1: "fatmem fs1' k = ((fatmem fs)(unat b := x)) k" if "k < fatlen fs" for k
      unfolding fs1'_def by (rule w1(2) [OF that])
    have g2: "SS fs2 = SS fs"
      using geom_eqD(14) [OF same_volD(3) [OF move_window_same [OF fat_stepD(1) [OF st1] m2]]]
        geom_eqD(14) [OF fat_stepD(3) [OF st1]] by simp
    have "fs1' = fs1\<lparr>win := (win fs1)(unat (b mod SS fs) :=
        if odd (unat c) then (win fs1 (unat (b mod SS fs)) AND 0x0F) OR push_bit 4 (ucast v) else ucast v),
      wflag := 1\<rparr>"
      by (simp add: fs1'_def x_def fat12_first_def w1(1) pos(1))
    note eq = put_fat12_eq [OF c ty b_def m1 [unfolded True] this m2 g1(7,14) g2]
    show ?thesis
      using put_fat12_second [OF ok(1) st1 ty c(2) b_def mem1 [unfolded x_def] m2 refl] put
      by (auto simp: eq split: if_splits)
  qed
qed


text \<open>A volume type of the driver.\<close>

definition fs_known :: "FATFS \<Rightarrow> bool" where
  "fs_known fs \<longleftrightarrow> fs_type fs \<in> {FS_FAT12, FS_FAT16, FS_FAT32, FS_EXFAT}"

lemma put_fat_upd:
  assumes ok: "fat_ok fs" "win_ok fs" "fs_known fs" and c: "2 \<le> c" "c < n_fatent fs"
    and put: "put_fat fs c v = (r, fs')"
  shows "fat_upd fs c v r fs'"
proof (cases "fs_type fs = FS_FAT12")
  case True
  then show ?thesis using put_fat12_upd [OF ok(1,2) c _ put] by blast
next
  case False
  define e :: DWORD where "e = (if fs_type fs = FS_FAT16 then 2 else 4)"
  obtain r1 fs1 where m: "move_window fs (fatbase fs + c div (SS fs div e)) = (r1, fs1)" by fastforce
  note sv = move_window_same [OF ok(2) m]
  note g = geom_eqD [OF same_volD(3) [OF sv]]
  have "unat e * unat (n_fatent fs) \<le> fatlen fs"
    using fat_okD(3) [OF ok(1)] False by (simp add: fat_bytes_def e_def split: if_splits)
  note pos = fat_pos [OF ok(1) _ c(2) this]
  have e: "e = 2 \<or> e = 4" by (simp add: e_def)
  note w = pos(1) [OF e] and at = pos(2,3) [OF e]
  define W where "W = (if e = 2 then st_word (win fs1) (unat (c * e mod SS fs)) (ucast v)
    else st_dword (win fs1) (unat (c * e mod SS fs))
      (if fs_type fs \<noteq> FS_EXFAT
       then (v AND 0x0FFFFFFF) OR (ld_dword (win fs1) (unat (c * e mod SS fs)) AND 0xF0000000) else v))"
  have eq: "put_fat fs c v = (if r1 \<noteq> FR_OK then (r1, fs1) else (FR_OK, fs1\<lparr>win := W, wflag := 1\<rparr>))"
  proof (cases "fs_type fs = FS_FAT16")
    case True
    then show ?thesis using c m g(14) by (simp add: put_fat_def e_def W_def)
  next
    case e4: False
    then have "fs_type fs = FS_FAT32 \<or> fs_type fs = FS_EXFAT" using False ok(3) by (simp add: fs_known_def)
    then show ?thesis
      using c m g(1,14) e4 False by (simp add: put_fat_def e_def W_def Let_def)
  qed
  show ?thesis
  proof (cases "r1 = FR_OK")
    case bad: False
    then show ?thesis
      using fat_upd_failed [OF ok(1) sv] put move_window_ok(6) [OF ok(2) m] by (simp add: eq)
  next
    case True
    note mv = m [unfolded True]
    have "fatmem (fs1\<lparr>win := W, wflag := 1\<rparr>) k = fat_put (fs_type fs) (fatmem fs) (unat c) v k"
      if k: "k < fatlen fs" for k
    proof (cases "e = 2")
      case e2: True
      then have ty: "fs_type fs = FS_FAT16" by (simp add: e_def split: if_splits)
      have W: "W = st_word (win fs1) (unat (c * e mod SS fs)) (ucast v)" by (simp add: W_def e2)
      have "fatmem (fs1\<lparr>win := W, wflag := 1\<rparr>) k = st_word (fatmem fs) (unat e * unat c) (ucast v) k"
        unfolding W by (rule wd.st_window [OF ok(1,2) w mv at(1) _ k]) (use at(2) e2 in simp)
      then show ?thesis by (simp add: ty e2 fat_put_def fat16_put_def)
    next
      case e4': False
      then have e4: "e = 4" and ty: "fs_type fs \<noteq> FS_FAT16" using e by (auto simp: e_def)
      have fit: "unat (c * e mod SS fs) + 4 \<le> SSn fs" using at(2) e4 by simp
      have ld: "ld_dword (win fs1) (unat (c * e mod SS fs)) = ld_dword (fatmem fs) (unat e * unat c)"
        by (rule dw.ld_window [OF ok(1,2) w mv at(1) fit])
      have "fatmem (fs1\<lparr>win := W, wflag := 1\<rparr>) k = st_dword (fatmem fs) (unat e * unat c)
         (if fs_type fs \<noteq> FS_EXFAT
          then (v AND 0x0FFFFFFF) OR (ld_dword (fatmem fs) (unat e * unat c) AND 0xF0000000) else v) k"
        unfolding W_def ld if_not_P [OF e4']
        by (rule dw.st_window [OF ok(1,2) w mv at(1) fit k])
      then show ?thesis
        using ok(3) False ty by (auto simp: e4 fat_put_def fat32_put_def exfat_put_def fs_known_def)
    qed
    then have "fat_upd fs c v FR_OK (fs1\<lparr>win := W, wflag := 1\<rparr>)"
      by (intro fat_upd_done [OF ok(1) fat_window_step [OF ok(1,2) w mv] c(2)])
    then show ?thesis using put True by (simp add: eq)
  qed
qed

lemma put_fat_invalid: "c < 2 \<or> n_fatent fs \<le> c \<Longrightarrow> put_fat fs c v = (FR_INT_ERR, fs)"
  by (auto simp: put_fat_def)

lemma get_fat_invalid: "c < 2 \<or> n_fatent fs \<le> c \<Longrightarrow> get_fat fs obj c = (1, fs)"
  by (auto simp: get_fat_def)

text \<open>An entry is never the value \<open>get_fat\<close> reports a disk error with.\<close>

lemma fat_entry_range: "fat_entry fs c \<noteq> 0xFFFFFFFF"
proof
  assume a: "fat_entry fs c = 0xFFFFFFFF"
  have "fat_entry fs c AND fat_mask (fs_type fs) = fat_entry fs c"
    by (simp add: fat_entry_def lay.get_masked)
  then show False by (simp add: a fat_mask_def split: if_splits)
qed

end
