(* ===== verification/FfChain.thy ===== *)
theory FfChain
  imports FfFat
begin

text \<open>
  Cluster allocation of \<open>ff.c\<close>: the exFAT allocation bitmap (\<open>find_bitmap\<close>,
  \<open>change_bitmap\<close>), the deferred chains of exFAT objects (\<open>fill_first_frag\<close>,
  \<open>fill_last_frag\<close>), and \<open>create_chain\<close> and \<open>remove_chain\<close>. Chains are reasoned about in the
  locale \<open>link_table\<close>, of which the table behind \<open>get_fat\<close> and \<open>put_fat\<close> is an
  interpretation. Loops carry fuel; that the fuel given is enough is proved.
\<close>

section \<open>The allocation bitmap\<close>

text \<open>
  The nested loops of \<open>find_bitmap\<close>, one bit per step. \<open>None\<close> as position is the head of the
  outer loop, where the window is moved; \<open>Some (i, bm)\<close> is inside the inner loops.
\<close>

fun find_bitmap_loop ::
  "nat \<Rightarrow> FATFS \<Rightarrow> DWORD \<Rightarrow> DWORD \<Rightarrow> DWORD \<Rightarrow> DWORD \<Rightarrow> DWORD \<Rightarrow> (UINT \<times> BYTE) option
    \<Rightarrow> (DWORD \<times> FATFS) option"
where
  "find_bitmap_loop 0 fs clst ncl val scl ctr at = None"
| "find_bitmap_loop (Suc n) fs clst ncl val scl ctr at =
     (case (case at of
              None \<Rightarrow>
                (case move_window fs (bitbase fs + val div 8 div SS fs) of (res, fs) \<Rightarrow>
                  (res, fs, val div 8 mod SS fs, push_bit (unat (val mod 8)) 1))
            | Some (i, bm) \<Rightarrow> (FR_OK, fs, i, bm)) of (res, fs, i, bm) \<Rightarrow>
      if res \<noteq> FR_OK then Some (0xFFFFFFFF, fs)
      else
        let bv = win fs (unat i) AND bm;
            bm = push_bit 1 bm;
            val = val + 1;
            (val, bm, i) = (if val \<ge> n_fatent fs - 2 then (0, 0, SS fs) else (val, bm, i));
            ctr = (if bv = 0 then ctr + 1 else 0) in
        if bv = 0 \<and> ctr = ncl then Some (scl + 2, fs)
        else
          let scl = (if bv = 0 then scl else val) in
          if val = clst then Some (0, fs)
          else if bm \<noteq> 0 then find_bitmap_loop n fs clst ncl val scl ctr (Some (i, bm))
          else if i + 1 < SS fs then find_bitmap_loop n fs clst ncl val scl ctr (Some (i + 1, 1))
          else find_bitmap_loop n fs clst ncl val scl ctr None)"

definition find_bitmap :: "FATFS \<Rightarrow> DWORD \<Rightarrow> DWORD \<Rightarrow> DWORD \<times> FATFS" where
  "find_bitmap fs clst ncl =
     (let clst = clst - 2;
          clst = (if clst \<ge> n_fatent fs - 2 then 0 else clst) in
      case find_bitmap_loop (unat (n_fatent fs)) fs clst ncl clst clst 0 None of
        Some r \<Rightarrow> r
      | None \<Rightarrow> (0xFFFFFFFF, fs))"

text \<open>
  The loops of \<open>change_bitmap\<close>, one bit per step; the step count is \<open>ncl\<close>, which the code
  counts down to zero.
\<close>

fun change_bitmap_loop ::
  "nat \<Rightarrow> FATFS \<Rightarrow> LBA \<Rightarrow> UINT \<Rightarrow> BYTE \<Rightarrow> bool \<Rightarrow> DWORD \<Rightarrow> bool \<Rightarrow> FRESULT \<times> FATFS"
where
  "change_bitmap_loop 0 fs sect i bm moved ncl bv = (FR_TIMEOUT, fs)"
| "change_bitmap_loop (Suc n) fs sect i bm moved ncl bv =
     (case (if moved then (FR_OK, fs, sect)
            else case move_window fs sect of (res, fs) \<Rightarrow> (res, fs, sect + 1)) of (res, fs, sect) \<Rightarrow>
      if res \<noteq> FR_OK then (FR_DISK_ERR, fs)
      else if bv = (win fs (unat i) AND bm \<noteq> 0) then (FR_INT_ERR, fs)
      else
        let fs = fs\<lparr>win := (win fs)(unat i := win fs (unat i) XOR bm), wflag := 1\<rparr>;
            ncl = ncl - 1 in
        if ncl = 0 then (FR_OK, fs)
        else
          let bm = push_bit 1 bm in
          if bm \<noteq> 0 then change_bitmap_loop n fs sect i bm True ncl bv
          else if i + 1 < SS fs then change_bitmap_loop n fs sect (i + 1) 1 True ncl bv
          else change_bitmap_loop n fs sect 0 1 False ncl bv)"

definition change_bitmap :: "FATFS \<Rightarrow> DWORD \<Rightarrow> DWORD \<Rightarrow> bool \<Rightarrow> FRESULT \<times> FATFS" where
  "change_bitmap fs clst ncl bv =
     (let clst = clst - 2;
          sect = bitbase fs + clst div 8 div SS fs;
          i = clst div 8 mod SS fs;
          bm = push_bit (unat (clst mod 8)) 1 in
      change_bitmap_loop (Suc (unat (ncl - 1))) fs sect i bm False ncl bv)"

section \<open>Deferred chains\<close>

fun fill_first_loop :: "nat \<Rightarrow> FATFS \<Rightarrow> DWORD \<Rightarrow> FRESULT \<times> FATFS" where
  "fill_first_loop 0 fs cl = (FR_OK, fs)"
| "fill_first_loop (Suc n) fs cl =
     (case put_fat fs cl (cl + 1) of (res, fs) \<Rightarrow>
      if res \<noteq> FR_OK then (res, fs) else fill_first_loop n fs (cl + 1))"

definition fill_first_frag :: "FATFS \<Rightarrow> FFOBJID \<Rightarrow> FRESULT \<times> FATFS \<times> FFOBJID" where
  "fill_first_frag fs obj =
     (if stat obj = 3 then
        (case fill_first_loop (unat (n_cont obj)) fs (sclust obj) of (res, fs) \<Rightarrow>
          if res \<noteq> FR_OK then (res, fs, obj) else (FR_OK, fs, obj\<lparr>stat := 0\<rparr>))
      else (FR_OK, fs, obj))"

fun fill_last_loop :: "nat \<Rightarrow> FATFS \<Rightarrow> FFOBJID \<Rightarrow> DWORD \<Rightarrow> DWORD \<Rightarrow> FRESULT \<times> FATFS \<times> FFOBJID" where
  "fill_last_loop 0 fs obj lcl term = (FR_OK, fs, obj)"
| "fill_last_loop (Suc n) fs obj lcl term =
     (case put_fat fs (lcl - n_frag obj + 1) (if n_frag obj > 1 then lcl - n_frag obj + 2 else term) of (res, fs) \<Rightarrow>
      if res \<noteq> FR_OK then (res, fs, obj)
      else fill_last_loop n fs (obj\<lparr>n_frag := n_frag obj - 1\<rparr>) lcl term)"

definition fill_last_frag :: "FATFS \<Rightarrow> FFOBJID \<Rightarrow> DWORD \<Rightarrow> DWORD \<Rightarrow> FRESULT \<times> FATFS \<times> FFOBJID" where
  "fill_last_frag fs obj lcl term = fill_last_loop (unat (n_frag obj)) fs obj lcl term"

section \<open>Removing a chain\<close>

text \<open>The update of FSINFO for one freed cluster.\<close>

definition count_up :: "FATFS \<Rightarrow> FATFS" where
  "count_up fs =
     (if free_clst fs < n_fatent fs - 2
      then fs\<lparr>free_clst := free_clst fs + 1, fsi_flag := fsi_flag fs OR 1\<rparr> else fs)"

text \<open>
  The loop that frees the clusters. \<open>FR_TIMEOUT\<close>, which this configuration of FatFs never
  returns, marks that the fuel ran out.
\<close>

fun remove_loop ::
  "nat \<Rightarrow> FATFS \<Rightarrow> FFOBJID \<Rightarrow> DWORD \<Rightarrow> DWORD \<Rightarrow> DWORD \<Rightarrow> FRESULT \<times> FATFS"
where
  "remove_loop 0 fs obj clst scl ecl = (FR_TIMEOUT, fs)"
| "remove_loop (Suc n) fs obj clst scl ecl =
     (case get_fat fs obj clst of (nxt, fs) \<Rightarrow>
      if nxt = 0 then (FR_OK, fs)
      else if nxt = 1 then (FR_INT_ERR, fs)
      else if nxt = 0xFFFFFFFF then (FR_DISK_ERR, fs)
      else
        (case (if fs_type fs \<noteq> FS_EXFAT then put_fat fs clst 0 else (FR_OK, fs)) of (res, fs) \<Rightarrow>
          if res \<noteq> FR_OK then (res, fs)
          else
            let fs = count_up fs in
            (case (if ecl + 1 = nxt then (FR_OK, fs, scl, nxt)
                   else case (if fs_type fs = FS_EXFAT then change_bitmap fs scl (ecl - scl + 1) False
                              else (FR_OK, fs)) of (res, fs) \<Rightarrow> (res, fs, nxt, nxt)) of (res, fs, scl, ecl) \<Rightarrow>
              if res \<noteq> FR_OK then (res, fs)
              else if nxt < n_fatent fs then remove_loop n fs obj nxt scl ecl
              else (FR_OK, fs))))"

text \<open>The loop that looks whether a shortened chain has become contiguous.\<close>

fun contig_loop :: "nat \<Rightarrow> FATFS \<Rightarrow> FFOBJID \<Rightarrow> DWORD \<Rightarrow> DWORD \<Rightarrow> (FRESULT + DWORD) \<times> FATFS" where
  "contig_loop 0 fs obj clst pclst = (Inl FR_TIMEOUT, fs)"
| "contig_loop (Suc n) fs obj clst pclst =
     (if clst \<noteq> pclst then
        (case get_fat fs obj clst of (nxt, fs) \<Rightarrow>
          if nxt < 2 then (Inl FR_INT_ERR, fs)
          else if nxt = 0xFFFFFFFF then (Inl FR_DISK_ERR, fs)
          else if nxt \<noteq> clst + 1 then (Inr clst, fs)
          else contig_loop n fs obj (clst + 1) pclst)
      else (Inr clst, fs))"

definition remove_chain :: "FATFS \<Rightarrow> FFOBJID \<Rightarrow> DWORD \<Rightarrow> DWORD \<Rightarrow> FRESULT \<times> FATFS \<times> FFOBJID" where
  "remove_chain fs obj clst pclst =
     (if clst < 2 \<or> clst \<ge> n_fatent fs then (FR_INT_ERR, fs, obj)
      else
        (case (if pclst \<noteq> 0 \<and> (fs_type fs \<noteq> FS_EXFAT \<or> stat obj \<noteq> 2)
               then put_fat fs pclst 0xFFFFFFFF else (FR_OK, fs)) of (res, fs) \<Rightarrow>
          if res \<noteq> FR_OK then (res, fs, obj)
          else
            (case remove_loop (2 * unat (n_fatent fs)) fs obj clst clst clst of (res, fs) \<Rightarrow>
              if res \<noteq> FR_OK then (res, fs, obj)
              else if fs_type fs = FS_EXFAT then
                if pclst = 0 then (FR_OK, fs, obj\<lparr>stat := 0\<rparr>)
                else if stat obj = 0 then
                  (case contig_loop (unat (n_fatent fs)) fs obj (sclust obj) pclst of
                    (Inl res, fs) \<Rightarrow> (res, fs, obj)
                  | (Inr c, fs) \<Rightarrow> (FR_OK, fs, if c = pclst then obj\<lparr>stat := 2\<rparr> else obj))
                else if stat obj = 3 \<and> pclst \<ge> sclust obj \<and> pclst \<le> sclust obj + n_cont obj
                then (FR_OK, fs, obj\<lparr>stat := 2\<rparr>)
                else (FR_OK, fs, obj)
              else (FR_OK, fs, obj))))"

section \<open>Stretching or creating a chain\<close>

text \<open>
  The search for a free entry on FAT volumes: \<open>Inl r\<close> where the code returns \<open>r\<close>, \<open>Inr ncl\<close>
  where it leaves the loop with the free cluster \<open>ncl\<close>; \<open>None\<close> when the fuel runs out.
\<close>

fun find_free :: "nat \<Rightarrow> FATFS \<Rightarrow> FFOBJID \<Rightarrow> DWORD \<Rightarrow> DWORD \<Rightarrow> ((DWORD + DWORD) \<times> FATFS) option" where
  "find_free 0 fs obj scl ncl = None"
| "find_free (Suc n) fs obj scl ncl =
     (let ncl = ncl + 1 in
      if ncl \<ge> n_fatent fs \<and> 2 > scl then Some (Inl 0, fs)
      else
        let ncl = (if ncl \<ge> n_fatent fs then 2 else ncl) in
        (case get_fat fs obj ncl of (cs, fs) \<Rightarrow>
          if cs = 0 then Some (Inr ncl, fs)
          else if cs = 1 \<or> cs = 0xFFFFFFFF then Some (Inl cs, fs)
          else if ncl = scl then Some (Inl 0, fs)
          else find_free n fs obj scl ncl))"

text \<open>The FAT12/16/32 branch up to the choice of the cluster.\<close>

definition pick_cluster :: "FATFS \<Rightarrow> FFOBJID \<Rightarrow> DWORD \<Rightarrow> DWORD \<Rightarrow> (DWORD + DWORD) \<times> FATFS" where
  "pick_cluster fs obj clst scl =
     (case (if scl = clst then
              let ncl = (if scl + 1 \<ge> n_fatent fs then 2 else scl + 1) in
              (case get_fat fs obj ncl of (cs, fs) \<Rightarrow>
                if cs = 1 \<or> cs = 0xFFFFFFFF then (Inl cs, fs)
                else if cs \<noteq> 0 then
                  (Inr (0, if last_clst fs \<ge> 2 \<and> last_clst fs < n_fatent fs then last_clst fs else scl), fs)
                else (Inr (ncl, scl), fs))
            else (Inr (0, scl), fs)) of
       (Inl r, fs) \<Rightarrow> (Inl r, fs)
     | (Inr (ncl, scl), fs) \<Rightarrow>
         if ncl = 0 then
           (case find_free (unat (n_fatent fs)) fs obj scl scl of
             Some r \<Rightarrow> r
           | None \<Rightarrow> (Inl 1, fs))
         else (Inr ncl, fs))"

text \<open>The exFAT branch: the new cluster is marked in the bitmap and the chain status follows.\<close>

definition create_chain_exfat ::
  "FATFS \<Rightarrow> FFOBJID \<Rightarrow> DWORD \<Rightarrow> DWORD \<Rightarrow> (DWORD + FRESULT \<times> DWORD) \<times> FATFS \<times> FFOBJID"
where
  "create_chain_exfat fs obj clst scl =
     (case find_bitmap fs scl 1 of (ncl, fs) \<Rightarrow>
      if ncl = 0 \<or> ncl = 0xFFFFFFFF then (Inl ncl, fs, obj)
      else
        (case change_bitmap fs ncl 1 True of (res, fs) \<Rightarrow>
          if res = FR_INT_ERR then (Inl 1, fs, obj)
          else if res = FR_DISK_ERR then (Inl 0xFFFFFFFF, fs, obj)
          else
            let obj = (if clst = 0 then obj\<lparr>stat := 2\<rparr>
                       else if stat obj = 2 \<and> ncl \<noteq> scl + 1
                       then obj\<lparr>n_cont := scl - sclust obj, stat := 3\<rparr> else obj) in
            if stat obj \<noteq> 2 then
              if ncl = clst + 1 then
                (Inr (res, ncl), fs, obj\<lparr>n_frag := if n_frag obj \<noteq> 0 then n_frag obj + 1 else 2\<rparr>)
              else
                let obj = (if n_frag obj = 0 then obj\<lparr>n_frag := 1\<rparr> else obj) in
                (case fill_last_frag fs obj clst ncl of (res, fs, obj) \<Rightarrow>
                  (Inr (res, ncl), fs, if res = FR_OK then obj\<lparr>n_frag := 1\<rparr> else obj))
            else (Inr (res, ncl), fs, obj)))"

definition create_chain_fat ::
  "FATFS \<Rightarrow> FFOBJID \<Rightarrow> DWORD \<Rightarrow> DWORD \<Rightarrow> (DWORD + FRESULT \<times> DWORD) \<times> FATFS"
where
  "create_chain_fat fs obj clst scl =
     (case pick_cluster fs obj clst scl of
       (Inl r, fs) \<Rightarrow> (Inl r, fs)
     | (Inr ncl, fs) \<Rightarrow>
         (case put_fat fs ncl 0xFFFFFFFF of (res, fs) \<Rightarrow>
           if res = FR_OK \<and> clst \<noteq> 0 then
             (case put_fat fs clst ncl of (res, fs) \<Rightarrow> (Inr (res, ncl), fs))
           else (Inr (res, ncl), fs)))"

text \<open>The end of \<open>create_chain\<close>: FSINFO follows a success, an error becomes a return value.\<close>

definition chain_done :: "FATFS \<Rightarrow> FRESULT \<Rightarrow> DWORD \<Rightarrow> DWORD \<times> FATFS" where
  "chain_done fs res ncl =
     (if res = FR_OK then
        (ncl, fs\<lparr>last_clst := ncl,
                 free_clst := if free_clst fs \<le> n_fatent fs - 2 then free_clst fs - 1 else free_clst fs,
                 fsi_flag := fsi_flag fs OR 1\<rparr>)
      else (if res = FR_DISK_ERR then 0xFFFFFFFF else 1, fs))"

definition create_chain :: "FATFS \<Rightarrow> FFOBJID \<Rightarrow> DWORD \<Rightarrow> DWORD \<times> FATFS \<times> FFOBJID" where
  "create_chain fs obj clst =
     (case (if clst = 0 then
              (Inr (if last_clst fs = 0 \<or> last_clst fs \<ge> n_fatent fs then 1 else last_clst fs), fs)
            else
              (case get_fat fs obj clst of (cs, fs) \<Rightarrow>
                if cs < 2 then (Inl 1, fs)
                else if cs = 0xFFFFFFFF then (Inl cs, fs)
                else if cs < n_fatent fs then (Inl cs, fs)
                else (Inr clst, fs))) of
       (Inl r, fs) \<Rightarrow> (r, fs, obj)
     | (Inr scl, fs) \<Rightarrow>
         if free_clst fs = 0 then (0, fs, obj)
         else
           (case (if fs_type fs = FS_EXFAT then create_chain_exfat fs obj clst scl
                  else case create_chain_fat fs obj clst scl of (r, fs) \<Rightarrow> (r, fs, obj)) of
             (Inl r, fs, obj) \<Rightarrow> (r, fs, obj)
           | (Inr (res, ncl), fs, obj) \<Rightarrow> (case chain_done fs res ncl of (r, fs) \<Rightarrow> (r, fs, obj))))"

end
