(* ===== verification/FfLinks.thy ===== *)
theory FfLinks
  imports FfChain
begin

text \<open>
  Cluster chains. A chain is the list of clusters met by following table entries up to an
  end mark. The locale \<open>link_table\<close> states what allocation needs from a table and proves
  how setting entries extends, truncates and frees chains; the table read by \<open>get_fat\<close> and
  changed by \<open>put_fat\<close> interprets it, and the behaviour of \<open>create_chain\<close> and
  \<open>remove_chain\<close> on FAT12/16/32 volumes rests on that interpretation.
\<close>

section \<open>Chains of an entry function\<close>

fun is_chain :: "(DWORD \<Rightarrow> DWORD) \<Rightarrow> DWORD \<Rightarrow> DWORD \<Rightarrow> DWORD list \<Rightarrow> bool" where
  "is_chain e n c [] \<longleftrightarrow> n \<le> c"
| "is_chain e n c (x # xs) \<longleftrightarrow> x = c \<and> 2 \<le> c \<and> c < n \<and> is_chain e n (e c) xs"

lemma is_chain_unique: "is_chain e n c xs \<Longrightarrow> is_chain e n c ys \<Longrightarrow> xs = ys"
proof (induction xs arbitrary: c ys)
  case Nil
  then show ?case by (cases ys) auto
next
  case (Cons x xs)
  then show ?case by (cases ys) auto
qed

lemma is_chain_suffix: "is_chain e n c (xs @ y # ys) \<Longrightarrow> is_chain e n y (y # ys)"
  by (induction xs arbitrary: c) auto

lemma is_chain_distinct: "is_chain e n c xs \<Longrightarrow> distinct xs"
proof (induction xs arbitrary: c)
  case (Cons x xs)
  have "x \<notin> set xs"
  proof
    assume "x \<in> set xs"
    then obtain as bs where xs: "xs = as @ x # bs" by (metis split_list)
    then have "is_chain e n x (x # bs)"
      using Cons.prems is_chain_suffix [of e n c "x # as" x bs] by (simp only: append_Cons)
    then show False using is_chain_unique [of e n x "x # bs" "x # xs"] Cons.prems xs by auto
  qed
  with Cons show ?case by auto
qed simp

lemma is_chain_range: "is_chain e n c xs \<Longrightarrow> x \<in> set xs \<Longrightarrow> 2 \<le> x \<and> x < n"
  by (induction xs arbitrary: c) auto

text \<open>Members of a chain are in use: their entries are at least 2.\<close>

lemma is_chain_used:
  assumes "is_chain e n c xs" and "x \<in> set xs" and "2 \<le> n"
  shows "2 \<le> e x"
  using assms
proof (induction xs arbitrary: c)
  case (Cons y ys)
  then show ?case by (cases ys) auto
qed simp

lemma is_chain_cong: "(\<And>x. x \<in> set xs \<Longrightarrow> e x = e' x) \<Longrightarrow> is_chain e n c xs = is_chain e' n c xs"
  by (induction xs arbitrary: c) auto

lemma is_chain_end: "is_chain e n c (xs @ [l]) \<Longrightarrow> n \<le> e l"
  by (induction xs arbitrary: c) auto

lemma is_chain_relink:
  assumes "is_chain e n c (xs @ [l])" and "l \<notin> set xs" and "is_chain e' n m ys" and "e' l = m"
    and "\<And>x. x \<in> set xs \<Longrightarrow> e' x = e x"
  shows "is_chain e' n c (xs @ l # ys)"
  using assms(1,2,5)
proof (induction xs arbitrary: c)
  case Nil
  then show ?case using assms(3,4) by simp
next
  case (Cons x xs)
  then show ?case by simp
qed

section \<open>Tables of links\<close>

locale link_table =
  fixes entry :: "'s \<Rightarrow> DWORD \<Rightarrow> DWORD"
    and bound :: "'s \<Rightarrow> DWORD"
    and cut :: "'s \<Rightarrow> DWORD \<Rightarrow> DWORD"
    and ok :: "'s \<Rightarrow> bool"
    and upd :: "'s \<Rightarrow> DWORD \<Rightarrow> DWORD \<Rightarrow> 's \<Rightarrow> bool"
  assumes upd_entry: "upd s c v s' \<Longrightarrow> c < bound s \<Longrightarrow> c' < bound s \<Longrightarrow>
      entry s' c' = (if c' = c then cut s v else entry s c')"
    and upd_bound: "upd s c v s' \<Longrightarrow> bound s' = bound s"
    and upd_ok: "ok s \<Longrightarrow> upd s c v s' \<Longrightarrow> ok s'"
    and cut_link: "ok s \<Longrightarrow> v < bound s \<Longrightarrow> cut s v = v"
    and cut_eoc: "ok s \<Longrightarrow> bound s \<le> cut s 0xFFFFFFFF"
    and bound_min: "ok s \<Longrightarrow> 2 < bound s"
begin

definition chain :: "'s \<Rightarrow> DWORD \<Rightarrow> DWORD list \<Rightarrow> bool" where
  "chain s c xs \<longleftrightarrow> is_chain (entry s) (bound s) c xs"

lemma chain_not_free:
  assumes "ok s" and "chain s c xs" and "entry s m < 2"
  shows "m \<notin> set xs"
proof
  assume "m \<in> set xs"
  then have "2 \<le> entry s m"
    using assms is_chain_used [of "entry s" "bound s" c xs m] bound_min [OF assms(1)] by (auto simp: chain_def)
  with assms(3) show False by simp
qed

lemma chain_upd_other:
  assumes "ok s" and "upd s m v s'" and "m < bound s" and "m \<notin> set xs"
  shows "chain s' c xs = chain s c xs"
proof -
  have "is_chain (entry s') (bound s) c xs = is_chain (entry s) (bound s) c xs"
    if "\<forall>x\<in>set xs. x < bound s"
    by (rule is_chain_cong) (use that assms upd_entry in auto)
  then show ?thesis
    using is_chain_range [of _ "bound s" c xs] upd_bound [OF assms(2)] unfolding chain_def by metis
qed

text \<open>Marking a free cluster as an end and linking the tail of a chain to it extends the chain.\<close>

lemma chain_stretch:
  assumes ok: "ok s" and ch: "chain s c (xs @ [l])" and free: "entry s m < 2" and m: "2 \<le> m" "m < bound s"
    and u: "upd s m 0xFFFFFFFF s1" "upd s1 l m s2"
  shows "chain s2 c (xs @ [l, m])"
proof -
  have nm: "m \<notin> set (xs @ [l])" by (rule chain_not_free [OF ok ch free])
  have l: "l \<notin> set xs" "l < bound s"
    using is_chain_distinct [OF ch [unfolded chain_def]] is_chain_range [OF ch [unfolded chain_def], of l] by auto
  have ok1: "ok s1" by (rule upd_ok [OF ok u(1)])
  have b: "bound s1 = bound s" "bound s2 = bound s" using u upd_bound by metis+
  have ch1: "chain s1 c (xs @ [l])" using chain_upd_other [OF ok u(1) m(2) nm] ch by simp
  have xs: "entry s2 x = entry s1 x" if "x \<in> set xs" for x
    using upd_entry [OF u(2), of x] is_chain_range [OF ch [unfolded chain_def], of x] that l b by auto
  have em: "entry s2 m = entry s1 m" "entry s1 m = cut s 0xFFFFFFFF" "entry s2 l = m"
    using upd_entry [OF u(2), of m] upd_entry [OF u(2), of l] upd_entry [OF u(1), of m] cut_link [OF ok1, of m]
      m(2) l(2) b nm by auto
  have "is_chain (entry s2) (bound s) m [m]"
    using m cut_eoc [OF ok] em by simp
  then show ?thesis
    using is_chain_relink [OF ch1 [unfolded chain_def b] l(1) _ em(3) xs] b by (simp add: chain_def)
qed

end

section \<open>The table of a volume as a table of links\<close>

definition table_ok :: "FATFS \<Rightarrow> bool" where
  "table_ok fs \<longleftrightarrow> fat_ok fs \<and> win_ok fs \<and> fs_known fs"

lemma and_mask_small:
  assumes "unat v < 2 ^ k"
  shows "(v :: DWORD) AND mask k = v"
  unfolding word_unat_eq_iff
  using assms by (simp add: unsigned_take_bit_eq take_bit_nat_eq_self flip: take_bit_eq_mask)

lemma cut_link_fat:
  assumes "fat_ok fs" and "v < n_fatent fs"
  shows "v AND fat_mask (fs_type fs) = v"
proof -
  have le: "unat v < unat (fat_mask (fs_type fs))"
    using assms fat_okD(4) [OF assms(1)] by (simp add: word_less_nat_alt word_le_nat_alt)
  have m: "(0xFFF :: DWORD) = mask 12" "(0xFFFF :: DWORD) = mask 16" "(0x0FFFFFFF :: DWORD) = mask 28"
    "(0x7FFFFFFF :: DWORD) = mask 31" by (simp_all add: mask_eq_exp_minus_1)
  show ?thesis
    using le and_mask_small [of v 12, folded m] and_mask_small [of v 16, folded m]
      and_mask_small [of v 28, folded m] and_mask_small [of v 31, folded m]
    by (simp add: fat_mask_def split: if_splits)
qed

interpretation ft: link_table fat_entry n_fatent "\<lambda>fs v. v AND fat_mask (fs_type fs)" table_ok
  "\<lambda>fs c v fs'. fat_upd fs c v FR_OK fs'"
proof unfold_locales
  fix fs fs' :: FATFS and c c' v :: DWORD
  assume "fat_upd fs c v FR_OK fs'" "c < n_fatent fs" "c' < n_fatent fs"
  then show "fat_entry fs' c' = (if c' = c then v AND fat_mask (fs_type fs) else fat_entry fs c')"
    by (simp add: fat_upd_def)
next
  fix fs fs' :: FATFS and c v :: DWORD
  assume u: "fat_upd fs c v FR_OK fs'"
  then have g: "geom_eq fs fs'" by (simp add: fat_upd_def fat_step_def)
  then show "n_fatent fs' = n_fatent fs" by (simp add: geom_eqD)
  assume "table_ok fs"
  then show "table_ok fs'"
    using u fat_ok_geom [OF g] by (simp add: table_ok_def fs_known_def fat_upd_def fat_step_def geom_eqD [OF g])
next
  fix fs :: FATFS and v :: DWORD
  assume ok: "table_ok fs"
  then show "v < n_fatent fs \<Longrightarrow> v AND fat_mask (fs_type fs) = v"
    by (simp add: table_ok_def cut_link_fat)
  show "n_fatent fs \<le> 0xFFFFFFFF AND fat_mask (fs_type fs)"
    using fat_okD(4) [of fs] ok by (simp add: table_ok_def fat_mask_def split: if_splits)
  show "2 < n_fatent fs"
    using fat_okD(5) [of fs] ok by (simp add: table_ok_def word_less_nat_alt word_le_nat_alt)
qed

section \<open>The search for a free cluster\<close>

text \<open>
  The clusters tested when the cyclic search that started after \<open>s\<close> stands at \<open>c\<close>, and the
  number of tests still possible, for a table of \<open>n\<close> entries.
\<close>

definition seen :: "nat \<Rightarrow> nat \<Rightarrow> nat \<Rightarrow> bool" where
  "seen s c x \<longleftrightarrow> (if s \<le> c then s < x \<and> x \<le> c else s < x \<or> x \<le> c)"

definition to_test :: "nat \<Rightarrow> nat \<Rightarrow> nat \<Rightarrow> nat" where
  "to_test n s c = (if s \<le> c then n - 1 - c + (s - 1) else s - c)"

definition next_test :: "nat \<Rightarrow> nat \<Rightarrow> nat" where
  "next_test n c = (if n \<le> c + 1 then 2 else c + 1)"

lemma search_step:
  assumes "1 \<le> s" "s < n" "c < n" "s \<le> c \<or> 2 \<le> c" "\<not> (n \<le> c + 1 \<and> s < 2)" and "3 \<le> n"
  shows "2 \<le> next_test n c" "next_test n c < n" "0 < to_test n s c"
    and "next_test n c \<noteq> s \<Longrightarrow> to_test n s (next_test n c) < to_test n s c"
    and "next_test n c \<noteq> s \<Longrightarrow> 2 \<le> x \<Longrightarrow> x < n \<Longrightarrow> seen s (next_test n c) x \<Longrightarrow> seen s c x \<or> x = next_test n c"
    and "next_test n c = s \<Longrightarrow> 2 \<le> x \<Longrightarrow> x < n \<Longrightarrow> seen s c x \<or> x = s"
  using assms by (auto simp: next_test_def to_test_def seen_def split: if_splits)

text \<open>A volume with a classic table, where every chain is recorded in it.\<close>

definition fat_vol :: "FATFS \<Rightarrow> bool" where
  "fat_vol fs \<longleftrightarrow> fat_ok fs \<and> win_ok fs \<and> fs_type fs \<in> {FS_FAT12, FS_FAT16, FS_FAT32}"

lemma fat_volD:
  assumes "fat_vol fs"
  shows "fat_ok fs" "win_ok fs" "fs_type fs \<noteq> FS_EXFAT" "via_table fs obj c" "table_ok fs" "3 \<le> unat (n_fatent fs)"
    "fs_known fs"
  using assms fat_okD(5) [of fs]
  by (auto simp: fat_vol_def via_table_def table_ok_def fs_known_def word_le_nat_alt)

lemma fat_vol_geom: "geom_eq fs fs' \<Longrightarrow> win_ok fs' \<Longrightarrow> fat_vol fs \<Longrightarrow> fat_vol fs'"
  by (simp add: fat_vol_def fat_ok_geom geom_eqD)

lemma fat_vol_same: "same_vol fs fs' \<Longrightarrow> fat_vol fs \<Longrightarrow> fat_vol fs'"
  by (meson fat_vol_geom same_volD)

lemma fat_vol_step: "fat_step fs fs' \<Longrightarrow> fat_vol fs \<Longrightarrow> fat_vol fs'"
  by (meson fat_vol_geom fat_stepD)

lemma get_fat_same:
  assumes "fat_vol fs0" and "same_vol fs0 fs" and c: "2 \<le> c" "c < n_fatent fs0"
    and get: "get_fat fs obj c = (v, fs')"
  shows "same_vol fs0 fs'" "v = fat_entry fs0 c \<or> v = 0xFFFFFFFF"
proof -
  have v: "fat_vol fs" by (rule fat_vol_same [OF assms(2,1)])
  have n: "n_fatent fs = n_fatent fs0" using same_volD(3) [OF assms(2)] by (simp add: geom_eqD)
  have "same_vol fs fs' \<and> (v = fat_entry fs c \<or> v = 0xFFFFFFFF)"
    using get_fat_table [OF fat_volD(1,2) [OF v] c(1) _ fat_volD(4) [OF v] get] c(2) n by simp
  then show "same_vol fs0 fs'" "v = fat_entry fs0 c \<or> v = 0xFFFFFFFF"
    using same_vol_trans [OF assms(2)] fat_entry_same_vol [OF fat_volD(1) [OF assms(1)] assms(2) c(2)] by auto
qed

text \<open>
  What the search delivers: a free cluster, or 0 when none is free, or an error value, 1 only
  when the table holds the invalid entry 1.
\<close>

definition search_result :: "FATFS \<Rightarrow> DWORD + DWORD \<Rightarrow> bool" where
  "search_result fs r \<longleftrightarrow>
     (case r of
        Inr c \<Rightarrow> 2 \<le> c \<and> c < n_fatent fs \<and> fat_entry fs c = 0
      | Inl e \<Rightarrow> e = 0xFFFFFFFF \<or> e = 1 \<and> (\<exists>c. 2 \<le> c \<and> c < n_fatent fs \<and> fat_entry fs c = 1)
          \<or> e = 0 \<and> (\<forall>c. 2 \<le> c \<longrightarrow> c < n_fatent fs \<longrightarrow> fat_entry fs c \<noteq> 0))"

lemma find_free_ok:
  assumes v: "fat_vol fs0" and s: "1 \<le> unat scl" "unat scl < unat (n_fatent fs0)"
  shows "same_vol fs0 fs \<Longrightarrow> unat ncl < unat (n_fatent fs0) \<Longrightarrow> unat scl \<le> unat ncl \<or> 2 \<le> unat ncl \<Longrightarrow>
      to_test (unat (n_fatent fs0)) (unat scl) (unat ncl) < n \<Longrightarrow>
      (\<And>c. 2 \<le> c \<Longrightarrow> c < n_fatent fs0 \<Longrightarrow> seen (unat scl) (unat ncl) (unat c) \<Longrightarrow> fat_entry fs0 c \<noteq> 0) \<Longrightarrow>
      \<exists>r fs'. find_free n fs obj scl ncl = Some (r, fs') \<and> same_vol fs0 fs' \<and> search_result fs0 r"
proof (induction n arbitrary: fs ncl)
  case (Suc n)
  let ?N = "unat (n_fatent fs0)"
  have n: "n_fatent fs = n_fatent fs0" using same_volD(3) [OF Suc.prems(1)] by (simp add: geom_eqD)
  have un: "unat (ncl + 1) = unat ncl + 1"
    using Suc.prems(2) unat_dword_less [of "n_fatent fs0"] by (simp add: unat_word_ariths(1))
  show ?case
  proof (cases "?N \<le> unat ncl + 1 \<and> unat scl < 2")
    case True
    then have "fat_entry fs0 c \<noteq> 0" if "2 \<le> c" "c < n_fatent fs0" for c
      using that s Suc.prems(5) [OF that]
      by (auto simp: seen_def word_le_nat_alt word_less_nat_alt)
    then show ?thesis
      using True n un Suc.prems(1) by (simp add: search_result_def word_le_nat_alt word_less_nat_alt)
  next
    case False
    define nx where "nx = (if n_fatent fs0 \<le> ncl + 1 then 2 else ncl + 1)"
    have unx: "unat nx = next_test ?N (unat ncl)"
      by (simp add: nx_def next_test_def word_le_nat_alt un)
    note st = search_step [OF s Suc.prems(2,3) False fat_volD(6) [OF v], folded unx]
    have nx2: "2 \<le> nx" "nx < n_fatent fs0" using st(1,2) by (simp_all add: word_le_nat_alt word_less_nat_alt)
    obtain cs fs1 where get: "get_fat fs obj nx = (cs, fs1)" by fastforce
    note g = get_fat_same [OF v Suc.prems(1) nx2 get]
    have unfold: "find_free (Suc n) fs obj scl ncl =
      (if cs = 0 then Some (Inr nx, fs1) else if cs = 1 \<or> cs = 0xFFFFFFFF then Some (Inl cs, fs1)
       else if nx = scl then Some (Inl 0, fs1) else find_free n fs1 obj scl nx)"
      using False get by (auto simp: nx_def n un Let_def word_le_nat_alt word_less_nat_alt)
    consider "cs = 0" | "cs = 1" | "cs = 0xFFFFFFFF" | "cs \<noteq> 0" "cs \<noteq> 1" "cs \<noteq> 0xFFFFFFFF" "nx = scl"
      | "cs \<noteq> 0" "cs \<noteq> 1" "cs \<noteq> 0xFFFFFFFF" "nx \<noteq> scl" by blast
    then show ?thesis
    proof cases
      case 4
      then have "fat_entry fs0 c \<noteq> 0" if "2 \<le> c" "c < n_fatent fs0" for c
      proof -
        have "seen (unat scl) (unat ncl) (unat c) \<or> c = scl"
          using that st(6) [of "unat c"] \<open>nx = scl\<close>
          by (simp add: word_le_nat_alt word_less_nat_alt word_unat_eq_iff)
        then show ?thesis using Suc.prems(5) [OF that] g(2) 4 by auto
      qed
      then show ?thesis using 4 g(1) unfold by (simp add: search_result_def)
    next
      case 5
      have ne: "unat nx \<noteq> unat scl" using 5 by (simp add: word_unat_eq_iff)
      have "fat_entry fs0 c \<noteq> 0" if "2 \<le> c" "c < n_fatent fs0" "seen (unat scl) (unat nx) (unat c)" for c
      proof -
        have "seen (unat scl) (unat ncl) (unat c) \<or> c = nx"
          using that st(5) [OF ne, of "unat c"]
          by (simp add: word_le_nat_alt word_less_nat_alt word_unat_eq_iff)
        then show ?thesis using Suc.prems(5) [OF that(1,2)] g(2) 5 by auto
      qed
      then show ?thesis
        unfolding unfold using Suc.IH [of fs1 nx] g(1) st(1,2) st(4) [OF ne] Suc.prems(4) 5 by simp
    qed (use g nx2 unfold in \<open>auto simp: search_result_def\<close>)
  qed
qed simp

section \<open>create\_chain on FAT volumes\<close>

lemma pick_cluster_ok:
  assumes v: "fat_vol fs0" and sv: "same_vol fs0 fs" and s: "1 \<le> unat scl" "scl < n_fatent fs0"
    and c: "clst = scl \<longrightarrow> 2 \<le> clst" and p: "pick_cluster fs obj clst scl = (r, fs')"
  shows "same_vol fs0 fs' \<and> search_result fs0 r"
proof -
  let ?N = "unat (n_fatent fs0)"
  have n: "n_fatent fs = n_fatent fs0" using same_volD(3) [OF sv] by (simp add: geom_eqD)
  have search: "\<exists>r fs'. find_free ?N fs1 obj s1 s1 = Some (r, fs') \<and> same_vol fs0 fs' \<and> search_result fs0 r"
    if "same_vol fs0 fs1" "1 \<le> unat s1" "s1 < n_fatent fs0" for fs1 s1
    by (rule find_free_ok [OF v that(2)])
      (use that fat_volD(6) [OF v] in \<open>auto simp: word_less_nat_alt to_test_def seen_def\<close>)
  show ?thesis
  proof (cases "scl = clst")
    case False
    then show ?thesis using p search [OF sv s] n by (auto simp: pick_cluster_def)
  next
    case True
    define nx where "nx = (if n_fatent fs0 \<le> scl + 1 then 2 else scl + 1)"
    have un: "unat (scl + 1) = unat scl + 1"
      using s(2) unat_dword_less [of "n_fatent fs0"] by (simp add: unat_word_ariths(1) word_less_nat_alt)
    have nx: "2 \<le> nx" "nx < n_fatent fs0"
      using fat_volD(6) [OF v] c True un by (auto simp: nx_def word_less_nat_alt word_le_nat_alt)
    obtain cs fs1 where get: "get_fat fs obj nx = (cs, fs1)" by fastforce
    note g = get_fat_same [OF v sv nx get]
    have n1: "n_fatent fs1 = n_fatent fs0" using same_volD(3) [OF g(1)] by (simp add: geom_eqD)
    have nz: "nx \<noteq> 0" using nx(1) by auto
    define s1 where "s1 = (if 2 \<le> last_clst fs1 \<and> last_clst fs1 < n_fatent fs1 then last_clst fs1 else scl)"
    have s1: "1 \<le> unat s1" "s1 < n_fatent fs0" using s n1 by (auto simp: s1_def word_le_nat_alt)
    have eq: "pick_cluster fs obj clst scl =
      (if cs = 1 \<or> cs = 0xFFFFFFFF then (Inl cs, fs1) else if cs = 0 then (Inr nx, fs1)
       else case find_free (unat (n_fatent fs1)) fs1 obj s1 s1 of Some r \<Rightarrow> r | None \<Rightarrow> (Inl 1, fs1))"
      unfolding pick_cluster_def Let_def n nx_def [symmetric] s1_def using get True nz by simp
    show ?thesis
      using p search [OF g(1) s1] g nx unfolding eq n1
      by (auto simp: search_result_def split: if_splits)
  qed
qed

text \<open>The table depends on the window, the device and the geometry only.\<close>

lemma counters_fat [simp]:
  "fat_entry (fs\<lparr>last_clst := x\<rparr>) = fat_entry fs" "fat_entry (fs\<lparr>free_clst := x\<rparr>) = fat_entry fs"
  "fat_entry (fs\<lparr>fsi_flag := y\<rparr>) = fat_entry fs"
  "data_eq fs0 (fs\<lparr>last_clst := x\<rparr>) = data_eq fs0 fs" "data_eq fs0 (fs\<lparr>free_clst := x\<rparr>) = data_eq fs0 fs"
  "data_eq fs0 (fs\<lparr>fsi_flag := y\<rparr>) = data_eq fs0 fs"
  by (auto simp: fun_eq_iff fat_entry_def fatmem_def [abs_def] data_eq_def)

text \<open>
  The outcomes of \<open>create_chain\<close>: the successor \<open>clst\<close> already had; 0, nothing changed and
  no cluster to give; 1, nothing changed and the table inconsistent; a disk error; or a
  cluster that was free, now the end of a chain and linked from \<open>clst\<close>.
\<close>

definition no_free :: "FATFS \<Rightarrow> bool" where
  "no_free fs \<longleftrightarrow> (\<forall>c. 2 \<le> c \<longrightarrow> c < n_fatent fs \<longrightarrow> fat_entry fs c \<noteq> 0)"

definition linked :: "FATFS \<Rightarrow> DWORD \<Rightarrow> DWORD \<Rightarrow> FATFS \<Rightarrow> bool" where
  "linked fs clst r fs' \<longleftrightarrow>
     2 \<le> r \<and> r < n_fatent fs \<and> fat_entry fs r = 0 \<and> (clst \<noteq> 0 \<longrightarrow> n_fatent fs \<le> fat_entry fs clst) \<and>
     (\<exists>fs1 fs2. fat_upd fs r 0xFFFFFFFF FR_OK fs1 \<and>
        (if clst = 0 then fs2 = fs1 else fat_upd fs1 clst r FR_OK fs2) \<and>
        fs' = fs2\<lparr>last_clst := r,
                  free_clst := if free_clst fs \<le> n_fatent fs - 2 then free_clst fs - 1 else free_clst fs,
                  fsi_flag := fsi_flag fs OR 1\<rparr>)"

definition create_result :: "FATFS \<Rightarrow> DWORD \<Rightarrow> DWORD \<Rightarrow> FATFS \<Rightarrow> bool" where
  "create_result fs clst r fs' \<longleftrightarrow>
     clst \<noteq> 0 \<and> r = fat_entry fs clst \<and> 2 \<le> r \<and> r < n_fatent fs \<and> same_vol fs fs' \<or>
     r = 0 \<and> same_vol fs fs' \<and> (free_clst fs = 0 \<or> no_free fs) \<or>
     r = 1 \<and> same_vol fs fs' \<and>
       (clst \<noteq> 0 \<and> fat_entry fs clst < 2 \<or> (\<exists>c. 2 \<le> c \<and> c < n_fatent fs \<and> fat_entry fs c = 1)) \<or>
     r = 0xFFFFFFFF \<and> fat_step fs fs' \<and>
       (\<forall>c<n_fatent fs. c \<noteq> clst \<longrightarrow> fat_entry fs c \<noteq> 0 \<longrightarrow> fat_entry fs' c = fat_entry fs c) \<and>
       (\<exists>n. \<forall>c<n_fatent fs. 2 \<le> c \<longrightarrow> c \<noteq> n \<longrightarrow> fat_entry fs c = 0 \<longrightarrow> fat_entry fs' c = 0) \<or>
     linked fs clst r fs'"

lemma create_result_same: "fat_vol fs \<Longrightarrow> same_vol fs fs' \<Longrightarrow> create_result fs clst 0xFFFFFFFF fs'"
  using fat_entry_same_vol [OF fat_volD(1), of fs fs'] same_vol_fat_step [of fs fs'] unfolding create_result_def by simp

lemma fat_upd_same:
  assumes "fat_vol fs" and "same_vol fs fs1" and "fat_upd fs1 c v r fs2"
  shows "fat_upd fs c v r fs2"
proof -
  note g = geom_eqD [OF same_volD(3) [OF assms(2)]]
  have "fat_step fs fs2"
    using assms(3) same_vol_fat_step [OF assms(2)] fat_step_trans by (auto simp: fat_upd_def)
  then show ?thesis
    using assms(3) fat_entry_same_vol [OF fat_volD(1) [OF assms(1)] assms(2)] by (simp add: fat_upd_def g)
qed

lemma create_chain_fat_ok:
  assumes v: "fat_vol fs0" and sv: "same_vol fs0 fs" and s: "1 \<le> unat scl" "scl < n_fatent fs0"
    and c: "clst = 0 \<or> 2 \<le> clst \<and> clst < n_fatent fs0" and cc: "create_chain_fat fs obj clst scl = (r, fs')"
  shows "case r of
      Inl e \<Rightarrow> same_vol fs0 fs' \<and> search_result fs0 (Inl e)
    | Inr (res, ncl) \<Rightarrow> 2 \<le> ncl \<and> ncl < n_fatent fs0 \<and> fat_entry fs0 ncl = 0 \<and>
        (if res = FR_OK then
           \<exists>fs1. fat_upd fs0 ncl 0xFFFFFFFF FR_OK fs1 \<and> (if clst = 0 then fs' = fs1 else fat_upd fs1 clst ncl FR_OK fs')
         else res = FR_DISK_ERR \<and> fat_step fs0 fs' \<and>
           (\<forall>c<n_fatent fs0. c \<noteq> clst \<longrightarrow> c \<noteq> ncl \<longrightarrow> fat_entry fs' c = fat_entry fs0 c))"
proof -
  obtain p fs1 where p: "pick_cluster fs obj clst scl = (p, fs1)" by fastforce
  have c': "clst = scl \<longrightarrow> 2 \<le> clst" using c s by auto
  note pk = pick_cluster_ok [OF v sv s c' p]
  show ?thesis
  proof (cases p)
    case (Inl e)
    then show ?thesis using cc p pk by (auto simp: create_chain_fat_def)
  next
    case (Inr ncl)
    then have n: "2 \<le> ncl" "ncl < n_fatent fs0" "fat_entry fs0 ncl = 0"
      using pk by (auto simp: search_result_def)
    have v1: "fat_vol fs1" using fat_vol_same v pk by blast
    have n1: "n_fatent fs1 = n_fatent fs0" using pk same_volD(3) by (auto simp: geom_eqD)
    obtain r2 fs2 where put: "put_fat fs1 ncl 0xFFFFFFFF = (r2, fs2)" by fastforce
    have u: "fat_upd fs0 ncl 0xFFFFFFFF r2 fs2"
      using fat_upd_same [OF v conjunct1 [OF pk] put_fat_upd [OF fat_volD(1,2,7) [OF v1] n(1) _ put]] n(2) n1 by simp
    have v2: "fat_vol fs2" using u fat_vol_step v by (auto simp: fat_upd_def)
    have n2: "n_fatent fs2 = n_fatent fs0" using u by (auto simp: fat_upd_def fat_step_def geom_eqD)
    obtain r3 fs3 where put3: "put_fat fs2 clst ncl = (r3, fs3)" by fastforce
    have u3: "fat_upd fs2 clst ncl r3 fs3" if "clst \<noteq> 0"
      using put_fat_upd [OF fat_volD(1,2,7) [OF v2] _ _ put3] c n2 that by simp
    have eq: "(r, fs') = (if r2 = FR_OK \<and> clst \<noteq> 0 then (Inr (r3, ncl), fs3) else (Inr (r2, ncl), fs2))"
      using cc p Inr put put3 by (auto simp: create_chain_fat_def)
    show ?thesis
    proof (cases "r2 = FR_OK \<and> clst \<noteq> 0")
      case False
      then show ?thesis using eq n u by (auto simp: fat_upd_def)
    next
      case True
      have st: "fat_step fs0 fs3" using u u3 True fat_step_trans by (auto simp: fat_upd_def)
      have "fat_entry fs3 c = fat_entry fs0 c" if "c < n_fatent fs0" "c \<noteq> clst" "c \<noteq> ncl" for c
        using u u3 True that n(3) n2 by (auto simp: fat_upd_def)
      then show ?thesis using eq n u u3 True st by (auto simp: fat_upd_def [of fs2])
    qed
  qed
qed

text \<open>The last part of \<open>create_chain\<close>, from a state that shows the same volume.\<close>

lemma create_chain_tail:
  assumes v: "fat_vol fs0" and sv: "same_vol fs0 fs" and s: "1 \<le> unat scl" "scl < n_fatent fs0"
    and c: "clst = 0 \<or> 2 \<le> clst \<and> clst < n_fatent fs0 \<and> n_fatent fs0 \<le> fat_entry fs0 clst"
    and cc: "create_chain_fat fs obj clst scl = (p, fs1)"
    and r: "(case p of Inl r \<Rightarrow> (r, fs1) | Inr (res, ncl) \<Rightarrow> chain_done fs1 res ncl) = (r, fs')"
  shows "create_result fs0 clst r fs'"
proof -
  have c': "clst = 0 \<or> 2 \<le> clst \<and> clst < n_fatent fs0" using c by blast
  note ok = create_chain_fat_ok [OF v sv s c' cc]
  show ?thesis
  proof (cases p)
    case (Inl e)
    then have e: "same_vol fs0 fs'" "search_result fs0 (Inl r)" using ok r by auto
    then consider "r = 0xFFFFFFFF" | "r = 1" "\<exists>c. 2 \<le> c \<and> c < n_fatent fs0 \<and> fat_entry fs0 c = 1" | "r = 0" "no_free fs0"
      by (auto simp: search_result_def no_free_def)
    then show ?thesis using e(1) create_result_same [OF v e(1)] by cases (auto simp: create_result_def)
  next
    case (Inr q)
    obtain res ncl where q: "q = (res, ncl)" by fastforce
    show ?thesis
    proof (cases "res = FR_OK")
      case False
      then have e: "r = 0xFFFFFFFF" "fs' = fs1" "fat_step fs0 fs1" "fat_entry fs0 ncl = 0"
        and k: "\<And>c. c < n_fatent fs0 \<Longrightarrow> c \<noteq> clst \<Longrightarrow> c \<noteq> ncl \<Longrightarrow> fat_entry fs1 c = fat_entry fs0 c"
        using ok r Inr q by (auto simp: chain_done_def)
      have "fat_entry fs1 c = 0" if "c < n_fatent fs0" "2 \<le> c" "c \<noteq> ncl" "fat_entry fs0 c = 0" for c
        using k [OF that(1) _ that(3)] that c fat_volD(6) [OF v] by (cases "c = clst") (auto simp: word_le_nat_alt)
      moreover have "fat_entry fs1 c = fat_entry fs0 c" if "c < n_fatent fs0" "c \<noteq> clst" "fat_entry fs0 c \<noteq> 0" for c
        using k that e(4) by blast
      ultimately show ?thesis using e(1-3) unfolding create_result_def by blast
    next
      case True
      then obtain fs2 where u: "fat_upd fs0 ncl 0xFFFFFFFF FR_OK fs2"
          "if clst = 0 then fs1 = fs2 else fat_upd fs2 clst ncl FR_OK fs1"
        and n: "2 \<le> ncl" "ncl < n_fatent fs0" "fat_entry fs0 ncl = 0"
        using ok Inr q by auto
      have "alloc_eq fs0 fs1 \<and> n_fatent fs1 = n_fatent fs0"
        using u alloc_eq_trans by (auto simp: fat_upd_def fat_step_def geom_eqD split: if_splits)
      then have fs': "r = ncl" "fs' = fs1\<lparr>last_clst := ncl,
          free_clst := if free_clst fs0 \<le> n_fatent fs0 - 2 then free_clst fs0 - 1 else free_clst fs0,
          fsi_flag := fsi_flag fs0 OR 1\<rparr>"
        using r True Inr q by (auto simp: chain_done_def alloc_eq_def)
      have "linked fs0 clst r fs'"
        unfolding linked_def fs' using u n c by (intro conjI exI [of _ fs2] exI [of _ fs1]) auto
      then show ?thesis by (simp add: create_result_def)
    qed
  qed
qed

lemma create_chain_ok:
  assumes v: "fat_vol fs" and c: "clst = 0 \<or> 2 \<le> clst \<and> clst < n_fatent fs"
    and cc: "create_chain fs obj clst = (r, fs', obj')"
  shows "create_result fs clst r fs'" and "obj' = obj"
proof -
  have ne: "fs_type fs1 \<noteq> FS_EXFAT" if "same_vol fs fs1" for fs1
    using fat_volD(3) [OF fat_vol_same [OF that v]] .
  have fc: "free_clst fs1 = free_clst fs" if "same_vol fs fs1" for fs1
    using same_volD(4) [OF that] by (simp add: alloc_eq_def)
  have same: "same_vol fs fs" using fat_volD(2) [OF v] by simp
  have "create_result fs clst r fs' \<and> obj' = obj"
  proof (cases "clst = 0")
    case True
    define scl where "scl = (if last_clst fs = 0 \<or> n_fatent fs \<le> last_clst fs then 1 else last_clst fs)"
    have s: "1 \<le> unat scl" "scl < n_fatent fs"
      using fat_volD(6) [OF v] by (auto simp: scl_def word_less_nat_alt word_le_nat_alt unat_gt_0 Suc_le_eq)
    obtain p fs1 where p: "create_chain_fat fs obj clst scl = (p, fs1)" by fastforce
    show ?thesis
    proof (cases "free_clst fs = 0")
      case full: True
      then show ?thesis using cc True same by (auto simp: create_chain_def create_result_def)
    next
      case False
      then have "(case p of Inl r \<Rightarrow> (r, fs1) | Inr (res, ncl) \<Rightarrow> chain_done fs1 res ncl) = (r, fs')" and "obj' = obj"
        using cc True p ne [OF same]
        by (auto simp: create_chain_def scl_def [symmetric] split: sum.splits prod.splits)
      then show ?thesis using create_chain_tail [OF v same s _ p] True by blast
    qed
  next
    case False
    obtain cs fs1 where get: "get_fat fs obj clst = (cs, fs1)" by fastforce
    have c2: "2 \<le> clst" "clst < n_fatent fs" using False c by auto
    note g = get_fat_same [OF v same c2 get]
    have n1: "n_fatent fs1 = n_fatent fs" using same_volD(3) [OF g(1)] by (simp add: geom_eqD)
    obtain p fs2 where p: "create_chain_fat fs1 obj clst clst = (p, fs2)" by fastforce
    have s: "1 \<le> unat clst" using c2 by (simp add: word_le_nat_alt)
    show ?thesis
    proof (cases "2 \<le> cs \<and> cs \<noteq> 0xFFFFFFFF \<and> n_fatent fs \<le> cs \<and> free_clst fs \<noteq> 0")
      case go: True
      then have "\<not> cs < 2" "\<not> cs < n_fatent fs1" using n1 by (simp_all add: not_less)
      with go have "(case p of Inl r \<Rightarrow> (r, fs2) | Inr (res, ncl) \<Rightarrow> chain_done fs2 res ncl) = (r, fs')" and "obj' = obj"
        using cc False get p ne [OF g(1)] fc [OF g(1)] n1
        by (auto simp: create_chain_def split: sum.splits prod.splits)
      moreover have "n_fatent fs \<le> fat_entry fs clst" using go g(2) by auto
      ultimately show ?thesis using create_chain_tail [OF v g(1) s c2(2) _ p] c2 by blast
    next
      case stop: False
      then have "obj' = obj \<and> fs' = fs1 \<and> r = (if cs < 2 then 1 else if cs = 0xFFFFFFFF then cs
          else if cs < n_fatent fs then cs else 0)"
        using cc False get fc [OF g(1)] n1
        by (auto simp: create_chain_def not_le split: if_splits)
      then show ?thesis
        using stop g False fat_entry_same_vol [OF fat_volD(1) [OF v] g(1)] same_vol_fat_step [OF g(1)]
        by (auto simp: create_result_def not_le split: if_splits)
    qed
  qed
  then show "create_result fs clst r fs'" "obj' = obj" by auto
qed

section \<open>The free cluster count\<close>

text \<open>
  \<open>free_clst\<close> is exact, or holds a value above \<open>n_fatent - 2\<close>, which the code takes as
  unknown. \<open>create_chain\<close> and \<open>remove_chain\<close> keep it so.
\<close>

definition free_set :: "FATFS \<Rightarrow> DWORD set" where
  "free_set fs = {c. 2 \<le> c \<and> c < n_fatent fs \<and> fat_entry fs c = 0}"

definition count_ok :: "FATFS \<Rightarrow> bool" where
  "count_ok fs \<longleftrightarrow> n_fatent fs - 2 < free_clst fs \<or> unat (free_clst fs) = card (free_set fs)"

lemma card_clusters: "card {c :: DWORD. 2 \<le> c \<and> c < n} = unat n - 2"
proof -
  have "unat ` {c :: DWORD. 2 \<le> c \<and> c < n} = {2..<unat n}"
  proof (rule set_eqI, rule iffI)
    fix k
    assume k: "k \<in> {2..<unat n}"
    then have "unat (of_nat k :: DWORD) = k"
      using unat_dword_less [of n] by (simp add: unat_of_nat)
    then show "k \<in> unat ` {c :: DWORD. 2 \<le> c \<and> c < n}"
      using k by (intro image_eqI [of _ _ "of_nat k"]) (auto simp: word_le_nat_alt word_less_nat_alt)
  qed (auto simp: word_le_nat_alt word_less_nat_alt)
  then have "card (unat ` {c :: DWORD. 2 \<le> c \<and> c < n}) = unat n - 2" by (simp only: card_atLeastLessThan)
  moreover have "inj_on unat {c :: DWORD. 2 \<le> c \<and> c < n}" by (rule inj_onI) (simp only: word_unat_eq_iff)
  ultimately show ?thesis by (simp only: card_image)
qed

lemma free_set_less:
  assumes "2 \<le> c" "c < n_fatent fs" "fat_entry fs c \<noteq> 0"
  shows "card (free_set fs) < unat (n_fatent fs - 2)"
proof -
  have "card (free_set fs) < card {c. 2 \<le> c \<and> c < n_fatent fs}"
    by (rule psubset_card_mono) (use assms in \<open>auto simp: free_set_def\<close>)
  moreover have "2 \<le> n_fatent fs" using assms(1,2) by simp
  ultimately show ?thesis by (simp add: card_clusters unat_sub)
qed

lemma free_set_le: "2 \<le> n_fatent fs \<Longrightarrow> card (free_set fs) \<le> unat (n_fatent fs - 2)"
  using card_mono [of "{c. 2 \<le> c \<and> c < n_fatent fs}" "free_set fs"]
  by (auto simp: free_set_def card_clusters unat_sub)

lemma free_set_upd:
  assumes "fat_upd fs c v FR_OK fs'" and "2 \<le> c" "c < n_fatent fs" and z: "v AND fat_mask (fs_type fs) = 0 \<longleftrightarrow> z"
  shows "free_set fs' = (if z then insert c (free_set fs) else free_set fs - {c})"
proof -
  have n: "n_fatent fs' = n_fatent fs" by (rule ft.upd_bound [OF assms(1)])
  show ?thesis
    using ft.upd_entry [OF assms(1,3)] assms(2,3) z by (auto simp: free_set_def n split: if_splits)
qed

lemma free_set_counters [simp]:
  "free_set (fs\<lparr>last_clst := x\<rparr>) = free_set fs" "free_set (fs\<lparr>free_clst := x\<rparr>) = free_set fs"
  "free_set (fs\<lparr>fsi_flag := y\<rparr>) = free_set fs"
  by (simp_all add: free_set_def)

lemma free_set_same: "fat_vol fs \<Longrightarrow> same_vol fs fs' \<Longrightarrow> free_set fs' = free_set fs"
  using fat_entry_same_vol [OF fat_volD(1), of fs fs'] geom_eqD(5) [OF same_volD(3), of fs fs']
  by (auto simp: free_set_def)

lemma count_ok_same: "fat_vol fs \<Longrightarrow> same_vol fs fs' \<Longrightarrow> count_ok fs' = count_ok fs"
  using same_volD(3,4) [of fs fs'] by (simp add: count_ok_def free_set_same geom_eqD alloc_eq_def)

lemma fat_mask_nonzero: "0xFFFFFFFF AND fat_mask ty \<noteq> 0"
  by (simp add: fat_mask_def)

lemma linked_count:
  assumes v: "fat_vol fs" and c: "clst = 0 \<or> 2 \<le> clst \<and> clst < n_fatent fs"
    and l: "linked fs clst r fs'" and co: "count_ok fs"
  shows "count_ok fs'" and "free_set fs' = free_set fs - {r}"
proof -
  obtain fs1 fs2 where r: "2 \<le> r" "r < n_fatent fs" "fat_entry fs r = 0"
    and t: "clst \<noteq> 0 \<longrightarrow> n_fatent fs \<le> fat_entry fs clst"
    and u: "fat_upd fs r 0xFFFFFFFF FR_OK fs1" "if clst = 0 then fs2 = fs1 else fat_upd fs1 clst r FR_OK fs2"
    and fs': "fs' = fs2\<lparr>last_clst := r,
        free_clst := if free_clst fs \<le> n_fatent fs - 2 then free_clst fs - 1 else free_clst fs,
        fsi_flag := fsi_flag fs OR 1\<rparr>"
    using l by (auto simp: linked_def)
  have n: "n_fatent fs1 = n_fatent fs" "n_fatent fs2 = n_fatent fs" "fs_type fs1 = fs_type fs"
    using u by (auto simp: fat_upd_def fat_step_def geom_eqD split: if_splits)
  have s1: "free_set fs1 = free_set fs - {r}"
    using free_set_upd [OF u(1) r(1,2), of False] fat_mask_nonzero by simp
  have "free_set fs2 = free_set fs1"
  proof (cases "clst = 0")
    case False
    have nz: "r \<noteq> 0" using r(1) by auto
    have "r AND fat_mask (fs_type fs) = r" by (rule cut_link_fat [OF fat_volD(1) [OF v] r(2)])
    then have "free_set fs2 = free_set fs1 - {clst}"
      using free_set_upd [of fs1 clst r fs2 False] u(2) False c n nz by auto
    moreover have "clst \<notin> free_set fs" using t False fat_volD(6) [OF v] by (auto simp: free_set_def)
    ultimately show ?thesis using s1 by auto
  qed (use u in simp)
  with s1 show fs: "free_set fs' = free_set fs - {r}" by (simp add: fs')
  have in_free: "r \<in> free_set fs" "finite (free_set fs)" using r by (simp_all add: free_set_def)
  have "2 \<le> n_fatent fs" using r by simp
  then have le: "card (free_set fs) \<le> unat (n_fatent fs - 2)" by (rule free_set_le)
  have pos: "0 < card (free_set fs)" using in_free by (auto simp: card_gt_0_iff)
  show "count_ok fs'"
  proof (cases "n_fatent fs - 2 < free_clst fs")
    case True
    then have "\<not> free_clst fs \<le> n_fatent fs - 2" by simp
    with True show ?thesis by (simp add: count_ok_def fs' n)
  next
    case False
    then have "unat (free_clst fs) = card (free_set fs)" using co by (simp add: count_ok_def)
    then have "unat (free_clst fs - 1) = card (free_set fs) - 1"
      using pos unat_sub [of 1 "free_clst fs"] by (simp add: word_le_nat_alt)
    then have "unat (free_clst fs') = card (free_set fs')"
      using False in_free fs by (simp add: fs' not_less card_Diff_singleton)
    then show ?thesis by (simp add: count_ok_def)
  qed
qed

section \<open>remove\_chain on FAT volumes\<close>

text \<open>The frame of an operation that changes the table and the counters.\<close>

definition fat_frame :: "FATFS \<Rightarrow> FATFS \<Rightarrow> bool" where
  "fat_frame fs fs' \<longleftrightarrow> win_ok fs' \<and> data_eq fs fs' \<and> geom_eq fs fs'"

lemma fat_frameI: "fat_step fs fs' \<Longrightarrow> fat_frame fs fs'"
  by (simp add: fat_frame_def fat_step_def)

lemma fat_frame_refl [simp]: "fat_frame fs fs = win_ok fs"
  by (simp add: fat_frame_def data_eq_def)

lemma fat_frame_counters [simp]:
  "fat_frame fs0 (fs\<lparr>last_clst := x\<rparr>) = fat_frame fs0 fs" "fat_frame fs0 (fs\<lparr>free_clst := x\<rparr>) = fat_frame fs0 fs"
  "fat_frame fs0 (fs\<lparr>fsi_flag := y\<rparr>) = fat_frame fs0 fs"
  by (simp_all add: fat_frame_def)

lemma fat_frame_trans [trans]:
  assumes "fat_frame a b" and "fat_frame b c"
  shows "fat_frame a c"
proof -
  have g: "geom_eq a b" using assms(1) by (simp add: fat_frame_def)
  have "data_eq a c"
    using assms in_fat_geom [OF g] by (simp add: fat_frame_def data_eq_def geom_eqD [OF g])
  then show ?thesis using assms unfolding fat_frame_def by (meson geom_eq_trans)
qed

lemma fat_vol_frame: "fat_frame fs fs' \<Longrightarrow> fat_vol fs \<Longrightarrow> fat_vol fs'"
  by (auto simp: fat_frame_def intro: fat_vol_geom)

lemma count_up_frame [simp]:
  "fat_frame fs0 (count_up fs) = fat_frame fs0 fs" "fat_entry (count_up fs) = fat_entry fs"
  "free_set (count_up fs) = free_set fs" "n_fatent (count_up fs) = n_fatent fs"
  "fs_type (count_up fs) = fs_type fs"
  by (simp_all add: count_up_def)

lemma remove_loop_step:
  assumes v: "fat_vol fs" and c: "2 \<le> clst" "clst < n_fatent fs"
    and get: "get_fat fs obj clst = (nxt, fs1)" and put: "put_fat fs1 clst 0 = (res, fs2)"
  shows "same_vol fs fs1" "nxt = fat_entry fs clst \<or> nxt = 0xFFFFFFFF" "fat_upd fs clst 0 res fs2"
    "remove_loop (Suc n) fs obj clst scl ecl =
      (if nxt = 0 then (FR_OK, fs1) else if nxt = 1 then (FR_INT_ERR, fs1)
       else if nxt = 0xFFFFFFFF then (FR_DISK_ERR, fs1)
       else if res \<noteq> FR_OK then (res, fs2)
       else if nxt < n_fatent fs
       then remove_loop n (count_up fs2) obj nxt (if ecl + 1 = nxt then scl else nxt) nxt
       else (FR_OK, count_up fs2))"
proof -
  have same: "same_vol fs fs" using fat_volD(2) [OF v] by simp
  note g = get_fat_same [OF v same c get]
  have v1: "fat_vol fs1" by (rule fat_vol_same [OF g(1) v])
  have n1: "n_fatent fs1 = n_fatent fs" "fs_type fs1 = fs_type fs"
    using same_volD(3) [OF g(1)] by (simp_all add: geom_eqD)
  have u: "fat_upd fs clst 0 res fs2"
    using fat_upd_same [OF v g(1) put_fat_upd [OF fat_volD(1,2,7) [OF v1] c(1) _ put]] c(2) n1 by simp
  have n2: "n_fatent fs2 = n_fatent fs" "fs_type fs2 = fs_type fs"
    using u by (simp_all add: fat_upd_def fat_step_def geom_eqD)
  have ty: "fs_type fs1 \<noteq> FS_EXFAT" "fs_type fs2 \<noteq> FS_EXFAT" using fat_volD(3) [OF v] n1 n2 by simp_all
  show "same_vol fs fs1" "nxt = fat_entry fs clst \<or> nxt = 0xFFFFFFFF" "fat_upd fs clst 0 res fs2"
    by (fact g u)+
  show "remove_loop (Suc n) fs obj clst scl ecl =
      (if nxt = 0 then (FR_OK, fs1) else if nxt = 1 then (FR_INT_ERR, fs1)
       else if nxt = 0xFFFFFFFF then (FR_DISK_ERR, fs1)
       else if res \<noteq> FR_OK then (res, fs2)
       else if nxt < n_fatent fs
       then remove_loop n (count_up fs2) obj nxt (if ecl + 1 = nxt then scl else nxt) nxt
       else (FR_OK, count_up fs2))"
    by (cases "ecl + 1 = nxt"; simp add: get put ty n2(1) Let_def)
qed

text \<open>
  The loop ends for any table, even one with cycles: every round but the last frees a
  cluster that was in use.
\<close>

lemma remove_loop_terminates:
  "fat_vol fs \<Longrightarrow> 2 \<le> clst \<Longrightarrow> clst < n_fatent fs \<Longrightarrow> unat (n_fatent fs - 2) - card (free_set fs) < n \<Longrightarrow>
   fst (remove_loop n fs obj clst scl ecl) \<noteq> FR_TIMEOUT"
proof (induction n arbitrary: fs clst scl ecl)
  case (Suc n)
  obtain nxt fs1 where get: "get_fat fs obj clst = (nxt, fs1)" by fastforce
  obtain res fs2 where put: "put_fat fs1 clst 0 = (res, fs2)" by fastforce
  note st = remove_loop_step(1,2) [OF Suc.prems(1-3) get put]
  note u = remove_loop_step(3) [OF Suc.prems(1-3) get put]
  note eq = remove_loop_step(4) [OF Suc.prems(1-3) get put]
  have res: "res = FR_OK \<or> res = FR_DISK_ERR" using u by (simp add: fat_upd_def)
  show ?case
  proof (cases "nxt \<noteq> 0 \<and> nxt \<noteq> 1 \<and> nxt \<noteq> 0xFFFFFFFF \<and> res = FR_OK \<and> nxt < n_fatent fs")
    case True
    then have u': "fat_upd fs clst 0 FR_OK fs2" and used: "fat_entry fs clst \<noteq> 0" using u st(2) by blast+
    have fs2: "free_set fs2 = insert clst (free_set fs)" "clst \<notin> free_set fs" "n_fatent fs2 = n_fatent fs"
      using free_set_upd [OF u' Suc.prems(2,3), of True] used ft.upd_bound [OF u'] by (simp_all add: free_set_def [of fs])
    have v2: "fat_vol (count_up fs2)"
      using u Suc.prems(1) by - (rule fat_vol_frame [of fs], simp_all add: fat_upd_def fat_frameI)
    have lt: "card (free_set fs) < unat (n_fatent fs - 2)"
      by (rule free_set_less [OF Suc.prems(2,3) used])
    have nx: "2 \<le> nxt" using True by (intro word_ge2) simp_all
    have "fst (remove_loop n (count_up fs2) obj nxt S nxt) \<noteq> FR_TIMEOUT" for S
      using lt Suc.prems(4) True by (intro Suc.IH [OF v2 nx]) (simp_all add: fs2)
    then show ?thesis unfolding eq using True by simp
  next
    case False
    then consider "nxt = 0" | "nxt = 1" | "nxt = 0xFFFFFFFF" | "res = FR_DISK_ERR" | "\<not> nxt < n_fatent fs"
      using res by blast
    then show ?thesis unfolding eq using res by cases auto
  qed
qed simp

lemma count_up_ok:
  assumes u: "fat_upd fs c 0 FR_OK fs'" and c: "2 \<le> c" "c < n_fatent fs" "fat_entry fs c \<noteq> 0" and co: "count_ok fs"
  shows "count_ok (count_up fs')"
proof -
  have fs': "free_set fs' = insert c (free_set fs)" "c \<notin> free_set fs" "n_fatent fs' = n_fatent fs"
    using free_set_upd [OF u c(1,2), of True] c(3) ft.upd_bound [OF u] by (simp_all add: free_set_def [of fs])
  have fc: "free_clst fs' = free_clst fs" using u by (simp add: fat_upd_def fat_step_def alloc_eq_def)
  show ?thesis
  proof (cases "n_fatent fs - 2 < free_clst fs")
    case True
    then have "\<not> free_clst fs < n_fatent fs - 2" by simp
    with True show ?thesis by (simp add: count_ok_def count_up_def fs' fc)
  next
    case False
    then have e: "unat (free_clst fs) = card (free_set fs)" using co by (simp add: count_ok_def)
    have lt: "free_clst fs < n_fatent fs - 2"
      using free_set_less [OF c] e by (simp add: word_less_nat_alt)
    then have "unat (free_clst fs + 1) = card (free_set fs) + 1"
      using e unat_dword_less [of "n_fatent fs - 2"] by (simp add: unat_word_ariths(1) word_less_nat_alt)
    then show ?thesis using lt fs'(2) by (simp add: count_ok_def count_up_def fs' fc)
  qed
qed

text \<open>
  After a disk error one entry may have changed that the count does not follow. Apart from this
  the count stays exact on any table.
\<close>

definition count_near :: "FATFS \<Rightarrow> bool" where
  "count_near fs \<longleftrightarrow> n_fatent fs - 2 < free_clst fs \<or>
     unat (free_clst fs) \<le> card (free_set fs) + 1 \<and> card (free_set fs) \<le> unat (free_clst fs) + 1"

lemma count_nearI:
  assumes "count_ok fs" "fat_step fs fs'" "free_set fs' \<subseteq> insert a (free_set fs)" "free_set fs \<subseteq> insert b (free_set fs')"
  shows "count_near fs'"
proof -
  have le: "card X \<le> card Y + 1" if "X \<subseteq> insert x Y" for X Y :: "DWORD set" and x
    using card_mono [OF _ that] card_insert_if [of Y x] by (simp split: if_splits)
  have "card (free_set fs') \<le> card (free_set fs) + 1" "card (free_set fs) \<le> card (free_set fs') + 1"
    using le [OF assms(3)] le [OF assms(4)] .
  then show ?thesis
    using assms(1,2) by (auto simp: count_ok_def count_near_def fat_step_def alloc_eq_def geom_eqD)
qed

lemma count_near_upd:
  assumes "count_ok fs" "fat_upd fs c v r fs'" "fat_entry fs c \<noteq> 0"
  shows "count_near fs'"
proof (rule count_nearI [OF assms(1)])
  have n: "n_fatent fs' = n_fatent fs" using assms(2) by (simp add: fat_upd_def fat_step_def geom_eqD)
  show "fat_step fs fs'" using assms(2) by (simp add: fat_upd_def)
  show "free_set fs' \<subseteq> insert c (free_set fs)" "free_set fs \<subseteq> insert c (free_set fs')"
    using assms(2,3) by (auto simp: free_set_def fat_upd_def n)
qed

lemma create_error_count:
  assumes "count_ok fs" "fat_step fs fs'"
    and "\<forall>c<n_fatent fs. c \<noteq> clst \<longrightarrow> fat_entry fs c \<noteq> 0 \<longrightarrow> fat_entry fs' c = fat_entry fs c"
    and "\<forall>c<n_fatent fs. 2 \<le> c \<longrightarrow> c \<noteq> n \<longrightarrow> fat_entry fs c = 0 \<longrightarrow> fat_entry fs' c = 0"
  shows "count_near fs'"
proof (rule count_nearI [OF assms(1,2)])
  have n: "n_fatent fs' = n_fatent fs" using assms(2) by (simp add: fat_step_def geom_eqD)
  show "free_set fs' \<subseteq> insert clst (free_set fs)" using assms(3) by (auto simp: free_set_def n)
  show "free_set fs \<subseteq> insert n (free_set fs')" using assms(4) by (auto simp: free_set_def n)
qed

definition count_after :: "bool \<Rightarrow> FATFS \<Rightarrow> bool" where
  "count_after err fs \<longleftrightarrow> (if err then count_near fs else count_ok fs)"

lemma count_afterI: "count_ok fs \<Longrightarrow> count_after err fs" "count_near fs \<Longrightarrow> count_after True fs"
  by (auto simp: count_after_def count_ok_def count_near_def)

lemma remove_loop_count:
  "fat_vol fs \<Longrightarrow> 2 \<le> clst \<Longrightarrow> clst < n_fatent fs \<Longrightarrow> count_ok fs \<Longrightarrow>
   remove_loop n fs obj clst scl ecl = (r, fs') \<Longrightarrow> count_after (r = FR_DISK_ERR) fs'"
proof (induction n arbitrary: fs clst scl ecl)
  case 0
  then show ?case by (simp add: count_afterI)
next
  case (Suc n)
  obtain nxt fs1 where get: "get_fat fs obj clst = (nxt, fs1)" by fastforce
  obtain res fs2 where put: "put_fat fs1 clst 0 = (res, fs2)" by fastforce
  note st = remove_loop_step [OF Suc.prems(1-3) get put]
  have one: "count_ok fs1" using count_ok_same [OF Suc.prems(1) st(1)] Suc.prems(4) by simp
  have two: "count_near fs2" if "fat_entry fs clst \<noteq> 0" using count_near_upd [OF Suc.prems(4) st(3) that] .
  have up: "count_ok (count_up fs2)" if "res = FR_OK" "fat_entry fs clst \<noteq> 0"
    using count_up_ok [OF st(3) [unfolded that(1)] Suc.prems(2,3) that(2) Suc.prems(4)] .
  have fr: "fat_vol (count_up fs2)" "n_fatent (count_up fs2) = n_fatent fs"
    using st(3) fat_vol_frame [of fs "count_up fs2"] Suc.prems(1) by (simp_all add: fat_upd_def fat_frameI fat_step_def geom_eqD)
  have ih: "count_after (r = FR_DISK_ERR) fs'" if "remove_loop n (count_up fs2) obj nxt S nxt = (r, fs')"
    "nxt \<noteq> 0" "nxt \<noteq> 1" "nxt < n_fatent fs" "res = FR_OK" "fat_entry fs clst \<noteq> 0" for S
    using Suc.IH [OF fr(1) word_ge2 _ up that(1)] that fr(2) by simp
  have "res = FR_OK \<or> res = FR_DISK_ERR" using st(3) by (simp add: fat_upd_def)
  then show ?case
    using Suc.prems(5) [unfolded st(4)] one two up ih st(2) by (auto simp: count_afterI split: if_splits)
qed

text \<open>
  Removing a chain sets exactly its entries to 0; when the disk fails in between, clusters
  outside the chain are still untouched.
\<close>

lemma remove_loop_frees:
  "fat_vol fs \<Longrightarrow> is_chain (fat_entry fs) (n_fatent fs) clst (x # xs) \<Longrightarrow> length xs < n \<Longrightarrow>
   remove_loop n fs obj clst scl ecl = (r, fs') \<Longrightarrow>
   fat_frame fs fs' \<and> (r = FR_OK \<or> r = FR_DISK_ERR) \<and>
   (\<forall>c<n_fatent fs. c \<notin> set (x # xs) \<longrightarrow> fat_entry fs' c = fat_entry fs c) \<and>
   (r = FR_OK \<longrightarrow> (\<forall>c\<in>set (x # xs). fat_entry fs' c = 0) \<and> (count_ok fs \<longrightarrow> count_ok fs'))"
proof (induction n arbitrary: fs clst scl ecl x xs)
  case (Suc n)
  have x: "x = clst" "2 \<le> clst" "clst < n_fatent fs" "is_chain (fat_entry fs) (n_fatent fs) (fat_entry fs clst) xs"
    using Suc.prems(2) by auto
  obtain nxt fs1 where get: "get_fat fs obj clst = (nxt, fs1)" by fastforce
  obtain res fs2 where put: "put_fat fs1 clst 0 = (res, fs2)" by fastforce
  note st = remove_loop_step [OF Suc.prems(1) x(2,3) get put]
  note eq = st(4) [where n = n and scl = scl and ecl = ecl]
  have u: "2 \<le> fat_entry fs clst" "clst \<notin> set xs"
    using is_chain_used [OF Suc.prems(2), of clst] fat_volD(6) [OF Suc.prems(1)] x(1)
      is_chain_distinct [OF Suc.prems(2)] by (auto simp: word_le_nat_alt)
  have nz: "fat_entry fs clst \<noteq> 0" "fat_entry fs clst \<noteq> 1" "fat_entry fs clst \<noteq> 0xFFFFFFFF"
    using u(1) fat_entry_range by auto
  have fr2: "fat_frame fs fs2" using st(3) by (simp add: fat_upd_def fat_frameI)
  show ?case
  proof (cases "nxt = 0xFFFFFFFF")
    case True
    then have "r = FR_DISK_ERR" "fs' = fs1" using Suc.prems(4) eq by auto
    then show ?thesis
      using st(1) fat_entry_same_vol [OF fat_volD(1) [OF Suc.prems(1)] st(1)] fat_frameI [OF same_vol_fat_step [OF st(1)]]
      by simp
  next
    case False
    then have nxt: "nxt = fat_entry fs clst" using st(2) by blast
    show ?thesis
    proof (cases "res = FR_OK")
      case bad: False
      then have "r = FR_DISK_ERR" "fs' = fs2" using Suc.prems(4) eq nxt nz st(3) by (auto simp: fat_upd_def)
      then show ?thesis using fr2 st(3) x(1) by (auto simp: fat_upd_def)
    next
      case True
      note upd = st(3) [unfolded True]
      have e2: "fat_entry fs2 c = (if c = clst then 0 else fat_entry fs c)" if "c < n_fatent fs" for c
        using ft.upd_entry [OF upd x(3) that] by simp
      have co: "count_ok fs \<longrightarrow> count_ok (count_up fs2)" using count_up_ok [OF upd x(2,3) nz(1)] by simp
      show ?thesis
      proof (cases xs)
        case Nil
        then have "\<not> nxt < n_fatent fs" using x(4) nxt by (simp add: not_less)
        then have "r = FR_OK" "fs' = count_up fs2" using Suc.prems(4) [unfolded eq] nxt nz True by simp_all
        then show ?thesis using fr2 e2 x Nil co by simp
      next
        case (Cons y ys)
        then have y: "nxt = y" "nxt < n_fatent fs" using x(4) nxt by auto
        have fr: "fat_frame fs (count_up fs2)" using fr2 by simp
        have n2: "n_fatent fs2 = n_fatent fs" by (rule ft.upd_bound [OF upd])
        have "fat_entry fs2 c = fat_entry fs c" if "c \<in> set xs" for c
          using e2 [of c] is_chain_range [OF x(4) that] u(2) that by auto
        then have "is_chain (fat_entry fs2) (n_fatent fs) nxt xs"
          using x(4) nxt is_chain_cong [of xs "fat_entry fs2" "fat_entry fs"] by simp
        then have ch: "is_chain (fat_entry (count_up fs2)) (n_fatent (count_up fs2)) nxt (y # ys)"
          using Cons n2 by simp
        have "remove_loop n (count_up fs2) obj nxt (if ecl + 1 = nxt then scl else nxt) nxt = (r, fs')"
          using Suc.prems(4) eq nxt nz True y by simp
        note ih = Suc.IH [OF fat_vol_frame [OF fr Suc.prems(1)] ch _ this]
        have "fat_entry fs' c = fat_entry fs2 c" if "c < n_fatent fs" "c \<notin> set xs" for c
          using ih Cons Suc.prems(3) that n2 by simp
        then show ?thesis
          using ih Cons Suc.prems(3) n2 x u(2) e2 co fat_frame_trans [OF fr] by auto
      qed
    qed
  qed
qed simp

lemma is_chain_length:
  assumes "is_chain e n c xs"
  shows "length xs \<le> unat n - 2"
proof -
  have "set xs \<subseteq> {c. 2 \<le> c \<and> c < n}" using is_chain_range [OF assms] by auto
  then have "card (set xs) \<le> unat n - 2" using card_mono [of "{c. 2 \<le> c \<and> c < n}" "set xs"] by (simp add: card_clusters)
  then show ?thesis using distinct_card [OF is_chain_distinct [OF assms]] by simp
qed

text \<open>The optional end mark on the predecessor, before the loop.\<close>

lemma remove_cut:
  assumes v: "fat_vol fs" and p: "pclst = 0 \<or> 2 \<le> pclst \<and> pclst < n_fatent fs"
    and put: "(if pclst \<noteq> 0 then put_fat fs pclst 0xFFFFFFFF else (FR_OK, fs)) = (r, fs1)"
  shows "fat_vol fs1" "fat_frame fs fs1" "r = FR_OK \<or> r = FR_DISK_ERR"
    "c < n_fatent fs \<Longrightarrow> c \<noteq> pclst \<Longrightarrow> fat_entry fs1 c = fat_entry fs c"
    "r = FR_OK \<Longrightarrow> pclst \<noteq> 0 \<Longrightarrow> n_fatent fs \<le> fat_entry fs1 pclst"
    "r = FR_OK \<Longrightarrow> pclst \<noteq> 0 \<longrightarrow> fat_entry fs pclst \<noteq> 0 \<Longrightarrow> count_ok fs1 = count_ok fs"
proof -
  have u: "fat_upd fs pclst 0xFFFFFFFF r fs1" if "pclst \<noteq> 0"
    using put_fat_upd [OF fat_volD(1,2,7) [OF v]] p put that by simp
  have e: "fs1 = fs" "r = FR_OK" if "pclst = 0" using put that by auto
  show fr: "fat_frame fs fs1" using u e fat_volD(2) [OF v] by (cases "pclst = 0") (auto simp: fat_upd_def fat_frameI)
  show "fat_vol fs1" by (rule fat_vol_frame [OF fr v])
  show "r = FR_OK \<or> r = FR_DISK_ERR" using u e by (cases "pclst = 0") (auto simp: fat_upd_def)
  show "fat_entry fs1 c = fat_entry fs c" if "c < n_fatent fs" "c \<noteq> pclst"
    using u e that by (cases "pclst = 0") (auto simp: fat_upd_def)
  show "n_fatent fs \<le> fat_entry fs1 pclst" if "r = FR_OK" "pclst \<noteq> 0"
    using u [OF that(2)] that ft.cut_eoc [OF fat_volD(5) [OF v]] by (simp add: fat_upd_def)
  show "count_ok fs1 = count_ok fs" if "r = FR_OK" "pclst \<noteq> 0 \<longrightarrow> fat_entry fs pclst \<noteq> 0"
  proof (cases "pclst = 0")
    case False
    then have u': "fat_upd fs pclst 0xFFFFFFFF FR_OK fs1" using u that(1) by simp
    have "free_set fs1 = free_set fs - {pclst}"
      using free_set_upd [OF u', of False] p False fat_mask_nonzero by simp
    moreover have "pclst \<notin> free_set fs" using that(2) False by (simp add: free_set_def)
    ultimately have "free_set fs1 = free_set fs" by simp
    then show ?thesis using u' ft.upd_bound [OF u'] by (simp add: count_ok_def fat_upd_def fat_step_def alloc_eq_def)
  qed (use e in simp)
qed

lemma remove_chain_fat:
  assumes "fs_type fs \<noteq> FS_EXFAT" "2 \<le> clst" "clst < n_fatent fs"
    and "(if pclst \<noteq> 0 then put_fat fs pclst 0xFFFFFFFF else (FR_OK, fs)) = (r1, fs1)"
    and "remove_loop (2 * unat (n_fatent fs1)) fs1 obj clst clst clst = (r2, fs2)" "fs_type fs2 \<noteq> FS_EXFAT"
  shows "remove_chain fs obj clst pclst = (if r1 \<noteq> FR_OK then (r1, fs1, obj) else (r2, fs2, obj))"
proof -
  have "\<not> (clst < 2 \<or> n_fatent fs \<le> clst)" using assms by auto
  then show ?thesis using assms(1,4-) by (simp add: remove_chain_def)
qed

lemma remove_chain_ok:
  assumes v: "fat_vol fs" and ch: "is_chain (fat_entry fs) (n_fatent fs) clst xs" and ne: "xs \<noteq> []"
    and p: "pclst = 0 \<or> 2 \<le> pclst \<and> pclst < n_fatent fs \<and> pclst \<notin> set xs"
    and rc: "remove_chain fs obj clst pclst = (r, fs', obj')"
  shows "obj' = obj" "fat_frame fs fs'" "r = FR_OK \<or> r = FR_DISK_ERR"
    "\<And>c. c < n_fatent fs \<Longrightarrow> c \<notin> set xs \<Longrightarrow> c \<noteq> pclst \<Longrightarrow> fat_entry fs' c = fat_entry fs c"
    "\<And>c. r = FR_OK \<Longrightarrow> c \<in> set xs \<Longrightarrow> fat_entry fs' c = 0"
    "r = FR_OK \<Longrightarrow> pclst \<noteq> 0 \<Longrightarrow> n_fatent fs \<le> fat_entry fs' pclst"
    "r = FR_OK \<Longrightarrow> pclst \<noteq> 0 \<longrightarrow> fat_entry fs pclst \<noteq> 0 \<Longrightarrow> count_ok fs \<Longrightarrow> count_ok fs'"
proof -
  obtain r1 fs1 where put: "(if pclst \<noteq> 0 then put_fat fs pclst 0xFFFFFFFF else (FR_OK, fs)) = (r1, fs1)" by fastforce
  obtain r2 fs2 where lp: "remove_loop (2 * unat (n_fatent fs1)) fs1 obj clst clst clst = (r2, fs2)" by fastforce
  have p': "pclst = 0 \<or> 2 \<le> pclst \<and> pclst < n_fatent fs" using p by blast
  note cut = remove_cut [OF v p' put]
  obtain ys where xs: "xs = clst # ys" "2 \<le> clst" "clst < n_fatent fs" using ch ne by (cases xs) auto
  have n1: "n_fatent fs1 = n_fatent fs" using cut(2) by (simp add: fat_frame_def geom_eqD)
  have p0: "pclst \<notin> set xs" using p is_chain_range [OF ch, of 0] by auto
  have "is_chain (fat_entry fs1) (n_fatent fs1) clst (clst # ys)"
    using ch is_chain_cong [of xs "fat_entry fs1" "fat_entry fs"] cut(4) is_chain_range [OF ch] p0 n1 xs(1) by metis
  note lf = remove_loop_frees [OF cut(1) this _ lp]
  have "length xs \<le> unat (n_fatent fs) - 2" by (rule is_chain_length [OF ch])
  then have "length ys < 2 * unat (n_fatent fs1)" using n1 xs(1) by simp
  note lf = lf [OF this]
  have t2: "fs_type fs2 \<noteq> FS_EXFAT"
    using fat_volD(3) [OF fat_vol_frame [OF conjunct1 [OF lf] cut(1)]] .
  have eq: "(r, fs', obj') = (if r1 \<noteq> FR_OK then (r1, fs1, obj) else (r2, fs2, obj))"
    using remove_chain_fat [OF fat_volD(3) [OF v] xs(2,3) put lp t2] rc by simp
  have fr: "fat_frame fs fs2" using cut(2) lf fat_frame_trans by blast
  show "obj' = obj" "fat_frame fs fs'" "r = FR_OK \<or> r = FR_DISK_ERR"
    using eq fr cut(2,3) lf by (auto split: if_splits)
  show "fat_entry fs' c = fat_entry fs c" if "c < n_fatent fs" "c \<notin> set xs" "c \<noteq> pclst" for c
    using eq cut(4) [of c] lf that n1 xs(1) by (auto split: if_splits)
  show "fat_entry fs' c = 0" if "r = FR_OK" "c \<in> set xs" for c
    using eq lf that xs(1) by (auto split: if_splits)
  show "n_fatent fs \<le> fat_entry fs' pclst" if "r = FR_OK" "pclst \<noteq> 0"
    using eq cut(5) lf that n1 p0 p xs(1) by (auto split: if_splits)
  show "count_ok fs'" if "r = FR_OK" "pclst \<noteq> 0 \<longrightarrow> fat_entry fs pclst \<noteq> 0" "count_ok fs"
    using eq cut(6) lf that by (auto split: if_splits)
qed

lemma remove_loop_frame:
  "fat_vol fs \<Longrightarrow> 2 \<le> clst \<Longrightarrow> clst < n_fatent fs \<Longrightarrow>
   remove_loop n fs obj clst scl ecl = (r, fs') \<Longrightarrow> fat_frame fs fs'"
proof (induction n arbitrary: fs clst scl ecl)
  case 0
  then show ?case using fat_volD(2) by simp
next
  case (Suc n)
  obtain nxt fs1 where get: "get_fat fs obj clst = (nxt, fs1)" by fastforce
  obtain res fs2 where put: "put_fat fs1 clst 0 = (res, fs2)" by fastforce
  note st = remove_loop_step [OF Suc.prems(1-3) get put]
  have fr1: "fat_frame fs fs1" by (rule fat_frameI [OF same_vol_fat_step [OF st(1)]])
  have fr2: "fat_frame fs (count_up fs2)" "fat_frame fs fs2" using st(3) by (simp_all add: fat_upd_def fat_frameI)
  have n2: "n_fatent (count_up fs2) = n_fatent fs" using fr2(1) unfolding fat_frame_def by (metis geom_eqD(5))
  have ih: "fat_frame fs fs'" if "remove_loop n (count_up fs2) obj nxt S nxt = (r, fs')"
    "nxt \<noteq> 0" "nxt \<noteq> 1" "nxt < n_fatent fs" for S
    using Suc.IH [OF fat_vol_frame [OF fr2(1) Suc.prems(1)] word_ge2 _ that(1)] that n2
      fat_frame_trans [OF fr2(1)] by auto
  show ?case
    using Suc.prems(4) [unfolded st(4)] fr1 fr2 ih by (auto split: if_splits)
qed

text \<open>It ends on any table.\<close>

lemma remove_chain_terminates:
  assumes v: "fat_vol fs" and p: "pclst = 0 \<or> 2 \<le> pclst \<and> pclst < n_fatent fs"
    and rc: "remove_chain fs obj clst pclst = (r, fs', obj')"
  shows "r \<noteq> FR_TIMEOUT"
proof (cases "clst < 2 \<or> n_fatent fs \<le> clst")
  case True
  then show ?thesis using rc by (auto simp: remove_chain_def)
next
  case False
  obtain r1 fs1 where put: "(if pclst \<noteq> 0 then put_fat fs pclst 0xFFFFFFFF else (FR_OK, fs)) = (r1, fs1)" by fastforce
  obtain r2 fs2 where lp: "remove_loop (2 * unat (n_fatent fs1)) fs1 obj clst clst clst = (r2, fs2)" by fastforce
  note cut = remove_cut [OF v p put]
  have n1: "n_fatent fs1 = n_fatent fs" using cut(2) by (simp add: fat_frame_def geom_eqD)
  have c: "2 \<le> clst" "clst < n_fatent fs1" using False n1 by auto
  have "unat (n_fatent fs1 - 2) - card (free_set fs1) < 2 * unat (n_fatent fs1)"
    using fat_volD(6) [OF cut(1)] by (simp add: unat_sub word_le_nat_alt)
  note t = remove_loop_terminates [OF cut(1) c this, of obj clst clst]
  show ?thesis
    using remove_chain_fat [OF fat_volD(3) [OF v] _ _ put lp] c n1 t lp cut(3) rc
      fat_volD(3) [OF fat_vol_frame [OF remove_loop_frame [OF cut(1) c lp] cut(1)]]
    by (auto split: if_splits)
qed

text \<open>The count after removing a chain, whatever the table holds.\<close>

lemma remove_chain_count:
  assumes v: "fat_vol fs" and co: "count_ok fs" and p: "pclst = 0 \<or> 2 \<le> pclst \<and> pclst < n_fatent fs \<and> fat_entry fs pclst \<noteq> 0"
    and rc: "remove_chain fs obj clst pclst = (r, fs', obj')"
  shows "count_after (r = FR_DISK_ERR) fs'"
proof (cases "clst < 2 \<or> n_fatent fs \<le> clst")
  case True
  then show ?thesis using rc co by (auto simp: remove_chain_def count_afterI)
next
  case False
  obtain r1 fs1 where put: "(if pclst \<noteq> 0 then put_fat fs pclst 0xFFFFFFFF else (FR_OK, fs)) = (r1, fs1)" by fastforce
  obtain r2 fs2 where lp: "remove_loop (2 * unat (n_fatent fs1)) fs1 obj clst clst clst = (r2, fs2)" by fastforce
  have p': "pclst = 0 \<or> 2 \<le> pclst \<and> pclst < n_fatent fs" using p by blast
  note cut = remove_cut [OF v p' put]
  have n1: "n_fatent fs1 = n_fatent fs" using cut(2) by (simp add: fat_frame_def geom_eqD)
  have c: "2 \<le> clst" "clst < n_fatent fs1" using False n1 by auto
  have "fs_type fs2 \<noteq> FS_EXFAT"
    using fat_volD(3) [OF fat_vol_frame [OF remove_loop_frame [OF cut(1) c lp] cut(1)]] .
  then have eq: "(r, fs', obj') = (if r1 \<noteq> FR_OK then (r1, fs1, obj) else (r2, fs2, obj))"
    using remove_chain_fat [OF fat_volD(3) [OF v] _ _ put lp] c n1 rc by simp
  show ?thesis
  proof (cases "r1 = FR_OK")
    case True
    then have "count_ok fs1" using cut(6) p co by auto
    then show ?thesis using remove_loop_count [OF cut(1) c _ lp] eq True by simp
  next
    case False
    then have e: "r1 = FR_DISK_ERR" "pclst \<noteq> 0" using cut(3) put by auto
    then have "fat_upd fs pclst 0xFFFFFFFF r1 fs1" using put_fat_upd [OF fat_volD(1,2,7) [OF v]] p put by simp
    then have "count_near fs1" using count_near_upd [OF co] p e(2) by blast
    then show ?thesis using eq False e(1) by (simp add: count_afterI)
  qed
qed

section \<open>What a successful create\_chain does to chains\<close>

lemma create_result_linked:
  assumes v: "fat_vol fs" and cr: "create_result fs l r fs'" and r: "2 \<le> r" "r < n_fatent fs"
    and new: "l = 0 \<or> n_fatent fs \<le> fat_entry fs l"
  shows "linked fs l r fs'"
proof -
  have "r \<noteq> 0" "r \<noteq> 1" using r(1) by auto
  moreover have "r \<noteq> 0xFFFFFFFF"
    using r(2) unat_dword_less [of "n_fatent fs"] by (auto simp: word_less_nat_alt)
  moreover have "\<not> (l \<noteq> 0 \<and> r = fat_entry fs l)" using new r(2) by auto
  ultimately show ?thesis using cr by (auto simp: create_result_def)
qed

lemma linked_chains:
  assumes v: "fat_vol fs" and l: "l = 0 \<or> 2 \<le> l \<and> l < n_fatent fs" and ln: "linked fs l r fs'"
  shows "ft.chain fs c (xs @ [l]) \<Longrightarrow> l \<noteq> 0 \<Longrightarrow> ft.chain fs' c (xs @ [l, r])"
    and "ft.chain fs d ds \<Longrightarrow> l \<notin> set ds \<Longrightarrow> ft.chain fs' d ds"
    and "l = 0 \<Longrightarrow> ft.chain fs' r [r]"
    and "ft.chain fs d ds \<Longrightarrow> r \<notin> set ds"
proof -
  obtain fs1 fs2 where r: "2 \<le> r" "r < n_fatent fs" "fat_entry fs r = 0"
    and u: "fat_upd fs r 0xFFFFFFFF FR_OK fs1" "if l = 0 then fs2 = fs1 else fat_upd fs1 l r FR_OK fs2"
    and fs2: "fs' = fs2\<lparr>last_clst := r,
        free_clst := if free_clst fs \<le> n_fatent fs - 2 then free_clst fs - 1 else free_clst fs,
        fsi_flag := fsi_flag fs OR 1\<rparr>"
    using ln by (auto simp: linked_def)
  have fs': "ft.chain fs' c xs = ft.chain fs2 c xs" for c xs by (simp add: fs2 ft.chain_def)
  note ok = fat_volD(5) [OF v]
  have ok1: "table_ok fs1" by (rule ft.upd_ok [OF ok u(1)])
  have n1: "n_fatent fs1 = n_fatent fs" by (rule ft.upd_bound [OF u(1)])
  have f: "fat_entry fs r < 2" using r(3) by simp
  show "ft.chain fs' c (xs @ [l, r])" if "ft.chain fs c (xs @ [l])" "l \<noteq> 0"
    using ft.chain_stretch [OF ok that(1) f r(1,2) u(1)] u(2) that(2) by (simp add: fs')
  show nr: "r \<notin> set ds" if "ft.chain fs d ds" for d ds by (rule ft.chain_not_free [OF ok that f])
  show "ft.chain fs' d ds" if ch: "ft.chain fs d ds" and "l \<notin> set ds"
  proof -
    have "ft.chain fs1 d ds" using ft.chain_upd_other [OF ok u(1) r(2) nr [OF ch]] ch by simp
    then show ?thesis
      using ft.chain_upd_other [OF ok1 _ _ that(2), of r fs2] u(2) l n1 by (auto simp: fs' split: if_splits)
  qed
  show "ft.chain fs' r [r]" if "l = 0"
    using ft.upd_entry [OF u(1) r(2) r(2)] ft.cut_eoc [OF ok] u(2) that r n1
    by (simp add: fs2 ft.chain_def)
qed

end
