(* ===== verification/FfDemo.thy ===== *)
theory FfDemo
  imports FfLinks
begin

text \<open>
  A small FAT16 volume on a device of zero bytes but for the entry of cluster 2, which ends a
  chain of one cluster. The properties with hypotheses are applied to it.
\<close>

definition demo_dev :: device where
  "demo_dev =
     \<lparr>d_bytes = (\<lambda>i. if i = 516 \<or> i = 517 then 0xFF else 0), d_read = (\<lambda>off n. Some n),
      d_write = (\<lambda>off n. n), d_seek = (\<lambda>_. True), d_flush = True, d_sector_size = 512,
      d_alloc = (\<lambda>_. True), d_uni2oem = [], d_oem2uni = []\<rparr>"

definition demo_fs :: FATFS where
  "demo_fs =
     \<lparr>fs_type = 2, pdrv = demo_dev, n_fats = 1, wflag = 0, fsi_flag = 0, fs_id = 1,
      n_rootdir = 16, csize = 1, ssize = 512, lfnbuf = (\<lambda>_. 0), dirbuf = (\<lambda>_. 0),
      last_clst = 0, free_clst = 9, n_fatent = 12, fsize = 1, volbase = 0, fatbase = 1,
      dirbase = 2, database = 3, bitbase = 0, winsect = 0, win = (\<lambda>_. 0)\<rparr>"

definition demo_obj :: FFOBJID where
  "demo_obj =
     \<lparr>obj_fs = True, obj_id = 1, attr = 0, stat = 0, sclust = 2, objsize = 0, n_cont = 0,
      n_frag = 0, c_scl = 0, c_size = 0, c_ofs = 0\<rparr>"

lemma demo_win_ok: "win_ok demo_fs"
  by (simp add: win_ok_def demo_fs_def demo_dev_def reads_ok_def dev_sect_def SSn_def)

lemma demo_fat_ok: "fat_ok demo_fs"
  by (simp add: fat_ok_def demo_fs_def in_fat1_def fat_bytes_def fatlen_def SSn_def fat_mask_def)

lemma demo_vol: "fat_vol demo_fs"
  by (simp add: fat_vol_def demo_win_ok demo_fat_ok) (simp add: demo_fs_def)

text \<open>Its table has nine free entries, as its counter says.\<close>

lemma demo_free: "2 \<le> c \<Longrightarrow> c < 12 \<Longrightarrow> fat_entry demo_fs c = 0 \<longleftrightarrow> c \<noteq> 2" for c :: DWORD
proof -
  assume "2 \<le> c" "c < 12"
  then have "2 \<le> unat c" "unat c < 12" by (simp_all add: word_le_nat_alt word_less_nat_alt)
  then have "unat c \<in> {2, 3, 4, 5, 6, 7, 8, 9, 10, 11}" by (simp, arith)
  then have "c \<in> {2, 3, 4, 5, 6, 7, 8, 9, 10, 11}" by (auto simp: word_unat_eq_iff)
  moreover have "fat_entry demo_fs 2 \<noteq> 0" "fat_entry demo_fs 3 = 0" "fat_entry demo_fs 4 = 0"
    "fat_entry demo_fs 5 = 0" "fat_entry demo_fs 6 = 0" "fat_entry demo_fs 7 = 0" "fat_entry demo_fs 8 = 0"
    "fat_entry demo_fs 9 = 0" "fat_entry demo_fs 10 = 0" "fat_entry demo_fs 11 = 0" by code_simp+
  ultimately show ?thesis by auto
qed

lemma demo_count: "count_ok demo_fs"
proof -
  have "free_set demo_fs = {c. 2 \<le> c \<and> c < 12} - {2}"
    using demo_free by (auto simp: free_set_def demo_fs_def [THEN arg_cong, of n_fatent])
  then have "card (free_set demo_fs) = 9" using card_clusters [of 12] by simp
  then show ?thesis by (simp add: count_ok_def) (simp add: demo_fs_def)
qed

end
