(* ===== verification/FfUnicode.thy ===== *)
theory FfUnicode
  imports FfTypes
begin

text \<open>
  Character conversion of \<open>ffunicode.c\<close> for code page 932: the binary searches
  \<open>ff_uni2oem\<close> and \<open>ff_oem2uni\<close>, which take their 7389-entry tables as parameters here, and
  the case folding \<open>ff_wtoupper\<close> with its compressed tables.
\<close>

section \<open>OEM and Unicode\<close>

abbreviation (input) "FF_CODE_PAGE \<equiv> (932 :: WORD)"

text \<open>The search loop: \<open>n\<close> tests are left; \<open>None\<close> when the code leaves the loop with \<open>n = 0\<close>.\<close>

fun bin_search :: "nat \<Rightarrow> WCHAR list \<Rightarrow> WCHAR \<Rightarrow> nat \<Rightarrow> nat \<Rightarrow> nat option" where
  "bin_search 0 p uc li hi = None"
| "bin_search (Suc n) p uc li hi =
     (let i = li + (hi - li) div 2 in
      if uc = p ! (i * 2) then Some i
      else if uc > p ! (i * 2) then bin_search n p uc i hi
      else bin_search n p uc li i)"

definition ff_uni2oem :: "WCHAR list \<Rightarrow> DWORD \<Rightarrow> WORD \<Rightarrow> WCHAR" where
  "ff_uni2oem p uni cp =
     (if uni < 0x80 then ucast uni
      else if uni < 0x10000 \<and> cp = FF_CODE_PAGE then
        (case bin_search 16 p (ucast uni) 0 (length p div 2 - 1) of
          Some i \<Rightarrow> p ! (i * 2 + 1)
        | None \<Rightarrow> 0)
      else 0)"

definition ff_oem2uni :: "WCHAR list \<Rightarrow> WCHAR \<Rightarrow> WORD \<Rightarrow> WCHAR" where
  "ff_oem2uni p oem cp =
     (if oem < 0x80 then oem
      else if cp = FF_CODE_PAGE then
        (case bin_search 16 p oem 0 (length p div 2 - 1) of
          Some i \<Rightarrow> p ! (i * 2 + 1)
        | None \<Rightarrow> 0)
      else 0)"

section \<open>Up-case conversion\<close>

definition cvt1 :: "WORD list" where
  "cvt1 = [
    0x0061, 0x031A, 0x00E0, 0x0317, 0x00F8, 0x0307, 0x00FF, 0x0001, 0x0178, 0x0100, 0x0130, 0x0132,
    0x0106, 0x0139, 0x0110, 0x014A, 0x012E, 0x0179, 0x0106, 0x0180, 0x004D, 0x0243, 0x0181, 0x0182,
    0x0182, 0x0184, 0x0184, 0x0186, 0x0187, 0x0187, 0x0189, 0x018A, 0x018B, 0x018B, 0x018D, 0x018E,
    0x018F, 0x0190, 0x0191, 0x0191, 0x0193, 0x0194, 0x01F6, 0x0196, 0x0197, 0x0198, 0x0198, 0x023D,
    0x019B, 0x019C, 0x019D, 0x0220, 0x019F, 0x01A0, 0x01A0, 0x01A2, 0x01A2, 0x01A4, 0x01A4, 0x01A6,
    0x01A7, 0x01A7, 0x01A9, 0x01AA, 0x01AB, 0x01AC, 0x01AC, 0x01AE, 0x01AF, 0x01AF, 0x01B1, 0x01B2,
    0x01B3, 0x01B3, 0x01B5, 0x01B5, 0x01B7, 0x01B8, 0x01B8, 0x01BA, 0x01BB, 0x01BC, 0x01BC, 0x01BE,
    0x01F7, 0x01C0, 0x01C1, 0x01C2, 0x01C3, 0x01C4, 0x01C5, 0x01C4, 0x01C7, 0x01C8, 0x01C7, 0x01CA,
    0x01CB, 0x01CA, 0x01CD, 0x0110, 0x01DD, 0x0001, 0x018E, 0x01DE, 0x0112, 0x01F3, 0x0003, 0x01F1,
    0x01F4, 0x01F4, 0x01F8, 0x0128, 0x0222, 0x0112, 0x023A, 0x0009, 0x2C65, 0x023B, 0x023B, 0x023D,
    0x2C66, 0x023F, 0x0240, 0x0241, 0x0241, 0x0246, 0x010A, 0x0253, 0x0040, 0x0181, 0x0186, 0x0255,
    0x0189, 0x018A, 0x0258, 0x018F, 0x025A, 0x0190, 0x025C, 0x025D, 0x025E, 0x025F, 0x0193, 0x0261,
    0x0262, 0x0194, 0x0264, 0x0265, 0x0266, 0x0267, 0x0197, 0x0196, 0x026A, 0x2C62, 0x026C, 0x026D,
    0x026E, 0x019C, 0x0270, 0x0271, 0x019D, 0x0273, 0x0274, 0x019F, 0x0276, 0x0277, 0x0278, 0x0279,
    0x027A, 0x027B, 0x027C, 0x2C64, 0x027E, 0x027F, 0x01A6, 0x0281, 0x0282, 0x01A9, 0x0284, 0x0285,
    0x0286, 0x0287, 0x01AE, 0x0244, 0x01B1, 0x01B2, 0x0245, 0x028D, 0x028E, 0x028F, 0x0290, 0x0291,
    0x01B7, 0x037B, 0x0003, 0x03FD, 0x03FE, 0x03FF, 0x03AC, 0x0004, 0x0386, 0x0388, 0x0389, 0x038A,
    0x03B1, 0x0311, 0x03C2, 0x0002, 0x03A3, 0x03A3, 0x03C4, 0x0308, 0x03CC, 0x0003, 0x038C, 0x038E,
    0x038F, 0x03D8, 0x0118, 0x03F2, 0x000A, 0x03F9, 0x03F3, 0x03F4, 0x03F5, 0x03F6, 0x03F7, 0x03F7,
    0x03F9, 0x03FA, 0x03FA, 0x0430, 0x0320, 0x0450, 0x0710, 0x0460, 0x0122, 0x048A, 0x0136, 0x04C1,
    0x010E, 0x04CF, 0x0001, 0x04C0, 0x04D0, 0x0144, 0x0561, 0x0426, 0x0000]"

definition cvt2 :: "WORD list" where
  "cvt2 = [
    0x1D7D, 0x0001, 0x2C63, 0x1E00, 0x0196, 0x1EA0, 0x015A, 0x1F00, 0x0608, 0x1F10, 0x0606, 0x1F20,
    0x0608, 0x1F30, 0x0608, 0x1F40, 0x0606, 0x1F51, 0x0007, 0x1F59, 0x1F52, 0x1F5B, 0x1F54, 0x1F5D,
    0x1F56, 0x1F5F, 0x1F60, 0x0608, 0x1F70, 0x000E, 0x1FBA, 0x1FBB, 0x1FC8, 0x1FC9, 0x1FCA, 0x1FCB,
    0x1FDA, 0x1FDB, 0x1FF8, 0x1FF9, 0x1FEA, 0x1FEB, 0x1FFA, 0x1FFB, 0x1F80, 0x0608, 0x1F90, 0x0608,
    0x1FA0, 0x0608, 0x1FB0, 0x0004, 0x1FB8, 0x1FB9, 0x1FB2, 0x1FBC, 0x1FCC, 0x0001, 0x1FC3, 0x1FD0,
    0x0602, 0x1FE0, 0x0602, 0x1FE5, 0x0001, 0x1FEC, 0x1FF3, 0x0001, 0x1FFC, 0x214E, 0x0001, 0x2132,
    0x2170, 0x0210, 0x2184, 0x0001, 0x2183, 0x24D0, 0x051A, 0x2C30, 0x042F, 0x2C60, 0x0102, 0x2C67,
    0x0106, 0x2C75, 0x0102, 0x2C80, 0x0164, 0x2D00, 0x0826, 0xFF41, 0x031A, 0x0000]"

text \<open>The command of a block applied to a character in it; \<open>p\<close> is the data after the block head.\<close>

definition wtoupper_cmd :: "WORD \<Rightarrow> WORD list \<Rightarrow> WORD \<Rightarrow> WORD \<Rightarrow> WORD" where
  "wtoupper_cmd cmd p bc uc =
     (if cmd = 0 then p ! unat (uc - bc)
      else if cmd = 1 then uc - ((uc - bc) AND 1)
      else if cmd = 2 then uc - 16
      else if cmd = 3 then uc - 32
      else if cmd = 4 then uc - 48
      else if cmd = 5 then uc - 26
      else if cmd = 6 then uc + 8
      else if cmd = 7 then uc - 80
      else if cmd = 8 then uc - 0x1C60
      else uc)"

text \<open>The walk over the blocks; a table ends with a zero block base.\<close>

function wtoupper_walk :: "WORD list \<Rightarrow> WORD \<Rightarrow> WORD" where
  "wtoupper_walk [] uc = uc"
| "wtoupper_walk [bc] uc = uc"
| "wtoupper_walk (bc # w # p) uc =
     (if bc = 0 \<or> uc < bc then uc
      else
        let cmd = drop_bit 8 w; nc = w AND 0xFF in
        if unat uc < unat bc + unat nc then wtoupper_cmd cmd p bc uc
        else wtoupper_walk (if cmd = 0 then drop (unat nc) p else p) uc)"
  by pat_completeness auto
termination by (relation "measure (\<lambda>(p, uc). length p)") auto

definition ff_wtoupper :: "DWORD \<Rightarrow> DWORD" where
  "ff_wtoupper uni =
     (if uni < 0x10000 then
        let uc = ucast uni :: WORD in
        ucast (wtoupper_walk (if uc < 0x1000 then cvt1 else cvt2) uc)
      else uni)"

section \<open>The search finds what the table holds\<close>

text \<open>
  The table is a sequence of pairs, sorted by their first components, closed by a pair of zeros
  that is not part of it. \<open>n\<close> counts the pairs before the end.
\<close>

definition keys_sorted :: "WCHAR list \<Rightarrow> nat \<Rightarrow> bool" where
  "keys_sorted p n \<longleftrightarrow> (\<forall>i j. i < j \<longrightarrow> j < n \<longrightarrow> p ! (2 * i) < p ! (2 * j))"

lemma bin_search_sound: "bin_search n p uc li hi = Some i \<Longrightarrow> uc = p ! (2 * i)"
  by (induction n arbitrary: li hi) (auto simp: Let_def mult.commute split: if_splits)

lemma bin_search_stuck: "uc \<noteq> p ! (2 * m) \<Longrightarrow> bin_search n p uc m m = None"
  by (induction n) (simp_all add: Let_def mult.commute)

lemma bin_search_range: "bin_search n p uc li hi = Some i \<Longrightarrow> li < hi \<Longrightarrow> li \<le> i \<and> i < hi"
proof (induction n arbitrary: li hi)
  case (Suc n)
  define m where "m = li + (hi - li) div 2"
  have m: "li \<le> m" "m < hi" using Suc.prems(2) by (auto simp: m_def)
  have st: "bin_search (Suc n) p uc li hi =
    (if uc = p ! (2 * m) then Some m else if uc > p ! (2 * m) then bin_search n p uc m hi else bin_search n p uc li m)"
    by (simp add: Let_def m_def mult.commute)
  show ?case
  proof (cases "uc = p ! (2 * m)")
    case True
    then show ?thesis using Suc.prems(1) st m by simp
  next
    case ne: False
    show ?thesis
    proof (cases "uc > p ! (2 * m)")
      case True
      then have "bin_search n p uc m hi = Some i" using Suc.prems(1) st ne by simp
      then show ?thesis using Suc.IH [of m hi] m by simp
    next
      case False
      then have b: "bin_search n p uc li m = Some i" using Suc.prems(1) st ne by simp
      then have "li < m" using bin_search_stuck [OF ne, of n] m(1) by (cases "li = m") auto
      then show ?thesis using Suc.IH [OF b] m by simp
    qed
  qed
qed simp

lemma bin_search_complete:
  "keys_sorted p n \<Longrightarrow> li \<le> t \<Longrightarrow> t < hi \<Longrightarrow> hi \<le> n \<Longrightarrow> p ! (2 * t) = uc \<Longrightarrow> hi - li \<le> 2 ^ k \<Longrightarrow>
   bin_search (Suc k) p uc li hi = Some t"
proof (induction k arbitrary: li hi)
  case 0
  then have "li + (hi - li) div 2 = t" by auto
  then show ?case using 0 by (simp add: Let_def mult.commute)
next
  case (Suc k)
  define m where "m = li + (hi - li) div 2"
  have m: "li \<le> m" "m < hi" "hi - m \<le> 2 ^ k" "m - li \<le> 2 ^ k" using Suc.prems(2,3,6) by (auto simp: m_def)
  have st: "bin_search (Suc (Suc k)) p uc li hi =
    (if uc = p ! (2 * m) then Some m else if uc > p ! (2 * m) then bin_search (Suc k) p uc m hi
     else bin_search (Suc k) p uc li m)"
    by (subst bin_search.simps) (simp only: Let_def m_def mult.commute)
  have less: "p ! (2 * i) < p ! (2 * j)" if "i < j" "j < n" for i j
    using Suc.prems(1) that by (simp add: keys_sorted_def)
  consider "t = m" | "m < t" | "t < m" by linarith
  then show ?case
  proof cases
    case 1
    then show ?thesis using st Suc.prems(5) by simp
  next
    case 2
    then have "p ! (2 * m) < uc" using less [of m t] Suc.prems(3,4,5) by simp
    then show ?thesis using st Suc.IH [OF Suc.prems(1) _ Suc.prems(3,4,5) m(3)] 2 by auto
  next
    case 3
    then have "uc < p ! (2 * m)" using less [of t m] m(2) Suc.prems(4,5) by simp
    then show ?thesis using st Suc.IH [OF Suc.prems(1,2) 3 _ Suc.prems(5) m(4)] m(2) Suc.prems(4) by auto
  qed
qed

text \<open>The reference: the first pair with the key, in order.\<close>

definition pair_lookup :: "WCHAR list \<Rightarrow> nat \<Rightarrow> WCHAR \<Rightarrow> WCHAR" where
  "pair_lookup p n uc =
     (case find (\<lambda>i. p ! (2 * i) = uc) [0..<n] of Some i \<Rightarrow> p ! (2 * i + 1) | None \<Rightarrow> 0)"

lemma find_key:
  assumes "keys_sorted p n" and "t < n" and "p ! (2 * t) = uc"
  shows "find (\<lambda>i. p ! (2 * i) = uc) [0..<n] = Some t"
proof -
  have "p ! (2 * i) \<noteq> uc" if "i < t" for i
    using assms(1,2,3) that by (metis keys_sorted_def less_irrefl)
  then show ?thesis using assms(2,3) by (auto simp: find_Some_iff)
qed

lemma bin_search_lookup:
  assumes "keys_sorted p n" and "0 < n" "n \<le> 2 ^ 15"
  shows "(case bin_search 16 p uc 0 n of Some i \<Rightarrow> p ! (i * 2 + 1) | None \<Rightarrow> 0) = pair_lookup p n uc"
proof (cases "\<exists>t<n. p ! (2 * t) = uc")
  case True
  then obtain t where t: "t < n" "p ! (2 * t) = uc" by blast
  have "bin_search (Suc 15) p uc 0 n = Some t"
    by (rule bin_search_complete [OF assms(1) _ t(1) _ t(2)]) (use assms(3) in auto)
  moreover have "Suc 15 = 16" by simp
  ultimately have "bin_search 16 p uc 0 n = Some t" by metis
  then show ?thesis by (simp add: pair_lookup_def find_key [OF assms(1) t]) (simp add: mult.commute)
next
  case False
  then have "bin_search 16 p uc 0 n = None"
    using bin_search_sound [of 16 p uc 0 n] bin_search_range [of 16 p uc 0 n] assms(2)
    by (cases "bin_search 16 p uc 0 n") auto
  moreover have "find (\<lambda>i. p ! (2 * i) = uc) [0..<n] = None" using False by (auto simp: find_None_iff)
  ultimately show ?thesis by (simp add: pair_lookup_def)
qed

end
