(* ===== verification/FfName.thy ===== *)
theory FfName
  imports FfUnicode
begin

text \<open>
  Names in directory entries (\<open>ff.c\<close>): code page 932 lead and trail bytes, UTF-16 units of the
  API strings, the parts of a long name (\<open>cmp_lfn\<close>, \<open>pick_lfn\<close>, \<open>put_lfn\<close>), numbered short
  names, and the checksums. A pointer to an entry is a buffer and an offset in it.
\<close>

section \<open>Characters\<close>

definition DbcTbl :: "BYTE list" where
  "DbcTbl = [0x81, 0x9F, 0xE0, 0xFC, 0x40, 0x7E, 0x80, 0xFC, 0x00, 0x00]"

definition dbc_1st :: "BYTE \<Rightarrow> bool" where
  "dbc_1st c =
     (c \<ge> DbcTbl ! 0 \<and> (c \<le> DbcTbl ! 1 \<or> c \<ge> DbcTbl ! 2 \<and> c \<le> DbcTbl ! 3))"

definition dbc_2nd :: "BYTE \<Rightarrow> bool" where
  "dbc_2nd c =
     (c \<ge> DbcTbl ! 4 \<and>
      (c \<le> DbcTbl ! 5 \<or> c \<ge> DbcTbl ! 6 \<and> c \<le> DbcTbl ! 7 \<or> c \<ge> DbcTbl ! 8 \<and> c \<le> DbcTbl ! 9))"

definition IsSurrogate :: "DWORD \<Rightarrow> bool" where
  "IsSurrogate c = (c \<ge> 0xD800 \<and> c \<le> 0xDFFF)"

definition IsSurrogateH :: "DWORD \<Rightarrow> bool" where
  "IsSurrogateH c = (c \<ge> 0xD800 \<and> c \<le> 0xDBFF)"

definition IsSurrogateL :: "DWORD \<Rightarrow> bool" where
  "IsSurrogateL c = (c \<ge> 0xDC00 \<and> c \<le> 0xDFFF)"

text \<open>\<open>tchar2uni\<close> reads at index \<open>p\<close> of the string and returns the index behind what it read.\<close>

definition tchar2uni :: "(nat \<Rightarrow> WCHAR) \<Rightarrow> nat \<Rightarrow> DWORD \<times> nat" where
  "tchar2uni str p =
     (let uc = ucast (str p) in
      if IsSurrogate uc then
        let wc = str (p + 1) in
        if \<not> IsSurrogateH uc \<or> \<not> IsSurrogateL (ucast wc) then (0xFFFFFFFF, p)
        else (push_bit 16 uc OR ucast wc, p + 2)
      else (uc, p + 1))"

text \<open>\<open>put_utf\<close> writes at index \<open>p\<close> of the buffer, of which \<open>szb\<close> units are left.\<close>

definition put_utf :: "DWORD \<Rightarrow> (nat \<Rightarrow> WCHAR) \<Rightarrow> nat \<Rightarrow> nat \<Rightarrow> nat \<times> (nat \<Rightarrow> WCHAR)" where
  "put_utf chr bf p szb =
     (let hs = ucast (drop_bit 16 chr) :: WCHAR; wc = ucast chr :: WCHAR in
      if hs = 0 then
        if szb < 1 \<or> IsSurrogate (ucast wc) then (0, bf) else (1, bf(p := wc))
      else if szb < 2 \<or> \<not> IsSurrogateH (ucast hs) \<or> \<not> IsSurrogateL (ucast wc) then (0, bf)
      else (2, bf(p := hs, p + 1 := wc)))"

section \<open>Start cluster of an entry\<close>

definition ld_clust :: "FATFS \<Rightarrow> mem \<Rightarrow> nat \<Rightarrow> DWORD" where
  "ld_clust fs dir p =
     (let cl = ucast (ld_word dir (p + 26)) in
      if fs_type fs = FS_FAT32 then cl OR push_bit 16 (ucast (ld_word dir (p + 20))) else cl)"

definition st_clust :: "FATFS \<Rightarrow> mem \<Rightarrow> nat \<Rightarrow> DWORD \<Rightarrow> mem" where
  "st_clust fs dir p cl =
     (let dir = st_word dir (p + 26) (ucast cl) in
      if fs_type fs = FS_FAT32 then st_word dir (p + 20) (ucast (drop_bit 16 cl)) else dir)"

section \<open>Parts of a long name\<close>

definition LfnOfs :: "nat list" where
  "LfnOfs = [1, 3, 5, 7, 9, 14, 16, 18, 20, 22, 24, 28, 30]"

text \<open>The loops over the 13 characters of an entry, over the offsets still to process.\<close>

fun cmp_lfn_loop :: "nat list \<Rightarrow> (nat \<Rightarrow> WCHAR) \<Rightarrow> mem \<Rightarrow> nat \<Rightarrow> UINT \<Rightarrow> WCHAR \<Rightarrow> (UINT \<times> WCHAR) option" where
  "cmp_lfn_loop [] lfnb dir p i wc = Some (i, wc)"
| "cmp_lfn_loop (o1 # os) lfnb dir p i wc =
     (let uc = ld_word dir (p + o1) in
      if wc \<noteq> 0 then
        if i \<ge> 256 \<or> ff_wtoupper (ucast uc) \<noteq> ff_wtoupper (ucast (lfnb (unat i))) then None
        else cmp_lfn_loop os lfnb dir p (i + 1) uc
      else if uc \<noteq> 0xFFFF then None
      else cmp_lfn_loop os lfnb dir p i wc)"

definition cmp_lfn :: "(nat \<Rightarrow> WCHAR) \<Rightarrow> mem \<Rightarrow> nat \<Rightarrow> bool" where
  "cmp_lfn lfnb dir p =
     (if ld_word dir (p + 26) \<noteq> 0 then False
      else
        let i = (ucast (dir p AND 0x3F) - 1) * 13 in
        case cmp_lfn_loop LfnOfs lfnb dir p i 1 of
          None \<Rightarrow> False
        | Some (i, wc) \<Rightarrow> \<not> (dir p AND 0x40 \<noteq> 0 \<and> wc \<noteq> 0 \<and> lfnb (unat i) \<noteq> 0))"

fun pick_lfn_loop ::
  "nat list \<Rightarrow> (nat \<Rightarrow> WCHAR) \<Rightarrow> mem \<Rightarrow> nat \<Rightarrow> UINT \<Rightarrow> WCHAR \<Rightarrow> (UINT \<times> WCHAR) option \<times> (nat \<Rightarrow> WCHAR)"
where
  "pick_lfn_loop [] lfnb dir p i wc = (Some (i, wc), lfnb)"
| "pick_lfn_loop (o1 # os) lfnb dir p i wc =
     (let uc = ld_word dir (p + o1) in
      if wc \<noteq> 0 then
        if i \<ge> 256 then (None, lfnb)
        else pick_lfn_loop os (lfnb(unat i := uc)) dir p (i + 1) uc
      else if uc \<noteq> 0xFFFF then (None, lfnb)
      else pick_lfn_loop os lfnb dir p i wc)"

definition pick_lfn :: "(nat \<Rightarrow> WCHAR) \<Rightarrow> mem \<Rightarrow> nat \<Rightarrow> bool \<times> (nat \<Rightarrow> WCHAR)" where
  "pick_lfn lfnb dir p =
     (if ld_word dir (p + 26) \<noteq> 0 then (False, lfnb)
      else
        let i = (ucast (dir p AND 0xBF) - 1) * 13 in
        case pick_lfn_loop LfnOfs lfnb dir p i 1 of
          (None, lfnb) \<Rightarrow> (False, lfnb)
        | (Some (i, wc), lfnb) \<Rightarrow>
            if dir p AND 0x40 \<noteq> 0 \<and> wc \<noteq> 0 then
              if i \<ge> 256 then (False, lfnb) else (True, lfnb(unat i := 0))
            else (True, lfnb))"

fun put_lfn_loop :: "nat list \<Rightarrow> (nat \<Rightarrow> WCHAR) \<Rightarrow> mem \<Rightarrow> nat \<Rightarrow> UINT \<Rightarrow> WCHAR \<Rightarrow> mem \<times> UINT \<times> WCHAR" where
  "put_lfn_loop [] lfn dir p i wc = (dir, i, wc)"
| "put_lfn_loop (o1 # os) lfn dir p i wc =
     (let (wc, i) = (if wc \<noteq> 0xFFFF then (lfn (unat i), i + 1) else (wc, i));
          dir = st_word dir (p + o1) wc in
      put_lfn_loop os lfn dir p i (if wc = 0 then 0xFFFF else wc))"

definition put_lfn :: "(nat \<Rightarrow> WCHAR) \<Rightarrow> mem \<Rightarrow> nat \<Rightarrow> BYTE \<Rightarrow> BYTE \<Rightarrow> mem" where
  "put_lfn lfn dir p ord sm =
     (let dir = dir(p + 13 := sm, p + 11 := 0x0F, p + 12 := 0);
          dir = st_word dir (p + 26) 0;
          i = (ucast ord - 1) * 13;
          (dir, i, wc) = put_lfn_loop LfnOfs lfn dir p i 0 in
      dir(p := if wc = 0xFFFF \<or> lfn (unat i) = 0 then ord OR 0x40 else ord))"

section \<open>Numbered short names\<close>

definition crc_bit :: "DWORD \<times> WCHAR \<Rightarrow> DWORD \<times> WCHAR" where
  "crc_bit = (\<lambda>(sreg, wc).
     let sreg = push_bit 1 sreg + ucast (wc AND 1) in
     (if sreg AND 0x10000 \<noteq> 0 then sreg XOR 0x11021 else sreg, drop_bit 1 wc))"

text \<open>The hash over the long name up to its terminator, which lies in the first 256 units.\<close>

fun crc_lfn :: "nat \<Rightarrow> (nat \<Rightarrow> WCHAR) \<Rightarrow> nat \<Rightarrow> DWORD \<Rightarrow> DWORD" where
  "crc_lfn 0 lfn k sreg = sreg"
| "crc_lfn (Suc n) lfn k sreg =
     (if lfn k = 0 then sreg else crc_lfn n lfn (k + 1) (fst ((crc_bit ^^ 16) (sreg, lfn k))))"

text \<open>The suffix is built from its end; the step count is \<open>i\<close>, which the loop counts down.\<close>

fun num_suffix :: "nat \<Rightarrow> mem \<Rightarrow> UINT \<Rightarrow> mem \<times> nat" where
  "num_suffix 0 ns seq = (ns, 0)"
| "num_suffix (Suc i) ns seq =
     (let c = ucast (seq mod 16) + 0x30;
          seq = seq div 16;
          c = (if c > 0x39 then c + 7 else c);
          ns = ns(Suc i := c) in
      if i \<noteq> 0 \<and> seq \<noteq> 0 then num_suffix i ns seq else (ns, i))"

function body_end :: "mem \<Rightarrow> nat \<Rightarrow> nat \<Rightarrow> nat" where
  "body_end dst i j =
     (if j < i \<and> dst j \<noteq> 0x20 then
        if dbc_1st (dst j) then if j = i - 1 then j else body_end dst i (j + 2)
        else body_end dst i (j + 1)
      else j)"
  by pat_completeness auto
termination by (relation "measure (\<lambda>(dst, i, j). i - j)") auto

fun put_suffix :: "nat \<Rightarrow> mem \<Rightarrow> mem \<Rightarrow> nat \<Rightarrow> nat \<Rightarrow> mem" where
  "put_suffix 0 dst ns i j = dst"
| "put_suffix (Suc n) dst ns i j =
     (let (c, i) = (if i < 8 then (ns i, i + 1) else (0x20, i));
          dst = dst(j := c) in
      if j + 1 < 8 then put_suffix n dst ns i (j + 1) else dst)"

definition gen_numname :: "mem \<Rightarrow> mem \<Rightarrow> (nat \<Rightarrow> WCHAR) \<Rightarrow> UINT \<Rightarrow> mem" where
  "gen_numname dst src lfn seq =
     (let dst = mem_cpy dst 0 src 0 11;
          seq = (if seq > 5 then crc_lfn 256 lfn 0 seq else seq);
          (ns, i) = num_suffix 7 (\<lambda>_. 0) seq;
          ns = ns(i := 0x7E);
          j = body_end dst i 0 in
      put_suffix 8 dst ns i j)"

section \<open>Checksums\<close>

fun sum_sfn_loop :: "nat \<Rightarrow> mem \<Rightarrow> nat \<Rightarrow> BYTE \<Rightarrow> BYTE" where
  "sum_sfn_loop 0 dir p sm = sm"
| "sum_sfn_loop (Suc n) dir p sm =
     sum_sfn_loop n dir (p + 1) (drop_bit 1 sm + push_bit 7 sm + dir p)"

definition sum_sfn :: "mem \<Rightarrow> nat \<Rightarrow> BYTE" where
  "sum_sfn dir p = sum_sfn_loop 11 dir p 0"

definition xsum_step :: "WORD \<Rightarrow> WORD \<Rightarrow> WORD" where
  "xsum_step sm v = (if sm AND 1 \<noteq> 0 then 0x8000 else 0) + drop_bit 1 sm + v"

function xdir_sum_loop :: "mem \<Rightarrow> nat \<Rightarrow> nat \<Rightarrow> WORD \<Rightarrow> WORD" where
  "xdir_sum_loop dir szblk i sm =
     (if i < szblk then
        if i = 2 then xdir_sum_loop dir szblk (i + 2) sm
        else xdir_sum_loop dir szblk (i + 1) (xsum_step sm (ucast (dir i)))
      else sm)"
  by pat_completeness auto
termination by (relation "measure (\<lambda>(dir, szblk, i, sm). szblk - i)") auto

definition xdir_sum :: "mem \<Rightarrow> WORD" where
  "xdir_sum dir = xdir_sum_loop dir ((unat (dir 1) + 1) * 32) 0 0"

fun xname_sum_loop :: "nat \<Rightarrow> (nat \<Rightarrow> WCHAR) \<Rightarrow> nat \<Rightarrow> WORD \<Rightarrow> WORD" where
  "xname_sum_loop 0 name k sm = sm"
| "xname_sum_loop (Suc n) name k sm =
     (if name k = 0 then sm
      else
        let chr = ucast (ff_wtoupper (ucast (name k))) :: WCHAR;
            sm = xsum_step sm (chr AND 0xFF);
            sm = xsum_step sm (drop_bit 8 chr) in
        xname_sum_loop n name (k + 1) sm)"

definition xname_sum :: "(nat \<Rightarrow> WCHAR) \<Rightarrow> WORD" where
  "xname_sum name = xname_sum_loop 256 name 0 0"

definition xsum32 :: "BYTE \<Rightarrow> DWORD \<Rightarrow> DWORD" where
  "xsum32 dat sm = (if sm AND 1 \<noteq> 0 then 0x80000000 else 0) + drop_bit 1 sm + ucast dat"

end
