(* ===== verification/FfDir.thy ===== *)
theory FfDir
  imports FfLinks FfName
begin

text \<open>
  Directory tables of \<open>ff.c\<close>: walking and stretching a table (\<open>dir_sdi\<close>, \<open>dir_next\<close>,
  \<open>dir_alloc\<close>, \<open>dir_clear\<close>), the entry blocks of exFAT, and reading, finding, registering and
  removing objects. Operations take the volume and the directory object and return both. The
  loops over a table end because \<open>dir_next\<close> advances the offset up to a limit.
\<close>

section \<open>Clearing a cluster\<close>

text \<open>The size of the buffer: halved until the allocator grants it or it is a sector or less.\<close>

function clear_size :: "FATFS \<Rightarrow> DWORD \<Rightarrow> DWORD" where
  "clear_size fs szb =
     (if szb > SS fs \<and> \<not> d_alloc (pdrv fs) (unat szb) then clear_size fs (szb div 2) else szb)"
  by pat_completeness auto
termination
proof (relation "measure (\<lambda>(fs, szb). unat szb)")
  fix fs :: FATFS and szb :: DWORD
  assume "szb > SS fs \<and> \<not> d_alloc (pdrv fs) (unat szb)"
  then have "0 < unat szb" by (simp add: word_less_nat_alt)
  then show "((fs, szb div 2), (fs, szb)) \<in> measure (\<lambda>(fs, szb). unat szb)" by (simp add: unat_div)
qed simp

declare clear_size.simps [simp del]

text \<open>The writes; the step count bounds the number of sectors.\<close>

fun clear_loop :: "nat \<Rightarrow> FATFS \<Rightarrow> mem \<Rightarrow> LBA \<Rightarrow> UINT \<Rightarrow> UINT \<Rightarrow> UINT \<times> FATFS" where
  "clear_loop 0 fs ibuf sect szb n = (n, fs)"
| "clear_loop (Suc k) fs ibuf sect szb n =
     (if n < ucast (csize fs) then
        (case disk_write (pdrv fs) ibuf (sect + n) szb of (r, d) \<Rightarrow>
          let fs = fs\<lparr>pdrv := d\<rparr> in
          if r = RES_OK then clear_loop k fs ibuf sect szb (n + szb) else (n, fs))
      else (n, fs))"

definition dir_clear :: "FATFS \<Rightarrow> DWORD \<Rightarrow> FRESULT \<times> FATFS" where
  "dir_clear fs clst =
     (case sync_window fs of (res, fs) \<Rightarrow>
      if res \<noteq> FR_OK then (FR_DISK_ERR, fs)
      else
        let sect = clst2sect fs clst;
            fs = fs\<lparr>winsect := sect, win := mem_set (win fs) 0 0 4096\<rparr>;
            full = ucast (csize fs) * SS fs;
            szb = clear_size fs (if full \<ge> 0x8000 then 0x8000 else full) in
        (case (if szb > SS fs
               then clear_loop (Suc (unat (csize fs))) fs (\<lambda>_. 0) sect (szb div SS fs) 0
               else clear_loop (Suc (unat (csize fs))) fs (win fs) sect 1 0) of (n, fs) \<Rightarrow>
          (if n = ucast (csize fs) then FR_OK else FR_DISK_ERR, fs)))"

section \<open>Walking a table\<close>

abbreviation (input) "MAX_DIR \<equiv> (0x200000 :: DWORD)"
abbreviation (input) "MAX_DIR_EX \<equiv> (0x10000000 :: DWORD)"

definition max_dir :: "FATFS \<Rightarrow> DWORD" where
  "max_dir fs = (if fs_type fs = FS_EXFAT then MAX_DIR_EX else MAX_DIR)"

text \<open>\<open>Inl\<close> the result the code returns, \<open>Inr\<close> the cluster and the offset left in it.\<close>

fun sdi_loop :: "nat \<Rightarrow> FATFS \<Rightarrow> FFOBJID \<Rightarrow> DWORD \<Rightarrow> DWORD \<Rightarrow> DWORD \<Rightarrow> (FRESULT + DWORD \<times> DWORD) \<times> FATFS" where
  "sdi_loop 0 fs obj csz clst ofs = (Inl FR_TIMEOUT, fs)"
| "sdi_loop (Suc n) fs obj csz clst ofs =
     (if ofs \<ge> csz then
        (case get_fat fs obj clst of (clst, fs) \<Rightarrow>
          if clst = 0xFFFFFFFF then (Inl FR_DISK_ERR, fs)
          else if clst < 2 \<or> clst \<ge> n_fatent fs then (Inl FR_INT_ERR, fs)
          else sdi_loop n fs obj csz clst (ofs - csz))
      else (Inr (clst, ofs), fs))"

definition dir_sdi :: "FATFS \<Rightarrow> FDIR \<Rightarrow> DWORD \<Rightarrow> FRESULT \<times> FATFS \<times> FDIR" where
  "dir_sdi fs dp ofs =
     (if ofs \<ge> max_dir fs \<or> ofs mod 32 \<noteq> 0 then (FR_INT_ERR, fs, dp)
      else
        let dp = dp\<lparr>dptr := ofs\<rparr>;
            clst = sclust (d_obj dp);
            (clst, dp) = (if clst = 0 \<and> fs_type fs \<ge> FS_FAT32
                          then (dirbase fs, dp\<lparr>d_obj := (d_obj dp)\<lparr>stat := 0\<rparr>\<rparr>) else (clst, dp)) in
        (case (if clst = 0 then
                 if ofs div 32 \<ge> ucast (n_rootdir fs) then (Inl FR_INT_ERR, fs)
                 else (Inr (clst, ofs, dirbase fs), fs)
               else
                 let csz = ucast (csize fs) * SS fs in
                 (case sdi_loop (Suc (unat (ofs div csz))) fs (d_obj dp) csz clst ofs of
                    (Inl res, fs) \<Rightarrow> (Inl res, fs)
                  | (Inr (clst, ofs), fs) \<Rightarrow> (Inr (clst, ofs, clst2sect fs clst), fs))) of
           (Inl res, fs) \<Rightarrow> (res, fs, dp)
         | (Inr (clst, ofs, sect), fs) \<Rightarrow>
             let dp = dp\<lparr>d_sect := sect, d_clust := clst\<rparr> in
             if sect = 0 then (FR_INT_ERR, fs, dp)
             else (FR_OK, fs, dp\<lparr>d_sect := sect + ofs div SS fs, d_dir := unat (ofs mod SS fs)\<rparr>)))"

text \<open>The next cluster of a dynamic table, stretched if asked for.\<close>

definition next_cluster :: "FATFS \<Rightarrow> FDIR \<Rightarrow> bool \<Rightarrow> FRESULT \<times> FATFS \<times> FDIR" where
  "next_cluster fs dp stretch =
     (case get_fat fs (d_obj dp) (d_clust dp) of (clst, fs) \<Rightarrow>
      if clst \<le> 1 then (FR_INT_ERR, fs, dp)
      else if clst = 0xFFFFFFFF then (FR_DISK_ERR, fs, dp)
      else if clst \<ge> n_fatent fs then
        if \<not> stretch then (FR_NO_FILE, fs, dp\<lparr>d_sect := 0\<rparr>)
        else
          (case create_chain fs (d_obj dp) (d_clust dp) of (clst, fs, obj) \<Rightarrow>
            let dp = dp\<lparr>d_obj := obj\<rparr> in
            if clst = 0 then (FR_DENIED, fs, dp)
            else if clst = 1 then (FR_INT_ERR, fs, dp)
            else if clst = 0xFFFFFFFF then (FR_DISK_ERR, fs, dp)
            else
              (case dir_clear fs clst of (res, fs) \<Rightarrow>
                if res \<noteq> FR_OK then (FR_DISK_ERR, fs, dp)
                else (FR_OK, fs, dp\<lparr>d_obj := (d_obj dp)\<lparr>stat := stat (d_obj dp) OR 4\<rparr>,
                                    d_clust := clst, d_sect := clst2sect fs clst\<rparr>)))
      else (FR_OK, fs, dp\<lparr>d_clust := clst, d_sect := clst2sect fs clst\<rparr>))"

definition dir_next :: "FATFS \<Rightarrow> FDIR \<Rightarrow> bool \<Rightarrow> FRESULT \<times> FATFS \<times> FDIR" where
  "dir_next fs dp stretch =
     (let ofs = dptr dp + 32;
          dp = (if ofs \<ge> max_dir fs then dp\<lparr>d_sect := 0\<rparr> else dp) in
      if d_sect dp = 0 then (FR_NO_FILE, fs, dp)
      else
        (case (if ofs mod SS fs = 0 then
                 let dp = dp\<lparr>d_sect := d_sect dp + 1\<rparr> in
                 if d_clust dp = 0 then
                   if ofs div 32 \<ge> ucast (n_rootdir fs) then (FR_NO_FILE, fs, dp\<lparr>d_sect := 0\<rparr>)
                   else (FR_OK, fs, dp)
                 else if ofs div SS fs AND (ucast (csize fs) - 1) = 0 then next_cluster fs dp stretch
                 else (FR_OK, fs, dp)
               else (FR_OK, fs, dp)) of (res, fs, dp) \<Rightarrow>
          if res \<noteq> FR_OK then (res, fs, dp)
          else (FR_OK, fs, dp\<lparr>dptr := ofs, d_dir := unat (ofs mod SS fs)\<rparr>)))"

text \<open>What is left of a table behind the current entry, the measure of the loops over it.\<close>

definition entries_left :: "FDIR \<Rightarrow> nat" where
  "entries_left dp =
     (if MAX_DIR_EX \<le> dptr dp then Suc (unat MAX_DIR_EX) else unat MAX_DIR_EX - unat (dptr dp))"

lemma dir_next_advances:
  assumes "dir_next fs dp st = (FR_OK, fs', dp')"
  shows "dptr dp' = dptr dp + 32" "dptr dp' < max_dir fs" "entries_left dp' < entries_left dp"
proof -
  have ofs: "dptr dp + 32 < max_dir fs" and dp': "dptr dp' = dptr dp + 32"
    using assms by (auto simp: dir_next_def Let_def not_le split: if_splits prod.splits)
  then show "dptr dp' = dptr dp + 32" "dptr dp' < max_dir fs" by simp_all
  have lt: "unat (dptr dp + 32) < 268435456"
    using ofs by (auto simp: max_dir_def word_less_nat_alt split: if_splits)
  then have "unat (dptr dp + 32) = unat (dptr dp) + 32" if "unat (dptr dp) < 268435456"
    using that by (simp add: unat_word_ariths(1))
  then show "entries_left dp' < entries_left dp"
    using lt dp' by (auto simp: entries_left_def word_le_nat_alt not_le)
qed

section \<open>Allocating entries\<close>

function alloc_loop :: "FATFS \<Rightarrow> FDIR \<Rightarrow> UINT \<Rightarrow> UINT \<Rightarrow> FRESULT \<times> FATFS \<times> FDIR" where
  "alloc_loop fs dp n n_ent =
     (case move_window fs (d_sect dp) of (res, fs) \<Rightarrow>
      if res \<noteq> FR_OK then (res, fs, dp)
      else
        let b = win fs (d_dir dp);
            free = (if fs_type fs = FS_EXFAT then b AND 0x80 = 0 else b = 0xE5 \<or> b = 0);
            n = (if free then n + 1 else 0) in
        if free \<and> n = n_ent then (FR_OK, fs, dp)
        else
          (case dir_next fs dp True of (res, fs', dp') \<Rightarrow>
            if res = FR_OK then alloc_loop fs' dp' n n_ent else (res, fs', dp')))"
  by pat_completeness auto
termination
  by (relation "measure (\<lambda>(fs, dp, n, n_ent). entries_left dp)") (auto dest: dir_next_advances(3) sym)

declare alloc_loop.simps [simp del]

definition dir_alloc :: "FATFS \<Rightarrow> FDIR \<Rightarrow> UINT \<Rightarrow> FRESULT \<times> FATFS \<times> FDIR" where
  "dir_alloc fs dp n_ent =
     (case dir_sdi fs dp 0 of (res, fs, dp) \<Rightarrow>
      case (if res = FR_OK then alloc_loop fs dp 0 n_ent else (res, fs, dp)) of (res, fs, dp) \<Rightarrow>
        (if res = FR_NO_FILE then FR_DENIED else res, fs, dp))"

section \<open>Entry blocks of exFAT\<close>

abbreviation (input) "ET_FILEDIR \<equiv> (0x85 :: BYTE)"
abbreviation (input) "ET_STREAM \<equiv> (0xC0 :: BYTE)"
abbreviation (input) "ET_FILENAME \<equiv> (0xC1 :: BYTE)"

definition MAXDIRB :: "nat \<Rightarrow> nat" where
  "MAXDIRB nc = (nc + 44) div 15 * 32"

text \<open>Go to the next entry, which has to exist and to be of the given type.\<close>

definition next_entry :: "FATFS \<Rightarrow> FDIR \<Rightarrow> BYTE \<Rightarrow> FRESULT \<times> FATFS \<times> FDIR" where
  "next_entry fs dp ty =
     (case dir_next fs dp False of (res, fs, dp) \<Rightarrow>
      if res = FR_NO_FILE then (FR_INT_ERR, fs, dp)
      else if res \<noteq> FR_OK then (res, fs, dp)
      else
        (case move_window fs (d_sect dp) of (res, fs) \<Rightarrow>
          if res \<noteq> FR_OK then (res, fs, dp)
          else if win fs (d_dir dp) \<noteq> ty then (FR_INT_ERR, fs, dp)
          else (FR_OK, fs, dp)))"

function load_names :: "FATFS \<Rightarrow> FDIR \<Rightarrow> nat \<Rightarrow> nat \<Rightarrow> FRESULT \<times> FATFS \<times> FDIR" where
  "load_names fs dp i sz_ent =
     (case next_entry fs dp ET_FILENAME of (res, fs, dp) \<Rightarrow>
      if res \<noteq> FR_OK then (res, fs, dp)
      else
        let fs = (if i < MAXDIRB 255 then fs\<lparr>dirbuf := mem_cpy (dirbuf fs) i (win fs) (d_dir dp) 32\<rparr> else fs) in
        if i + 32 < sz_ent then load_names fs dp (i + 32) sz_ent
        else if i + 32 \<le> MAXDIRB 255 \<and> xdir_sum (dirbuf fs) \<noteq> ld_word (dirbuf fs) 2 then (FR_INT_ERR, fs, dp)
        else (FR_OK, fs, dp))"
  by pat_completeness auto
termination by (relation "measure (\<lambda>(fs, dp, i, sz_ent). sz_ent - i)") auto

declare load_names.simps [simp del]

definition load_xdir :: "FATFS \<Rightarrow> FDIR \<Rightarrow> FRESULT \<times> FATFS \<times> FDIR" where
  "load_xdir fs dp =
     (case move_window fs (d_sect dp) of (res, fs) \<Rightarrow>
      if res \<noteq> FR_OK then (res, fs, dp)
      else if win fs (d_dir dp) \<noteq> ET_FILEDIR then (FR_INT_ERR, fs, dp)
      else
        let fs = fs\<lparr>dirbuf := mem_cpy (dirbuf fs) 0 (win fs) (d_dir dp) 32\<rparr>;
            sz_ent = (unat (dirbuf fs 1) + 1) * 32 in
        if sz_ent < 3 * 32 \<or> sz_ent > 19 * 32 then (FR_INT_ERR, fs, dp)
        else
          (case next_entry fs dp ET_STREAM of (res, fs, dp) \<Rightarrow>
            if res \<noteq> FR_OK then (res, fs, dp)
            else
              let fs = fs\<lparr>dirbuf := mem_cpy (dirbuf fs) 32 (win fs) (d_dir dp) 32\<rparr> in
              if MAXDIRB (unat (dirbuf fs 35)) > sz_ent then (FR_INT_ERR, fs, dp)
              else load_names fs dp 64 sz_ent))"

definition init_alloc_info :: "FATFS \<Rightarrow> FFOBJID \<Rightarrow> FFOBJID" where
  "init_alloc_info fs obj =
     obj\<lparr>sclust := ld_dword (dirbuf fs) 52, objsize := ld_qword (dirbuf fs) 56,
         stat := dirbuf fs 33 AND 2, n_frag := 0\<rparr>"

definition load_obj_xdir :: "FATFS \<Rightarrow> FDIR \<Rightarrow> FFOBJID \<Rightarrow> FRESULT \<times> FATFS \<times> FDIR" where
  "load_obj_xdir fs dp obj =
     (let dp = dp\<lparr>d_obj := (d_obj dp)\<lparr>obj_fs := obj_fs obj, sclust := c_scl obj, stat := ucast (c_size obj),
                                     objsize := ucast (c_size obj AND 0xFFFFFF00), n_frag := 0\<rparr>,
                  blk_ofs := c_ofs obj\<rparr> in
      case dir_sdi fs dp (blk_ofs dp) of (res, fs, dp) \<Rightarrow>
        if res = FR_OK then load_xdir fs dp else (res, fs, dp))"

text \<open>The loop of \<open>store_xdir\<close> over the \<open>nent\<close> entries from offset \<open>k\<close> of the block on.\<close>

fun store_loop :: "nat \<Rightarrow> FATFS \<Rightarrow> FDIR \<Rightarrow> nat \<Rightarrow> FRESULT \<times> FATFS \<times> FDIR" where
  "store_loop 0 fs dp k = (FR_OK, fs, dp)"
| "store_loop (Suc nent) fs dp k =
     (case move_window fs (d_sect dp) of (res, fs) \<Rightarrow>
      if res \<noteq> FR_OK then (res, fs, dp)
      else
        let fs = fs\<lparr>win := mem_cpy (win fs) (d_dir dp) (dirbuf fs) k 32, wflag := 1\<rparr> in
        if nent = 0 then (FR_OK, fs, dp)
        else
          (case dir_next fs dp False of (res, fs, dp) \<Rightarrow>
            if res = FR_OK then store_loop nent fs dp (k + 32) else (res, fs, dp)))"

definition store_xdir :: "FATFS \<Rightarrow> FDIR \<Rightarrow> FRESULT \<times> FATFS \<times> FDIR" where
  "store_xdir fs dp =
     (let fs = fs\<lparr>dirbuf := st_word (dirbuf fs) 2 (xdir_sum (dirbuf fs))\<rparr>;
          nent = unat (dirbuf fs 1) + 1 in
      case dir_sdi fs dp (blk_ofs dp) of (res, fs, dp) \<Rightarrow>
      case (if res = FR_OK then store_loop nent fs dp 0 else (res, fs, dp)) of (res, fs, dp) \<Rightarrow>
        (if res = FR_OK \<or> res = FR_DISK_ERR then res else FR_INT_ERR, fs, dp))"

text \<open>
  The name entries of a new block: \<open>fill_name\<close> the 15 characters of one entry,
  \<open>name_entries\<close> the loop over entries. Names have at most 255 characters, which 17 entries hold.
\<close>

fun fill_name :: "nat \<Rightarrow> mem \<Rightarrow> nat \<Rightarrow> (nat \<Rightarrow> WCHAR) \<Rightarrow> BYTE \<Rightarrow> WCHAR \<Rightarrow> mem \<times> BYTE \<times> WCHAR" where
  "fill_name 0 dirb i lfn nlen wc = (dirb, nlen, wc)"
| "fill_name (Suc n) dirb i lfn nlen wc =
     (let (wc, nlen) = (if wc \<noteq> 0 then (lfn (unat nlen), if lfn (unat nlen) \<noteq> 0 then nlen + 1 else nlen) else (wc, nlen)) in
      fill_name n (st_word dirb i wc) (i + 2) lfn nlen wc)"

fun name_entries :: "nat \<Rightarrow> mem \<Rightarrow> nat \<Rightarrow> (nat \<Rightarrow> WCHAR) \<Rightarrow> BYTE \<Rightarrow> WCHAR \<Rightarrow> BYTE \<Rightarrow> mem \<times> BYTE \<times> BYTE" where
  "name_entries 0 dirb i lfn nlen wc nc1 = (dirb, nlen, nc1)"
| "name_entries (Suc n) dirb i lfn nlen wc nc1 =
     (case fill_name 15 (dirb(i := ET_FILENAME, i + 1 := 0)) (i + 2) lfn nlen wc of (dirb, nlen, wc) \<Rightarrow>
      if lfn (unat nlen) \<noteq> 0 then name_entries n dirb (i + 32) lfn nlen wc (nc1 + 1)
      else (dirb, nlen, nc1 + 1))"

definition create_xdir :: "mem \<Rightarrow> (nat \<Rightarrow> WCHAR) \<Rightarrow> mem" where
  "create_xdir dirb lfn =
     (let dirb = mem_set dirb 0 0 64;
          dirb = dirb(0 := ET_FILEDIR, 32 := ET_STREAM) in
      case name_entries 18 dirb 64 lfn 0 1 0 of (dirb, nlen, nc1) \<Rightarrow>
        let dirb = dirb(35 := nlen, 1 := 1 + nc1) in
        st_word dirb 36 (xname_sum lfn))"

section \<open>Reading a directory\<close>

text \<open>
  One entry of a FAT directory in \<open>dir_read\<close>: whether the entry ends the reading, the directory
  object, the long name buffer, and the expected order and checksum of the long name parts.
\<close>

definition read_entry ::
  "FATFS \<Rightarrow> FDIR \<Rightarrow> bool \<Rightarrow> BYTE \<Rightarrow> BYTE \<Rightarrow> bool \<times> FDIR \<times> (nat \<Rightarrow> WCHAR) \<times> BYTE \<times> BYTE"
where
  "read_entry fs dp vol ord sm =
     (let p = d_dir dp; b = win fs p;
          atr = win fs (p + 11) AND 0x3F;
          dp = dp\<lparr>d_obj := (d_obj dp)\<lparr>attr := atr\<rparr>\<rparr> in
      if b = 0xE5 \<or> b = 0x2E \<or> (atr AND (NOT 0x20) = 0x08) \<noteq> vol then (False, dp, lfnbuf fs, 0xFF, sm)
      else if atr = 0x0F then
        let (sm, b, ord, dp) =
              (if b AND 0x40 \<noteq> 0
               then (win fs (p + 13), b AND 0xBF, b AND 0xBF, dp\<lparr>blk_ofs := dptr dp\<rparr>)
               else (sm, b, ord, dp)) in
        if b = ord \<and> sm = win fs (p + 13) then
          (case pick_lfn (lfnbuf fs) (win fs) p of (ok, lfnb) \<Rightarrow>
            (False, dp, lfnb, if ok then ord - 1 else 0xFF, sm))
        else (False, dp, lfnbuf fs, 0xFF, sm)
      else
        (True, if ord \<noteq> 0 \<or> sm \<noteq> sum_sfn (win fs) p then dp\<lparr>blk_ofs := 0xFFFFFFFF\<rparr> else dp,
         lfnbuf fs, ord, sm))"

function dir_read_loop :: "FATFS \<Rightarrow> FDIR \<Rightarrow> bool \<Rightarrow> BYTE \<Rightarrow> BYTE \<Rightarrow> FRESULT \<Rightarrow> FRESULT \<times> FATFS \<times> FDIR" where
  "dir_read_loop fs dp vol ord sm res =
     (if d_sect dp = 0 then (res, fs, dp)
      else
        (case move_window fs (d_sect dp) of (res, fs) \<Rightarrow>
          if res \<noteq> FR_OK then (res, fs, dp)
          else if win fs (d_dir dp) = 0 then (FR_NO_FILE, fs, dp)
          else if fs_type fs = FS_EXFAT \<and> win fs (d_dir dp) = ET_FILEDIR then
            (case load_xdir fs (dp\<lparr>blk_ofs := dptr dp\<rparr>) of (res, fs, dp) \<Rightarrow>
              (res, fs, if res = FR_OK then dp\<lparr>d_obj := (d_obj dp)\<lparr>attr := dirbuf fs 4 AND 0x3F\<rparr>\<rparr> else dp))
          else
            (case (if fs_type fs = FS_EXFAT then (False, dp, lfnbuf fs, ord, sm)
                   else read_entry fs dp vol ord sm) of (found, dp1, lfnb, ord, sm) \<Rightarrow>
              let fs = fs\<lparr>lfnbuf := lfnb\<rparr> in
              if found then (FR_OK, fs, dp1)
              else
                (case dir_next fs dp1 False of (res, fs', dp') \<Rightarrow>
                  if res \<noteq> FR_OK then (res, fs', dp') else dir_read_loop fs' dp' vol ord sm res))))"
  by pat_completeness auto

lemma read_entry_dptr: "read_entry fs dp vol ord sm = (f, dp', l, o', s') \<Longrightarrow> dptr dp' = dptr dp"
  by (auto simp: read_entry_def Let_def split: if_splits prod.splits)

lemma entries_left_cong: "dptr dp' = dptr dp \<Longrightarrow> entries_left dp' = entries_left dp"
  by (simp add: entries_left_def)

lemma read_entry_advances:
  assumes "(f, dp1, l, o1, s1) = (if t then (False, dp, l0, o0, s0) else read_entry fs dp vol ord sm)"
    and "(FR_OK, fs', dp') = dir_next fs1 dp1 st"
  shows "entries_left dp' < entries_left dp"
proof -
  have "dptr dp1 = dptr dp"
    using assms(1) [symmetric] read_entry_dptr [of fs dp vol ord sm] by (auto split: if_splits)
  then show ?thesis
    using dir_next_advances(3) [OF assms(2) [symmetric]] entries_left_cong [of dp1 dp] by simp
qed

termination dir_read_loop
  by (relation "measure (\<lambda>(fs, dp, vol, ord, sm, res). entries_left dp)")
    (simp, clarsimp, erule (1) read_entry_advances)

declare dir_read_loop.simps [simp del]

definition dir_read :: "FATFS \<Rightarrow> FDIR \<Rightarrow> bool \<Rightarrow> FRESULT \<times> FATFS \<times> FDIR" where
  "dir_read fs dp vol =
     (case dir_read_loop fs dp vol 0xFF 0xFF FR_NO_FILE of (res, fs, dp) \<Rightarrow>
        (res, fs, if res \<noteq> FR_OK then dp\<lparr>d_sect := 0\<rparr> else dp))"

section \<open>Finding an object\<close>

text \<open>\<open>dir_read\<close> only moves forward, and on exFAT it passes at least two entries of the block it loads.\<close>

lemma next_entry_advances: "next_entry fs dp ty = (FR_OK, fs', dp') \<Longrightarrow> entries_left dp' < entries_left dp"
  by (auto simp: next_entry_def dest: dir_next_advances(3) split: if_splits prod.splits)

lemma load_names_advances: "load_names fs dp i sz = (FR_OK, fs', dp') \<Longrightarrow> entries_left dp' < entries_left dp"
proof (induction fs dp i sz arbitrary: fs' dp' rule: load_names.induct)
  case (1 fs dp i sz)
  obtain r fs1 dp1 where ne: "next_entry fs dp ET_FILENAME = (r, fs1, dp1)" by (metis prod.collapse)
  have r: "r = FR_OK" using 1(2) ne by (auto simp: load_names.simps [of fs] split: if_splits)
  note lt = next_entry_advances [OF ne [unfolded r]]
  define fs2 where "fs2 = (if i < MAXDIRB 255 then fs1\<lparr>dirbuf := mem_cpy (dirbuf fs1) i (win fs1) (d_dir dp1) 32\<rparr> else fs1)"
  show ?case
  proof (cases "i + 32 < sz")
    case True
    then have "load_names fs2 dp1 (i + 32) sz = (FR_OK, fs', dp')"
      using 1(2) ne r by (simp add: load_names.simps [of fs] fs2_def Let_def)
    then show ?thesis using 1(1) [OF ne [symmetric] refl _ fs2_def True] r lt by auto
  next
    case False
    then have "dp' = dp1" using 1(2) ne r by (auto simp: load_names.simps [of fs] Let_def split: if_splits)
    then show ?thesis using lt by simp
  qed
qed

end
