(* ===== verification/FfGeom.thy ===== *)
theory FfGeom
  imports FfDir
begin

text \<open>
  No operation below the mount changes the geometry of a volume or the device behind it,
  whatever the state and the answers of the device: the frame \<open>geom_eq\<close>, for every operation
  of the window, the table and the allocator.
\<close>

lemma geom_eq_upd [simp]:
  "geom_eq fs0 (fs\<lparr>win := w\<rparr>) = geom_eq fs0 fs" "geom_eq fs0 (fs\<lparr>wflag := b\<rparr>) = geom_eq fs0 fs"
  "geom_eq fs0 (fs\<lparr>winsect := s\<rparr>) = geom_eq fs0 fs" "geom_eq fs0 (fs\<lparr>lfnbuf := l\<rparr>) = geom_eq fs0 fs"
  "geom_eq fs0 (fs\<lparr>dirbuf := w\<rparr>) = geom_eq fs0 fs" "geom_eq fs0 (fs\<lparr>free_clst := c\<rparr>) = geom_eq fs0 fs"
  "geom_eq fs0 (fs\<lparr>last_clst := c\<rparr>) = geom_eq fs0 fs" "geom_eq fs0 (fs\<lparr>fsi_flag := b\<rparr>) = geom_eq fs0 fs"
  "geom_eq (fs\<lparr>win := w\<rparr>) fs1 = geom_eq fs fs1" "geom_eq (fs\<lparr>wflag := b\<rparr>) fs1 = geom_eq fs fs1"
  "geom_eq (fs\<lparr>winsect := s\<rparr>) fs1 = geom_eq fs fs1" "geom_eq (fs\<lparr>lfnbuf := l\<rparr>) fs1 = geom_eq fs fs1"
  "geom_eq (fs\<lparr>dirbuf := w\<rparr>) fs1 = geom_eq fs fs1" "geom_eq (fs\<lparr>free_clst := c\<rparr>) fs1 = geom_eq fs fs1"
  "geom_eq (fs\<lparr>last_clst := c\<rparr>) fs1 = geom_eq fs fs1" "geom_eq (fs\<lparr>fsi_flag := b\<rparr>) fs1 = geom_eq fs fs1"
  by (simp_all add: geom_eq_def)

lemmas sync_window_geom = sync_window_frame [THEN conjunct1]

lemma get_fat_geom: "get_fat fs obj c = (v, fs') \<Longrightarrow> geom_eq fs fs'"
  by (auto simp: get_fat_def Let_def split: if_splits prod.splits dest!: move_window_geom elim: geom_eq_trans)

lemma put_fat_geom: "put_fat fs c v = (r, fs') \<Longrightarrow> geom_eq fs fs'"
  by (auto simp: put_fat_def Let_def split: if_splits prod.splits dest!: move_window_geom elim: geom_eq_trans)

lemma find_bitmap_loop_geom:
  "find_bitmap_loop n fs clst ncl val scl ctr at = Some (v, fs') \<Longrightarrow> geom_eq fs fs'"
proof (induction n arbitrary: fs val scl ctr at)
  case (Suc n)
  then show ?case
    by (auto simp: Let_def split: if_splits prod.splits option.splits dest!: move_window_geom elim: geom_eq_trans)
qed simp

lemma find_bitmap_geom: "find_bitmap fs clst ncl = (v, fs') \<Longrightarrow> geom_eq fs fs'"
  by (auto simp: find_bitmap_def Let_def split: option.splits dest: find_bitmap_loop_geom)

lemma change_bitmap_loop_geom:
  "change_bitmap_loop n fs sect i bm moved ncl bv = (r, fs') \<Longrightarrow> geom_eq fs fs'"
proof (induction n arbitrary: fs sect i bm moved ncl bv)
  case (Suc n)
  then show ?case
    by (auto simp: Let_def split: if_splits prod.splits dest!: move_window_geom Suc.IH elim: geom_eq_trans)
qed simp

lemma change_bitmap_geom: "change_bitmap fs clst ncl bv = (r, fs') \<Longrightarrow> geom_eq fs fs'"
  by (auto simp: change_bitmap_def Let_def simp del: change_bitmap_loop.simps dest: change_bitmap_loop_geom)

lemma fill_first_loop_geom: "fill_first_loop n fs cl = (r, fs') \<Longrightarrow> geom_eq fs fs'"
  by (induction n arbitrary: fs cl)
    (auto split: if_splits prod.splits dest!: put_fat_geom elim: geom_eq_trans)

lemma fill_first_frag_geom: "fill_first_frag fs obj = (r, fs', obj') \<Longrightarrow> geom_eq fs fs'"
  by (auto simp: fill_first_frag_def split: if_splits prod.splits dest: fill_first_loop_geom)

lemma fill_last_loop_geom: "fill_last_loop n fs obj lcl term = (r, fs', obj') \<Longrightarrow> geom_eq fs fs'"
  by (induction n arbitrary: fs obj)
    (auto split: if_splits prod.splits dest!: put_fat_geom elim: geom_eq_trans)

lemma fill_last_frag_geom: "fill_last_frag fs obj lcl term = (r, fs', obj') \<Longrightarrow> geom_eq fs fs'"
  by (auto simp: fill_last_frag_def dest: fill_last_loop_geom)

lemma count_up_geom [simp]: "geom_eq fs0 (count_up fs) = geom_eq fs0 fs" "geom_eq (count_up fs) fs1 = geom_eq fs fs1"
  by (simp_all add: count_up_def)

lemma remove_loop_geom: "remove_loop n fs obj clst scl ecl = (r, fs') \<Longrightarrow> geom_eq fs fs'"
proof (induction n arbitrary: fs clst scl ecl)
  case (Suc n)
  then show ?case
    by (auto simp: Let_def split: if_splits prod.splits
        dest!: get_fat_geom put_fat_geom change_bitmap_geom Suc.IH elim: geom_eq_trans)
      (blast intro: geom_eq_trans)+
qed simp

lemma contig_loop_geom: "contig_loop n fs obj clst pclst = (r, fs') \<Longrightarrow> geom_eq fs fs'"
proof (induction n arbitrary: fs clst)
  case (Suc n)
  then show ?case
    by (auto simp: Let_def split: if_splits prod.splits dest!: get_fat_geom Suc.IH elim: geom_eq_trans)
qed simp

lemma remove_chain_geom: "remove_chain fs obj clst pclst = (r, fs', obj') \<Longrightarrow> geom_eq fs fs'"
  by (auto simp: remove_chain_def split: if_splits prod.splits sum.splits
      dest!: put_fat_geom remove_loop_geom contig_loop_geom elim: geom_eq_trans)

lemma find_free_geom: "find_free n fs obj scl ncl = Some (r, fs') \<Longrightarrow> geom_eq fs fs'"
proof (induction n arbitrary: fs ncl)
  case (Suc n)
  then show ?case
    by (auto simp: Let_def split: if_splits prod.splits dest!: get_fat_geom Suc.IH elim: geom_eq_trans)
qed simp

lemma pick_cluster_geom: "pick_cluster fs obj clst scl = (r, fs') \<Longrightarrow> geom_eq fs fs'"
  by (auto simp: pick_cluster_def Let_def split: if_splits prod.splits sum.splits option.splits
      dest!: get_fat_geom find_free_geom elim: geom_eq_trans)

lemma create_chain_fat_geom: "create_chain_fat fs obj clst scl = (r, fs') \<Longrightarrow> geom_eq fs fs'"
  by (auto simp: create_chain_fat_def split: if_splits prod.splits sum.splits
      dest!: pick_cluster_geom put_fat_geom elim: geom_eq_trans)

lemma create_chain_exfat_geom: "create_chain_exfat fs obj clst scl = (r, fs', obj') \<Longrightarrow> geom_eq fs fs'"
  by (auto simp: create_chain_exfat_def Let_def split: if_splits prod.splits
      dest!: find_bitmap_geom change_bitmap_geom fill_last_frag_geom elim: geom_eq_trans)

lemma chain_done_geom: "chain_done fs res ncl = (r, fs') \<Longrightarrow> geom_eq fs fs'"
  by (auto simp: chain_done_def split: if_splits)

lemma create_chain_geom: "create_chain fs obj clst = (r, fs', obj') \<Longrightarrow> geom_eq fs fs'"
  by (auto simp: create_chain_def split: if_splits prod.splits sum.splits
      dest!: get_fat_geom create_chain_fat_geom create_chain_exfat_geom chain_done_geom elim: geom_eq_trans)

section \<open>Directories\<close>

lemma clear_loop_geom: "clear_loop k fs ibuf sect szb n = (m, fs') \<Longrightarrow> geom_eq fs fs'"
proof (induction k arbitrary: fs n)
  case (Suc k)
  have "geom_eq fs (fs\<lparr>pdrv := d\<rparr>)" if "disk_write (pdrv fs) ibuf (sect + n) szb = (r, d)" for r d
    using disk_write_same [OF that] by (simp add: geom_eq_def)
  with Suc show ?case
    by (auto simp: Let_def split: if_splits prod.splits intro: geom_eq_trans)
qed simp

lemma dir_clear_geom: "dir_clear fs clst = (r, fs') \<Longrightarrow> geom_eq fs fs'"
  by (auto simp: dir_clear_def Let_def simp del: clear_loop.simps split: if_splits prod.splits
      dest!: sync_window_geom clear_loop_geom elim: geom_eq_trans)

lemma sdi_loop_geom: "sdi_loop n fs obj csz clst ofs = (r, fs') \<Longrightarrow> geom_eq fs fs'"
proof (induction n arbitrary: fs clst ofs)
  case (Suc n)
  then show ?case
    by (auto split: if_splits prod.splits dest!: get_fat_geom Suc.IH elim: geom_eq_trans)
qed simp

lemma dir_sdi_geom: "dir_sdi fs dp ofs = (r, fs', dp') \<Longrightarrow> geom_eq fs fs'"
  by (auto simp: dir_sdi_def Let_def simp del: sdi_loop.simps split: if_splits prod.splits sum.splits
      dest!: sdi_loop_geom)

lemma next_cluster_geom: "next_cluster fs dp st = (r, fs', dp') \<Longrightarrow> geom_eq fs fs'"
  by (auto simp: next_cluster_def Let_def split: if_splits prod.splits
      dest!: get_fat_geom create_chain_geom dir_clear_geom elim: geom_eq_trans)

lemma dir_next_geom: "dir_next fs dp st = (r, fs', dp') \<Longrightarrow> geom_eq fs fs'"
  by (auto simp: dir_next_def Let_def split: if_splits prod.splits dest!: next_cluster_geom)

lemma alloc_loop_geom: "alloc_loop fs dp n n_ent = (r, fs', dp') \<Longrightarrow> geom_eq fs fs'"
proof (induction fs dp n n_ent rule: alloc_loop.induct)
  case (1 fs dp n n_ent)
  obtain r1 fs1 where m: "move_window fs (d_sect dp) = (r1, fs1)" by (metis prod.collapse)
  obtain r2 fs2 dp2 where d: "dir_next fs1 dp True = (r2, fs2, dp2)" by (metis prod.collapse)
  define free where "free = (if fs_type fs1 = FS_EXFAT then win fs1 (d_dir dp) AND 0x80 = 0
    else win fs1 (d_dir dp) = 0xE5 \<or> win fs1 (d_dir dp) = 0)"
  define k where "k = (if free then n + 1 else 0)"
  have step: "alloc_loop fs dp n n_ent = (if r1 \<noteq> FR_OK then (r1, fs1, dp) else if free \<and> k = n_ent then (FR_OK, fs1, dp)
      else if r2 = FR_OK then alloc_loop fs2 dp2 k n_ent else (r2, fs2, dp2))"
    by (subst alloc_loop.simps) (simp add: m d free_def k_def Let_def)
  have "geom_eq fs2 fs'" if "r1 = FR_OK" "\<not> (free \<and> k = n_ent)" "r2 = FR_OK" "alloc_loop fs2 dp2 k n_ent = (r, fs', dp')"
    using 1(1) [OF m [symmetric] _ refl free_def k_def that(2) d [symmetric] refl] that by simp
  then show ?case
    using 1(2) move_window_geom [OF m] dir_next_geom [OF d] unfolding step
    by (auto split: if_splits intro: geom_eq_trans)
qed

lemma dir_alloc_geom: "dir_alloc fs dp n_ent = (r, fs', dp') \<Longrightarrow> geom_eq fs fs'"
  by (auto simp: dir_alloc_def split: if_splits prod.splits
      dest!: dir_sdi_geom alloc_loop_geom elim: geom_eq_trans)

lemma next_entry_geom: "next_entry fs dp ty = (r, fs', dp') \<Longrightarrow> geom_eq fs fs'"
  by (auto simp: next_entry_def split: if_splits prod.splits
      dest!: dir_next_geom move_window_geom elim: geom_eq_trans)

lemma load_names_geom: "load_names fs dp i sz = (r, fs', dp') \<Longrightarrow> geom_eq fs fs'"
proof (induction fs dp i sz rule: load_names.induct)
  case (1 fs dp i sz)
  obtain r1 fs1 dp1 where n: "next_entry fs dp ET_FILENAME = (r1, fs1, dp1)" by (metis prod.collapse)
  define fs2 where "fs2 = (if i < MAXDIRB 255 then fs1\<lparr>dirbuf := mem_cpy (dirbuf fs1) i (win fs1) (d_dir dp1) 32\<rparr> else fs1)"
  have "geom_eq fs2 fs'" if "r1 = FR_OK" "i + 32 < sz" "load_names fs2 dp1 (i + 32) sz = (r, fs', dp')"
    using 1(1) [OF n [symmetric] refl _ fs2_def that(2)] that by simp
  moreover have "geom_eq fs fs2" using next_entry_geom [OF n] by (simp add: fs2_def)
  ultimately show ?case
    using 1(2) next_entry_geom [OF n] unfolding load_names.simps [of fs] n
    by (auto simp: Let_def fs2_def [symmetric] split: if_splits intro: geom_eq_trans)
qed

lemma load_xdir_geom: "load_xdir fs dp = (r, fs', dp') \<Longrightarrow> geom_eq fs fs'"
  by (auto simp: load_xdir_def Let_def split: if_splits prod.splits
      dest!: move_window_geom next_entry_geom load_names_geom elim: geom_eq_trans)
    (blast intro: geom_eq_trans)

lemma load_xdir_advances: "load_xdir fs dp = (FR_OK, fs', dp') \<Longrightarrow> entries_left dp' < entries_left dp"
  by (auto simp: load_xdir_def Let_def split: if_splits prod.splits
      dest!: load_names_advances next_entry_advances)

text \<open>On an exFAT volume the loop of \<open>dir_read\<close> looks for entry blocks only.\<close>

lemma dir_read_loop_exfat:
  assumes "fs_type fs = FS_EXFAT"
  shows "dir_read_loop fs dp vol ord sm res =
    (if d_sect dp = 0 then (res, fs, dp)
     else case move_window fs (d_sect dp) of (res, fs) \<Rightarrow>
       if res \<noteq> FR_OK then (res, fs, dp)
       else if win fs (d_dir dp) = 0 then (FR_NO_FILE, fs, dp)
       else if win fs (d_dir dp) = ET_FILEDIR then
         (case load_xdir fs (dp\<lparr>blk_ofs := dptr dp\<rparr>) of (res, fs, dp) \<Rightarrow>
           (res, fs, if res = FR_OK then dp\<lparr>d_obj := (d_obj dp)\<lparr>attr := dirbuf fs 4 AND 0x3F\<rparr>\<rparr> else dp))
       else
         (case dir_next fs dp False of (res, fs', dp') \<Rightarrow>
           if res \<noteq> FR_OK then (res, fs', dp') else dir_read_loop fs' dp' vol ord sm res))"
proof -
  obtain r fs1 where m: "move_window fs (d_sect dp) = (r, fs1)" by (metis prod.collapse)
  have "fs_type fs1 = FS_EXFAT" using geom_eqD(1) [OF move_window_geom [OF m]] assms by simp
  moreover have "fs1\<lparr>lfnbuf := lfnbuf fs1\<rparr> = fs1" by simp
  ultimately show ?thesis
    by (subst dir_read_loop.simps) (simp add: m Let_def)
qed

lemma entries_left_upd [simp]:
  "entries_left (dp\<lparr>blk_ofs := b\<rparr>) = entries_left dp" "entries_left (dp\<lparr>d_obj := ob\<rparr>) = entries_left dp"
  "entries_left (dp\<lparr>d_sect := s\<rparr>) = entries_left dp"
  by (simp_all add: entries_left_def)

lemma dir_read_exfat_advances:
  assumes "fs_type fs = FS_EXFAT" and "dir_read fs dp vol = (FR_OK, fs', dp')"
  shows "entries_left dp' < entries_left dp"
proof -
  have "entries_left dp' \<le> entries_left dp \<and> (d_sect dp \<noteq> 0 \<or> res \<noteq> FR_OK \<longrightarrow> entries_left dp' < entries_left dp)"
    if "fs_type fs = FS_EXFAT" "dir_read_loop fs dp vol ord sm res = (FR_OK, fs', dp')"
    for ord sm res fs dp
    using that
  proof (induction "entries_left dp" arbitrary: fs dp ord sm res rule: less_induct)
    case less
    obtain r1 fs1 where m: "move_window fs (d_sect dp) = (r1, fs1)" by (metis prod.collapse)
    obtain r2 fs2 dp2 where d: "dir_next fs1 dp False = (r2, fs2, dp2)" by (metis prod.collapse)
    obtain r3 fs3 dp3 where l: "load_xdir fs1 (dp\<lparr>blk_ofs := dptr dp\<rparr>) = (r3, fs3, dp3)" by (metis prod.collapse)
    have ty: "fs_type fs2 = FS_EXFAT"
      using geom_eqD(1) [OF move_window_geom [OF m]] geom_eqD(1) [OF dir_next_geom [OF d]] less.prems(1) by simp
    have ld: "entries_left dp3 < entries_left dp" if "r3 = FR_OK"
      using load_xdir_advances [OF l [unfolded that]] by simp
    have nx: "entries_left dp2 < entries_left dp" if "r2 = FR_OK"
      using dir_next_advances(3) [OF d [unfolded that]] .
    show ?case
      using less.prems(2) less.hyps [OF nx ty] ld nx
      unfolding dir_read_loop_exfat [OF less.prems(1)] m
      by (fastforce simp: d l split: if_splits)
  qed
  from this [OF assms(1)] show ?thesis
    using assms(2) by (auto simp: dir_read_def split: if_splits prod.splits)
qed

end
