(* ===== verification/FfFind.thy ===== *)
theory FfFind
  imports FfGeom
begin

text \<open>
  Finding, registering and removing an object of a directory (\<open>dir_find\<close>, \<open>dir_register\<close>,
  \<open>dir_remove\<close> of \<open>ff.c\<close>). The name to look for is in \<open>DIR.fn\<close> (short form and its flags) and in
  the long name buffer of the volume.
\<close>

abbreviation (input) "NS_LOSS \<equiv> (0x01 :: BYTE)"
abbreviation (input) "NS_LFN \<equiv> (0x02 :: BYTE)"
abbreviation (input) "NS_LAST \<equiv> (0x04 :: BYTE)"
abbreviation (input) "NS_BODY \<equiv> (0x08 :: BYTE)"
abbreviation (input) "NS_EXT \<equiv> (0x10 :: BYTE)"
abbreviation (input) "NS_DOT \<equiv> (0x20 :: BYTE)"
abbreviation (input) "NS_NOLFN \<equiv> (0x40 :: BYTE)"
abbreviation (input) "NS_NONAME \<equiv> (0x80 :: BYTE)"

text \<open>A local object the code declares without a value; what it reads of it is written first.\<close>

definition blank_obj :: FFOBJID where
  "blank_obj =
     \<lparr>obj_fs = False, obj_id = 0, attr = 0, stat = 0, sclust = 0, objsize = 0, n_cont = 0,
      n_frag = 0, c_scl = 0, c_size = 0, c_ofs = 0\<rparr>"

definition blank_dir :: FDIR where
  "blank_dir = \<lparr>d_obj = blank_obj, dptr = 0, d_clust = 0, d_sect = 0, d_dir = 0, fn = (\<lambda>_. 0), blk_ofs = 0\<rparr>"

section \<open>Finding an object\<close>

text \<open>
  The comparison of an exFAT name, \<open>nc\<close> characters being left: \<open>None\<close> at a difference, else the
  number of characters compared.
\<close>

fun cmp_xname :: "nat \<Rightarrow> mem \<Rightarrow> (nat \<Rightarrow> WCHAR) \<Rightarrow> nat \<Rightarrow> nat \<Rightarrow> nat option" where
  "cmp_xname 0 dirb lfn di ni = Some ni"
| "cmp_xname (Suc nc) dirb lfn di ni =
     (let di = (if di mod 32 = 0 then di + 2 else di) in
      if ff_wtoupper (ucast (ld_word dirb di)) \<noteq> ff_wtoupper (ucast (lfn ni)) then None
      else cmp_xname nc dirb lfn (di + 2) (ni + 1))"

definition xname_matches :: "mem \<Rightarrow> (nat \<Rightarrow> WCHAR) \<Rightarrow> WORD \<Rightarrow> bool" where
  "xname_matches dirb lfn hash =
     (ld_word dirb 36 = hash \<and>
      (case cmp_xname (unat (dirb 35)) dirb lfn 64 0 of Some ni \<Rightarrow> lfn ni = 0 | None \<Rightarrow> False))"

text \<open>
  The loop over the entry blocks. It is entered on exFAT volumes only, which no operation
  changes; the test of the volume type makes it end on every state.
\<close>

function find_xloop :: "FATFS \<Rightarrow> FDIR \<Rightarrow> WORD \<Rightarrow> FRESULT \<times> FATFS \<times> FDIR" where
  "find_xloop fs dp hash =
     (case dir_read fs dp False of (res, fs', dp') \<Rightarrow>
      if res = FR_OK \<and> fs_type fs = FS_EXFAT \<and> \<not> xname_matches (dirbuf fs') (lfnbuf fs') hash
      then find_xloop fs' dp' hash
      else (res, fs', dp'))"
  by pat_completeness auto
termination
  by (relation "measure (\<lambda>(fs, dp, hash). entries_left dp)") (auto dest: dir_read_exfat_advances [OF _ sym])

declare find_xloop.simps [simp del]

text \<open>
  One entry of a FAT directory: whether the name matches, the object, and the order and checksum
  expected of the next part of a long name.
\<close>

definition find_entry :: "FATFS \<Rightarrow> FDIR \<Rightarrow> BYTE \<Rightarrow> BYTE \<Rightarrow> bool \<times> FDIR \<times> BYTE \<times> BYTE" where
  "find_entry fs dp ord sm =
     (let p = d_dir dp; c = win fs p;
          a = win fs (p + 11) AND 0x3F;
          dp = dp\<lparr>d_obj := (d_obj dp)\<lparr>attr := a\<rparr>\<rparr> in
      if c = 0xE5 \<or> a AND 0x08 \<noteq> 0 \<and> a \<noteq> 0x0F then (False, dp\<lparr>blk_ofs := 0xFFFFFFFF\<rparr>, 0xFF, sm)
      else if a = 0x0F then
        if fn dp 11 AND NS_NOLFN = 0 then
          let (sm, c, ord, dp) =
                (if c AND 0x40 \<noteq> 0 then (win fs (p + 13), c AND 0xBF, c AND 0xBF, dp\<lparr>blk_ofs := dptr dp\<rparr>)
                 else (sm, c, ord, dp)) in
          (False, dp, if c = ord \<and> sm = win fs (p + 13) \<and> cmp_lfn (lfnbuf fs) (win fs) p then ord - 1 else 0xFF, sm)
        else (False, dp, ord, sm)
      else if ord = 0 \<and> sm = sum_sfn (win fs) p then (True, dp, ord, sm)
      else if fn dp 11 AND NS_LOSS = 0 \<and> mem_eq (win fs) p (fn dp) 0 11 then (True, dp, ord, sm)
      else (False, dp\<lparr>blk_ofs := 0xFFFFFFFF\<rparr>, 0xFF, sm))"

function find_loop :: "FATFS \<Rightarrow> FDIR \<Rightarrow> BYTE \<Rightarrow> BYTE \<Rightarrow> FRESULT \<times> FATFS \<times> FDIR" where
  "find_loop fs dp ord sm =
     (case move_window fs (d_sect dp) of (res, fs) \<Rightarrow>
      if res \<noteq> FR_OK then (res, fs, dp)
      else if win fs (d_dir dp) = 0 then (FR_NO_FILE, fs, dp)
      else
        (case find_entry fs dp ord sm of (found, dp1, ord, sm) \<Rightarrow>
          if found then (FR_OK, fs, dp1)
          else
            (case dir_next fs dp1 False of (res, fs', dp') \<Rightarrow>
              if res = FR_OK then find_loop fs' dp' ord sm else (res, fs', dp'))))"
  by pat_completeness auto

lemma find_entry_dptr: "find_entry fs dp ord sm = (f, dp', o', s') \<Longrightarrow> dptr dp' = dptr dp"
  by (auto simp: find_entry_def Let_def split: if_splits prod.splits)

lemma find_entry_advances:
  assumes "(f, dp1, o1, s1) = find_entry fs dp ord sm" and "(FR_OK, fs', dp') = dir_next fs1 dp1 st"
  shows "entries_left dp' < entries_left dp"
  using dir_next_advances(3) [OF assms(2) [symmetric]] find_entry_dptr [OF assms(1) [symmetric]]
    entries_left_cong [of dp1 dp] by simp

termination find_loop
  by (relation "measure (\<lambda>(fs, dp, ord, sm). entries_left dp)")
    (simp, clarsimp, erule (1) find_entry_advances)

declare find_loop.simps [simp del]

definition dir_find :: "FATFS \<Rightarrow> FDIR \<Rightarrow> FRESULT \<times> FATFS \<times> FDIR" where
  "dir_find fs dp =
     (case dir_sdi fs dp 0 of (res, fs, dp) \<Rightarrow>
      if res \<noteq> FR_OK then (res, fs, dp)
      else if fs_type fs = FS_EXFAT then find_xloop fs dp (xname_sum (lfnbuf fs))
      else find_loop fs (dp\<lparr>blk_ofs := 0xFFFFFFFF\<rparr>) 0xFF 0xFF)"

section \<open>Registering an object\<close>

text \<open>The length of the long name, of at most 255 characters in its buffer of 256.\<close>

fun lfn_len :: "nat \<Rightarrow> (nat \<Rightarrow> WCHAR) \<Rightarrow> nat \<Rightarrow> nat" where
  "lfn_len 0 lfn k = k"
| "lfn_len (Suc n) lfn k = (if lfn k = 0 then k else lfn_len n lfn (k + 1))"

text \<open>The search for a free numbered name, with the last number tried.\<close>

fun num_loop :: "nat \<Rightarrow> FATFS \<Rightarrow> FDIR \<Rightarrow> mem \<Rightarrow> UINT \<Rightarrow> FRESULT \<Rightarrow> UINT \<times> FRESULT \<times> FATFS \<times> FDIR" where
  "num_loop 0 fs dp sn n res = (n, res, fs, dp)"
| "num_loop (Suc k) fs dp sn n res =
     (case dir_find fs (dp\<lparr>fn := gen_numname (fn dp) sn (lfnbuf fs) n\<rparr>) of (res, fs, dp) \<Rightarrow>
      if res \<noteq> FR_OK then (n, res, fs, dp) else num_loop k fs dp sn (n + 1) res)"

text \<open>The entries of the long name, from part \<open>n\<close> down to part 1.\<close>

fun put_loop :: "nat \<Rightarrow> FATFS \<Rightarrow> FDIR \<Rightarrow> BYTE \<Rightarrow> FRESULT \<times> FATFS \<times> FDIR" where
  "put_loop 0 fs dp sm = (FR_OK, fs, dp)"
| "put_loop (Suc n) fs dp sm =
     (case move_window fs (d_sect dp) of (res, fs) \<Rightarrow>
      if res \<noteq> FR_OK then (res, fs, dp)
      else
        let fs = fs\<lparr>win := put_lfn (lfnbuf fs) (win fs) (d_dir dp) (of_nat (Suc n)) sm, wflag := 1\<rparr> in
        (case dir_next fs dp False of (res, fs, dp) \<Rightarrow>
          if res = FR_OK \<and> n \<noteq> 0 then put_loop n fs dp sm else (res, fs, dp)))"

definition register_exfat :: "FATFS \<Rightarrow> FDIR \<Rightarrow> nat \<Rightarrow> FRESULT \<times> FATFS \<times> FDIR" where
  "register_exfat fs dp len =
     (let n_ent = of_nat ((len + 14) div 15 + 2) :: UINT in
      case dir_alloc fs dp n_ent of (res, fs, dp) \<Rightarrow>
      if res \<noteq> FR_OK then (res, fs, dp)
      else
        let dp = dp\<lparr>blk_ofs := dptr dp - 32 * (n_ent - 1)\<rparr> in
        (case (if stat (d_obj dp) AND 4 \<noteq> 0 then
                 let dp = dp\<lparr>d_obj := (d_obj dp)\<lparr>stat := stat (d_obj dp) AND (NOT 4)\<rparr>\<rparr> in
                 (case fill_first_frag fs (d_obj dp) of (res, fs, obj) \<Rightarrow>
                   let dp = dp\<lparr>d_obj := obj\<rparr> in
                   if res \<noteq> FR_OK then (res, fs, dp)
                   else
                     (case fill_last_frag fs (d_obj dp) (d_clust dp) 0xFFFFFFFF of (res, fs, obj) \<Rightarrow>
                       let dp = dp\<lparr>d_obj := obj\<rparr> in
                       if res \<noteq> FR_OK then (res, fs, dp)
                       else if sclust (d_obj dp) \<noteq> 0 then
                         (case load_obj_xdir fs blank_dir (d_obj dp) of (res, fs, dj) \<Rightarrow>
                           if res \<noteq> FR_OK then (res, fs, dp)
                           else
                             let sz = objsize (d_obj dp) + ucast (ucast (csize fs) * SS fs);
                                 dp = dp\<lparr>d_obj := (d_obj dp)\<lparr>objsize := sz\<rparr>\<rparr>;
                                 db = st_qword (st_qword (dirbuf fs) 56 sz) 40 sz;
                                 fs = fs\<lparr>dirbuf := db(33 := stat (d_obj dp) OR 1)\<rparr> in
                             (case store_xdir fs dj of (res, fs, dj) \<Rightarrow> (res, fs, dp)))
                       else (FR_OK, fs, dp)))
               else (FR_OK, fs, dp)) of (res, fs, dp) \<Rightarrow>
          if res \<noteq> FR_OK then (res, fs, dp)
          else (FR_OK, fs\<lparr>dirbuf := create_xdir (dirbuf fs) (lfnbuf fs)\<rparr>, dp)))"

text \<open>The name of a new FAT entry: the given short name, or a numbered one that is not in use.\<close>

definition register_name :: "FATFS \<Rightarrow> FDIR \<Rightarrow> mem \<Rightarrow> FRESULT \<times> FATFS \<times> FDIR" where
  "register_name fs dp sn =
     (if sn 11 AND NS_LOSS \<noteq> 0 then
        (case num_loop 99 fs (dp\<lparr>fn := (fn dp)(11 := NS_NOLFN)\<rparr>) sn 1 FR_OK of (n, res, fs, dp) \<Rightarrow>
          if n = 100 then (FR_DENIED, fs, dp)
          else if res \<noteq> FR_NO_FILE then (res, fs, dp)
          else (FR_OK, fs, dp\<lparr>fn := (fn dp)(11 := sn 11)\<rparr>))
      else (FR_OK, fs, dp))"

definition register_fat :: "FATFS \<Rightarrow> FDIR \<Rightarrow> nat \<Rightarrow> FRESULT \<times> FATFS \<times> FDIR" where
  "register_fat fs dp len =
     (let sn = mem_cpy (\<lambda>_. 0) 0 (fn dp) 0 12 in
      case register_name fs dp sn of (res, fs, dp) \<Rightarrow>
      if res \<noteq> FR_OK then (res, fs, dp)
      else
        let n_ent = (if sn 11 AND NS_LFN \<noteq> 0 then (len + 12) div 13 + 1 else 1) in
        (case dir_alloc fs dp (of_nat n_ent) of (res, fs, dp) \<Rightarrow>
         case (if res = FR_OK \<and> n_ent - 1 \<noteq> 0 then
                 (case dir_sdi fs dp (dptr dp - of_nat (n_ent - 1) * 32) of (res, fs, dp) \<Rightarrow>
                   if res = FR_OK then put_loop (n_ent - 1) fs dp (sum_sfn (fn dp) 0) else (res, fs, dp))
               else (res, fs, dp)) of (res, fs, dp) \<Rightarrow>
           if res = FR_OK then
             (case move_window fs (d_sect dp) of (res, fs) \<Rightarrow>
               if res = FR_OK then
                 let w = mem_set (win fs) (d_dir dp) 0 32;
                     w = mem_cpy w (d_dir dp) (fn dp) 0 11;
                     w = w(d_dir dp + 12 := fn dp 11 AND (NS_BODY OR NS_EXT)) in
                 (FR_OK, fs\<lparr>win := w, wflag := 1\<rparr>, dp)
               else (res, fs, dp))
           else (res, fs, dp)))"

definition dir_register :: "FATFS \<Rightarrow> FDIR \<Rightarrow> FRESULT \<times> FATFS \<times> FDIR" where
  "dir_register fs dp =
     (if fn dp 11 AND (NS_DOT OR NS_NONAME) \<noteq> 0 then (FR_INVALID_NAME, fs, dp)
      else
        let len = lfn_len 256 (lfnbuf fs) 0 in
        if fs_type fs = FS_EXFAT then register_exfat fs dp len else register_fat fs dp len)"

section \<open>Removing an object\<close>

function remove_entries :: "FATFS \<Rightarrow> FDIR \<Rightarrow> DWORD \<Rightarrow> FRESULT \<times> FATFS \<times> FDIR" where
  "remove_entries fs dp lst =
     (case move_window fs (d_sect dp) of (res, fs) \<Rightarrow>
      if res \<noteq> FR_OK then (res, fs, dp)
      else
        let b = (if fs_type fs = FS_EXFAT then win fs (d_dir dp) AND 0x7F else 0xE5);
            fs = fs\<lparr>win := (win fs)(d_dir dp := b), wflag := 1\<rparr> in
        if dptr dp \<ge> lst then (FR_OK, fs, dp)
        else
          (case dir_next fs dp False of (res, fs', dp') \<Rightarrow>
            if res = FR_OK then remove_entries fs' dp' lst else (res, fs', dp')))"
  by pat_completeness auto
termination
  by (relation "measure (\<lambda>(fs, dp, lst). entries_left dp)") (auto dest: dir_next_advances(3) sym)

declare remove_entries.simps [simp del]

definition dir_remove :: "FATFS \<Rightarrow> FDIR \<Rightarrow> FRESULT \<times> FATFS \<times> FDIR" where
  "dir_remove fs dp =
     (let lst = dptr dp in
      case (if blk_ofs dp = 0xFFFFFFFF then (FR_OK, fs, dp) else dir_sdi fs dp (blk_ofs dp)) of (res, fs, dp) \<Rightarrow>
      if res = FR_OK then
        (case remove_entries fs dp lst of (res, fs, dp) \<Rightarrow>
          (if res = FR_NO_FILE then FR_INT_ERR else res, fs, dp))
      else (res, fs, dp))"

end
