(* ===== verification/FfPath.thy ===== *)
theory FfPath
  imports FfFind
begin

text \<open>
  Paths and names (\<open>ff.c\<close>): \<open>get_fileinfo\<close> turns a directory entry into API strings,
  \<open>create_name\<close> turns a path segment into its directory form, \<open>follow_path\<close> walks a path. A C
  string is the list of its characters; reading at its end gives the terminator. The loops over
  buffers carry as fuel the number of cells of the buffer.
\<close>

section \<open>File information\<close>

text \<open>
  The loop that copies the \<open>nc\<close> characters of an exFAT name: the index behind the last unit
  stored, 0 for a name that cannot be shown, and the pending surrogate.
\<close>

fun xname_loop ::
  "nat \<Rightarrow> mem \<Rightarrow> (nat \<Rightarrow> WCHAR) \<Rightarrow> nat \<Rightarrow> nat \<Rightarrow> WCHAR \<Rightarrow> (nat \<Rightarrow> WCHAR) \<times> nat \<times> WCHAR"
where
  "xname_loop 0 dirb name si di hs = (name, di, hs)"
| "xname_loop (Suc nc) dirb name si di hs =
     (if si \<ge> MAXDIRB 255 then (name, 0, hs)
      else
        let si = (if si mod 32 = 0 then si + 2 else si);
            wc = ld_word dirb si in
        if hs = 0 \<and> IsSurrogate (ucast wc) then xname_loop nc dirb name (si + 2) di wc
        else
          (case put_utf (push_bit 16 (ucast hs) OR ucast wc) name di (255 - di) of (nw, name) \<Rightarrow>
            if nw = 0 then (name, 0, hs) else xname_loop nc dirb name (si + 2) (di + nw) 0))"

definition fileinfo_exfat :: "FATFS \<Rightarrow> FILINFO \<Rightarrow> FILINFO" where
  "fileinfo_exfat fs fno =
     (case xname_loop (unat (dirbuf fs 35)) (dirbuf fs) (fname fno) 64 0 0 of (name, di, hs) \<Rightarrow>
        let di = (if hs \<noteq> 0 then 0 else di);
            (name, di) = (if di = 0 then (name(0 := 0x3F), 1) else (name, di));
            at = dirbuf fs 4 AND 0x37 in
        fno\<lparr>fname := name(di := 0), altname := (altname fno)(0 := 0), fattrib := at,
            fi_fsize := if at AND 0x10 \<noteq> 0 then 0 else ld_qword (dirbuf fs) 56,
            ftime := ld_word (dirbuf fs) 12, fdate := ld_word (dirbuf fs) 14\<rparr>)"

text \<open>The same for a long name in the buffer of the volume.\<close>

fun lname_loop ::
  "nat \<Rightarrow> (nat \<Rightarrow> WCHAR) \<Rightarrow> (nat \<Rightarrow> WCHAR) \<Rightarrow> nat \<Rightarrow> nat \<Rightarrow> WCHAR \<Rightarrow> (nat \<Rightarrow> WCHAR) \<times> nat \<times> WCHAR"
where
  "lname_loop 0 lfn name si di hs = (name, di, hs)"
| "lname_loop (Suc n) lfn name si di hs =
     (if lfn si = 0 then (name, di, hs)
      else
        let wc = lfn si in
        if hs = 0 \<and> IsSurrogate (ucast wc) then lname_loop n lfn name (si + 1) di wc
        else
          (case put_utf (push_bit 16 (ucast hs) OR ucast wc) name di (255 - di) of (nw, name) \<Rightarrow>
            if nw = 0 then (name, 0, hs) else lname_loop n lfn name (si + 1) (di + nw) 0))"

text \<open>The short name of the entry at \<open>p\<close>; a double-byte character takes two of its bytes.\<close>

function sname_loop :: "WCHAR list \<Rightarrow> mem \<Rightarrow> nat \<Rightarrow> (nat \<Rightarrow> WCHAR) \<Rightarrow> nat \<Rightarrow> nat \<Rightarrow> (nat \<Rightarrow> WCHAR) \<times> nat" where
  "sname_loop tbl dir p alt si di =
     (if si < 11 then
        let b = dir (p + si); si = si + 1 in
        if b = 0x20 then sname_loop tbl dir p alt si di
        else
          let b = (if b = 0x05 then 0xE5 else b);
              (alt, di) = (if si = 9 \<and> di < 12 then (alt(di := 0x2E), di + 1) else (alt, di));
              dbc = (dbc_1st b \<and> si \<noteq> 8 \<and> si \<noteq> 11 \<and> dbc_2nd (dir (p + si)));
              wc = (if dbc then push_bit 8 (ucast b) OR ucast (dir (p + si)) else ucast b);
              si' = (if dbc then si + 1 else si);
              wc = ff_oem2uni tbl wc 932 in
          if wc = 0 then (alt, 0)
          else
            (case put_utf (ucast wc) alt di (12 - di) of (nw, alt) \<Rightarrow>
              if nw = 0 then (alt, 0) else sname_loop tbl dir p alt si' (di + nw))
      else (alt, di))"
  by pat_completeness auto
termination by (relation "measure (\<lambda>(tbl, dir, p, alt, si, di). 11 - si)") (auto split: if_splits)

declare sname_loop.simps [simp del]

text \<open>The copy of the short name with the case the flags \<open>nt\<close> give it.\<close>

fun case_loop :: "nat \<Rightarrow> (nat \<Rightarrow> WCHAR) \<Rightarrow> (nat \<Rightarrow> WCHAR) \<Rightarrow> nat \<Rightarrow> BYTE \<Rightarrow> BYTE \<Rightarrow> (nat \<Rightarrow> WCHAR) \<times> nat" where
  "case_loop 0 alt name di nt lcf = (name, di)"
| "case_loop (Suc n) alt name di nt lcf =
     (if alt di = 0 then (name, di)
      else
        let wc = alt di;
            lcf = (if wc = 0x2E then NS_EXT else lcf);
            wc = (if 0x41 \<le> wc \<and> wc \<le> 0x5A \<and> nt AND lcf \<noteq> 0 then wc + 0x20 else wc) in
        case_loop n alt (name(di := wc)) (di + 1) nt lcf)"

definition fileinfo_fat :: "FATFS \<Rightarrow> FDIR \<Rightarrow> FILINFO \<Rightarrow> FILINFO" where
  "fileinfo_fat fs dp fno =
     (let p = d_dir dp;
          name = (if blk_ofs dp \<noteq> 0xFFFFFFFF then
                    (case lname_loop 256 (lfnbuf fs) (fname fno) 0 0 0 of (name, di, hs) \<Rightarrow>
                      name((if hs \<noteq> 0 then 0 else di) := 0))
                  else fname fno);
          (alt, di) = sname_loop (d_oem2uni (pdrv fs)) (win fs) p (altname fno) 0 0;
          alt = alt(di := 0);
          nt = win fs (p + 12);
          (name, alt) =
            (if name 0 = 0 then
               let (name, di) = (if di = 0 then (name(0 := 0x3F), 1) else case_loop 13 alt name 0 nt NS_BODY) in
               (name(di := 0), if nt = 0 then alt(0 := 0) else alt)
             else (name, alt)) in
      fno\<lparr>fname := name, altname := alt, fattrib := win fs (p + 11) AND 0x3F,
          fi_fsize := ucast (ld_dword (win fs) (p + 28)),
          ftime := ld_word (win fs) (p + 22), fdate := ld_word (win fs) (p + 24)\<rparr>)"

definition get_fileinfo :: "FATFS \<Rightarrow> FDIR \<Rightarrow> FILINFO \<Rightarrow> FILINFO" where
  "get_fileinfo fs dp fno =
     (let fno = fno\<lparr>fname := (fname fno)(0 := 0)\<rparr> in
      if d_sect dp = 0 then fno
      else if fs_type fs = FS_EXFAT then fileinfo_exfat fs fno
      else fileinfo_fat fs dp fno)"

section \<open>Path segments\<close>

type_synonym tstring = "WCHAR list"

definition str_at :: "tstring \<Rightarrow> nat \<Rightarrow> WCHAR" where
  "str_at s k = (if k < length s then s ! k else 0)"

definition IsSeparator :: "WCHAR \<Rightarrow> bool" where
  "IsSeparator c = (c = 0x2F \<or> c = 0x5C)"

definition IsTerminator :: "WCHAR \<Rightarrow> bool" where
  "IsTerminator c = (c < 0x20)"

function skip_sep :: "tstring \<Rightarrow> nat \<Rightarrow> nat" where
  "skip_sep path p = (if IsSeparator (str_at path p) then skip_sep path (p + 1) else p)"
  by pat_completeness auto
termination
  by (relation "measure (\<lambda>(path, p). length path - p)") (auto simp: str_at_def IsSeparator_def split: if_splits)

declare skip_sep.simps [simp del]

text \<open>Characters a long name may not have, and those a short name may not have.\<close>

definition bad_lfn :: "WCHAR \<Rightarrow> bool" where
  "bad_lfn wc = (wc < 0x80 \<and> wc \<in> set [0x2A, 0x3A, 0x3C, 0x3E, 0x7C, 0x22, 0x3F, 0x7F, 0])"

definition bad_sfn :: "WCHAR \<Rightarrow> bool" where
  "bad_sfn wc = (wc = 0 \<or> wc \<in> set [0x2B, 0x2C, 0x3B, 0x3D, 0x5B, 0x5D])"

text \<open>
  The loop that fills the long name buffer: \<open>None\<close> for an invalid name, else the character it
  stopped at, the position behind it and the length of the name.
\<close>

function lfn_loop ::
  "tstring \<Rightarrow> (nat \<Rightarrow> WCHAR) \<Rightarrow> nat \<Rightarrow> nat \<Rightarrow> (WCHAR \<times> nat \<times> nat) option \<times> (nat \<Rightarrow> WCHAR)"
where
  "lfn_loop path lfn p di =
     (case tchar2uni (str_at path) p of (uc, p) \<Rightarrow>
      if uc = 0xFFFFFFFF then (None, lfn)
      else
        let (lfn, di') = (if uc \<ge> 0x10000 then (lfn(di := ucast (drop_bit 16 uc)), di + 1) else (lfn, di));
            wc = ucast uc :: WCHAR in
        if wc < 0x20 \<or> IsSeparator wc then (Some (wc, p, di'), lfn)
        else if bad_lfn wc then (None, lfn)
        else if di' \<ge> 255 then (None, lfn)
        else lfn_loop path (lfn(di' := wc)) p (di' + 1))"
  by pat_completeness auto
termination by (relation "measure (\<lambda>(path, lfn, p, di). 255 - di)") (auto split: if_splits)

declare lfn_loop.simps [simp del]

fun snip :: "(nat \<Rightarrow> WCHAR) \<Rightarrow> nat \<Rightarrow> nat" where
  "snip lfn 0 = 0"
| "snip lfn (Suc di) = (if lfn di \<noteq> 0x20 \<and> lfn di \<noteq> 0x2E then Suc di else snip lfn di)"

fun lead_spaces :: "nat \<Rightarrow> (nat \<Rightarrow> WCHAR) \<Rightarrow> nat \<Rightarrow> nat" where
  "lead_spaces 0 lfn si = si"
| "lead_spaces (Suc n) lfn si = (if lfn si = 0x20 then lead_spaces n lfn (si + 1) else si)"

fun last_dot :: "(nat \<Rightarrow> WCHAR) \<Rightarrow> nat \<Rightarrow> nat" where
  "last_dot lfn 0 = 0"
| "last_dot lfn (Suc di) = (if lfn di \<noteq> 0x2E then last_dot lfn di else Suc di)"

text \<open>
  The loop that builds the short name: \<open>fnb\<close> the name, \<open>i\<close> and \<open>ni\<close> the position and the end of
  the field, \<open>b\<close> the flags of the cases met and \<open>cf\<close> the status.
\<close>

fun sfn_loop ::
  "nat \<Rightarrow> WCHAR list \<Rightarrow> (nat \<Rightarrow> WCHAR) \<Rightarrow> mem \<Rightarrow> nat \<Rightarrow> nat \<Rightarrow> nat \<Rightarrow> nat \<Rightarrow> BYTE \<Rightarrow> BYTE \<Rightarrow> mem \<times> nat \<times> BYTE \<times> BYTE"
where
  "sfn_loop 0 tbl lfn fnb si di i ni b cf = (fnb, ni, b, cf)"
| "sfn_loop (Suc n) tbl lfn fnb si di i ni b cf =
     (let wc = lfn si; si = si + 1; lossy = cf OR (NS_LOSS OR NS_LFN) in
      if wc = 0 then (fnb, ni, b, cf)
      else if wc = 0x20 \<or> wc = 0x2E \<and> si \<noteq> di then sfn_loop n tbl lfn fnb si di i ni b lossy
      else if i \<ge> ni \<or> si = di then
        if ni = 11 then (fnb, ni, b, lossy)
        else
          let cf = (if si \<noteq> di then lossy else cf) in
          if si > di then (fnb, ni, b, cf)
          else sfn_loop n tbl lfn fnb di di 8 11 (push_bit 2 b) cf
      else
        let (wc, cf) = (if wc \<ge> 0x80 then (ff_uni2oem tbl (ff_wtoupper (ucast wc)) 932, cf OR NS_LFN) else (wc, cf));
            lossy = cf OR (NS_LOSS OR NS_LFN) in
        if wc \<ge> 0x100 then
          if i \<ge> ni - 1 then sfn_loop n tbl lfn fnb si di ni ni b lossy
          else sfn_loop n tbl lfn (fnb(i := ucast (drop_bit 8 wc), i + 1 := ucast wc)) si di (i + 2) ni b cf
        else if bad_sfn wc then sfn_loop n tbl lfn (fnb(i := 0x5F)) si di (i + 1) ni b lossy
        else
          let b = (if 0x41 \<le> wc \<and> wc \<le> 0x5A then b OR 2 else b);
              low = (0x61 \<le> wc \<and> wc \<le> 0x7A) in
          sfn_loop n tbl lfn (fnb(i := ucast (if low then wc - 0x20 else wc))) si di (i + 1) ni
            (if low then b OR 1 else b) cf)"

definition make_sfn :: "WCHAR list \<Rightarrow> (nat \<Rightarrow> WCHAR) \<Rightarrow> nat \<Rightarrow> BYTE \<Rightarrow> mem \<Rightarrow> mem" where
  "make_sfn tbl lfn di cf fnb =
     (let si = lead_spaces 256 lfn 0;
          cf = (if si > 0 \<or> lfn si = 0x2E then cf OR (NS_LOSS OR NS_LFN) else cf);
          di = last_dot lfn di in
      case sfn_loop 256 tbl lfn (mem_set fnb 0 0x20 11) si di 0 8 0 cf of (fnb, ni, b, cf) \<Rightarrow>
        let fnb = (if fnb 0 = 0xE5 then fnb(0 := 0x05) else fnb);
            b = (if ni = 8 then push_bit 2 b else b);
            cf = (if b AND 0x0C = 0x0C \<or> b AND 0x03 = 0x03 then cf OR NS_LFN else cf);
            cf = (if cf AND NS_LFN = 0 then
                    let cf = (if b AND 0x01 \<noteq> 0 then cf OR NS_EXT else cf) in
                    if b AND 0x04 \<noteq> 0 then cf OR NS_BODY else cf
                  else cf) in
        fnb(11 := cf))"

text \<open>\<open>create_name\<close> returns the position of the next segment besides the volume and the object.\<close>

definition create_name :: "FATFS \<Rightarrow> FDIR \<Rightarrow> tstring \<Rightarrow> nat \<Rightarrow> FRESULT \<times> FATFS \<times> FDIR \<times> nat" where
  "create_name fs dp path p0 =
     (case lfn_loop path (lfnbuf fs) p0 0 of
        (None, lfn) \<Rightarrow> (FR_INVALID_NAME, fs\<lparr>lfnbuf := lfn\<rparr>, dp, p0)
      | (Some (wc, p, di), lfn) \<Rightarrow>
          let (p, cf) = (if wc < 0x20 then (p, NS_LAST)
                         else let p = skip_sep path p in
                              (p, if IsTerminator (str_at path p) then NS_LAST else 0));
              di = snip lfn di;
              lfn = lfn(di := 0);
              fs = fs\<lparr>lfnbuf := lfn\<rparr> in
          if di = 0 then (FR_INVALID_NAME, fs, dp, p)
          else (FR_OK, fs, dp\<lparr>fn := make_sfn (d_uni2oem (pdrv fs)) lfn di cf (fn dp)\<rparr>, p))"

section \<open>Following a path\<close>

text \<open>The loop over the segments; every segment but the last takes a character of the path.\<close>

fun follow_loop :: "nat \<Rightarrow> FATFS \<Rightarrow> FDIR \<Rightarrow> tstring \<Rightarrow> nat \<Rightarrow> FRESULT \<times> FATFS \<times> FDIR" where
  "follow_loop 0 fs dp path p = (FR_TIMEOUT, fs, dp)"
| "follow_loop (Suc n) fs dp path p =
     (case create_name fs dp path p of (res, fs, dp, p) \<Rightarrow>
      if res \<noteq> FR_OK then (res, fs, dp)
      else
        (case dir_find fs dp of (res, fs, dp) \<Rightarrow>
          let ns = fn dp 11 in
          if res \<noteq> FR_OK then (if res = FR_NO_FILE \<and> ns AND NS_LAST = 0 then FR_NO_PATH else res, fs, dp)
          else if ns AND NS_LAST \<noteq> 0 then (FR_OK, fs, dp)
          else if attr (d_obj dp) AND 0x10 = 0 then (FR_NO_PATH, fs, dp)
          else
            let ob = d_obj dp;
                ob = (if fs_type fs = FS_EXFAT then
                        init_alloc_info fs
                          (ob\<lparr>c_scl := sclust ob, c_size := ucast (objsize ob) AND 0xFFFFFF00 OR ucast (stat ob),
                              c_ofs := blk_ofs dp\<rparr>)
                      else ob\<lparr>sclust := ld_clust fs (win fs) (unat (dptr dp mod SS fs))\<rparr>) in
            follow_loop n fs (dp\<lparr>d_obj := ob\<rparr>) path p))"

definition follow_path :: "FATFS \<Rightarrow> FDIR \<Rightarrow> tstring \<Rightarrow> FRESULT \<times> FATFS \<times> FDIR" where
  "follow_path fs dp path =
     (let p = skip_sep path 0;
          dp = dp\<lparr>d_obj := (d_obj dp)\<lparr>sclust := 0, n_frag := 0\<rparr>\<rparr> in
      if str_at path p < 0x20 then dir_sdi fs (dp\<lparr>fn := (fn dp)(11 := NS_NONAME)\<rparr>) 0
      else follow_loop (Suc (length path)) fs dp path p)"

end
