(* ===== verification/FfMount.thy ===== *)
theory FfMount
  imports FfPath
begin

text \<open>
  Mounting (\<open>ff.c\<close>): \<open>get_ldnumber\<close>, \<open>check_fs\<close>, \<open>find_volume\<close>, \<open>mount_volume\<close>, \<open>validate\<close> and
  \<open>f_mount\<close>. The static data of the module, the registered volume \<open>FatFs[0]\<close> and the mount
  counter \<open>Fsid\<close>, is the record \<open>ffstate\<close>. The disk layer reports every drive as initialised and
  writable (\<open>ff_disk_status\<close> and \<open>ff_disk_initialize\<close> return 0).
\<close>

record ffstate =
  FatFs :: "FATFS option"
  Fsid :: WORD

section \<open>Logical drives\<close>

text \<open>The character at the first colon or terminator, and the position behind it.\<close>

function find_colon :: "tstring \<Rightarrow> nat \<Rightarrow> WCHAR \<times> nat" where
  "find_colon path tt =
     (let tc = str_at path tt in
      if \<not> IsTerminator tc \<and> tc \<noteq> 0x3A then find_colon path (tt + 1) else (tc, tt + 1))"
  by pat_completeness auto
termination
  by (relation "measure (\<lambda>(path, tt). length path - tt)") (auto simp: str_at_def IsTerminator_def split: if_splits)

declare find_colon.simps [simp del]

text \<open>\<open>None\<close> for an invalid drive; the only drive is 0. The path without its prefix is returned.\<close>

definition get_ldnumber :: "tstring \<Rightarrow> nat option \<times> tstring" where
  "get_ldnumber path =
     (case find_colon path 0 of (tc, tt) \<Rightarrow>
      if tc = 0x3A then
        let c = str_at path 0;
            i = (if 0x30 \<le> c \<and> c \<le> 0x39 \<and> 2 = tt then unat (c - 0x30) else 1) in
        if i < 1 then (Some i, drop tt path) else (None, path)
      else (Some 0, path))"

section \<open>Boot sectors\<close>

text \<open>A string literal of the code at offset \<open>p\<close> of a buffer.\<close>

fun bytes_at :: "mem \<Rightarrow> nat \<Rightarrow> BYTE list \<Rightarrow> bool" where
  "bytes_at m p [] = True"
| "bytes_at m p (b # bs) = (m p = b \<and> bytes_at m (p + 1) bs)"

definition sig_exfat :: "BYTE list" where
  "sig_exfat = [0xEB, 0x76, 0x90, 0x45, 0x58, 0x46, 0x41, 0x54, 0x20, 0x20, 0x20]"

definition sig_fat32 :: "BYTE list" where
  "sig_fat32 = [0x46, 0x41, 0x54, 0x33, 0x32, 0x20, 0x20, 0x20]"

definition fat_bpb :: "mem \<Rightarrow> bool" where
  "fat_bpb w =
     (let v = ld_word w 11; b = w 13 in
      v AND (v - 1) = 0 \<and> v \<ge> 512 \<and> v \<le> 4096 \<and> b \<noteq> 0 \<and> b AND (b - 1) = 0 \<and>
      ld_word w 14 \<noteq> 0 \<and> (ucast (w 16) :: UINT) - 1 \<le> 1 \<and> ld_word w 17 \<noteq> 0 \<and>
      (ld_word w 19 \<ge> 128 \<or> ld_dword w 32 \<ge> 0x10000) \<and> ld_word w 22 \<noteq> 0)"

definition check_fs :: "FATFS \<Rightarrow> LBA \<Rightarrow> UINT \<times> FATFS" where
  "check_fs fs sect =
     (let fs = fs\<lparr>wflag := 0, winsect := 0 - 1\<rparr> in
      case move_window fs sect of (res, fs) \<Rightarrow>
      if res \<noteq> FR_OK then (4, fs)
      else
        let sign = ld_word (win fs) 510; b = win fs 0 in
        if sign = 0xAA55 \<and> bytes_at (win fs) 0 sig_exfat then (1, fs)
        else if (b = 0xEB \<or> b = 0xE9 \<or> b = 0xE8) \<and>
                (sign = 0xAA55 \<and> bytes_at (win fs) 82 sig_fat32 \<or> fat_bpb (win fs)) then (0, fs)
        else (if sign = 0xAA55 then 2 else 3, fs))"

text \<open>The loop over the partitions, \<open>pts\<close> the first sectors of those still to look at.\<close>

fun part_loop :: "FATFS \<Rightarrow> UINT \<Rightarrow> DWORD list \<Rightarrow> UINT \<times> FATFS" where
  "part_loop fs part [] = (3, fs)"
| "part_loop fs part (pt # pts) =
     (case (if pt \<noteq> 0 then check_fs fs pt else (3, fs)) of (fmt, fs) \<Rightarrow>
      if part = 0 \<and> fmt \<ge> 2 \<and> pts \<noteq> [] then part_loop fs part pts else (fmt, fs))"

definition find_volume :: "FATFS \<Rightarrow> UINT \<Rightarrow> UINT \<times> FATFS" where
  "find_volume fs part =
     (case check_fs fs 0 of (fmt, fs) \<Rightarrow>
      if fmt \<noteq> 2 \<and> (fmt \<ge> 3 \<or> part = 0) then (fmt, fs)
      else
        let pts = map (\<lambda>i. ld_dword (win fs) (446 + i * 16 + 8)) [0, 1, 2, 3] in
        part_loop fs part (drop (if part \<noteq> 0 then unat (part - 1) else 0) pts))"

section \<open>Mounting\<close>

text \<open>The look for the bitmap entry in the first cluster of the root directory, at entry \<open>i\<close>.\<close>

fun bitmap_entry :: "nat \<Rightarrow> FATFS \<Rightarrow> DWORD \<Rightarrow> DWORD \<Rightarrow> (FRESULT + DWORD) \<times> FATFS" where
  "bitmap_entry 0 fs so i = (Inl FR_TIMEOUT, fs)"
| "bitmap_entry (Suc n) fs so i =
     (if i = 0 \<and> so \<ge> ucast (csize fs) then (Inl FR_NO_FILESYSTEM, fs)
      else
        (case (if i = 0 then move_window fs (clst2sect fs (dirbase fs) + so) else (FR_OK, fs)) of (res, fs) \<Rightarrow>
          if res \<noteq> FR_OK then (Inl FR_DISK_ERR, fs)
          else
            let so = (if i = 0 then so + 1 else so) in
            if win fs (unat i) = 0x81 then (Inr i, fs)
            else bitmap_entry n fs so ((i + 32) mod SS fs)))"

text \<open>The check that the bitmap is contiguous; it ends as the links have to ascend.\<close>

function contig_check :: "FATFS \<Rightarrow> DWORD \<Rightarrow> FRESULT \<times> FATFS" where
  "contig_check fs bcl =
     (case move_window fs (fatbase fs + bcl div (SS fs div 4)) of (res, fs) \<Rightarrow>
      if res \<noteq> FR_OK then (FR_DISK_ERR, fs)
      else
        let cv = ld_dword (win fs) (unat (bcl mod (SS fs div 4) * 4)) in
        if cv = 0xFFFFFFFF then (FR_OK, fs)
        else if cv \<noteq> bcl + 1 then (FR_NO_FILESYSTEM, fs)
        else contig_check fs (bcl + 1))"
  by pat_completeness auto
termination
proof (relation "measure (\<lambda>(fs, bcl). if bcl = 0xFFFFFFFF then 2 ^ 32 else 2 ^ 32 - Suc (unat bcl))")
  fix fs :: FATFS and bcl :: DWORD and x fs1 cv
  assume "cv \<noteq> 0xFFFFFFFF" and "\<not> cv \<noteq> bcl + 1"
  then have ne: "bcl + 1 \<noteq> 0xFFFFFFFF" by auto
  have "unat (bcl + 1) = Suc (unat bcl)" if "bcl \<noteq> 0xFFFFFFFF"
  proof -
    have "unat bcl \<noteq> 4294967295" using that by (simp add: word_unat_eq_iff)
    then show ?thesis using unat_dword_less [of bcl] by (simp add: unat_word_ariths(1))
  qed
  then show "((fs1, bcl + 1), (fs, bcl)) \<in> measure (\<lambda>(fs, bcl). if bcl = 0xFFFFFFFF then 2 ^ 32 else 2 ^ 32 - Suc (unat bcl))"
    using ne unat_dword_less [of bcl] unat_dword_less [of "bcl + 1"] by auto
qed simp

declare contig_check.simps [simp del]

text \<open>
  \<open>1 << n\<close> of a byte \<open>n\<close>. C leaves the result open from 32 on; the model has the value of the
  32-bit shift instruction, which takes its count modulo 32.
\<close>

definition shl1 :: "BYTE \<Rightarrow> DWORD" where
  "shl1 n = push_bit (unat n mod 32) 1"

fun zero_fill :: "nat \<Rightarrow> mem \<Rightarrow> nat \<Rightarrow> bool" where
  "zero_fill 0 w i = True"
| "zero_fill (Suc n) w i = (w i = 0 \<and> zero_fill n w (i + 1))"

definition mount_bitmap :: "FATFS \<Rightarrow> FRESULT \<times> FATFS" where
  "mount_bitmap fs =
     (case bitmap_entry (Suc (unat (csize fs) * (SSn fs div 32))) fs 0 0 of
        (Inl res, fs) \<Rightarrow> (res, fs)
      | (Inr i, fs) \<Rightarrow>
          let bcl = ld_dword (win fs) (unat i + 20) in
          if bcl < 2 \<or> bcl \<ge> n_fatent fs then (FR_NO_FILESYSTEM, fs)
          else
            (case contig_check (fs\<lparr>bitbase := database fs + ucast (csize fs) * (bcl - 2)\<rparr>) bcl of (res, fs) \<Rightarrow>
              if res \<noteq> FR_OK then (res, fs)
              else (FR_OK, fs\<lparr>last_clst := 0xFFFFFFFF, free_clst := 0xFFFFFFFF\<rparr>)))"

text \<open>The volume parameters of an exFAT boot sector in the window.\<close>

definition mount_exfat :: "FATFS \<Rightarrow> LBA \<Rightarrow> FRESULT \<times> FATFS" where
  "mount_exfat fs bsect =
     (let w = win fs in
      if \<not> zero_fill 53 w 11 then (FR_NO_FILESYSTEM, fs)
      else if ld_word w 104 \<noteq> 0x100 then (FR_NO_FILESYSTEM, fs)
      else if shl1 (w 108) \<noteq> SS fs then (FR_NO_FILESYSTEM, fs)
      else
        let maxlba = ld_qword w 72 + ucast bsect in
        if maxlba \<ge> 0x100000000 then (FR_NO_FILESYSTEM, fs)
        else
          let fs = fs\<lparr>fsize := ld_dword w 84, n_fats := w 110\<rparr> in
          if n_fats fs \<noteq> 1 then (FR_NO_FILESYSTEM, fs)
          else
            let fs = fs\<lparr>csize := ucast (shl1 (w 109))\<rparr> in
            if csize fs = 0 then (FR_NO_FILESYSTEM, fs)
            else
              let nclst = ld_dword w 92 in
              if nclst > 0x7FFFFFFD then (FR_NO_FILESYSTEM, fs)
              else
                let fs = fs\<lparr>n_fatent := nclst + 2, volbase := bsect,
                            database := bsect + ld_dword w 88, fatbase := bsect + ld_dword w 80\<rparr> in
                if maxlba < ucast (database fs) + ucast (nclst * ucast (csize fs)) then (FR_NO_FILESYSTEM, fs)
                else mount_bitmap (fs\<lparr>dirbase := ld_dword w 96\<rparr>))"

text \<open>The FSINFO sector of a FAT32 volume.\<close>

definition load_fsinfo :: "FATFS \<Rightarrow> BYTE \<Rightarrow> LBA \<Rightarrow> FATFS" where
  "load_fsinfo fs fmt bsect =
     (if fmt = FS_FAT32 \<and> ld_word (win fs) 48 = 1 then
        (case move_window fs (bsect + 1) of (res, fs) \<Rightarrow>
          if res = FR_OK then
            let fs = fs\<lparr>fsi_flag := 0\<rparr>; w = win fs in
            if ld_word w 510 = 0xAA55 \<and> ld_dword w 0 = 0x41615252 \<and> ld_dword w 484 = 0x61417272
            then fs\<lparr>free_clst := ld_dword w 488, last_clst := ld_dword w 492\<rparr> else fs
          else fs)
      else fs)"

definition fat_subtype :: "DWORD \<Rightarrow> BYTE" where
  "fat_subtype nclst =
     (let fmt = (if nclst \<le> 0x0FFFFFF5 then FS_FAT32 else 0);
          fmt = (if nclst \<le> 0xFFF5 then FS_FAT16 else fmt) in
      if nclst \<le> 0xFF5 then FS_FAT12 else fmt)"

text \<open>The volume parameters of a FAT boot sector in the window; the sub-type is returned too.\<close>

definition mount_limits :: "FATFS \<Rightarrow> BYTE \<Rightarrow> DWORD \<Rightarrow> LBA \<Rightarrow> FRESULT \<times> FATFS" where
  "mount_limits fs fmt fasize bsect =
     (let w = win fs in
      case (if fmt = FS_FAT32 then
              if ld_word w 42 \<noteq> 0 \<or> n_rootdir fs \<noteq> 0 then (None, fs)
              else (Some (n_fatent fs * 4), fs\<lparr>dirbase := ld_dword w 44\<rparr>)
            else if n_rootdir fs = 0 then (None, fs)
            else (Some (if fmt = FS_FAT16 then n_fatent fs * 2 else n_fatent fs * 3 div 2 + (n_fatent fs AND 1)),
                  fs\<lparr>dirbase := fatbase fs + fasize\<rparr>)) of
        (None, fs) \<Rightarrow> (FR_NO_FILESYSTEM, fs)
      | (Some szbfat, fs) \<Rightarrow>
          if fsize fs < (szbfat + (SS fs - 1)) div SS fs then (FR_NO_FILESYSTEM, fs)
          else (FR_OK, load_fsinfo (fs\<lparr>last_clst := 0xFFFFFFFF, free_clst := 0xFFFFFFFF, fsi_flag := 0x80\<rparr>) fmt bsect))"

definition mount_fat :: "FATFS \<Rightarrow> LBA \<Rightarrow> FRESULT \<times> FATFS \<times> BYTE" where
  "mount_fat fs bsect =
     (let w = win fs in
      if ld_word w 11 \<noteq> ssize fs then (FR_NO_FILESYSTEM, fs, 0)
      else
        let fasize = (if ld_word w 22 = 0 then ld_dword w 36 else ucast (ld_word w 22));
            fs = fs\<lparr>fsize := fasize, n_fats := w 16\<rparr> in
        if n_fats fs \<noteq> 1 \<and> n_fats fs \<noteq> 2 then (FR_NO_FILESYSTEM, fs, 0)
        else
          let fasize = fasize * ucast (n_fats fs);
              fs = fs\<lparr>csize := ucast (w 13)\<rparr> in
          if csize fs = 0 \<or> csize fs AND (csize fs - 1) \<noteq> 0 then (FR_NO_FILESYSTEM, fs, 0)
          else
            let fs = fs\<lparr>n_rootdir := ld_word w 17\<rparr> in
            if ucast (n_rootdir fs) mod (SS fs div 32) \<noteq> 0 then (FR_NO_FILESYSTEM, fs, 0)
            else
              let tsect = (if ld_word w 19 = 0 then ld_dword w 32 else ucast (ld_word w 19));
                  nrsv = ld_word w 14 in
              if nrsv = 0 then (FR_NO_FILESYSTEM, fs, 0)
              else
                let sysect = ucast nrsv + fasize + ucast (n_rootdir fs) div (SS fs div 32) in
                if tsect < sysect then (FR_NO_FILESYSTEM, fs, 0)
                else
                  let nclst = (tsect - sysect) div ucast (csize fs);
                      fmt = fat_subtype nclst in
                  if nclst = 0 \<or> fmt = 0 then (FR_NO_FILESYSTEM, fs, 0)
                  else
                    (case mount_limits (fs\<lparr>n_fatent := nclst + 2, volbase := bsect, fatbase := bsect + ucast nrsv,
                                           database := bsect + sysect\<rparr>) fmt fasize bsect of
                       (res, fs) \<Rightarrow> (res, fs, fmt)))"

text \<open>The end of a successful mount.\<close>

definition mount_done :: "FATFS \<Rightarrow> BYTE \<Rightarrow> WORD \<Rightarrow> FRESULT \<times> FATFS \<times> WORD" where
  "mount_done fs fmt fsid = (FR_OK, fs\<lparr>fs_type := fmt, fs_id := fsid + 1\<rparr>, fsid + 1)"

text \<open>\<open>disk_ioctl\<close> with \<open>GET_SECTOR_SIZE\<close> truncates the device's sector size to 16 bits.\<close>

definition mount_fs :: "FATFS \<Rightarrow> WORD \<Rightarrow> FRESULT \<times> FATFS \<times> WORD" where
  "mount_fs fs fsid =
     (if fs_type fs \<noteq> 0 then (FR_OK, fs, fsid)
      else
        let fs = fs\<lparr>fs_type := 0, ssize := ucast (d_sector_size (pdrv fs))\<rparr>; ss = ssize fs in
        if ss > 4096 \<or> ss < 512 \<or> ss AND (ss - 1) \<noteq> 0 then (FR_DISK_ERR, fs, fsid)
        else
          (case find_volume fs 0 of (fmt, fs) \<Rightarrow>
            if fmt = 4 then (FR_DISK_ERR, fs, fsid)
            else if fmt \<ge> 2 then (FR_NO_FILESYSTEM, fs, fsid)
            else
              (case (if fmt = 1 then case mount_exfat fs (winsect fs) of (res, fs) \<Rightarrow> (res, fs, FS_EXFAT)
                     else mount_fat fs (winsect fs)) of (res, fs, fmt) \<Rightarrow>
                if res \<noteq> FR_OK then (res, fs, fsid)
                else mount_done fs fmt fsid)))"

text \<open>The state, the remaining path and the volume found; \<open>mode\<close> only matters for a write-protected drive.\<close>

definition mount_volume :: "ffstate \<Rightarrow> tstring \<Rightarrow> BYTE \<Rightarrow> FRESULT \<times> ffstate \<times> tstring \<times> FATFS option" where
  "mount_volume st path mode =
     (case get_ldnumber path of
        (None, path) \<Rightarrow> (FR_INVALID_DRIVE, st, path, None)
      | (Some vol, path) \<Rightarrow>
          (case FatFs st of
             None \<Rightarrow> (FR_NOT_ENABLED, st, path, None)
           | Some fs \<Rightarrow>
               (case mount_fs fs (Fsid st) of (res, fs, fsid) \<Rightarrow>
                  (res, \<lparr>FatFs = Some fs, Fsid = fsid\<rparr>, path, Some fs))))"

definition validate :: "FATFS \<Rightarrow> FFOBJID \<Rightarrow> FRESULT" where
  "validate fs obj =
     (if obj_fs obj \<and> fs_type fs \<noteq> 0 \<and> obj_id obj = fs_id fs then FR_OK else FR_INVALID_OBJECT)"

text \<open>\<open>nfs\<close> is the volume object to register, \<open>None\<close> to unmount.\<close>

definition f_mount :: "ffstate \<Rightarrow> FATFS option \<Rightarrow> tstring \<Rightarrow> BYTE \<Rightarrow> FRESULT \<times> ffstate" where
  "f_mount st nfs path opt =
     (case get_ldnumber path of
        (None, rp) \<Rightarrow> (FR_INVALID_DRIVE, st)
      | (Some vol, rp) \<Rightarrow>
          let st = st\<lparr>FatFs := map_option (\<lambda>fs. fs\<lparr>fs_type := 0\<rparr>) nfs\<rparr> in
          if opt = 0 then (FR_OK, st)
          else case mount_volume st path 0 of (res, st, rp, fs) \<Rightarrow> (res, st))"

end
