(* ===== verification/FfFile.thy ===== *)
theory FfFile
  imports FfMount
begin

text \<open>
  Files (\<open>ff.c\<close>): \<open>f_open\<close>, \<open>f_read\<close>, \<open>f_write\<close>, \<open>f_sync\<close>, \<open>f_close\<close>, \<open>f_lseek\<close>,
  \<open>f_truncate\<close> and \<open>f_expand\<close>. Operations on an open file take the volume it belongs to and the
  file object. \<open>ABORT\<close> leaves the result in the file object, which blocks the later operations.
  Each loop over sectors or clusters carries the number of steps that suffice for a volume whose
  cluster size is not zero.
\<close>

abbreviation (input) "FA_READ \<equiv> (0x01 :: BYTE)"
abbreviation (input) "FA_WRITE \<equiv> (0x02 :: BYTE)"
abbreviation (input) "FA_CREATE_NEW \<equiv> (0x04 :: BYTE)"
abbreviation (input) "FA_CREATE_ALWAYS \<equiv> (0x08 :: BYTE)"
abbreviation (input) "FA_OPEN_ALWAYS \<equiv> (0x10 :: BYTE)"
abbreviation (input) "FA_SEEKEND \<equiv> (0x20 :: BYTE)"
abbreviation (input) "FA_MODIFIED \<equiv> (0x40 :: BYTE)"
abbreviation (input) "FA_DIRTY \<equiv> (0x80 :: BYTE)"
abbreviation (input) "AM_RDO \<equiv> (0x01 :: BYTE)"
abbreviation (input) "AM_DIR \<equiv> (0x10 :: BYTE)"
abbreviation (input) "AM_ARC \<equiv> (0x20 :: BYTE)"

text \<open>The fixed date of a build without a clock, 1 January 2020.\<close>

definition GET_FATTIME :: DWORD where
  "GET_FATTIME = push_bit 25 (2020 - 1980) OR push_bit 21 1 OR push_bit 16 1"

text \<open>\<open>INIT_NAMBUF\<close>: whether the name buffers could be allocated. Their contents are arbitrary.\<close>

definition INIT_NAMBUF :: "FATFS \<Rightarrow> bool" where
  "INIT_NAMBUF fs = d_alloc (pdrv fs) (256 * 2 + MAXDIRB 255)"

text \<open>A buffer from offset \<open>p\<close> on, and its replacement.\<close>

definition sub_buf :: "mem \<Rightarrow> nat \<Rightarrow> mem" where
  "sub_buf m p = (\<lambda>i. m (p + i))"

definition set_sub :: "mem \<Rightarrow> nat \<Rightarrow> mem \<Rightarrow> mem" where
  "set_sub m p b = (\<lambda>i. if p \<le> i then b (i - p) else m i)"

definition ABORT :: "FIL \<Rightarrow> FRESULT \<Rightarrow> FIL" where
  "ABORT fp res = fp\<lparr>f_err := res\<rparr>"

text \<open>Cluster size in bytes.\<close>

definition clust_bytes :: "FATFS \<Rightarrow> DWORD" where
  "clust_bytes fs = ucast (csize fs) * SS fs"

section \<open>Opening a file\<close>

text \<open>An existing or new entry is reset and its cluster chain removed.\<close>

definition open_truncate :: "FATFS \<Rightarrow> FIL \<Rightarrow> FDIR \<Rightarrow> FRESULT \<times> FATFS \<times> FIL \<times> FDIR" where
  "open_truncate fs fp dj =
     (if fs_type fs = FS_EXFAT then
        let ob = init_alloc_info fs ((f_obj fp)\<lparr>obj_fs := True\<rparr>);
            db = mem_set (mem_set (dirbuf fs) 2 0 30) 38 0 26;
            db = st_dword (db(4 := AM_ARC)) 8 GET_FATTIME;
            fs = fs\<lparr>dirbuf := db(33 := 1)\<rparr> in
        (case store_xdir fs dj of (res, fs, dj) \<Rightarrow>
          if res = FR_OK \<and> sclust ob \<noteq> 0 then
            (case remove_chain fs ob (sclust ob) 0 of (res, fs, ob) \<Rightarrow>
              (res, fs\<lparr>last_clst := sclust ob - 1\<rparr>, fp\<lparr>f_obj := ob\<rparr>, dj))
          else (res, fs, fp\<lparr>f_obj := ob\<rparr>, dj))
      else
        let p = d_dir dj;
            w = st_dword (win fs) (p + 14) GET_FATTIME;
            w = st_dword w (p + 22) GET_FATTIME;
            cl = ld_clust fs w p;
            w = st_clust fs (w(p + 11 := AM_ARC)) p 0;
            fs = fs\<lparr>win := st_dword w (p + 28) 0, wflag := 1\<rparr> in
        if cl \<noteq> 0 then
          let sc = winsect fs in
          (case remove_chain fs (d_obj dj) cl 0 of (res, fs, ob) \<Rightarrow>
            let dj = dj\<lparr>d_obj := ob\<rparr> in
            if res = FR_OK then
              (case move_window fs sc of (res, fs) \<Rightarrow> (res, fs\<lparr>last_clst := cl - 1\<rparr>, fp, dj))
            else (res, fs, fp, dj))
        else (FR_OK, fs, fp, dj))"

text \<open>Creating or opening the object that \<open>follow_path\<close> looked for with result \<open>res\<close>.\<close>

definition open_object ::
  "FATFS \<Rightarrow> FIL \<Rightarrow> FDIR \<Rightarrow> BYTE \<Rightarrow> FRESULT \<Rightarrow> FRESULT \<times> FATFS \<times> FIL \<times> FDIR \<times> BYTE"
where
  "open_object fs fp dj mode res =
     (if mode AND (FA_CREATE_ALWAYS OR FA_OPEN_ALWAYS OR FA_CREATE_NEW) \<noteq> 0 then
        (case (if res \<noteq> FR_OK then
                 (case (if res = FR_NO_FILE then dir_register fs dj else (res, fs, dj)) of (res, fs, dj) \<Rightarrow>
                   (res, fs, dj, mode OR FA_CREATE_ALWAYS))
               else if attr (d_obj dj) AND (AM_RDO OR AM_DIR) \<noteq> 0 then (FR_DENIED, fs, dj, mode)
               else (if mode AND FA_CREATE_NEW \<noteq> 0 then FR_EXIST else FR_OK, fs, dj, mode)) of (res, fs, dj, mode) \<Rightarrow>
          if res = FR_OK \<and> mode AND FA_CREATE_ALWAYS \<noteq> 0 then
            (case open_truncate fs fp dj of (res, fs, fp, dj) \<Rightarrow> (res, fs, fp, dj, mode))
          else (res, fs, fp, dj, mode))
      else
        (if res = FR_OK then
           if attr (d_obj dj) AND AM_DIR \<noteq> 0 then FR_NO_FILE
           else if mode AND FA_WRITE \<noteq> 0 \<and> attr (d_obj dj) AND AM_RDO \<noteq> 0 then FR_DENIED else FR_OK
         else res, fs, fp, dj, mode))"

text \<open>The loop that follows the chain to the end of the file.\<close>

fun seek_end :: "nat \<Rightarrow> FATFS \<Rightarrow> FFOBJID \<Rightarrow> DWORD \<Rightarrow> FSIZE \<Rightarrow> FSIZE \<Rightarrow> FRESULT \<times> FATFS \<times> DWORD \<times> FSIZE" where
  "seek_end 0 fs obj clst ofs bcs = (FR_TIMEOUT, fs, clst, ofs)"
| "seek_end (Suc n) fs obj clst ofs bcs =
     (if ofs > bcs then
        (case get_fat fs obj clst of (clst, fs) \<Rightarrow>
          let ofs = ofs - bcs in
          if clst = 0xFFFFFFFF then (FR_DISK_ERR, fs, clst, ofs)
          else if clst \<le> 1 then (FR_INT_ERR, fs, clst, ofs)
          else seek_end n fs obj clst ofs bcs)
      else (FR_OK, fs, clst, ofs))"

definition open_append :: "FATFS \<Rightarrow> FIL \<Rightarrow> FRESULT \<times> FATFS \<times> FIL" where
  "open_append fs fp =
     (let sz = objsize (f_obj fp); bcs = ucast (clust_bytes fs) in
      case seek_end (Suc (unat (sz div bcs))) fs (f_obj fp) (sclust (f_obj fp)) sz bcs of (res, fs, clst, ofs) \<Rightarrow>
      let fp = fp\<lparr>fptr := sz, f_clust := clst\<rparr> in
      if res = FR_OK \<and> ofs mod ucast (ssize fs) \<noteq> 0 then
        let sc = clst2sect fs clst in
        if sc = 0 then (FR_INT_ERR, fs, fp)
        else
          let fp = fp\<lparr>f_sect := sc + ucast (ofs div ucast (ssize fs))\<rparr> in
          (case disk_read (pdrv fs) (buf fp) (f_sect fp) 1 of (r, b) \<Rightarrow>
            (if r \<noteq> RES_OK then FR_DISK_ERR else FR_OK, fs, fp\<lparr>buf := b\<rparr>))
      else (res, fs, fp))"

text \<open>The file object of an object that was found or created.\<close>

definition open_finish :: "FATFS \<Rightarrow> FIL \<Rightarrow> FDIR \<Rightarrow> BYTE \<Rightarrow> FRESULT \<times> FATFS \<times> FIL" where
  "open_finish fs fp dj mode =
     (let mode = (if mode AND FA_CREATE_ALWAYS \<noteq> 0 then mode OR FA_MODIFIED else mode);
          fp = fp\<lparr>dir_sect := winsect fs, dir_ptr := d_dir dj\<rparr>;
          ob = f_obj fp;
          ob = (if fs_type fs = FS_EXFAT then
                  init_alloc_info fs
                    (ob\<lparr>c_scl := sclust (d_obj dj),
                        c_size := ucast (objsize (d_obj dj)) AND 0xFFFFFF00 OR ucast (stat (d_obj dj)),
                        c_ofs := blk_ofs dj\<rparr>)
                else ob\<lparr>sclust := ld_clust fs (win fs) (d_dir dj),
                        objsize := ucast (ld_dword (win fs) (d_dir dj + 28))\<rparr>);
          fp = fp\<lparr>f_obj := ob\<lparr>obj_fs := True, obj_id := fs_id fs\<rparr>, flag := mode, f_err := FR_OK, f_sect := 0,
                  fptr := 0, buf := mem_set (buf fp) 0 0 4096\<rparr> in
      if mode AND FA_SEEKEND \<noteq> 0 \<and> objsize ob > 0 then open_append fs fp else (FR_OK, fs, fp))"

text \<open>\<open>f_open\<close> on the mounted volume.\<close>

definition open_on :: "FATFS \<Rightarrow> FIL \<Rightarrow> tstring \<Rightarrow> BYTE \<Rightarrow> FRESULT \<times> FATFS \<times> FIL" where
  "open_on fs fp path mode =
     (case follow_path fs (blank_dir\<lparr>d_obj := blank_obj\<lparr>obj_fs := True\<rparr>\<rparr>) path of (res, fs, dj) \<Rightarrow>
      let res = (if res = FR_OK \<and> fn dj 11 AND NS_NONAME \<noteq> 0 then FR_INVALID_NAME else res) in
      case open_object fs fp dj mode res of (res, fs, fp, dj, mode) \<Rightarrow>
        if res = FR_OK then open_finish fs fp dj mode else (res, fs, fp))"

definition f_open :: "ffstate \<Rightarrow> FIL \<Rightarrow> tstring \<Rightarrow> BYTE \<Rightarrow> FRESULT \<times> ffstate \<times> FIL" where
  "f_open st fp path mode =
     (let mode = mode AND 0x3F;
          inval = (\<lambda>res fp. if res \<noteq> FR_OK then fp\<lparr>f_obj := (f_obj fp)\<lparr>obj_fs := False\<rparr>\<rparr> else fp) in
      case mount_volume st path mode of (res, st, path, vol) \<Rightarrow>
      case vol of
        None \<Rightarrow> (res, st, inval res fp)
      | Some fs \<Rightarrow>
          if res \<noteq> FR_OK then (res, st, inval res fp)
          else if \<not> INIT_NAMBUF fs then (FR_NOT_ENOUGH_CORE, st, fp)
          else case open_on fs fp path mode of (res, fs, fp) \<Rightarrow> (res, st\<lparr>FatFs := Some fs\<rparr>, inval res fp))"

section \<open>Reading\<close>

text \<open>\<open>csect\<close>, the sector of the file pointer in its cluster.\<close>

definition sect_in_clust :: "FATFS \<Rightarrow> FIL \<Rightarrow> UINT" where
  "sect_in_clust fs fp = ucast (fptr fp div ucast (ssize fs) AND (ucast (csize fs) - 1))"

definition on_boundary :: "FATFS \<Rightarrow> FIL \<Rightarrow> bool" where
  "on_boundary fs fp = (fptr fp mod ucast (ssize fs) = 0)"

text \<open>
  The steps of \<open>f_read\<close> and \<open>f_write\<close> return \<open>Inl\<close> the result of an \<open>ABORT\<close>. \<open>read_clust\<close>
  follows the chain on a cluster boundary.
\<close>

definition read_clust :: "FATFS \<Rightarrow> FIL \<Rightarrow> UINT \<Rightarrow> FRESULT \<times> FATFS \<times> FIL" where
  "read_clust fs fp csect =
     (if csect = 0 then
        (case (if fptr fp = 0 then (sclust (f_obj fp), fs) else get_fat fs (f_obj fp) (f_clust fp)) of (clst, fs) \<Rightarrow>
          if clst < 2 then (FR_INT_ERR, fs, fp)
          else if clst = 0xFFFFFFFF then (FR_DISK_ERR, fs, fp)
          else (FR_OK, fs, fp\<lparr>f_clust := clst\<rparr>))
      else (FR_OK, fs, fp))"

text \<open>Writes a dirty sector buffer back.\<close>

definition flush_buf :: "FATFS \<Rightarrow> FIL \<Rightarrow> bool \<times> FATFS \<times> FIL" where
  "flush_buf fs fp =
     (if flag fp AND FA_DIRTY \<noteq> 0 then
        (case disk_write (pdrv fs) (buf fp) (f_sect fp) 1 of (r, d) \<Rightarrow>
          let fs = fs\<lparr>pdrv := d\<rparr> in
          if r \<noteq> RES_OK then (False, fs, fp) else (True, fs, fp\<lparr>flag := flag fp AND (NOT FA_DIRTY)\<rparr>))
      else (True, fs, fp))"

text \<open>
  The work on a sector boundary: \<open>Inr (Some n)\<close> when \<open>n\<close> bytes of whole sectors were read into
  \<open>dst\<close> at offset \<open>br\<close>, \<open>Inr None\<close> when the sector buffer now holds the current sector.
\<close>

definition read_sectors ::
  "FATFS \<Rightarrow> FIL \<Rightarrow> mem \<Rightarrow> UINT \<Rightarrow> UINT \<Rightarrow> (FRESULT + UINT option) \<times> FATFS \<times> FIL \<times> mem"
where
  "read_sectors fs fp dst br btr =
     (let csect = sect_in_clust fs fp in
      case read_clust fs fp csect of (res, fs, fp) \<Rightarrow>
      if res \<noteq> FR_OK then (Inl res, fs, fp, dst)
      else
        let sect = clst2sect fs (f_clust fp) in
        if sect = 0 then (Inl FR_INT_ERR, fs, fp, dst)
        else
          let sect = sect + csect; cc = btr div SS fs in
          if cc > 0 then
            let cc = (if csect + cc > ucast (csize fs) then ucast (csize fs) - csect else cc) in
            (case disk_read (pdrv fs) (sub_buf dst (unat br)) sect cc of (r, b) \<Rightarrow>
              let dst = set_sub dst (unat br) b in
              if r \<noteq> RES_OK then (Inl FR_DISK_ERR, fs, fp, dst)
              else
                let dst = (if flag fp AND FA_DIRTY \<noteq> 0 \<and> f_sect fp - sect < cc
                           then mem_cpy dst (unat br + unat ((f_sect fp - sect) * SS fs)) (buf fp) 0 (SSn fs) else dst) in
                (Inr (Some (SS fs * cc)), fs, fp, dst))
          else if f_sect fp \<noteq> sect then
            (case flush_buf fs fp of (ok, fs, fp) \<Rightarrow>
              if \<not> ok then (Inl FR_DISK_ERR, fs, fp, dst)
              else
                (case disk_read (pdrv fs) (buf fp) sect 1 of (r, b) \<Rightarrow>
                  let fp = fp\<lparr>buf := b\<rparr> in
                  if r \<noteq> RES_OK then (Inl FR_DISK_ERR, fs, fp, dst)
                  else (Inr None, fs, fp\<lparr>f_sect := sect\<rparr>, dst)))
          else (Inr None, fs, fp, dst))"

text \<open>The bytes left in the current sector, clipped to the bytes asked for.\<close>

definition part_count :: "FATFS \<Rightarrow> FIL \<Rightarrow> UINT \<Rightarrow> UINT" where
  "part_count fs fp n = (let c = SS fs - ucast (fptr fp) mod SS fs in if c > n then n else c)"

definition read_step ::
  "FATFS \<Rightarrow> FIL \<Rightarrow> mem \<Rightarrow> UINT \<Rightarrow> UINT \<Rightarrow> (FRESULT + UINT) \<times> FATFS \<times> FIL \<times> mem"
where
  "read_step fs fp dst br btr =
     (case (if on_boundary fs fp then read_sectors fs fp dst br btr else (Inr None, fs, fp, dst)) of
        (Inl res, fs, fp, dst) \<Rightarrow> (Inl res, fs, fp, dst)
      | (Inr (Some rcnt), fs, fp, dst) \<Rightarrow> (Inr rcnt, fs, fp, dst)
      | (Inr None, fs, fp, dst) \<Rightarrow>
          let rcnt = part_count fs fp btr in
          (Inr rcnt, fs, fp, mem_cpy dst (unat br) (buf fp) (unat (fptr fp mod ucast (ssize fs))) (unat rcnt)))"

fun read_loop ::
  "nat \<Rightarrow> FATFS \<Rightarrow> FIL \<Rightarrow> mem \<Rightarrow> UINT \<Rightarrow> UINT \<Rightarrow> FRESULT \<times> UINT \<times> FATFS \<times> FIL \<times> mem"
where
  "read_loop 0 fs fp dst br btr = (if btr > 0 then FR_TIMEOUT else FR_OK, br, fs, fp, dst)"
| "read_loop (Suc n) fs fp dst br btr =
     (if btr > 0 then
        (case read_step fs fp dst br btr of
           (Inl res, fs, fp, dst) \<Rightarrow> (res, br, fs, ABORT fp res, dst)
         | (Inr rcnt, fs, fp, dst) \<Rightarrow>
             read_loop n fs (fp\<lparr>fptr := fptr fp + ucast rcnt\<rparr>) dst (br + rcnt) (btr - rcnt))
      else (FR_OK, br, fs, fp, dst))"

text \<open>The result, the number of bytes read, the volume, the file and the buffer.\<close>

definition f_read :: "FATFS \<Rightarrow> FIL \<Rightarrow> mem \<Rightarrow> UINT \<Rightarrow> FRESULT \<times> UINT \<times> FATFS \<times> FIL \<times> mem" where
  "f_read fs fp buff btr =
     (let res = validate fs (f_obj fp) in
      if res \<noteq> FR_OK then (res, 0, fs, fp, buff)
      else if f_err fp \<noteq> FR_OK then (f_err fp, 0, fs, fp, buff)
      else if flag fp AND FA_READ = 0 then (FR_DENIED, 0, fs, fp, buff)
      else
        let remain = objsize (f_obj fp) - fptr fp;
            btr = (if ucast btr > remain then ucast remain else btr) in
        read_loop (unat btr div SSn fs + 2) fs fp buff 0 btr)"

section \<open>Writing\<close>

text \<open>\<open>None\<close> when the volume is full.\<close>

definition write_clust :: "FATFS \<Rightarrow> FIL \<Rightarrow> UINT \<Rightarrow> FRESULT option \<times> FATFS \<times> FIL" where
  "write_clust fs fp csect =
     (if csect = 0 then
        (case (if fptr fp = 0 then
                 if sclust (f_obj fp) = 0 then create_chain fs (f_obj fp) 0
                 else (sclust (f_obj fp), fs, f_obj fp)
               else create_chain fs (f_obj fp) (f_clust fp)) of (clst, fs, ob) \<Rightarrow>
          let fp = fp\<lparr>f_obj := ob\<rparr> in
          if clst = 0 then (None, fs, fp)
          else if clst = 1 then (Some FR_INT_ERR, fs, fp)
          else if clst = 0xFFFFFFFF then (Some FR_DISK_ERR, fs, fp)
          else
            let fp = fp\<lparr>f_clust := clst\<rparr> in
            (Some FR_OK, fs,
             if sclust (f_obj fp) = 0 then fp\<lparr>f_obj := (f_obj fp)\<lparr>sclust := clst\<rparr>\<rparr> else fp))
      else (Some FR_OK, fs, fp))"

text \<open>
  \<open>Inl (Some r)\<close> an abort, \<open>Inl None\<close> a full volume, \<open>Inr (Some n)\<close> when \<open>n\<close> bytes of whole
  sectors were written from \<open>src\<close> at offset \<open>bw\<close>, \<open>Inr None\<close> when the sector buffer is in place.
\<close>

definition write_sectors ::
  "FATFS \<Rightarrow> FIL \<Rightarrow> mem \<Rightarrow> UINT \<Rightarrow> UINT \<Rightarrow> (FRESULT option + UINT option) \<times> FATFS \<times> FIL"
where
  "write_sectors fs fp src bw btw =
     (let csect = sect_in_clust fs fp in
      case write_clust fs fp csect of
        (None, fs, fp) \<Rightarrow> (Inl None, fs, fp)
      | (Some res, fs, fp) \<Rightarrow>
          if res \<noteq> FR_OK then (Inl (Some res), fs, fp)
          else
            (case flush_buf fs fp of (ok, fs, fp) \<Rightarrow>
              if \<not> ok then (Inl (Some FR_DISK_ERR), fs, fp)
              else
                let sect = clst2sect fs (f_clust fp) in
                if sect = 0 then (Inl (Some FR_INT_ERR), fs, fp)
                else
                  let sect = sect + csect; cc = btw div SS fs in
                  if cc > 0 then
                    let cc = (if csect + cc > ucast (csize fs) then ucast (csize fs) - csect else cc) in
                    (case disk_write (pdrv fs) (sub_buf src (unat bw)) sect cc of (r, d) \<Rightarrow>
                      let fs = fs\<lparr>pdrv := d\<rparr> in
                      if r \<noteq> RES_OK then (Inl (Some FR_DISK_ERR), fs, fp)
                      else
                        (Inr (Some (SS fs * cc)), fs,
                         if f_sect fp - sect < cc
                         then fp\<lparr>buf := mem_cpy (buf fp) 0 src (unat bw + unat ((f_sect fp - sect) * SS fs)) (SSn fs),
                                 flag := flag fp AND (NOT FA_DIRTY)\<rparr>
                         else fp))
                  else if f_sect fp \<noteq> sect \<and> fptr fp < objsize (f_obj fp) then
                    (case disk_read (pdrv fs) (buf fp) sect 1 of (r, b) \<Rightarrow>
                      let fp = fp\<lparr>buf := b\<rparr> in
                      if r \<noteq> RES_OK then (Inl (Some FR_DISK_ERR), fs, fp)
                      else (Inr None, fs, fp\<lparr>f_sect := sect\<rparr>))
                  else (Inr None, fs, fp\<lparr>f_sect := sect\<rparr>)))"

definition write_step ::
  "FATFS \<Rightarrow> FIL \<Rightarrow> mem \<Rightarrow> UINT \<Rightarrow> UINT \<Rightarrow> (FRESULT option + UINT) \<times> FATFS \<times> FIL"
where
  "write_step fs fp src bw btw =
     (case (if on_boundary fs fp then write_sectors fs fp src bw btw else (Inr None, fs, fp)) of
        (Inl res, fs, fp) \<Rightarrow> (Inl res, fs, fp)
      | (Inr (Some wcnt), fs, fp) \<Rightarrow> (Inr wcnt, fs, fp)
      | (Inr None, fs, fp) \<Rightarrow>
          let wcnt = part_count fs fp btw in
          (Inr wcnt, fs,
           fp\<lparr>buf := mem_cpy (buf fp) (unat (fptr fp mod ucast (ssize fs))) src (unat bw) (unat wcnt),
              flag := flag fp OR FA_DIRTY\<rparr>))"

definition advance :: "FIL \<Rightarrow> UINT \<Rightarrow> FIL" where
  "advance fp wcnt =
     (let p = fptr fp + ucast wcnt; ob = f_obj fp in
      fp\<lparr>fptr := p, f_obj := ob\<lparr>objsize := if p > objsize ob then p else objsize ob\<rparr>\<rparr>)"

fun write_loop :: "nat \<Rightarrow> FATFS \<Rightarrow> FIL \<Rightarrow> mem \<Rightarrow> UINT \<Rightarrow> UINT \<Rightarrow> FRESULT option \<times> UINT \<times> FATFS \<times> FIL" where
  "write_loop 0 fs fp src bw btw = (if btw > 0 then Some FR_TIMEOUT else None, bw, fs, fp)"
| "write_loop (Suc n) fs fp src bw btw =
     (if btw > 0 then
        (case write_step fs fp src bw btw of
           (Inl res, fs, fp) \<Rightarrow> (res, bw, fs, fp)
         | (Inr wcnt, fs, fp) \<Rightarrow> write_loop n fs (advance fp wcnt) src (bw + wcnt) (btw - wcnt))
      else (None, bw, fs, fp))"

definition f_write :: "FATFS \<Rightarrow> FIL \<Rightarrow> mem \<Rightarrow> UINT \<Rightarrow> FRESULT \<times> UINT \<times> FATFS \<times> FIL" where
  "f_write fs fp buff btw =
     (let res = validate fs (f_obj fp) in
      if res \<noteq> FR_OK then (res, 0, fs, fp)
      else if f_err fp \<noteq> FR_OK then (f_err fp, 0, fs, fp)
      else if flag fp AND FA_WRITE = 0 then (FR_DENIED, 0, fs, fp)
      else
        let p = ucast (fptr fp) :: DWORD;
            btw = (if fs_type fs \<noteq> FS_EXFAT \<and> ucast (fptr fp + ucast btw) < p then 0xFFFFFFFF - p else btw) in
        (case write_loop (unat btw div SSn fs + 2) fs fp buff 0 btw of
           (Some res, bw, fs, fp) \<Rightarrow> (res, bw, fs, ABORT fp res)
         | (None, bw, fs, fp) \<Rightarrow> (FR_OK, bw, fs, fp\<lparr>flag := flag fp OR FA_MODIFIED\<rparr>)))"

section \<open>Synchronising and closing\<close>

text \<open>The directory entry follows the file object, on exFAT through the entry block of its name.\<close>

definition sync_exfat :: "FATFS \<Rightarrow> FIL \<Rightarrow> FRESULT \<times> FATFS \<times> FIL" where
  "sync_exfat fs fp =
     (case fill_first_frag fs (f_obj fp) of (res, fs, ob) \<Rightarrow>
      let fp = fp\<lparr>f_obj := ob\<rparr> in
      if res \<noteq> FR_OK then (res, fs, fp)
      else
        (case fill_last_frag fs (f_obj fp) (f_clust fp) 0xFFFFFFFF of (res, fs, ob) \<Rightarrow>
          let fp = fp\<lparr>f_obj := ob\<rparr> in
          if res \<noteq> FR_OK then (res, fs, fp)
          else if \<not> INIT_NAMBUF fs then (FR_NOT_ENOUGH_CORE, fs, fp)
          else
            (case load_obj_xdir fs blank_dir (f_obj fp) of (res, fs, dj) \<Rightarrow>
              if res \<noteq> FR_OK then (res, fs, fp)
              else
                let db = (dirbuf fs)(4 := dirbuf fs 4 OR AM_ARC, 33 := stat (f_obj fp) OR 1);
                    db = st_dword db 52 (sclust (f_obj fp));
                    db = st_qword db 56 (objsize (f_obj fp));
                    db = st_qword db 40 (objsize (f_obj fp));
                    db = (st_dword db 12 GET_FATTIME)(21 := 0);
                    fs = fs\<lparr>dirbuf := st_dword db 16 0\<rparr> in
                (case store_xdir fs dj of (res, fs, dj) \<Rightarrow>
                  if res = FR_OK then
                    (case sync_fs fs of (res, fs) \<Rightarrow> (res, fs, fp\<lparr>flag := flag fp AND (NOT FA_MODIFIED)\<rparr>))
                  else (res, fs, fp)))))"

definition sync_fat :: "FATFS \<Rightarrow> FIL \<Rightarrow> FRESULT \<times> FATFS \<times> FIL" where
  "sync_fat fs fp =
     (case move_window fs (dir_sect fp) of (res, fs) \<Rightarrow>
      if res = FR_OK then
        let p = dir_ptr fp;
            w = (win fs)(p + 11 := win fs (p + 11) OR AM_ARC);
            w = st_clust fs w p (sclust (f_obj fp));
            w = st_dword w (p + 28) (ucast (objsize (f_obj fp)));
            w = st_dword w (p + 22) GET_FATTIME;
            w = st_word w (p + 18) 0 in
        (case sync_fs (fs\<lparr>win := w, wflag := 1\<rparr>) of (res, fs) \<Rightarrow>
          (res, fs, fp\<lparr>flag := flag fp AND (NOT FA_MODIFIED)\<rparr>))
      else (res, fs, fp))"

definition f_sync :: "FATFS \<Rightarrow> FIL \<Rightarrow> FRESULT \<times> FATFS \<times> FIL" where
  "f_sync fs fp =
     (let res = validate fs (f_obj fp) in
      if res = FR_OK \<and> flag fp AND FA_MODIFIED \<noteq> 0 then
        (case flush_buf fs fp of (ok, fs, fp) \<Rightarrow>
          if \<not> ok then (FR_DISK_ERR, fs, fp)
          else if fs_type fs = FS_EXFAT then sync_exfat fs fp else sync_fat fs fp)
      else (res, fs, fp))"

definition f_close :: "FATFS \<Rightarrow> FIL \<Rightarrow> FRESULT \<times> FATFS \<times> FIL" where
  "f_close fs fp =
     (case f_sync fs fp of (res, fs, fp) \<Rightarrow>
      if res = FR_OK then
        let res = validate fs (f_obj fp) in
        (res, fs, if res = FR_OK then fp\<lparr>f_obj := (f_obj fp)\<lparr>obj_fs := False\<rparr>\<rparr> else fp)
      else (res, fs, fp))"

section \<open>Seeking\<close>

text \<open>
  The loop that follows the chain, stretched in write mode: \<open>Inl\<close> the result of an \<open>ABORT\<close>,
  \<open>Inr\<close> the last cluster and the offset left in it.
\<close>

fun seek_loop ::
  "nat \<Rightarrow> FATFS \<Rightarrow> FIL \<Rightarrow> DWORD \<Rightarrow> FSIZE \<Rightarrow> FSIZE \<Rightarrow> (FRESULT + DWORD \<times> FSIZE) \<times> FATFS \<times> FIL"
where
  "seek_loop 0 fs fp clst ofs bcs = (Inl FR_TIMEOUT, fs, fp)"
| "seek_loop (Suc n) fs fp clst ofs bcs =
     (if ofs > bcs then
        let ofs = ofs - bcs; fp = fp\<lparr>fptr := fptr fp + bcs\<rparr> in
        (case (if flag fp AND FA_WRITE \<noteq> 0 then
                 let fp = (if fptr fp > objsize (f_obj fp)
                           then fp\<lparr>f_obj := (f_obj fp)\<lparr>objsize := fptr fp\<rparr>, flag := flag fp OR FA_MODIFIED\<rparr> else fp) in
                 (case create_chain fs (f_obj fp) clst of (clst, fs, ob) \<Rightarrow> (clst, fs, fp\<lparr>f_obj := ob\<rparr>))
               else (case get_fat fs (f_obj fp) clst of (clst, fs) \<Rightarrow> (clst, fs, fp))) of (clst, fs, fp) \<Rightarrow>
          if flag fp AND FA_WRITE \<noteq> 0 \<and> clst = 0 then (Inr (clst, 0), fs, fp)
          else if clst = 0xFFFFFFFF then (Inl FR_DISK_ERR, fs, fp)
          else if clst \<le> 1 \<or> clst \<ge> n_fatent fs then (Inl FR_INT_ERR, fs, fp)
          else seek_loop n fs (fp\<lparr>f_clust := clst\<rparr>) clst ofs bcs)
      else (Inr (clst, ofs), fs, fp))"

text \<open>The first cluster to follow from, and the offset from there.\<close>

definition seek_start ::
  "FATFS \<Rightarrow> FIL \<Rightarrow> FSIZE \<Rightarrow> FSIZE \<Rightarrow> FSIZE \<Rightarrow> (FRESULT + DWORD \<times> FSIZE) \<times> FATFS \<times> FIL"
where
  "seek_start fs fp ifptr ofs bcs =
     (if ifptr > 0 \<and> (ofs - 1) div bcs \<ge> (ifptr - 1) div bcs then
        let p = (ifptr - 1) AND (NOT (bcs - 1)) in
        (Inr (f_clust fp, ofs - p), fs, fp\<lparr>fptr := p\<rparr>)
      else
        (case (if sclust (f_obj fp) = 0 then
                 (case create_chain fs (f_obj fp) 0 of (clst, fs, ob) \<Rightarrow>
                   let fp = fp\<lparr>f_obj := ob\<rparr> in
                   if clst = 1 then (Inl FR_INT_ERR, fs, fp)
                   else if clst = 0xFFFFFFFF then (Inl FR_DISK_ERR, fs, fp)
                   else (Inr clst, fs, fp\<lparr>f_obj := (f_obj fp)\<lparr>sclust := clst\<rparr>\<rparr>))
               else (Inr (sclust (f_obj fp)), fs, fp)) of
           (Inl res, fs, fp) \<Rightarrow> (Inl res, fs, fp)
         | (Inr clst, fs, fp) \<Rightarrow> (Inr (clst, ofs), fs, fp\<lparr>f_clust := clst\<rparr>)))"

text \<open>The move of the file pointer, with the sector to load, 0 for none.\<close>

definition seek_move :: "FATFS \<Rightarrow> FIL \<Rightarrow> FSIZE \<Rightarrow> FSIZE \<Rightarrow> (FRESULT + LBA) \<times> FATFS \<times> FIL" where
  "seek_move fs fp ifptr ofs =
     (if ofs > 0 then
        let bcs = ucast (clust_bytes fs) in
        (case seek_start fs fp ifptr ofs bcs of
           (Inl res, fs, fp) \<Rightarrow> (Inl res, fs, fp)
         | (Inr (clst, ofs), fs, fp) \<Rightarrow>
             if clst \<noteq> 0 then
               (case seek_loop (Suc (unat (ofs div bcs))) fs fp clst ofs bcs of
                  (Inl res, fs, fp) \<Rightarrow> (Inl res, fs, fp)
                | (Inr (clst, ofs), fs, fp) \<Rightarrow>
                    let fp = fp\<lparr>fptr := fptr fp + ofs\<rparr> in
                    if ofs mod ucast (ssize fs) \<noteq> 0 then
                      let nsect = clst2sect fs clst in
                      if nsect = 0 then (Inl FR_INT_ERR, fs, fp)
                      else (Inr (nsect + ucast (ofs div ucast (ssize fs))), fs, fp)
                    else (Inr 0, fs, fp))
             else (Inr 0, fs, fp))
      else (Inr 0, fs, fp))"

definition f_lseek :: "FATFS \<Rightarrow> FIL \<Rightarrow> FSIZE \<Rightarrow> FRESULT \<times> FATFS \<times> FIL" where
  "f_lseek fs fp ofs =
     (let res = validate fs (f_obj fp);
          res = (if res = FR_OK then f_err fp else res) in
      case (if res = FR_OK \<and> fs_type fs = FS_EXFAT then
              (case fill_last_frag fs (f_obj fp) (f_clust fp) 0xFFFFFFFF of (res, fs, ob) \<Rightarrow> (res, fs, fp\<lparr>f_obj := ob\<rparr>))
            else (res, fs, fp)) of (res, fs, fp) \<Rightarrow>
      if res \<noteq> FR_OK then (res, fs, fp)
      else
        let ofs = (if fs_type fs \<noteq> FS_EXFAT \<and> ofs \<ge> 0x100000000 then 0xFFFFFFFF else ofs);
            ofs = (if ofs > objsize (f_obj fp) \<and> flag fp AND FA_WRITE = 0 then objsize (f_obj fp) else ofs) in
        (case seek_move fs (fp\<lparr>fptr := 0\<rparr>) (fptr fp) ofs of
           (Inl res, fs, fp) \<Rightarrow> (res, fs, ABORT fp res)
         | (Inr nsect, fs, fp) \<Rightarrow>
             let fp = (if fptr fp > objsize (f_obj fp)
                       then fp\<lparr>f_obj := (f_obj fp)\<lparr>objsize := fptr fp\<rparr>, flag := flag fp OR FA_MODIFIED\<rparr> else fp) in
             if fptr fp mod ucast (ssize fs) \<noteq> 0 \<and> nsect \<noteq> f_sect fp then
               (case flush_buf fs fp of (ok, fs, fp) \<Rightarrow>
                 if \<not> ok then (FR_DISK_ERR, fs, ABORT fp FR_DISK_ERR)
                 else
                   (case disk_read (pdrv fs) (buf fp) nsect 1 of (r, b) \<Rightarrow>
                     let fp = fp\<lparr>buf := b\<rparr> in
                     if r \<noteq> RES_OK then (FR_DISK_ERR, fs, ABORT fp FR_DISK_ERR)
                     else (FR_OK, fs, fp\<lparr>f_sect := nsect\<rparr>)))
             else (FR_OK, fs, fp)))"

section \<open>Truncating and expanding\<close>

definition f_truncate :: "FATFS \<Rightarrow> FIL \<Rightarrow> FRESULT \<times> FATFS \<times> FIL" where
  "f_truncate fs fp =
     (let res = validate fs (f_obj fp) in
      if res \<noteq> FR_OK then (res, fs, fp)
      else if f_err fp \<noteq> FR_OK then (f_err fp, fs, fp)
      else if flag fp AND FA_WRITE = 0 then (FR_DENIED, fs, fp)
      else if fptr fp < objsize (f_obj fp) then
        (case (if fptr fp = 0 then
                 (case remove_chain fs (f_obj fp) (sclust (f_obj fp)) 0 of (res, fs, ob) \<Rightarrow>
                   (res, fs, fp\<lparr>f_obj := ob\<lparr>sclust := 0\<rparr>\<rparr>))
               else
                 (case get_fat fs (f_obj fp) (f_clust fp) of (ncl, fs) \<Rightarrow>
                   if ncl = 1 then (FR_INT_ERR, fs, fp)
                   else if ncl = 0xFFFFFFFF then (FR_DISK_ERR, fs, fp)
                   else if ncl < n_fatent fs then
                     (case remove_chain fs (f_obj fp) ncl (f_clust fp) of (res, fs, ob) \<Rightarrow> (res, fs, fp\<lparr>f_obj := ob\<rparr>))
                   else (FR_OK, fs, fp))) of (res, fs, fp) \<Rightarrow>
          let fp = fp\<lparr>f_obj := (f_obj fp)\<lparr>objsize := fptr fp\<rparr>, flag := flag fp OR FA_MODIFIED\<rparr> in
          (case (if res = FR_OK then
                   (case flush_buf fs fp of (ok, fs, fp) \<Rightarrow> (if ok then FR_OK else FR_DISK_ERR, fs, fp))
                 else (res, fs, fp)) of (res, fs, fp) \<Rightarrow>
            if res \<noteq> FR_OK then (res, fs, ABORT fp res) else (FR_OK, fs, fp)))
      else (FR_OK, fs, fp))"

text \<open>
  The search of \<open>f_expand\<close> for a contiguous block on a FAT volume; the block starts at \<open>scl\<close>
  and \<open>ncl\<close> free clusters were seen since.
\<close>

fun expand_find ::
  "nat \<Rightarrow> FATFS \<Rightarrow> FFOBJID \<Rightarrow> DWORD \<Rightarrow> DWORD \<Rightarrow> DWORD \<Rightarrow> DWORD \<Rightarrow> DWORD \<Rightarrow> FRESULT \<times> FATFS \<times> DWORD"
where
  "expand_find 0 fs obj stcl tcl clst scl ncl = (FR_TIMEOUT, fs, scl)"
| "expand_find (Suc k) fs obj stcl tcl clst scl ncl =
     (case get_fat fs obj clst of (n, fs) \<Rightarrow>
      let clst = (if clst + 1 \<ge> n_fatent fs then 2 else clst + 1) in
      if n = 1 then (FR_INT_ERR, fs, scl)
      else if n = 0xFFFFFFFF then (FR_DISK_ERR, fs, scl)
      else
        let ncl' = (if n = 0 then ncl + 1 else 0);
            scl' = (if n = 0 then scl else clst) in
        if n = 0 \<and> ncl' = tcl then (FR_OK, fs, scl)
        else if clst = stcl then (FR_DENIED, fs, scl')
        else expand_find k fs obj stcl tcl clst scl' ncl')"

fun expand_link :: "nat \<Rightarrow> FATFS \<Rightarrow> DWORD \<Rightarrow> DWORD \<Rightarrow> FRESULT \<times> FATFS \<times> DWORD" where
  "expand_link 0 fs clst lclst = (FR_OK, fs, lclst)"
| "expand_link (Suc n) fs clst lclst =
     (case put_fat fs clst (if n = 0 then 0xFFFFFFFF else clst + 1) of (res, fs) \<Rightarrow>
      if res \<noteq> FR_OK then (res, fs, lclst) else expand_link n fs (clst + 1) clst)"

definition expand_block ::
  "FATFS \<Rightarrow> FFOBJID \<Rightarrow> DWORD \<Rightarrow> DWORD \<Rightarrow> bool \<Rightarrow> FRESULT \<times> FATFS \<times> DWORD \<times> DWORD"
where
  "expand_block fs obj stcl tcl opt =
     (if fs_type fs = FS_EXFAT then
        (case find_bitmap fs stcl tcl of (scl, fs) \<Rightarrow>
          if scl = 0 then (FR_DENIED, fs, scl, 0)
          else if scl = 0xFFFFFFFF then (FR_DISK_ERR, fs, scl, 0)
          else if opt then
            (case change_bitmap fs scl tcl True of (res, fs) \<Rightarrow> (res, fs, scl, scl + tcl - 1))
          else (FR_OK, fs, scl, scl - 1))
      else
        (case expand_find (unat (n_fatent fs)) fs obj stcl tcl stcl stcl 0 of (res, fs, scl) \<Rightarrow>
          if res \<noteq> FR_OK then (res, fs, scl, 0)
          else if opt then
            (case expand_link (unat tcl) fs scl 0 of (res, fs, lclst) \<Rightarrow> (res, fs, scl, lclst))
          else (FR_OK, fs, scl, scl - 1)))"

definition f_expand :: "FATFS \<Rightarrow> FIL \<Rightarrow> FSIZE \<Rightarrow> bool \<Rightarrow> FRESULT \<times> FATFS \<times> FIL" where
  "f_expand fs fp fsz opt =
     (let res = validate fs (f_obj fp) in
      if res \<noteq> FR_OK then (res, fs, fp)
      else if f_err fp \<noteq> FR_OK then (f_err fp, fs, fp)
      else if fsz = 0 \<or> objsize (f_obj fp) \<noteq> 0 \<or> flag fp AND FA_WRITE = 0 then (FR_DENIED, fs, fp)
      else if fs_type fs \<noteq> FS_EXFAT \<and> fsz \<ge> 0x100000000 then (FR_DENIED, fs, fp)
      else
        let n = ucast (clust_bytes fs) :: FSIZE;
            tcl = ucast (fsz div n) + (if fsz AND (n - 1) \<noteq> 0 then 1 else 0);
            stcl = (if last_clst fs < 2 \<or> last_clst fs \<ge> n_fatent fs then 2 else last_clst fs) in
        (case expand_block fs (f_obj fp) stcl tcl opt of (res, fs, scl, lclst) \<Rightarrow>
          if res = FR_OK then
            let fs = fs\<lparr>last_clst := lclst\<rparr> in
            if opt then
              (FR_OK,
               if free_clst fs \<le> n_fatent fs - 2
               then fs\<lparr>free_clst := free_clst fs - tcl, fsi_flag := fsi_flag fs OR 1\<rparr> else fs,
               fp\<lparr>f_obj := (f_obj fp)\<lparr>sclust := scl, objsize := fsz, stat := 2\<rparr>, flag := flag fp OR FA_MODIFIED\<rparr>)
            else (FR_OK, fs, fp)
          else (res, fs, fp)))"

end
