(* ===== verification/FfApi.thy ===== *)
theory FfApi
  imports FfFile
begin

text \<open>
  The operations of \<open>ff.c\<close> on paths and directories: \<open>f_opendir\<close>, \<open>f_closedir\<close>, \<open>f_readdir\<close>,
  \<open>f_stat\<close>, \<open>f_getfree\<close>, \<open>f_unlink\<close>, \<open>f_mkdir\<close>, \<open>f_rename\<close>, \<open>f_chmod\<close> and \<open>f_utime\<close>.
\<close>

section \<open>The mounted volume\<close>

text \<open>
  The frame the operations on a path share: the volume of the path is mounted if need be, the
  name buffers are allocated, and \<open>f\<close> does the work on the volume.
\<close>

definition on_volume ::
  "ffstate \<Rightarrow> tstring \<Rightarrow> BYTE \<Rightarrow> (FATFS \<Rightarrow> tstring \<Rightarrow> FRESULT \<times> FATFS \<times> 'a) \<Rightarrow> 'a \<Rightarrow> FRESULT \<times> ffstate \<times> 'a"
where
  "on_volume st path mode f x =
     (case mount_volume st path mode of (res, st, path, vol) \<Rightarrow>
      case vol of
        None \<Rightarrow> (res, st, x)
      | Some fs \<Rightarrow>
          if res \<noteq> FR_OK then (res, st, x)
          else if \<not> INIT_NAMBUF fs then (FR_NOT_ENOUGH_CORE, st, x)
          else case f fs path of (res, fs, y) \<Rightarrow> (res, st\<lparr>FatFs := Some fs\<rparr>, y))"

definition new_dir :: FDIR where
  "new_dir = blank_dir\<lparr>d_obj := blank_obj\<lparr>obj_fs := True\<rparr>\<rparr>"

section \<open>Directories\<close>

text \<open>An object found by name becomes an open directory.\<close>

definition enter_dir :: "FATFS \<Rightarrow> FDIR \<Rightarrow> FDIR" where
  "enter_dir fs dp =
     dp\<lparr>d_obj :=
       let ob = d_obj dp in
       if fs_type fs = FS_EXFAT then
         init_alloc_info fs
           (ob\<lparr>c_scl := sclust ob, c_size := ucast (objsize ob) AND 0xFFFFFF00 OR ucast (stat ob),
               c_ofs := blk_ofs dp\<rparr>)
       else ob\<lparr>sclust := ld_clust fs (win fs) (d_dir dp)\<rparr>\<rparr>"

definition opendir_on :: "FDIR \<Rightarrow> FATFS \<Rightarrow> tstring \<Rightarrow> FRESULT \<times> FATFS \<times> FDIR" where
  "opendir_on dp fs path =
     (case follow_path fs (dp\<lparr>d_obj := (d_obj dp)\<lparr>obj_fs := True\<rparr>\<rparr>) path of (res, fs, dp) \<Rightarrow>
      case (if res = FR_OK then
              if fn dp 11 AND NS_NONAME = 0 \<and> attr (d_obj dp) AND AM_DIR = 0 then (FR_NO_PATH, fs, dp)
              else
                let dp = (if fn dp 11 AND NS_NONAME = 0 then enter_dir fs dp else dp) in
                dir_sdi fs (dp\<lparr>d_obj := (d_obj dp)\<lparr>obj_id := fs_id fs\<rparr>\<rparr>) 0
            else (res, fs, dp)) of (res, fs, dp) \<Rightarrow>
        (if res = FR_NO_FILE then FR_NO_PATH else res, fs, dp))"

text \<open>When the name buffers cannot be allocated the object already points to the volume.\<close>

definition f_opendir :: "ffstate \<Rightarrow> FDIR \<Rightarrow> tstring \<Rightarrow> FRESULT \<times> ffstate \<times> FDIR" where
  "f_opendir st dp path =
     (case mount_volume st path 0 of (res, st, path, vol) \<Rightarrow>
      let set_fs = (\<lambda>b dp. dp\<lparr>d_obj := (d_obj dp)\<lparr>obj_fs := b\<rparr>\<rparr>) in
      case vol of
        None \<Rightarrow> (res, st, set_fs False dp)
      | Some fs \<Rightarrow>
          if res \<noteq> FR_OK then (res, st, set_fs False dp)
          else if \<not> INIT_NAMBUF fs then (FR_NOT_ENOUGH_CORE, st, set_fs True dp)
          else case opendir_on dp fs path of (res, fs, dp) \<Rightarrow>
            (res, st\<lparr>FatFs := Some fs\<rparr>, if res \<noteq> FR_OK then set_fs False dp else dp))"

definition f_closedir :: "FATFS \<Rightarrow> FDIR \<Rightarrow> FRESULT \<times> FDIR" where
  "f_closedir fs dp =
     (let res = validate fs (d_obj dp) in
      (res, if res = FR_OK then dp\<lparr>d_obj := (d_obj dp)\<lparr>obj_fs := False\<rparr>\<rparr> else dp))"

text \<open>\<open>fno\<close> is \<open>None\<close> for the null pointer, which rewinds the directory.\<close>

definition f_readdir :: "FATFS \<Rightarrow> FDIR \<Rightarrow> FILINFO option \<Rightarrow> FRESULT \<times> FATFS \<times> FDIR \<times> FILINFO option" where
  "f_readdir fs dp fno =
     (let res = validate fs (d_obj dp) in
      if res \<noteq> FR_OK then (res, fs, dp, fno)
      else
        case fno of
          None \<Rightarrow> (case dir_sdi fs dp 0 of (res, fs, dp) \<Rightarrow> (res, fs, dp, None))
        | Some fi \<Rightarrow>
            if \<not> INIT_NAMBUF fs then (FR_NOT_ENOUGH_CORE, fs, dp, fno)
            else
              (case dir_read fs dp False of (res, fs, dp) \<Rightarrow>
                if res = FR_OK \<or> res = FR_NO_FILE then
                  let fi = get_fileinfo fs dp fi in
                  (case dir_next fs dp False of (res, fs, dp) \<Rightarrow>
                    (if res = FR_NO_FILE then FR_OK else res, fs, dp, Some fi))
                else (res, fs, dp, fno)))"

definition stat_on :: "FILINFO option \<Rightarrow> FATFS \<Rightarrow> tstring \<Rightarrow> FRESULT \<times> FATFS \<times> FILINFO option" where
  "stat_on fno fs path =
     (case follow_path fs new_dir path of (res, fs, dj) \<Rightarrow>
      if res = FR_OK then
        if fn dj 11 AND NS_NONAME \<noteq> 0 then (FR_INVALID_NAME, fs, fno)
        else (FR_OK, fs, map_option (get_fileinfo fs dj) fno)
      else (res, fs, fno))"

definition f_stat :: "ffstate \<Rightarrow> tstring \<Rightarrow> FILINFO option \<Rightarrow> FRESULT \<times> ffstate \<times> FILINFO option" where
  "f_stat st path fno = on_volume st path 0 (stat_on fno) fno"

section \<open>Free space\<close>

fun getfree12 :: "nat \<Rightarrow> FATFS \<Rightarrow> FFOBJID \<Rightarrow> DWORD \<Rightarrow> DWORD \<Rightarrow> FRESULT \<times> FATFS \<times> DWORD" where
  "getfree12 0 fs obj clst nfree = (FR_TIMEOUT, fs, nfree)"
| "getfree12 (Suc n) fs obj clst nfree =
     (case get_fat fs obj clst of (s, fs) \<Rightarrow>
      if s = 0xFFFFFFFF then (FR_DISK_ERR, fs, nfree)
      else if s = 1 then (FR_INT_ERR, fs, nfree)
      else
        let nfree = (if s = 0 then nfree + 1 else nfree) in
        if clst + 1 < n_fatent fs then getfree12 n fs obj (clst + 1) nfree else (FR_OK, fs, nfree))"

text \<open>The zero bits of a byte of the bitmap, of which \<open>clst\<close> bits are left.\<close>

fun zero_bits :: "nat \<Rightarrow> BYTE \<Rightarrow> DWORD \<Rightarrow> DWORD \<Rightarrow> DWORD \<times> DWORD" where
  "zero_bits 0 bm clst nfree = (clst, nfree)"
| "zero_bits (Suc b) bm clst nfree =
     (if clst = 0 then (clst, nfree)
      else zero_bits b (drop_bit 1 bm) (clst - 1) (if bm AND 1 = 0 then nfree + 1 else nfree))"

fun getfree_ex :: "nat \<Rightarrow> FATFS \<Rightarrow> LBA \<Rightarrow> UINT \<Rightarrow> DWORD \<Rightarrow> DWORD \<Rightarrow> FRESULT \<times> FATFS \<times> DWORD" where
  "getfree_ex 0 fs sect i clst nfree = (FR_TIMEOUT, fs, nfree)"
| "getfree_ex (Suc n) fs sect i clst nfree =
     (case (if i = 0 then case move_window fs sect of (res, fs) \<Rightarrow> (res, fs, sect + 1) else (FR_OK, fs, sect)) of (res, fs, sect) \<Rightarrow>
      if res \<noteq> FR_OK then (res, fs, nfree)
      else
        (case zero_bits 8 (win fs (unat i)) clst nfree of (clst, nfree) \<Rightarrow>
          let i = (i + 1) mod SS fs in
          if clst \<noteq> 0 then getfree_ex n fs sect i clst nfree else (FR_OK, fs, nfree)))"

text \<open>One step per table entry; the step count is \<open>clst\<close>, which the loop counts down.\<close>

fun getfree_fat :: "nat \<Rightarrow> FATFS \<Rightarrow> LBA \<Rightarrow> UINT \<Rightarrow> DWORD \<Rightarrow> FRESULT \<times> FATFS \<times> DWORD" where
  "getfree_fat 0 fs sect i nfree = (FR_OK, fs, nfree)"
| "getfree_fat (Suc clst) fs sect i nfree =
     (case (if i = 0 then case move_window fs sect of (res, fs) \<Rightarrow> (res, fs, sect + 1) else (FR_OK, fs, sect)) of (res, fs, sect) \<Rightarrow>
      if res \<noteq> FR_OK then (res, fs, nfree)
      else
        let (z, i) = (if fs_type fs = FS_FAT16 then (ld_word (win fs) (unat i) = 0, i + 2)
                      else (ld_dword (win fs) (unat i) AND 0x0FFFFFFF = 0, i + 4)) in
        getfree_fat clst fs sect (i mod SS fs) (if z then nfree + 1 else nfree))"

definition getfree_on :: "FATFS \<Rightarrow> FRESULT \<times> FATFS \<times> DWORD option" where
  "getfree_on fs =
     (if free_clst fs \<le> n_fatent fs - 2 then (FR_OK, fs, Some (free_clst fs))
      else
        (case (if fs_type fs = FS_FAT12 then getfree12 (unat (n_fatent fs)) fs (blank_obj\<lparr>obj_fs := True\<rparr>) 2 0
               else if fs_type fs = FS_EXFAT
               then getfree_ex (Suc (unat (n_fatent fs - 2) div 8)) fs (bitbase fs) 0 (n_fatent fs - 2) 0
               else getfree_fat (unat (n_fatent fs)) fs (fatbase fs) 0 0) of (res, fs, nfree) \<Rightarrow>
          if res = FR_OK then (FR_OK, fs\<lparr>free_clst := nfree, fsi_flag := fsi_flag fs OR 1\<rparr>, Some nfree)
          else (res, fs, None)))"

text \<open>The number of free clusters is returned on success; it needs no name buffers.\<close>

definition f_getfree :: "ffstate \<Rightarrow> tstring \<Rightarrow> FRESULT \<times> ffstate \<times> DWORD option" where
  "f_getfree st path =
     (case mount_volume st path 0 of (res, st, path, vol) \<Rightarrow>
      case vol of
        None \<Rightarrow> (res, st, None)
      | Some fs \<Rightarrow>
          if res \<noteq> FR_OK then (res, st, None)
          else case getfree_on fs of (res, fs, n) \<Rightarrow> (res, st\<lparr>FatFs := Some fs\<rparr>, n))"

section \<open>Removing and creating objects\<close>

text \<open>Whether the sub-directory of start cluster \<open>dclst\<close> is empty: \<open>FR_OK\<close>, or \<open>FR_DENIED\<close>.\<close>

definition dir_empty :: "FATFS \<Rightarrow> FFOBJID \<Rightarrow> DWORD \<Rightarrow> FRESULT \<times> FATFS" where
  "dir_empty fs obj dclst =
     (let ob = blank_obj\<lparr>obj_fs := True, sclust := dclst\<rparr>;
          ob = (if fs_type fs = FS_EXFAT then ob\<lparr>objsize := objsize obj, stat := stat obj\<rparr> else ob) in
      case dir_sdi fs (blank_dir\<lparr>d_obj := ob\<rparr>) 0 of (res, fs, sdj) \<Rightarrow>
      if res = FR_OK then
        (case dir_read fs sdj False of (res, fs, sdj) \<Rightarrow>
          (if res = FR_OK then FR_DENIED else if res = FR_NO_FILE then FR_OK else res, fs))
      else (res, fs))"

definition unlink_on :: "FATFS \<Rightarrow> tstring \<Rightarrow> FRESULT \<times> FATFS \<times> unit" where
  "unlink_on fs path =
     (case follow_path fs new_dir path of (res, fs, dj) \<Rightarrow>
      if res \<noteq> FR_OK then (res, fs, ())
      else if fn dj 11 AND NS_NONAME \<noteq> 0 then (FR_INVALID_NAME, fs, ())
      else if attr (d_obj dj) AND AM_RDO \<noteq> 0 then (FR_DENIED, fs, ())
      else
        let obj = blank_obj\<lparr>obj_fs := True\<rparr>;
            obj = (if fs_type fs = FS_EXFAT then init_alloc_info fs obj else obj);
            dclst = (if fs_type fs = FS_EXFAT then sclust obj else ld_clust fs (win fs) (d_dir dj)) in
        (case (if attr (d_obj dj) AND AM_DIR \<noteq> 0 then dir_empty fs obj dclst else (FR_OK, fs)) of (res, fs) \<Rightarrow>
          if res \<noteq> FR_OK then (res, fs, ())
          else
            (case dir_remove fs dj of (res, fs, dj) \<Rightarrow>
             case (if res = FR_OK \<and> dclst \<noteq> 0 then
                     (case remove_chain fs obj dclst 0 of (res, fs, obj) \<Rightarrow> (res, fs))
                   else (res, fs)) of (res, fs) \<Rightarrow>
               if res = FR_OK then (case sync_fs fs of (res, fs) \<Rightarrow> (res, fs, ())) else (res, fs, ()))))"

definition f_unlink :: "ffstate \<Rightarrow> tstring \<Rightarrow> FRESULT \<times> ffstate \<times> unit" where
  "f_unlink st path = on_volume st path FA_WRITE unlink_on ()"

text \<open>The dot entries of a new FAT directory of cluster \<open>dcl\<close> in the cleared window.\<close>

definition dot_entries :: "FATFS \<Rightarrow> DWORD \<Rightarrow> DWORD \<Rightarrow> FATFS" where
  "dot_entries fs dcl pcl =
     (let w = mem_set (win fs) 0 0x20 11;
          w = st_dword (w(0 := 0x2E, 11 := AM_DIR)) 22 GET_FATTIME;
          w = st_clust fs w 0 dcl;
          w = (mem_cpy w 32 w 0 32)(33 := 0x2E) in
      fs\<lparr>win := st_clust fs w 32 pcl, wflag := 1\<rparr>)"

text \<open>The entry of a new directory.\<close>

definition mkdir_entry :: "FATFS \<Rightarrow> FDIR \<Rightarrow> DWORD \<Rightarrow> FRESULT \<times> FATFS" where
  "mkdir_entry fs dj dcl =
     (if fs_type fs = FS_EXFAT then
        let db = st_dword (dirbuf fs) 12 GET_FATTIME;
            db = st_dword db 52 dcl;
            db = st_dword db 56 (clust_bytes fs);
            db = st_dword db 40 (clust_bytes fs) in
        (case store_xdir (fs\<lparr>dirbuf := db(33 := 3, 4 := AM_DIR)\<rparr>) dj of (res, fs, dj) \<Rightarrow> (res, fs))
      else
        let w = st_dword (win fs) (d_dir dj + 22) GET_FATTIME;
            w = st_clust fs w (d_dir dj) dcl in
        (FR_OK, fs\<lparr>win := w(d_dir dj + 11 := AM_DIR), wflag := 1\<rparr>))"

definition mkdir_on :: "FATFS \<Rightarrow> tstring \<Rightarrow> FRESULT \<times> FATFS \<times> unit" where
  "mkdir_on fs path =
     (case follow_path fs new_dir path of (res, fs, dj) \<Rightarrow>
      if res = FR_OK then (FR_EXIST, fs, ())
      else if res \<noteq> FR_NO_FILE then (res, fs, ())
      else
        (case create_chain fs (blank_obj\<lparr>obj_fs := True\<rparr>) 0 of (dcl, fs, sobj) \<Rightarrow>
          let res = (if dcl = 0 then FR_DENIED else if dcl = 1 then FR_INT_ERR
                     else if dcl = 0xFFFFFFFF then FR_DISK_ERR else FR_OK) in
          (case (if res = FR_OK then
                   (case dir_clear fs dcl of (res, fs) \<Rightarrow>
                     if res = FR_OK then
                       dir_register (if fs_type fs \<noteq> FS_EXFAT then dot_entries fs dcl (sclust (d_obj dj)) else fs) dj
                     else (res, fs, dj))
                 else (res, fs, dj)) of (res, fs, dj) \<Rightarrow>
            if res = FR_OK then
              (case mkdir_entry fs dj dcl of (res, fs) \<Rightarrow>
                if res = FR_OK then (case sync_fs fs of (res, fs) \<Rightarrow> (res, fs, ())) else (res, fs, ()))
            else (case remove_chain fs sobj dcl 0 of (r, fs, sobj) \<Rightarrow> (res, fs, ())))))"

definition f_mkdir :: "ffstate \<Rightarrow> tstring \<Rightarrow> FRESULT \<times> ffstate \<times> unit" where
  "f_mkdir st path = on_volume st path FA_WRITE mkdir_on ()"

section \<open>Renaming and attributes\<close>

text \<open>The new entry of a renamed object, \<open>old\<close> being its old entry.\<close>

definition rename_exfat :: "FATFS \<Rightarrow> FDIR \<Rightarrow> mem \<Rightarrow> FRESULT \<times> FATFS" where
  "rename_exfat fs djn old =
     (case dir_register fs djn of (res, fs, djn) \<Rightarrow>
      if res = FR_OK then
        let nf = dirbuf fs 1; nn = dirbuf fs 35; nh = ld_word (dirbuf fs) 36;
            db = mem_cpy (dirbuf fs) 0 old 0 64;
            db = st_word (db(1 := nf, 35 := nn)) 36 nh;
            db = (if db 4 AND AM_DIR = 0 then db(4 := db 4 OR AM_ARC) else db) in
        (case store_xdir (fs\<lparr>dirbuf := db\<rparr>) djn of (res, fs, djn) \<Rightarrow> (res, fs))
      else (res, fs))"

definition rename_fat :: "FATFS \<Rightarrow> FDIR \<Rightarrow> FDIR \<Rightarrow> mem \<Rightarrow> FRESULT \<times> FATFS" where
  "rename_fat fs djo djn old =
     (case dir_register fs djn of (res, fs, djn) \<Rightarrow>
      if res = FR_OK then
        let p = d_dir djn;
            w = mem_cpy (win fs) (p + 13) old 13 19;
            at = (if old 11 AND AM_DIR = 0 then old 11 OR AM_ARC else old 11);
            fs = fs\<lparr>win := w(p + 11 := at), wflag := 1\<rparr> in
        if at AND AM_DIR \<noteq> 0 \<and> sclust (d_obj djo) \<noteq> sclust (d_obj djn) then
          let sect = clst2sect fs (ld_clust fs (win fs) p) in
          if sect = 0 then (FR_INT_ERR, fs)
          else
            (case move_window fs sect of (res, fs) \<Rightarrow>
              if res = FR_OK \<and> win fs 33 = 0x2E
              then (FR_OK, fs\<lparr>win := st_clust fs (win fs) 32 (sclust (d_obj djn)), wflag := 1\<rparr>)
              else (res, fs))
        else (FR_OK, fs)
      else (res, fs))"

definition rename_on :: "tstring \<Rightarrow> FATFS \<Rightarrow> tstring \<Rightarrow> FRESULT \<times> FATFS \<times> unit" where
  "rename_on path_new fs path_old =
     (case follow_path fs new_dir path_old of (res, fs, djo) \<Rightarrow>
      if res \<noteq> FR_OK then (res, fs, ())
      else if fn djo 11 AND (NS_DOT OR NS_NONAME) \<noteq> 0 then (FR_INVALID_NAME, fs, ())
      else
        let old = (if fs_type fs = FS_EXFAT then mem_cpy (\<lambda>_. 0) 0 (dirbuf fs) 0 64
                   else mem_cpy (\<lambda>_. 0) 0 (win fs) (d_dir djo) 32) in
        (case follow_path fs djo path_new of (res, fs, djn) \<Rightarrow>
          let res = (if res = FR_OK then
                       if sclust (d_obj djn) = sclust (d_obj djo) \<and> dptr djn = dptr djo then FR_NO_FILE else FR_EXIST
                     else res) in
          (case (if res = FR_NO_FILE then
                   if fs_type fs = FS_EXFAT then rename_exfat fs djn old else rename_fat fs djo djn old
                 else (res, fs)) of (res, fs) \<Rightarrow>
            if res = FR_OK then
              (case dir_remove fs djo of (res, fs, djo) \<Rightarrow>
                if res = FR_OK then (case sync_fs fs of (res, fs) \<Rightarrow> (res, fs, ())) else (res, fs, ()))
            else (res, fs, ()))))"

definition f_rename :: "ffstate \<Rightarrow> tstring \<Rightarrow> tstring \<Rightarrow> FRESULT \<times> ffstate \<times> unit" where
  "f_rename st path_old path_new = on_volume st path_old FA_WRITE (rename_on (snd (get_ldnumber path_new))) ()"

text \<open>The change \<open>g\<close> of a byte buffer: the entry block on exFAT, the entry in the window else.\<close>

definition change_entry :: "(mem \<Rightarrow> mem) \<Rightarrow> (mem \<Rightarrow> nat \<Rightarrow> mem) \<Rightarrow> FATFS \<Rightarrow> tstring \<Rightarrow> FRESULT \<times> FATFS \<times> unit" where
  "change_entry gx g fs path =
     (case follow_path fs new_dir path of (res, fs, dj) \<Rightarrow>
      if res \<noteq> FR_OK then (res, fs, ())
      else if fn dj 11 AND (NS_DOT OR NS_NONAME) \<noteq> 0 then (FR_INVALID_NAME, fs, ())
      else
        (case (if fs_type fs = FS_EXFAT then
                 (case store_xdir (fs\<lparr>dirbuf := gx (dirbuf fs)\<rparr>) dj of (res, fs, dj) \<Rightarrow> (res, fs))
               else (FR_OK, fs\<lparr>win := g (win fs) (d_dir dj), wflag := 1\<rparr>)) of (res, fs) \<Rightarrow>
          if res = FR_OK then (case sync_fs fs of (res, fs) \<Rightarrow> (res, fs, ())) else (res, fs, ())))"

definition f_chmod :: "ffstate \<Rightarrow> tstring \<Rightarrow> BYTE \<Rightarrow> BYTE \<Rightarrow> FRESULT \<times> ffstate \<times> unit" where
  "f_chmod st path atr msk =
     (let msk = msk AND 0x27; new = (\<lambda>b. atr AND msk OR b AND (NOT msk)) in
      on_volume st path FA_WRITE
        (change_entry (\<lambda>db. db(4 := new (db 4))) (\<lambda>w p. w(p + 11 := new (w (p + 11))))) ())"

definition f_utime :: "ffstate \<Rightarrow> tstring \<Rightarrow> FILINFO \<Rightarrow> FRESULT \<times> ffstate \<times> unit" where
  "f_utime st path fno =
     (let tm = push_bit 16 (ucast (fdate fno)) OR ucast (ftime fno) in
      on_volume st path FA_WRITE (change_entry (\<lambda>db. st_dword db 12 tm) (\<lambda>w p. st_dword w (p + 22) tm)) ())"

end
