(* ===== verification/FfMkfs.thy ===== *)
theory FfMkfs
  imports FfFile
begin

text \<open>
  Formatting (\<open>ff.c\<close>): \<open>create_partition\<close> and \<open>f_mkfs\<close>. The disk layer knows neither the sector
  count nor the block size of a drive (\<open>ff_disk_ioctl\<close> fails for both), so a size of 0 is an
  error and an alignment of 0 becomes 1. The working buffer is a buffer of \<open>len\<close> bytes whose
  contents are given; \<open>ss\<close> is the sector size and \<open>sz_buf\<close> the sectors the buffer holds.
\<close>

record MKFS_PARM =
  p_fmt :: BYTE
  p_n_fat :: BYTE
  p_align :: UINT
  p_n_root :: UINT
  p_au_size :: DWORD
  p_sz_vol :: LBA

abbreviation (input) "FM_FAT \<equiv> (0x01 :: BYTE)"
abbreviation (input) "FM_FAT32 \<equiv> (0x02 :: BYTE)"
abbreviation (input) "FM_EXFAT \<equiv> (0x04 :: BYTE)"
abbreviation (input) "FM_ANY \<equiv> (0x07 :: BYTE)"
abbreviation (input) "FM_SFD \<equiv> (0x08 :: BYTE)"

text \<open>A string literal copied to offset \<open>p\<close>.\<close>

fun put_bytes :: "mem \<Rightarrow> nat \<Rightarrow> BYTE list \<Rightarrow> mem" where
  "put_bytes m p [] = m"
| "put_bytes m p (b # bs) = put_bytes (m(p := b)) (p + 1) bs"

section \<open>Partition table\<close>

fun heads_loop :: "nat \<Rightarrow> DWORD \<Rightarrow> BYTE \<Rightarrow> BYTE" where
  "heads_loop 0 sz n_hd = n_hd"
| "heads_loop (Suc n) sz n_hd =
     (if n_hd \<noteq> 0 \<and> sz div ucast n_hd div 63 > 1024 then heads_loop n sz (n_hd * 2) else n_hd)"

definition heads :: "DWORD \<Rightarrow> BYTE" where
  "heads sz = (let n_hd = heads_loop 6 sz 8 in if n_hd = 0 then 255 else n_hd)"

text \<open>Head, sector and cylinder bytes of an address, at offset \<open>p\<close>.\<close>

definition put_chs :: "mem \<Rightarrow> nat \<Rightarrow> DWORD \<Rightarrow> DWORD \<Rightarrow> mem" where
  "put_chs m p lba n_hd =
     (let cy = lba div 63 div n_hd;
          hd = ucast (lba div 63 mod n_hd);
          sc = ucast (lba mod 63 + 1) :: BYTE in
      m(p := hd, p + 1 := ucast (drop_bit 2 cy AND 0xC0 OR ucast sc), p + 2 := ucast cy))"

definition part_size :: "DWORD \<Rightarrow> DWORD \<Rightarrow> DWORD \<Rightarrow> DWORD" where
  "part_size sz_drv nxt sz =
     (let sz = (if sz \<le> 100 then if sz = 100 then sz_drv else sz_drv div 100 * sz else sz) in
      if nxt + sz > sz_drv \<or> nxt + sz < nxt then sz_drv - nxt else sz)"

text \<open>The entries, at most four, of the partition list; \<open>pte\<close> is the offset of the next one.\<close>

fun part_entries :: "nat \<Rightarrow> mem \<Rightarrow> nat \<Rightarrow> LBA list \<Rightarrow> DWORD \<Rightarrow> DWORD \<Rightarrow> BYTE \<Rightarrow> BYTE \<Rightarrow> mem" where
  "part_entries 0 bf pte plst nxt sz_drv sys n_hd = bf"
| "part_entries (Suc n) bf pte [] nxt sz_drv sys n_hd = bf"
| "part_entries (Suc n) bf pte (sz # plst) nxt sz_drv sys n_hd =
     (if nxt \<noteq> 0 \<and> nxt < sz_drv then
        let sz = part_size sz_drv nxt sz in
        if sz = 0 then bf
        else
          let bf = st_dword bf (pte + 8) nxt;
              bf = (st_dword bf (pte + 12) sz)(pte + 4 := sys);
              bf = put_chs bf (pte + 1) nxt (ucast n_hd);
              bf = put_chs bf (pte + 5) (nxt + sz - 1) (ucast n_hd) in
          part_entries n bf (pte + 16) plst (nxt + sz) sz_drv sys n_hd
      else bf)"

definition create_partition :: "device \<Rightarrow> LBA list \<Rightarrow> BYTE \<Rightarrow> mem \<Rightarrow> LBA \<Rightarrow> FRESULT \<times> device" where
  "create_partition d plst sys bf sz_drv =
     (if sz_drv = 0 then (FR_DISK_ERR, d)
      else
        let bf = mem_set bf 0 0 4096;
            bf = part_entries 4 bf 446 plst 63 sz_drv sys (heads sz_drv);
            bf = st_word bf 510 0xAA55 in
        (case disk_write d bf 0 1 of (r, d) \<Rightarrow> (if r \<noteq> RES_OK then FR_DISK_ERR else FR_OK, d)))"

section \<open>Geometry of a FAT volume\<close>

definition cst :: "WORD list" where
  "cst = [1, 4, 16, 64, 256, 512, 0]"

definition cst32 :: "WORD list" where
  "cst32 = [1, 2, 4, 8, 16, 32, 0]"

text \<open>The cluster size chosen from a table of boundaries.\<close>

fun auto_pau :: "WORD list \<Rightarrow> DWORD \<Rightarrow> DWORD \<Rightarrow> DWORD" where
  "auto_pau [] n pau = pau"
| "auto_pau (c # cs) n pau = (if c \<noteq> 0 \<and> ucast c \<le> n then auto_pau cs n (push_bit 1 pau) else pau)"

record mkfs_geo =
  g_type :: BYTE
  g_pau :: DWORD
  g_clst :: DWORD
  g_szfat :: DWORD
  g_rsv :: DWORD
  g_szdir :: DWORD
  g_bfat :: LBA

text \<open>One pass of the loop: the type, the cluster size and the areas of the volume.\<close>

definition geo_pass ::
  "BYTE \<Rightarrow> DWORD \<Rightarrow> LBA \<Rightarrow> LBA \<Rightarrow> DWORD \<Rightarrow> DWORD \<Rightarrow> UINT \<Rightarrow> UINT \<Rightarrow> FRESULT + mkfs_geo"
where
  "geo_pass fsty sz_au b_vol sz_vol ss sz_blk n_fat n_root =
     (let pau = (if sz_au \<noteq> 0 then sz_au
                 else if fsty = FS_FAT32 then auto_pau cst32 (sz_vol div 0x20000) 1
                 else auto_pau cst (sz_vol div 0x1000) 1);
          n_clst = sz_vol div pau in
      if fsty = FS_FAT32 \<and> (n_clst \<le> 0xFFF5 \<or> n_clst > 0x0FFFFFF5) then Inl FR_MKFS_ABORTED
      else
        let fsty' = (if fsty \<noteq> FS_FAT32 \<and> n_clst \<le> 0xFF5 then FS_FAT12 else fsty);
            szb = (if fsty = FS_FAT32 then n_clst * 4 + 8
                   else if n_clst > 0xFF5 then n_clst * 2 + 4 else (n_clst * 3 + 1) div 2 + 3);
            sz_fat = (szb + ss - 1) div ss;
            sz_rsv = (if fsty = FS_FAT32 then 32 else 1);
            sz_dir = (if fsty = FS_FAT32 then 0 else n_root * 32 div ss);
            b_fat = b_vol + sz_rsv;
            b_data = b_fat + sz_fat * n_fat + sz_dir;
            n = (b_data + sz_blk - 1 AND (NOT (sz_blk - 1))) - b_data;
            (n, sz_rsv, b_fat, sz_fat) =
              (if fsty' = FS_FAT32 then (n, sz_rsv + n, b_fat + n, sz_fat)
               else if n mod n_fat \<noteq> 0 then (n - 1, sz_rsv + 1, b_fat + 1, sz_fat + (n - 1) div n_fat)
               else (n, sz_rsv, b_fat, sz_fat + n div n_fat)) in
        if sz_vol < b_data + pau * 16 - b_vol then Inl FR_MKFS_ABORTED
        else
          Inr \<lparr>g_type = fsty', g_pau = pau, g_clst = (sz_vol - sz_rsv - sz_fat * n_fat - sz_dir) div pau,
               g_szfat = sz_fat, g_rsv = sz_rsv, g_szdir = sz_dir, g_bfat = b_fat\<rparr>)"

text \<open>The check of a pass: \<open>Inl\<close> the type and the cluster size to retry with, or \<open>None\<close> to give up.\<close>

definition geo_check :: "mkfs_geo \<Rightarrow> DWORD \<Rightarrow> BYTE \<Rightarrow> (BYTE \<times> DWORD) option + mkfs_geo" where
  "geo_check g sz_au fsopt =
     (let ty = g_type g; pau = g_pau g; n_clst = g_clst g in
      if ty = FS_FAT32 \<and> n_clst \<le> 0xFFF5 then
        if sz_au = 0 \<and> pau div 2 \<noteq> 0 then Inl (Some (ty, pau div 2)) else Inl None
      else if ty = FS_FAT16 \<and> n_clst > 0xFFF5 then
        if sz_au = 0 \<and> pau * 2 \<le> 64 then Inl (Some (ty, pau * 2))
        else if fsopt AND FM_FAT32 \<noteq> 0 then Inl (Some (FS_FAT32, sz_au))
        else if sz_au = 0 \<and> pau * 2 \<le> 128 then Inl (Some (ty, pau * 2))
        else Inl None
      else if ty = FS_FAT16 \<and> n_clst \<le> 0xFF5 then
        if sz_au = 0 \<and> pau * 2 \<le> 128 then Inl (Some (ty, pau * 2)) else Inl None
      else if ty = FS_FAT12 \<and> n_clst > 0xFF5 then Inl None
      else Inr g)"

text \<open>A retry sets the cluster size or changes the type to FAT32, so there are at most three.\<close>

fun geo_loop ::
  "nat \<Rightarrow> BYTE \<Rightarrow> DWORD \<Rightarrow> LBA \<Rightarrow> LBA \<Rightarrow> DWORD \<Rightarrow> DWORD \<Rightarrow> UINT \<Rightarrow> UINT \<Rightarrow> BYTE \<Rightarrow> FRESULT + mkfs_geo"
where
  "geo_loop 0 fsty sz_au b_vol sz_vol ss sz_blk n_fat n_root fsopt = Inl FR_TIMEOUT"
| "geo_loop (Suc k) fsty sz_au b_vol sz_vol ss sz_blk n_fat n_root fsopt =
     (case geo_pass fsty sz_au b_vol sz_vol ss sz_blk n_fat n_root of
        Inl r \<Rightarrow> Inl r
      | Inr g \<Rightarrow>
          (case geo_check g sz_au fsopt of
             Inr g \<Rightarrow> Inr g
           | Inl None \<Rightarrow> Inl FR_MKFS_ABORTED
           | Inl (Some (fsty, sz_au)) \<Rightarrow> geo_loop k fsty sz_au b_vol sz_vol ss sz_blk n_fat n_root fsopt))"

section \<open>Writing a FAT volume\<close>

definition msdos_sig :: "BYTE list" where
  "msdos_sig = [0xEB, 0xFE, 0x90, 0x4D, 0x53, 0x44, 0x4F, 0x53, 0x35, 0x2E, 0x30]"

definition label_fat32 :: "BYTE list" where
  "label_fat32 = [0x4E, 0x4F, 0x20, 0x4E, 0x41, 0x4D, 0x45, 0x20, 0x20, 0x20, 0x20, 0x46, 0x41, 0x54, 0x33, 0x32, 0x20, 0x20, 0x20]"

definition label_fat :: "BYTE list" where
  "label_fat = [0x4E, 0x4F, 0x20, 0x4E, 0x41, 0x4D, 0x45, 0x20, 0x20, 0x20, 0x20, 0x46, 0x41, 0x54, 0x20, 0x20, 0x20, 0x20, 0x20]"

text \<open>The boot sector.\<close>

definition fat_vbr :: "mem \<Rightarrow> mkfs_geo \<Rightarrow> LBA \<Rightarrow> LBA \<Rightarrow> WORD \<Rightarrow> UINT \<Rightarrow> UINT \<Rightarrow> DWORD \<Rightarrow> mem" where
  "fat_vbr bf g b_vol sz_vol ss n_fat n_root vsn =
     (let bf = mem_set bf 0 0 (unat ss);
          bf = put_bytes bf 0 msdos_sig;
          bf = (st_word bf 11 ss)(13 := ucast (g_pau g));
          bf = (st_word bf 14 (ucast (g_rsv g)))(16 := ucast n_fat);
          bf = st_word bf 17 (if g_type g = FS_FAT32 then 0 else ucast n_root);
          bf = (if sz_vol < 0x10000 then st_word bf 19 (ucast sz_vol) else st_dword bf 32 sz_vol);
          bf = bf(21 := 0xF8);
          bf = st_word bf 24 63;
          bf = st_word bf 26 255;
          bf = st_dword bf 28 b_vol;
          bf = (if g_type g = FS_FAT32 then
                  let bf = st_dword bf 67 vsn;
                      bf = st_dword bf 36 (g_szfat g);
                      bf = st_dword bf 44 2;
                      bf = st_word bf 48 1;
                      bf = st_word bf 50 6 in
                  put_bytes (bf(64 := 0x80, 66 := 0x29)) 71 label_fat32
                else
                  let bf = st_dword bf 39 vsn;
                      bf = st_word bf 22 (ucast (g_szfat g)) in
                  put_bytes (bf(36 := 0x80, 38 := 0x29)) 43 label_fat) in
      st_word bf 510 0xAA55)"

definition fsinfo_sect :: "mem \<Rightarrow> WORD \<Rightarrow> DWORD \<Rightarrow> mem" where
  "fsinfo_sect bf ss n_clst =
     (let bf = mem_set bf 0 0 (unat ss);
          bf = st_dword bf 0 0x41615252;
          bf = st_dword bf 484 0x61417272;
          bf = st_dword bf 488 (n_clst - 1);
          bf = st_dword bf 492 2 in
      st_word bf 510 0xAA55)"

text \<open>
  Writes \<open>nsect\<close> sectors from \<open>sect\<close> on, as many at a time as the buffer holds; \<open>wipe\<close> clears
  the first sector of the buffer after each write. Returns the sector behind the last one.
\<close>

fun fill_loop ::
  "nat \<Rightarrow> device \<Rightarrow> mem \<Rightarrow> LBA \<Rightarrow> DWORD \<Rightarrow> DWORD \<Rightarrow> WORD \<Rightarrow> bool \<Rightarrow> FRESULT \<times> device \<times> mem \<times> LBA"
where
  "fill_loop 0 d bf sect nsect sz_buf ss wipe = (FR_TIMEOUT, d, bf, sect)"
| "fill_loop (Suc k) d bf sect nsect sz_buf ss wipe =
     (let n = (if nsect > sz_buf then sz_buf else nsect) in
      case disk_write d bf sect n of (r, d) \<Rightarrow>
      if r \<noteq> RES_OK then (FR_DISK_ERR, d, bf, sect)
      else
        let bf = (if wipe then mem_set bf 0 0 (unat ss) else bf) in
        if nsect - n \<noteq> 0 then fill_loop k d bf (sect + n) (nsect - n) sz_buf ss wipe
        else (FR_OK, d, bf, sect + n))"

definition fill_sects ::
  "device \<Rightarrow> mem \<Rightarrow> LBA \<Rightarrow> DWORD \<Rightarrow> DWORD \<Rightarrow> WORD \<Rightarrow> bool \<Rightarrow> FRESULT \<times> device \<times> mem \<times> LBA"
where
  "fill_sects d bf sect nsect sz_buf ss wipe =
     fill_loop (Suc (unat nsect div unat sz_buf)) d bf sect nsect sz_buf ss wipe"

text \<open>The first entries of a FAT.\<close>

definition fat_head :: "BYTE \<Rightarrow> mem \<Rightarrow> mem" where
  "fat_head fsty bf =
     (if fsty = FS_FAT32 then st_dword (st_dword (st_dword bf 0 0xFFFFFFF8) 4 0xFFFFFFFF) 8 0x0FFFFFFF
      else st_dword bf 0 (if fsty = FS_FAT12 then 0xFFFFF8 else 0xFFFFFFF8))"

fun write_fats :: "nat \<Rightarrow> device \<Rightarrow> mem \<Rightarrow> LBA \<Rightarrow> mkfs_geo \<Rightarrow> DWORD \<Rightarrow> WORD \<Rightarrow> FRESULT \<times> device \<times> mem \<times> LBA" where
  "write_fats 0 d bf sect g sz_buf ss = (FR_OK, d, bf, sect)"
| "write_fats (Suc n) d bf sect g sz_buf ss =
     (case fill_sects d (fat_head (g_type g) bf) sect (g_szfat g) sz_buf ss True of (res, d, bf, sect) \<Rightarrow>
      if res \<noteq> FR_OK then (res, d, bf, sect) else write_fats n d bf sect g sz_buf ss)"

definition mkfs_fat ::
  "device \<Rightarrow> mem \<Rightarrow> mkfs_geo \<Rightarrow> LBA \<Rightarrow> LBA \<Rightarrow> WORD \<Rightarrow> DWORD \<Rightarrow> UINT \<Rightarrow> UINT \<Rightarrow> DWORD \<Rightarrow> FRESULT \<times> device \<times> mem"
where
  "mkfs_fat d bf g b_vol sz_vol ss sz_buf n_fat n_root vsn =
     (let bf = fat_vbr bf g b_vol sz_vol ss n_fat n_root vsn in
      case disk_write d bf b_vol 1 of (r, d) \<Rightarrow>
      if r \<noteq> RES_OK then (FR_DISK_ERR, d, bf)
      else
        let (d, bf) =
              (if g_type g = FS_FAT32 then
                 let d = snd (disk_write d bf (b_vol + 6) 1);
                     bf = fsinfo_sect bf ss (g_clst g);
                     d = snd (disk_write d bf (b_vol + 7) 1) in
                 (snd (disk_write d bf (b_vol + 1) 1), bf)
               else (d, bf));
            bf = mem_set bf 0 0 (unat (sz_buf * ucast ss)) in
        (case write_fats (unat n_fat) d bf (g_bfat g) g sz_buf ss of (res, d, bf, sect) \<Rightarrow>
          if res \<noteq> FR_OK then (res, d, bf)
          else
            (case fill_sects d bf sect (if g_type g = FS_FAT32 then g_pau g else g_szdir g) sz_buf ss False of
               (res, d, bf, sect) \<Rightarrow> (res, d, bf))))"

section \<open>Writing an exFAT volume\<close>

text \<open>The run length of characters without case from \<open>si\<close> on.\<close>

fun case_run :: "nat \<Rightarrow> WCHAR \<Rightarrow> UINT \<Rightarrow> UINT" where
  "case_run 0 si j = j"
| "case_run (Suc n) si j =
     (let c = si + ucast j :: WCHAR in
      if c \<noteq> 0 \<and> ucast c = ff_wtoupper (ucast c) then case_run n si (j + 1) else j)"

text \<open>One step of the state machine that compresses the up-case table: the unit to store.\<close>

definition upcase_step :: "UINT \<Rightarrow> WCHAR \<Rightarrow> UINT \<Rightarrow> WCHAR \<times> UINT \<times> WCHAR \<times> UINT" where
  "upcase_step st si j =
     (let fill = (\<lambda>st si j. (si, if j - 1 = 0 then 0 else st, si + 1, j - 1)) in
      if st = 0 then
        let ch = ucast (ff_wtoupper (ucast si)) :: WCHAR in
        if ch \<noteq> si then (ch, st, si + 1, j)
        else
          let j = case_run 0x10000 si 1 in
          if j \<ge> 128 then (0xFFFF, 2, si, j) else fill 1 si j
      else if st = 1 then fill 1 si j
      else (ucast j, 0, si + ucast j, j))"

text \<open>
  The loop over the character set. It returns the checksum and the size of the table; a run and
  its length take two steps, so twice the number of characters is enough.
\<close>

fun upcase_loop ::
  "nat \<Rightarrow> device \<Rightarrow> mem \<Rightarrow> LBA \<Rightarrow> DWORD \<Rightarrow> WORD \<Rightarrow> UINT \<Rightarrow> WCHAR \<Rightarrow> UINT \<Rightarrow> UINT \<Rightarrow> DWORD \<Rightarrow> DWORD
    \<Rightarrow> FRESULT \<times> device \<times> mem \<times> DWORD \<times> DWORD"
where
  "upcase_loop 0 d bf sect sz_buf ss st si j i sm szb = (FR_TIMEOUT, d, bf, sm, szb)"
| "upcase_loop (Suc k) d bf sect sz_buf ss st si j i sm szb =
     (case upcase_step st si j of (ch, st, si, j) \<Rightarrow>
      let lo = ucast ch; hi = ucast (drop_bit 8 ch);
          bf = bf(unat i := lo, unat i + 1 := hi);
          sm = xsum32 hi (xsum32 lo sm);
          i = i + 2; szb = szb + 2 in
      if si = 0 \<or> i = sz_buf * ucast ss then
        let n = (i + ucast ss - 1) div ucast ss in
        (case disk_write d bf sect n of (r, d) \<Rightarrow>
          if r \<noteq> RES_OK then (FR_DISK_ERR, d, bf, sm, szb)
          else if si = 0 then (FR_OK, d, bf, sm, szb)
          else upcase_loop k d bf (sect + n) sz_buf ss st si j 0 sm szb)
      else upcase_loop k d bf sect sz_buf ss st si j i sm szb)"

text \<open>Marks bits from bit \<open>i\<close> on, \<open>nbit\<close> being left; the step count is the size of the buffer in bits.\<close>

fun mark_bits :: "nat \<Rightarrow> mem \<Rightarrow> nat \<Rightarrow> DWORD \<Rightarrow> mem \<times> DWORD" where
  "mark_bits 0 bf i nbit = (bf, nbit)"
| "mark_bits (Suc k) bf i nbit =
     (if nbit = 0 then (bf, nbit)
      else mark_bits k (bf(i div 8 := bf (i div 8) OR push_bit (i mod 8) 1)) (i + 1) (nbit - 1))"

fun bitmap_loop :: "nat \<Rightarrow> device \<Rightarrow> mem \<Rightarrow> LBA \<Rightarrow> DWORD \<Rightarrow> DWORD \<Rightarrow> WORD \<Rightarrow> DWORD \<Rightarrow> FRESULT \<times> device \<times> mem" where
  "bitmap_loop 0 d bf sect nsect sz_buf ss nbit = (FR_TIMEOUT, d, bf)"
| "bitmap_loop (Suc k) d bf sect nsect sz_buf ss nbit =
     (let wsz = unat (sz_buf * ucast ss) in
      case mark_bits (8 * wsz) (mem_set bf 0 0 wsz) 0 nbit of (bf, nbit) \<Rightarrow>
      let n = (if nsect > sz_buf then sz_buf else nsect) in
      (case disk_write d bf sect n of (r, d) \<Rightarrow>
        if r \<noteq> RES_OK then (FR_DISK_ERR, d, bf)
        else if nsect - n \<noteq> 0 then bitmap_loop k d bf (sect + n) (nsect - n) sz_buf ss nbit
        else (FR_OK, d, bf)))"

text \<open>The chains in a buffer of \<open>wsz\<close> bytes from offset \<open>i\<close> on, \<open>clen\<close> being the lengths still to come.\<close>

fun chain_fill :: "nat \<Rightarrow> mem \<Rightarrow> nat \<Rightarrow> nat \<Rightarrow> DWORD \<Rightarrow> DWORD \<Rightarrow> DWORD list \<Rightarrow> mem \<times> DWORD \<times> DWORD \<times> DWORD list" where
  "chain_fill 0 bf i wsz clu nbit clen = (bf, clu, nbit, clen)"
| "chain_fill (Suc k) bf i wsz clu nbit clen =
     (if nbit \<noteq> 0 \<and> i < wsz then
        chain_fill k (st_dword bf i (if nbit > 1 then clu + 1 else 0xFFFFFFFF)) (i + 4) wsz (clu + 1) (nbit - 1) clen
      else
        let (nbit, clen) = (if nbit = 0 then case clen of [] \<Rightarrow> (0, []) | c # cs \<Rightarrow> (c, cs) else (nbit, clen)) in
        if nbit \<noteq> 0 \<and> i < wsz then chain_fill k bf i wsz clu nbit clen else (bf, clu, nbit, clen))"

fun xfat_loop ::
  "nat \<Rightarrow> device \<Rightarrow> mem \<Rightarrow> LBA \<Rightarrow> DWORD \<Rightarrow> DWORD \<Rightarrow> WORD \<Rightarrow> DWORD \<Rightarrow> DWORD \<Rightarrow> DWORD list \<Rightarrow> FRESULT \<times> device \<times> mem"
where
  "xfat_loop 0 d bf sect nsect sz_buf ss clu nbit clen = (FR_TIMEOUT, d, bf)"
| "xfat_loop (Suc k) d bf sect nsect sz_buf ss clu nbit clen =
     (let wsz = unat (sz_buf * ucast ss);
          bf = mem_set bf 0 0 wsz;
          (bf, i, clu) = (if clu = 0 then (st_dword (st_dword bf 0 0xFFFFFFF8) 4 0xFFFFFFFF, 8, 2) else (bf, 0, clu)) in
      case chain_fill (wsz + 4) bf i wsz clu nbit clen of (bf, clu, nbit, clen) \<Rightarrow>
      let n = (if nsect > sz_buf then sz_buf else nsect) in
      (case disk_write d bf sect n of (r, d) \<Rightarrow>
        if r \<noteq> RES_OK then (FR_DISK_ERR, d, bf)
        else if nsect - n \<noteq> 0 then xfat_loop k d bf (sect + n) (nsect - n) sz_buf ss clu nbit clen
        else (FR_OK, d, bf)))"

text \<open>The root directory: label, bitmap and up-case table.\<close>

definition xroot :: "mem \<Rightarrow> nat \<Rightarrow> DWORD \<Rightarrow> DWORD \<Rightarrow> DWORD \<Rightarrow> DWORD \<Rightarrow> mem" where
  "xroot bf wsz szb_bit clen0 sm szb_case =
     (let bf = mem_set bf 0 0 wsz;
          bf = bf(0 := 0x83, 32 := 0x81);
          bf = st_dword bf 52 2;
          bf = (st_dword bf 56 szb_bit)(64 := 0x82);
          bf = st_dword bf 68 sm;
          bf = st_dword bf 84 (2 + clen0) in
      st_dword bf 88 szb_case)"

fun log2_byte :: "nat \<Rightarrow> DWORD \<Rightarrow> BYTE \<Rightarrow> BYTE" where
  "log2_byte 0 i n = n"
| "log2_byte (Suc k) i n = (if drop_bit 1 i \<noteq> 0 then log2_byte k (drop_bit 1 i) (n + 1) else n)"

text \<open>The main record of the boot region.\<close>

definition xvbr ::
  "mem \<Rightarrow> WORD \<Rightarrow> LBA \<Rightarrow> LBA \<Rightarrow> LBA \<Rightarrow> DWORD \<Rightarrow> LBA \<Rightarrow> DWORD \<Rightarrow> DWORD \<Rightarrow> DWORD \<Rightarrow> DWORD \<Rightarrow> mem"
where
  "xvbr bf ss b_vol sz_vol b_fat sz_fat b_data n_clst root vsn sz_au =
     (let bf = mem_set bf 0 0 (unat ss);
          bf = put_bytes bf 0 sig_exfat;
          bf = st_qword bf 64 (ucast b_vol);
          bf = st_qword bf 72 (ucast sz_vol);
          bf = st_dword bf 80 (b_fat - b_vol);
          bf = st_dword bf 84 sz_fat;
          bf = st_dword bf 88 (b_data - b_vol);
          bf = st_dword bf 92 n_clst;
          bf = st_dword bf 96 root;
          bf = st_dword bf 100 vsn;
          bf = st_word bf 104 0x100;
          bf = bf(108 := log2_byte 32 (ucast ss) 0, 109 := log2_byte 32 sz_au 0, 110 := 1, 111 := 0x80);
          bf = st_word bf 120 0xFEEB in
      st_word bf 510 0xAA55)"

text \<open>The checksum over \<open>n\<close> bytes from \<open>i\<close> on; the main record leaves out the volume flags and the percentage.\<close>

fun vbr_sum :: "nat \<Rightarrow> mem \<Rightarrow> nat \<Rightarrow> bool \<Rightarrow> DWORD \<Rightarrow> DWORD" where
  "vbr_sum 0 bf i main sm = sm"
| "vbr_sum (Suc n) bf i main sm =
     vbr_sum n bf (i + 1) main (if main \<and> (i = 106 \<or> i = 107 \<or> i = 112) then sm else xsum32 (bf i) sm)"

text \<open>\<open>n\<close> equal sectors of the boot region, with their checksum.\<close>

fun vbr_sects :: "nat \<Rightarrow> device \<Rightarrow> mem \<Rightarrow> LBA \<Rightarrow> WORD \<Rightarrow> DWORD \<Rightarrow> FRESULT \<times> device \<times> DWORD" where
  "vbr_sects 0 d bf sect ss sm = (FR_OK, d, sm)"
| "vbr_sects (Suc n) d bf sect ss sm =
     (let sm = vbr_sum (unat ss) bf 0 False sm in
      case disk_write d bf sect 1 of (r, d) \<Rightarrow>
      if r \<noteq> RES_OK then (FR_DISK_ERR, d, sm) else vbr_sects n d bf (sect + 1) ss sm)"

fun sum_record :: "nat \<Rightarrow> mem \<Rightarrow> nat \<Rightarrow> DWORD \<Rightarrow> mem" where
  "sum_record 0 bf i sm = bf"
| "sum_record (Suc n) bf i sm = sum_record n (st_dword bf i sm) (i + 4) sm"

text \<open>One copy of the boot region, of which \<open>vbr\<close> is the main record.\<close>

definition boot_region :: "device \<Rightarrow> mem \<Rightarrow> LBA \<Rightarrow> WORD \<Rightarrow> FRESULT \<times> device \<times> mem" where
  "boot_region d vbr sect ss =
     (let sm = vbr_sum (unat ss) vbr 0 True 0 in
      case disk_write d vbr sect 1 of (r, d) \<Rightarrow>
      if r \<noteq> RES_OK then (FR_DISK_ERR, d, vbr)
      else
        let bf = st_word (mem_set vbr 0 0 (unat ss)) (unat ss - 2) 0xAA55 in
        (case vbr_sects 8 d bf (sect + 1) ss sm of (res, d, sm) \<Rightarrow>
          if res \<noteq> FR_OK then (res, d, bf)
          else
            let bf = mem_set bf 0 0 (unat ss) in
            (case vbr_sects 2 d bf (sect + 9) ss sm of (res, d, sm) \<Rightarrow>
              if res \<noteq> FR_OK then (res, d, bf)
              else
                let bf = sum_record (unat ss div 4) bf 0 sm in
                (case disk_write d bf (sect + 11) 1 of (r, d) \<Rightarrow>
                  (if r \<noteq> RES_OK then FR_DISK_ERR else FR_OK, d, bf)))))"

text \<open>The areas of the volume: the FAT, the data, the clusters and those of the bitmap.\<close>

definition xgeo ::
  "LBA \<Rightarrow> LBA \<Rightarrow> DWORD \<Rightarrow> DWORD \<Rightarrow> DWORD \<Rightarrow> (DWORD \<times> LBA \<times> DWORD \<times> LBA \<times> DWORD \<times> DWORD \<times> DWORD) option"
where
  "xgeo b_vol sz_vol ss sz_blk sz_au =
     (if sz_vol < 0x1000 then None
      else
        let sz_au = (if sz_au = 0 then if sz_vol \<ge> 0x4000000 then 256 else if sz_vol \<ge> 0x80000 then 64 else 8 else sz_au);
            b_fat = b_vol + 32;
            sz_fat = ((sz_vol div sz_au + 2) * 4 + ss - 1) div ss;
            b_data = b_fat + sz_fat + sz_blk - 1 AND (NOT (sz_blk - 1)) in
        if b_data - b_vol \<ge> sz_vol div 2 then None
        else
          let n_clst = (sz_vol - (b_data - b_vol)) div sz_au in
          if n_clst < 16 \<or> n_clst > 0x7FFFFFFD then None
          else
            let szb_bit = (n_clst + 7) div 8 in
            Some (sz_au, b_fat, sz_fat, b_data, n_clst, szb_bit, (szb_bit + sz_au * ss - 1) div (sz_au * ss)))"

definition mkfs_exfat ::
  "device \<Rightarrow> mem \<Rightarrow> LBA \<Rightarrow> LBA \<Rightarrow> WORD \<Rightarrow> DWORD \<Rightarrow> DWORD \<Rightarrow> DWORD \<Rightarrow> DWORD \<Rightarrow> FRESULT \<times> device \<times> mem"
where
  "mkfs_exfat d bf b_vol sz_vol ss sz_buf sz_blk sz_au vsn =
     (case xgeo b_vol sz_vol (ucast ss) sz_blk sz_au of
        None \<Rightarrow> (FR_MKFS_ABORTED, d, bf)
      | Some (sz_au, b_fat, sz_fat, b_data, n_clst, szb_bit, clen0) \<Rightarrow>
          (case upcase_loop 0x20000 d bf (b_data + sz_au * clen0) sz_buf ss 0 0 0 0 0 0 of (res, d, bf, sm, szb_case) \<Rightarrow>
            if res \<noteq> FR_OK then (res, d, bf)
            else
              let clen1 = (szb_case + sz_au * ucast ss - 1) div (sz_au * ucast ss);
                  nsect = (szb_bit + ucast ss - 1) div ucast ss in
              (case bitmap_loop (Suc (unat nsect div unat sz_buf)) d bf b_data nsect sz_buf ss (clen0 + clen1 + 1) of (res, d, bf) \<Rightarrow>
                if res \<noteq> FR_OK then (res, d, bf)
                else
                  (case xfat_loop (Suc (unat sz_fat div unat sz_buf)) d bf b_fat sz_fat sz_buf ss 0 0 [clen0, clen1, 1] of (res, d, bf) \<Rightarrow>
                    if res \<noteq> FR_OK then (res, d, bf)
                    else
                      let bf = xroot bf (unat (sz_buf * ucast ss)) szb_bit clen0 sm szb_case in
                      (case fill_sects d bf (b_data + sz_au * (clen0 + clen1)) sz_au sz_buf ss True of (res, d, bf, sect) \<Rightarrow>
                        if res \<noteq> FR_OK then (res, d, bf)
                        else
                          let vbr = (\<lambda>bf. xvbr bf ss b_vol sz_vol b_fat sz_fat b_data n_clst (2 + clen0 + clen1) vsn sz_au) in
                          (case boot_region d (vbr bf) b_vol ss of (res, d, bf) \<Rightarrow>
                            if res \<noteq> FR_OK then (res, d, bf) else boot_region d (vbr bf) (b_vol + 12) ss))))))"

section \<open>Formatting\<close>

text \<open>The type of the file system, decided before its geometry, and the cluster size asked for.\<close>

definition mkfs_type :: "BYTE \<Rightarrow> LBA \<Rightarrow> DWORD \<Rightarrow> (BYTE \<times> DWORD) option" where
  "mkfs_type fsopt sz_vol sz_au =
     (if fsopt AND FM_EXFAT \<noteq> 0 \<and> (fsopt AND FM_ANY = FM_EXFAT \<or> sz_vol \<ge> 0x4000000 \<or> sz_au > 128)
      then Some (FS_EXFAT, sz_au)
      else
        let sz_au = (if sz_au > 128 then 128 else sz_au) in
        if fsopt AND FM_FAT32 \<noteq> 0 \<and> fsopt AND FM_FAT = 0 then Some (FS_FAT32, sz_au)
        else if fsopt AND FM_FAT = 0 then None
        else Some (FS_FAT16, sz_au))"

definition sys_id :: "BYTE \<Rightarrow> LBA \<Rightarrow> BYTE" where
  "sys_id fsty sz_vol =
     (if fsty = FS_EXFAT then 0x07 else if fsty = FS_FAT32 then 0x0C
      else if sz_vol \<ge> 0x10000 then 0x06 else if fsty = FS_FAT16 then 0x04 else 0x01)"

text \<open>
  The volume at \<open>b_vol\<close>, of \<open>sz_vol\<close> sectors: \<open>n_fat\<close>, \<open>n_root\<close>, \<open>sz_au\<close> and \<open>sz_blk\<close> are the
  checked parameters. The type created is returned.
\<close>

definition mkfs_volume ::
  "device \<Rightarrow> mem \<Rightarrow> BYTE \<Rightarrow> LBA \<Rightarrow> LBA \<Rightarrow> WORD \<Rightarrow> DWORD \<Rightarrow> DWORD \<Rightarrow> DWORD \<Rightarrow> UINT \<Rightarrow> UINT
    \<Rightarrow> FRESULT \<times> device \<times> mem \<times> BYTE"
where
  "mkfs_volume d bf fsopt b_vol sz_vol ss sz_buf sz_blk sz_au n_fat n_root =
     (case mkfs_type fsopt sz_vol sz_au of
        None \<Rightarrow> (FR_INVALID_PARAMETER, d, bf, 0)
      | Some (fsty, sz_au) \<Rightarrow>
          let vsn = sz_vol + GET_FATTIME in
          if fsty = FS_EXFAT then
            (case mkfs_exfat d bf b_vol sz_vol ss sz_buf sz_blk sz_au vsn of (res, d, bf) \<Rightarrow> (res, d, bf, fsty))
          else
            (case geo_loop 4 fsty sz_au b_vol sz_vol (ucast ss) sz_blk n_fat n_root fsopt of
               Inl res \<Rightarrow> (res, d, bf, 0)
             | Inr g \<Rightarrow>
                 (case mkfs_fat d bf g b_vol sz_vol ss sz_buf n_fat n_root vsn of (res, d, bf) \<Rightarrow> (res, d, bf, g_type g))))"

definition mkfs_drive :: "device \<Rightarrow> mem \<Rightarrow> MKFS_PARM \<Rightarrow> WORD \<Rightarrow> DWORD \<Rightarrow> FRESULT \<times> device" where
  "mkfs_drive d bf opt ss sz_buf =
     (let sz_blk = p_align opt;
          sz_blk = (if sz_blk = 0 \<or> sz_blk > 0x8000 \<or> sz_blk AND (sz_blk - 1) \<noteq> 0 then 1 else sz_blk);
          fsopt = p_fmt opt AND (FM_ANY OR FM_SFD);
          n_fat = (if p_n_fat opt \<ge> 1 \<and> p_n_fat opt \<le> 2 then ucast (p_n_fat opt) else 1);
          n_root = (if p_n_root opt \<ge> 1 \<and> p_n_root opt \<le> 32768 \<and> p_n_root opt mod (ucast ss div 32) = 0 then p_n_root opt else 512);
          sz_au = (if p_au_size opt \<le> 0x1000000 \<and> p_au_size opt AND (p_au_size opt - 1) = 0 then p_au_size opt else 0) div ucast ss;
          sz_vol = p_sz_vol opt in
      if sz_vol = 0 then (FR_DISK_ERR, d)
      else
        let (b_vol, sz_vol) = (if fsopt AND FM_SFD = 0 \<and> sz_vol > 63 then (63, sz_vol - 63) else (0, sz_vol)) in
        if sz_vol < 128 then (FR_MKFS_ABORTED, d)
        else
          (case mkfs_volume d bf fsopt b_vol sz_vol ss sz_buf sz_blk sz_au n_fat n_root of (res, d, bf, fsty) \<Rightarrow>
            if res \<noteq> FR_OK then (res, d)
            else
              (case (if fsopt AND FM_SFD = 0 then create_partition d [sz_vol, 0] (sys_id fsty sz_vol) bf (p_sz_vol opt)
                     else (FR_OK, d)) of (res, d) \<Rightarrow>
                if res \<noteq> FR_OK then (res, d)
                else (if disk_ioctl_sync d \<noteq> RES_OK then FR_DISK_ERR else FR_OK, d))))"

definition defopt :: MKFS_PARM where
  "defopt = \<lparr>p_fmt = FM_ANY, p_n_fat = 0, p_align = 0, p_n_root = 0, p_au_size = 0, p_sz_vol = 0\<rparr>"

text \<open>\<open>work\<close> is whether a working buffer of \<open>len\<close> bytes is given; else it is allocated.\<close>

definition f_mkfs ::
  "ffstate \<Rightarrow> device \<Rightarrow> tstring \<Rightarrow> MKFS_PARM option \<Rightarrow> bool \<Rightarrow> mem \<Rightarrow> UINT \<Rightarrow> FRESULT \<times> ffstate \<times> device"
where
  "f_mkfs st d path opt work bf len =
     (case get_ldnumber path of
        (None, _) \<Rightarrow> (FR_INVALID_DRIVE, st, d)
      | (Some vol, _) \<Rightarrow>
          let st = st\<lparr>FatFs := map_option (\<lambda>fs. fs\<lparr>fs_type := 0\<rparr>) (FatFs st)\<rparr>;
              ss = ucast (d_sector_size d) :: WORD in
          if ss > 4096 \<or> ss < 512 \<or> ss AND (ss - 1) \<noteq> 0 then (FR_DISK_ERR, st, d)
          else
            let sz_buf = len div ucast ss in
            if sz_buf = 0 \<or> \<not> work \<and> \<not> d_alloc d (unat (sz_buf * ucast ss)) then (FR_NOT_ENOUGH_CORE, st, d)
            else
              (case mkfs_drive d bf (case opt of None \<Rightarrow> defopt | Some p \<Rightarrow> p) ss sz_buf of (res, d) \<Rightarrow> (res, st, d)))"

end
