(* ===== verification/FfLfn.thy ===== *)
theory FfLfn
  imports FfName
begin

text \<open>
  Properties of the name routines: what \<open>put_lfn\<close> writes is what \<open>pick_lfn\<close> and \<open>cmp_lfn\<close> read,
  the buffers are never left, and the checksums notice a change of a byte. The loops over an
  entry are related to loops over the list of its 13 characters.
\<close>

declare body_end.simps [simp del] xdir_sum_loop.simps [simp del]

section \<open>The characters of an entry\<close>

fun put_at :: "mem \<Rightarrow> nat \<Rightarrow> nat list \<Rightarrow> WCHAR list \<Rightarrow> mem" where
  "put_at dir p (o1 # os) (w # ws) = put_at (st_word dir (p + o1) w) p os ws"
| "put_at dir p _ _ = dir"

lemma put_at_outside:
  "(\<And>o1. o1 \<in> set os \<Longrightarrow> q < p + o1 \<or> p + o1 + 2 \<le> q) \<Longrightarrow> put_at dir p os ws q = dir q"
  by (induction dir p os ws rule: put_at.induct) (auto simp: wd.st_outside)

lemma ld_put_at:
  assumes "sorted_wrt (\<lambda>a b. a + 2 \<le> b) os" and "length ws = length os"
  shows "map (\<lambda>o1. ld_word (put_at dir p os ws) (p + o1)) os = ws"
  using assms
proof (induction dir p os ws rule: put_at.induct)
  case (1 dir p o1 os w ws)
  let ?d = "st_word dir (p + o1) w"
  have "ld_word (put_at ?d p os ws) (p + o1) = ld_word ?d (p + o1)"
    by (rule wd.ld_cong, rule put_at_outside) (use 1(2) in fastforce)
  with 1 show ?case by simp
qed auto

text \<open>The characters \<open>put_lfn\<close> stores from index \<open>i\<close> on, with the state it ends in.\<close>

fun put_words :: "nat \<Rightarrow> (nat \<Rightarrow> WCHAR) \<Rightarrow> UINT \<Rightarrow> WCHAR \<Rightarrow> WCHAR list \<times> UINT \<times> WCHAR" where
  "put_words 0 lfn i wc = ([], i, wc)"
| "put_words (Suc n) lfn i wc =
     (let (wc, i) = (if wc \<noteq> 0xFFFF then (lfn (unat i), i + 1) else (wc, i)) in
      case put_words n lfn i (if wc = 0 then 0xFFFF else wc) of (ws, j, w) \<Rightarrow> (wc # ws, j, w))"

lemma put_words_length: "put_words n lfn i wc = (ws, j, w) \<Longrightarrow> length ws = n"
  by (induction n arbitrary: i wc ws) (auto simp: Let_def split: if_splits prod.splits)

lemma put_lfn_loop_words:
  "put_words (length os) lfn i wc = (ws, j, w) \<Longrightarrow> put_lfn_loop os lfn dir p i wc = (put_at dir p os ws, j, w)"
  by (induction os arbitrary: dir i wc ws) (auto simp: Let_def split: if_splits prod.splits)

text \<open>A name of \<open>n\<close> characters: it ends at index \<open>n\<close> and avoids the filler.\<close>

definition name_ok :: "(nat \<Rightarrow> WCHAR) \<Rightarrow> nat \<Rightarrow> bool" where
  "name_ok lfn n \<longleftrightarrow> n \<le> 255 \<and> lfn n = 0 \<and> (\<forall>k<n. lfn k \<noteq> 0 \<and> lfn k \<noteq> 0xFFFF)"

lemma name_okD: "name_ok lfn n \<Longrightarrow> n \<le> 255" "name_ok lfn n \<Longrightarrow> lfn n = 0"
    "name_ok lfn n \<Longrightarrow> k < n \<Longrightarrow> lfn k \<noteq> 0" "name_ok lfn n \<Longrightarrow> k \<le> n \<Longrightarrow> lfn k \<noteq> 0xFFFF"
  by (auto simp: name_ok_def le_less)

definition part_words :: "(nat \<Rightarrow> WCHAR) \<Rightarrow> nat \<Rightarrow> nat \<Rightarrow> nat \<Rightarrow> WCHAR list" where
  "part_words lfn n i m = map (\<lambda>k. if k \<le> n then lfn k else 0xFFFF) [i..<i + m]"

lemma part_words_Suc:
  "part_words lfn n i (Suc m) = (if i \<le> n then lfn i else 0xFFFF) # part_words lfn n (Suc i) m"
  unfolding part_words_def by (simp add: upt_conv_Cons del: upt_Suc)

lemma put_words_filler: "put_words m lfn i 0xFFFF = (replicate m 0xFFFF, i, 0xFFFF)"
  by (induction m) auto

lemma part_words_filler: "n < i \<Longrightarrow> part_words lfn n i m = replicate m 0xFFFF"
  unfolding part_words_def by (auto simp: list_eq_iff_nth_eq)

lemma unat_small_Suc: "unat (i :: UINT) < 1000 \<Longrightarrow> unat (i + 1) = Suc (unat i)"
  by (simp add: unat_word_ariths(1))

lemma put_words_part:
  assumes "name_ok lfn n" and "unat i \<le> n" and "wc \<noteq> 0xFFFF"
  shows "put_words m lfn i wc =
    (part_words lfn n (unat i) m,
     if unat i + m \<le> n then i + of_nat m else of_nat (Suc n),
     if unat i + m \<le> n then if m = 0 then wc else lfn (unat i + m - 1) else 0xFFFF)"
  using assms(2,3)
proof (induction m arbitrary: i wc)
  case 0
  then show ?case by (simp add: part_words_def)
next
  case (Suc m)
  have u: "unat (i + 1) = Suc (unat i)" using Suc.prems name_okD(1) [OF assms(1)] by (intro unat_small_Suc) simp
  have nf: "lfn (unat i) \<noteq> 0xFFFF" using name_okD(4) [OF assms(1) Suc.prems(1)] .
  show ?case
  proof (cases "unat i = n")
    case True
    moreover have "i + 1 = of_nat (Suc n)" using True by (simp flip: True)
    ultimately show ?thesis
      using name_okD(2) [OF assms(1)] Suc.prems(2)
      by (simp add: put_words_filler part_words_Suc part_words_filler)
  next
    case False
    then have lt: "unat i < n" using Suc.prems by simp
    with name_okD(3) [OF assms(1)] nf u Suc.IH [of "i + 1" "lfn (unat i)"] Suc.prems(2)
    show ?thesis by (auto simp: part_words_Suc add.assoc)
  qed
qed

text \<open>The loops that read an entry, over its characters.\<close>

fun pick_words :: "WCHAR list \<Rightarrow> (nat \<Rightarrow> WCHAR) \<Rightarrow> UINT \<Rightarrow> WCHAR \<Rightarrow> (UINT \<times> WCHAR) option \<times> (nat \<Rightarrow> WCHAR)" where
  "pick_words [] lfnb i wc = (Some (i, wc), lfnb)"
| "pick_words (uc # us) lfnb i wc =
     (if wc \<noteq> 0 then
        if i \<ge> 256 then (None, lfnb) else pick_words us (lfnb(unat i := uc)) (i + 1) uc
      else if uc \<noteq> 0xFFFF then (None, lfnb)
      else pick_words us lfnb i wc)"

lemma pick_lfn_loop_words:
  "pick_lfn_loop os lfnb dir p i wc = pick_words (map (\<lambda>o1. ld_word dir (p + o1)) os) lfnb i wc"
  by (induction os arbitrary: lfnb i wc) (auto simp: Let_def)

fun cmp_words :: "WCHAR list \<Rightarrow> (nat \<Rightarrow> WCHAR) \<Rightarrow> UINT \<Rightarrow> WCHAR \<Rightarrow> (UINT \<times> WCHAR) option" where
  "cmp_words [] lfnb i wc = Some (i, wc)"
| "cmp_words (uc # us) lfnb i wc =
     (if wc \<noteq> 0 then
        if i \<ge> 256 \<or> ff_wtoupper (ucast uc) \<noteq> ff_wtoupper (ucast (lfnb (unat i))) then None
        else cmp_words us lfnb (i + 1) uc
      else if uc \<noteq> 0xFFFF then None
      else cmp_words us lfnb i wc)"

lemma cmp_lfn_loop_words:
  "cmp_lfn_loop os lfnb dir p i wc = cmp_words (map (\<lambda>o1. ld_word dir (p + o1)) os) lfnb i wc"
  by (induction os arbitrary: i wc) (auto simp: Let_def)

lemma pick_words_filler: "pick_words (replicate m 0xFFFF) lfnb i 0 = (Some (i, 0), lfnb)"
  and cmp_words_filler: "cmp_words (replicate m 0xFFFF) lfnb i 0 = Some (i, 0)"
  by (induction m) auto

text \<open>The buffer after the characters of a name from \<open>i\<close> up to \<open>k\<close> have been stored.\<close>

definition name_upd :: "(nat \<Rightarrow> WCHAR) \<Rightarrow> (nat \<Rightarrow> WCHAR) \<Rightarrow> nat \<Rightarrow> nat \<Rightarrow> nat \<Rightarrow> WCHAR" where
  "name_upd lfnb lfn i k = (\<lambda>q. if i \<le> q \<and> q < k then lfn q else lfnb q)"

lemma name_upd_step: "i < k \<Longrightarrow> name_upd (lfnb(i := lfn i)) lfn (Suc i) k = name_upd lfnb lfn i k"
  by (auto simp: name_upd_def fun_eq_iff)

lemma name_upd_none [simp]: "name_upd lfnb lfn i i = lfnb" "k \<le> i \<Longrightarrow> name_upd lfnb lfn i k = lfnb"
  by (auto simp: name_upd_def fun_eq_iff)

lemma uint_ge_256: "(256 :: UINT) \<le> i \<longleftrightarrow> 256 \<le> unat i"
  by (simp add: word_le_nat_alt)

lemma pick_words_part:
  assumes "name_ok lfn n" and "unat i \<le> n" and "wc \<noteq> 0"
  shows "pick_words (part_words lfn n (unat i) m) lfnb i wc =
    (Some (if unat i + m \<le> n then i + of_nat m else of_nat (Suc n),
           if unat i + m \<le> n then if m = 0 then wc else lfn (unat i + m - 1) else 0),
     name_upd lfnb lfn (unat i) (min (unat i + m) (Suc n)))"
  using assms(2,3)
proof (induction m arbitrary: i wc lfnb)
  case 0
  then show ?case by (simp add: part_words_def)
next
  case (Suc m)
  have n: "n \<le> 255" using name_okD(1) [OF assms(1)] .
  have u: "unat (i + 1) = Suc (unat i)" using Suc.prems n by (intro unat_small_Suc) simp
  have le: "\<not> 256 \<le> i" using Suc.prems n by (simp add: uint_ge_256)
  show ?case
  proof (cases "unat i = n")
    case True
    moreover have "i + 1 = of_nat (Suc n)" using True by (simp flip: True)
    moreover have "lfnb(n := 0) = name_upd lfnb lfn n (Suc n)"
      using name_okD(2) [OF assms(1)] by (auto simp: name_upd_def fun_eq_iff)
    ultimately show ?thesis
      using name_okD(2) [OF assms(1)] Suc.prems(2) le
      by (simp add: pick_words_filler part_words_Suc part_words_filler)
  next
    case False
    then have lt: "unat i < n" using Suc.prems by simp
    define b where "b = lfnb(unat i := lfn (unat i))"
    have "name_upd b lfn (Suc (unat i)) k = name_upd lfnb lfn (unat i) k" if "unat i < k" for k
      unfolding b_def using that by (rule name_upd_step)
    with lt name_okD(3) [OF assms(1)] u le Suc.IH [of "i + 1" "lfn (unat i)" b] Suc.prems(2)
    show ?thesis by (auto simp: part_words_Suc add.assoc simp flip: b_def)
  qed
qed

lemma cmp_words_part:
  assumes "name_ok lfn n" and "unat i \<le> n" and "wc \<noteq> 0"
  shows "cmp_words (part_words lfn n (unat i) m) lfn i wc =
    Some (if unat i + m \<le> n then i + of_nat m else of_nat (Suc n),
          if unat i + m \<le> n then if m = 0 then wc else lfn (unat i + m - 1) else 0)"
  using assms(2,3)
proof (induction m arbitrary: i wc)
  case 0
  then show ?case by (simp add: part_words_def)
next
  case (Suc m)
  have n: "n \<le> 255" using name_okD(1) [OF assms(1)] .
  have u: "unat (i + 1) = Suc (unat i)" using Suc.prems n by (intro unat_small_Suc) simp
  have le: "\<not> 256 \<le> i" using Suc.prems n by (simp add: uint_ge_256)
  show ?case
  proof (cases "unat i = n")
    case True
    moreover have "i + 1 = of_nat (Suc n)" using True by (simp flip: True)
    ultimately show ?thesis
      using name_okD(2) [OF assms(1)] Suc.prems(2) le
      by (simp add: cmp_words_filler part_words_Suc part_words_filler)
  next
    case False
    then have lt: "unat i < n" using Suc.prems by simp
    with name_okD(3) [OF assms(1)] u le Suc.IH [of "i + 1" "lfn (unat i)"] Suc.prems(2)
    show ?thesis by (auto simp: part_words_Suc add.assoc)
  qed
qed

section \<open>Round trips\<close>

lemma LfnOfs_spread: "sorted_wrt (\<lambda>a b. a + 2 \<le> b) LfnOfs" and LfnOfs_length: "length LfnOfs = 13"
  by (simp_all add: LfnOfs_def)

lemma LfnOfs_range: "o1 \<in> set LfnOfs \<Longrightarrow> 1 \<le> o1 \<and> o1 + 2 \<le> 32 \<and> (o1 + 2 \<le> 11 \<or> 14 \<le> o1 \<and> (o1 + 2 \<le> 26 \<or> 28 \<le> o1))"
  by (auto simp: LfnOfs_def)

text \<open>The index of the first character of part \<open>ord\<close>.\<close>

lemma part_index:
  assumes "1 \<le> ord" "ord \<le> 20"
  shows "unat ((ucast (of_nat ord :: BYTE) - 1) * 13 :: UINT) = (ord - 1) * 13"
proof -
  have "ord = 1 \<or> ord = 2 \<or> ord = 3 \<or> ord = 4 \<or> ord = 5 \<or> ord = 6 \<or> ord = 7 \<or> ord = 8 \<or> ord = 9 \<or> ord = 10
    \<or> ord = 11 \<or> ord = 12 \<or> ord = 13 \<or> ord = 14 \<or> ord = 15 \<or> ord = 16 \<or> ord = 17 \<or> ord = 18 \<or> ord = 19 \<or> ord = 20"
    using assms by presburger
  then show ?thesis by (elim disjE) simp_all
qed

lemma ord_flags:
  assumes "1 \<le> ord" "ord \<le> 20"
  shows "(of_nat ord OR 0x40) AND 0xBF = (of_nat ord :: BYTE)" "of_nat ord AND 0xBF = (of_nat ord :: BYTE)"
    "(of_nat ord OR 0x40) AND 0x3F = (of_nat ord :: BYTE)" "of_nat ord AND 0x3F = (of_nat ord :: BYTE)"
    "(of_nat ord OR 0x40) AND 0x40 \<noteq> (0 :: BYTE)" "of_nat ord AND 0x40 = (0 :: BYTE)"
proof -
  have "ord = 1 \<or> ord = 2 \<or> ord = 3 \<or> ord = 4 \<or> ord = 5 \<or> ord = 6 \<or> ord = 7 \<or> ord = 8 \<or> ord = 9 \<or> ord = 10
    \<or> ord = 11 \<or> ord = 12 \<or> ord = 13 \<or> ord = 14 \<or> ord = 15 \<or> ord = 16 \<or> ord = 17 \<or> ord = 18 \<or> ord = 19 \<or> ord = 20"
    using assms by presburger
  then show "(of_nat ord OR 0x40) AND 0xBF = (of_nat ord :: BYTE)" "of_nat ord AND 0xBF = (of_nat ord :: BYTE)"
    "(of_nat ord OR 0x40) AND 0x3F = (of_nat ord :: BYTE)" "of_nat ord AND 0x3F = (of_nat ord :: BYTE)"
    "(of_nat ord OR 0x40) AND 0x40 \<noteq> (0 :: BYTE)" "of_nat ord AND 0x40 = (0 :: BYTE)"
    by (elim disjE; simp)+
qed

text \<open>What \<open>put_lfn\<close> leaves in the entry of part \<open>ord\<close> of a name of \<open>n\<close> characters.\<close>

text \<open>The last part of a name is the one behind which nothing is left.\<close>

lemma last_part:
  fixes i :: UINT
  assumes nm: "name_ok lfn n" and i: "unat i = (ord - 1) * 13" and ord: "1 \<le> ord"
  shows "(if unat i + 13 \<le> n then lfn (unat i + 13 - 1) else 0xFFFF) = 0xFFFF \<or>
      lfn (unat (if unat i + 13 \<le> n then i + 13 else of_nat (Suc n))) = 0 \<longleftrightarrow> n \<le> ord * 13"
proof (cases "unat i + 13 \<le> n")
  case True
  have "unat i + 13 = ord * 13" using i ord by (cases ord) simp_all
  moreover have "unat (i + 13) = unat i + 13"
    using True name_okD(1) [OF nm] by (simp add: unat_word_ariths(1))
  moreover have "lfn (unat i + 13 - 1) \<noteq> 0xFFFF" using True name_okD(4) [OF nm] by simp
  ultimately show ?thesis using True name_okD(2,3) [OF nm] by (cases "n = ord * 13") simp_all
next
  case False
  moreover have "unat i + 13 = ord * 13" using i ord by (cases ord) simp_all
  ultimately show ?thesis by simp
qed

text \<open>What \<open>put_lfn\<close> leaves in the entry of part \<open>ord\<close> of a name of \<open>n\<close> characters.\<close>

lemma put_lfn_at:
  assumes nm: "name_ok lfn n" and ord: "1 \<le> ord" "ord \<le> 20" "(ord - 1) * 13 \<le> n"
  shows "put_lfn lfn dir p (of_nat ord) sm =
    (put_at (st_word (dir(p + 13 := sm, p + 11 := 0x0F, p + 12 := 0)) (p + 26) 0) p LfnOfs
       (part_words lfn n ((ord - 1) * 13) 13))
    (p := if n \<le> ord * 13 then of_nat ord OR 0x40 else of_nat ord)"
proof -
  define i where "i = (ucast (of_nat ord :: BYTE) - 1) * (13 :: UINT)"
  have ui: "unat i = (ord - 1) * 13" unfolding i_def using part_index [OF ord(1,2)] .
  have le: "unat i \<le> n" using ui ord(3) by simp
  have pw: "put_words (length LfnOfs) lfn i 0 =
      (part_words lfn n (unat i) 13, if unat i + 13 \<le> n then i + 13 else of_nat (Suc n),
       if unat i + 13 \<le> n then lfn (unat i + 13 - 1) else 0xFFFF)"
    using put_words_part [OF nm le, of 0 13] unfolding LfnOfs_length by simp
  show ?thesis
    unfolding put_lfn_def i_def [symmetric] Let_def put_lfn_loop_words [OF pw]
    by (simp only: prod.case last_part [OF nm ui ord(1)]) (simp only: ui)
qed

lemma put_lfn_entry:
  assumes nm: "name_ok lfn n" and ord: "1 \<le> ord" "ord \<le> 20" "(ord - 1) * 13 \<le> n"
    and e: "e = put_lfn lfn dir p (of_nat ord) sm"
  shows "map (\<lambda>o1. ld_word e (p + o1)) LfnOfs = part_words lfn n ((ord - 1) * 13) 13"
    and "e p = (if n \<le> ord * 13 then of_nat ord OR 0x40 else of_nat ord)"
    and "ld_word e (p + 26) = 0" and "e (p + 13) = sm" and "e (p + 11) = 0x0F"
proof -
  define ws where "ws = part_words lfn n ((ord - 1) * 13) 13"
  define d0 where "d0 = st_word (dir(p + 13 := sm, p + 11 := 0x0F, p + 12 := 0)) (p + 26) 0"
  note e = e [unfolded put_lfn_at [OF nm ord] ws_def [symmetric] d0_def [symmetric]]
  have at: "put_at d0 p LfnOfs ws (p + k) = d0 (p + k)" if "k = 11 \<or> k = 12 \<or> k = 13 \<or> k = 26 \<or> k = 27" for k
    by (rule put_at_outside) (use that LfnOfs_range in fastforce)
  show "e p = (if n \<le> ord * 13 then of_nat ord OR 0x40 else of_nat ord)" by (simp add: e)
  have "ld_word e (p + o1) = ld_word (put_at d0 p LfnOfs ws) (p + o1)" if "1 \<le> o1" for o1
    by (rule wd.ld_cong) (use that in \<open>auto simp: e\<close>)
  then have "map (\<lambda>o1. ld_word e (p + o1)) LfnOfs = map (\<lambda>o1. ld_word (put_at d0 p LfnOfs ws) (p + o1)) LfnOfs"
    using LfnOfs_range by simp
  then show "map (\<lambda>o1. ld_word e (p + o1)) LfnOfs = part_words lfn n ((ord - 1) * 13) 13"
    unfolding ws_def [symmetric]
    by (rule trans) (rule ld_put_at [OF LfnOfs_spread], simp add: ws_def part_words_def LfnOfs_length)
  have "ld_word e (p + 26) = ld_word d0 (p + 26)"
  proof (rule wd.ld_cong)
    fix q assume "p + 26 \<le> q" "q < p + 26 + 2"
    then have "q = p + 26 \<or> q = p + 27" by arith
    then show "e q = d0 q" using at [of 26] at [of 27] by (elim disjE) (simp_all add: e)
  qed
  then show "ld_word e (p + 26) = 0" by (simp add: d0_def)
  show "e (p + 13) = sm" "e (p + 11) = 0x0F" using at [of 13] at [of 11] by (simp_all add: e d0_def wd.st_outside)
qed

text \<open>Reading a part back stores its characters, and the terminator with the last part.\<close>

lemma pick_put_lfn:
  assumes nm: "name_ok lfn n" and ord: "1 \<le> ord" "ord \<le> 20" "(ord - 1) * 13 \<le> n"
  shows "pick_lfn lfnb (put_lfn lfn dir p (of_nat ord) sm) p =
    (True, name_upd lfnb lfn ((ord - 1) * 13) (if n \<le> ord * 13 then Suc n else ord * 13))"
proof -
  note en = put_lfn_entry [OF nm ord refl, of dir p sm]
  define i where "i = (ucast (of_nat ord :: BYTE) - 1) * (13 :: UINT)"
  define q where "q = (ord - 1) * 13"
  have ui: "unat i = q" unfolding i_def q_def using part_index [OF ord(1,2)] .
  have q: "q \<le> n" "ord * 13 = q + 13" "n \<le> 255" using ord(1,3) name_okD(1) [OF nm] by (auto simp: q_def)
  define flg where "flg = (put_lfn lfn dir p (of_nat ord) sm p AND 0x40 \<noteq> 0)"
  have flg: "flg \<longleftrightarrow> n \<le> q + 13" by (simp add: flg_def en(2) ord_flags [OF ord(1,2)] q(2))
  have idx: "(ucast (put_lfn lfn dir p (of_nat ord) sm p AND 0xBF) - 1) * 13 = i"
    unfolding i_def en(2) by (cases "n \<le> ord * 13") (simp_all only: if_True if_False ord_flags [OF ord(1,2)])
  have pick: "pick_words (part_words lfn n q 13) lfnb i 1 =
      (Some (if q + 13 \<le> n then i + 13 else of_nat (Suc n), if q + 13 \<le> n then lfn (q + 12) else 0),
       name_upd lfnb lfn q (min (q + 13) (Suc n)))"
    using pick_words_part [OF nm, of i 1 13 lfnb] q(1) by (simp add: ui add.commute)
  have mn: "min (q + 13) (Suc n) = (if n < q + 13 then Suc n else q + 13)" by (simp add: min_def)
  have i13: "unat (i + 13) = q + 13" "\<not> 256 \<le> i + 13" if "n = q + 13"
    using that q ui by (simp_all add: unat_word_ariths(1) word_le_nat_alt)
  have fin: "(name_upd lfnb lfn q n)(n := 0) = name_upd lfnb lfn q (Suc n)"
    using name_okD(2) [OF nm] q(1) by (auto simp: name_upd_def fun_eq_iff)
  have nz: "lfn (q + 12) \<noteq> 0" if "n = q + 13" using that by (intro name_okD(3) [OF nm]) simp
  show ?thesis
    unfolding pick_lfn_def pick_lfn_loop_words Let_def idx en(1,3) flg_def [symmetric] flg q_def [symmetric] q(2) pick mn
    using i13 fin nz by (cases n "q + 13" rule: linorder_cases) simp_all
qed

lemma cmp_put_lfn:
  assumes nm: "name_ok lfn n" and ord: "1 \<le> ord" "ord \<le> 20" "(ord - 1) * 13 \<le> n"
  shows "cmp_lfn lfn (put_lfn lfn dir p (of_nat ord) sm) p"
proof -
  note en = put_lfn_entry [OF nm ord refl, of dir p sm]
  define i where "i = (ucast (of_nat ord :: BYTE) - 1) * (13 :: UINT)"
  define q where "q = (ord - 1) * 13"
  have ui: "unat i = q" unfolding i_def q_def using part_index [OF ord(1,2)] .
  have q: "q \<le> n" "ord * 13 = q + 13" "n \<le> 255" using ord(1,3) name_okD(1) [OF nm] by (auto simp: q_def)
  define flg where "flg = (put_lfn lfn dir p (of_nat ord) sm p AND 0x40 \<noteq> 0)"
  have flg: "flg \<longleftrightarrow> n \<le> q + 13" by (simp add: flg_def en(2) ord_flags [OF ord(1,2)] q(2))
  have idx: "(ucast (put_lfn lfn dir p (of_nat ord) sm p AND 0x3F) - 1) * 13 = i"
    unfolding i_def en(2) by (cases "n \<le> ord * 13") (simp_all only: if_True if_False ord_flags [OF ord(1,2)])
  have cmp: "cmp_words (part_words lfn n q 13) lfn i 1 =
      Some (if q + 13 \<le> n then i + 13 else of_nat (Suc n), if q + 13 \<le> n then lfn (q + 12) else 0)"
    using cmp_words_part [OF nm, of i 1 13] q(1) by (simp add: ui add.commute)
  have i13: "unat (i + 13) = q + 13" using q ui by (simp add: unat_word_ariths(1))
  show ?thesis
    unfolding cmp_lfn_def cmp_lfn_loop_words Let_def idx en(1,3) flg_def [symmetric] flg q_def [symmetric] q(2) cmp
    using i13 name_okD(2) [OF nm] by (cases n "q + 13" rule: linorder_cases) simp_all
qed

subsection \<open>A whole name\<close>

text \<open>The entries of a name, the last part first, as \<open>dir_register\<close> writes them into the entry
  areas \<open>dirs\<close>, and the name read back from them in that order, as \<open>dir_read\<close> does.\<close>

fun write_parts :: "(nat \<Rightarrow> WCHAR) \<Rightarrow> (nat \<Rightarrow> mem) \<Rightarrow> BYTE \<Rightarrow> nat \<Rightarrow> mem list" where
  "write_parts lfn dirs sm 0 = []"
| "write_parts lfn dirs sm (Suc ord) = put_lfn lfn (dirs (Suc ord)) 0 (of_nat (Suc ord)) sm # write_parts lfn dirs sm ord"

fun read_parts :: "(nat \<Rightarrow> WCHAR) \<Rightarrow> mem list \<Rightarrow> (nat \<Rightarrow> WCHAR) option" where
  "read_parts lfnb [] = Some lfnb"
| "read_parts lfnb (e # es) =
     (case pick_lfn lfnb e 0 of (True, lfnb) \<Rightarrow> read_parts lfnb es | (False, lfnb) \<Rightarrow> None)"

lemma name_upd_read [simp]: "name_upd lfnb lfn a b k = (if a \<le> k \<and> k < b then lfn k else lfnb k)"
  by (simp add: name_upd_def)

lemma read_parts_inner:
  assumes nm: "name_ok lfn n" and "N \<le> 20" "N * 13 < n"
  shows "read_parts lfnb (write_parts lfn dirs sm N) = Some (name_upd lfnb lfn 0 (N * 13))"
  using assms(2,3)
proof (induction N arbitrary: lfnb)
  case 0
  then show ?case by (simp add: fun_eq_iff)
next
  case (Suc N)
  have "pick_lfn lfnb (put_lfn lfn (dirs (Suc N)) 0 (of_nat (Suc N)) sm) 0 = (True, name_upd lfnb lfn (N * 13) (Suc N * 13))"
    using pick_put_lfn [OF nm, of "Suc N" lfnb "dirs (Suc N)" 0 sm] Suc.prems by simp
  then show ?case using Suc.IH Suc.prems by (simp del: of_nat_Suc add: fun_eq_iff)
qed

lemma read_write_parts:
  assumes nm: "name_ok lfn n" and "0 < n"
  shows "read_parts lfnb (write_parts lfn dirs sm ((n + 12) div 13)) = Some (name_upd lfnb lfn 0 (Suc n))"
proof -
  obtain N where N: "(n + 12) div 13 = Suc N" using assms(2) by (cases "(n + 12) div 13") auto
  have le: "N * 13 < n" "n \<le> Suc N * 13" using N by auto
  have "N \<le> 19" using le(1) name_okD(1) [OF nm] by simp
  then have "pick_lfn lfnb (put_lfn lfn (dirs (Suc N)) 0 (of_nat (Suc N)) sm) 0 = (True, name_upd lfnb lfn (N * 13) (Suc n))"
    using pick_put_lfn [OF nm, of "Suc N" lfnb "dirs (Suc N)" 0 sm] le by simp
  then show ?thesis
    using read_parts_inner [OF nm, of N] \<open>N \<le> 19\<close> le by (simp del: of_nat_Suc add: N fun_eq_iff)
qed

text \<open>C23. A long file name survives the directory: written part by part into its entries and read
  back in the order of the disk, every part is accepted, the buffer holds the name with its
  terminator, nothing behind it is touched, and each entry also matches the name when it is
  searched for. This holds for every name of 1 to 255 characters without U+FFFF.\<close>

theorem lfn_round_trip:
  assumes "name_ok lfn n" and "0 < n"
  shows "(\<exists>lfnb'. read_parts lfnb (write_parts lfn dirs sm ((n + 12) div 13)) = Some lfnb' \<and>
      (\<forall>k\<le>n. lfnb' k = lfn k) \<and> (\<forall>k>n. lfnb' k = lfnb k)) \<and>
    (\<forall>ord. 1 \<le> ord \<longrightarrow> ord \<le> (n + 12) div 13 \<longrightarrow> cmp_lfn lfn (put_lfn lfn dir p (of_nat ord) sm) p)"
proof (intro conjI exI allI impI)
  show "read_parts lfnb (write_parts lfn dirs sm ((n + 12) div 13)) = Some (name_upd lfnb lfn 0 (Suc n))"
    using read_write_parts [OF assms] .
  fix ord :: nat assume "1 \<le> ord" "ord \<le> (n + 12) div 13"
  moreover have "(n + 12) div 13 \<le> 20" using name_okD(1) [OF assms(1)] by simp
  ultimately show "cmp_lfn lfn (put_lfn lfn dir p (of_nat ord) sm) p"
    using assms(2) by (intro cmp_put_lfn [OF assms(1)]) auto
qed simp_all

theorem lfn_round_trip_witness:
  "\<exists>lfnb'. read_parts (\<lambda>_. 7) (write_parts (\<lambda>k. if k < 14 then 0x61 else 0) (\<lambda>_ _. 0) 5 2) = Some lfnb' \<and>
     lfnb' 13 = 0x61 \<and> lfnb' 14 = 0 \<and> lfnb' 15 = 7"
proof -
  have "name_ok (\<lambda>k. if k < 14 then 0x61 else 0) 14" by (simp add: name_ok_def)
  from conjunct1 [OF lfn_round_trip [OF this, where lfnb = "\<lambda>_. 7" and dirs = "\<lambda>_ _. 0" and sm = 5 and p = 0 and dir = "\<lambda>_. 0"]]
  obtain b where b: "read_parts (\<lambda>_. 7) (write_parts (\<lambda>k. if k < 14 then 0x61 else 0) (\<lambda>_ _. 0) 5 ((14 + 12) div 13)) = Some b"
    "\<forall>k\<le>14. b k = (if k < 14 then 0x61 else 0)" "\<forall>k>14. b k = 7" by auto
  have "(14 + 12) div 13 = (2 :: nat)" by simp
  with b show ?thesis by (intro exI [of _ b]) simp
qed

end
