(* ===== verification/FfMountOk.thy ===== *)
theory FfMountOk
  imports FfMount "HOL-Library.Code_Target_Nat"
begin

text \<open>
  What a successful mount guarantees. The boot sector is untrusted input: the checks of
  \<open>mount_volume\<close> have to establish the invariant \<open>fat_vol\<close> on which the operations on the FAT rest,
  and the separation of the FATs from the clusters. They do where the volume fits the 32-bit sector
  addresses, which \<open>mount_volume\<close> does not check itself.
\<close>

section \<open>A clean window\<close>

text \<open>Mounting only reads: the window stays clean and the device as it is.\<close>

definition clean :: "FATFS \<Rightarrow> bool" where
  "clean fs \<longleftrightarrow> win_ok fs \<and> wflag fs = 0"

definition dev_ok :: "FATFS \<Rightarrow> bool" where
  "dev_ok fs \<longleftrightarrow> reads_ok (pdrv fs) \<and> d_sector_size (pdrv fs) = ucast (ssize fs)"

lemma clean_shows: "clean fs \<Longrightarrow> winsect fs \<noteq> -1 \<Longrightarrow> i < SSn fs \<Longrightarrow> win fs i = dev_sect (pdrv fs) (winsect fs) i"
  by (simp add: clean_def win_ok_def)

lemma move_window_clean:
  assumes "clean fs" and "move_window fs s = (r, fs')"
  shows "clean fs'" "pdrv fs' = pdrv fs" "geom_eq fs fs'" "r = FR_OK \<Longrightarrow> winsect fs' = s"
proof -
  have ok: "win_ok fs" and sw: "sync_window fs = (FR_OK, fs)" using assms(1) by (simp_all add: clean_def sync_window_def)
  show "geom_eq fs fs'" "r = FR_OK \<Longrightarrow> winsect fs' = s" using move_window_ok [OF ok assms(2)] by auto
  show p: "pdrv fs' = pdrv fs"
    using assms(2) sw by (auto simp: move_window_def Let_def split: if_splits prod.splits)
  have "wflag fs' = 0"
    using assms(2) sw assms(1) by (auto simp: move_window_def Let_def clean_def split: if_splits prod.splits)
  then show "clean fs'" using move_window_ok(1) [OF ok assms(2)] by (simp add: clean_def)
qed

lemma check_fs_clean:
  assumes "dev_ok fs" and "check_fs fs s = (fmt, fs')"
  shows "clean fs'" "pdrv fs' = pdrv fs" "geom_eq fs fs'"
proof -
  define fs0 where "fs0 = fs\<lparr>wflag := 0, winsect := 0 - 1\<rparr>"
  have c0: "clean fs0" using assms(1) by (simp add: clean_def win_ok_def dev_ok_def fs0_def)
  obtain r fs1 where m: "move_window fs0 s = (r, fs1)" by fastforce
  have "fs' = fs1" using assms(2) m by (auto simp: check_fs_def Let_def fs0_def split: if_splits)
  then show "clean fs'" "pdrv fs' = pdrv fs" "geom_eq fs fs'"
    using move_window_clean [OF c0 m] by (auto simp: fs0_def geom_eq_def)
qed

lemma dev_ok_geom: "geom_eq fs fs' \<Longrightarrow> dev_ok fs \<Longrightarrow> dev_ok fs'"
  by (simp add: dev_ok_def geom_eq_def same_device_def reads_ok_def)

lemma part_loop_clean:
  assumes "part_loop fs part pts = (fmt, fs')" and "clean fs" and "dev_ok fs"
  shows "clean fs' \<and> pdrv fs' = pdrv fs \<and> geom_eq fs fs'"
  using assms
proof (induction pts arbitrary: fs)
  case Nil
  then show ?case by simp
next
  case (Cons pt pts)
  obtain f fs1 where c: "(if pt \<noteq> 0 then check_fs fs pt else (3, fs)) = (f, fs1)" by fastforce
  have c1: "clean fs1 \<and> pdrv fs1 = pdrv fs \<and> geom_eq fs fs1"
    using c check_fs_clean [OF Cons.prems(3)] Cons.prems(2) by (auto split: if_splits)
  then have "dev_ok fs1" using dev_ok_geom Cons.prems(3) by blast
  then show ?case
    using Cons.IH [of fs1] Cons.prems(1) c c1 by (auto split: if_splits intro: geom_eq_trans)
qed

lemma find_volume_clean:
  assumes "dev_ok fs" and "find_volume fs part = (fmt, fs')"
  shows "clean fs' \<and> pdrv fs' = pdrv fs \<and> geom_eq fs fs'"
proof -
  obtain f fs1 where c: "check_fs fs 0 = (f, fs1)" by fastforce
  note c1 = check_fs_clean [OF assms(1) c]
  have "dev_ok fs1" using dev_ok_geom [OF c1(3) assms(1)] .
  then show ?thesis
    using assms(2) c c1 part_loop_clean [of fs1] geom_eq_trans [OF c1(3)]
    by (auto simp: find_volume_def Let_def simp del: part_loop.simps split: if_splits)
qed

lemma load_fsinfo_clean:
  assumes "clean fs"
  shows "clean (load_fsinfo fs fmt b) \<and> pdrv (load_fsinfo fs fmt b) = pdrv fs \<and> geom_eq fs (load_fsinfo fs fmt b)"
proof -
  obtain r fs1 where m: "move_window fs (b + 1) = (r, fs1)" by fastforce
  have "clean fs1" "pdrv fs1 = pdrv fs" "geom_eq fs fs1" using move_window_clean [OF assms m] by auto
  then show ?thesis
    using assms m by (simp add: load_fsinfo_def Let_def) (simp add: clean_def win_ok_def geom_eq_def)
qed

section \<open>The geometry a FAT boot sector describes\<close>

definition bpb_fatsz :: "mem \<Rightarrow> nat" where
  "bpb_fatsz w = (if ld_word w 22 = 0 then unat (ld_dword w 36) else unat (ld_word w 22))"

definition bpb_total :: "mem \<Rightarrow> nat" where
  "bpb_total w = (if ld_word w 19 = 0 then unat (ld_dword w 32) else unat (ld_word w 19))"

text \<open>Sectors before the data area: reserved, FATs and root directory.\<close>

definition bpb_sys :: "nat \<Rightarrow> mem \<Rightarrow> nat" where
  "bpb_sys ss w = unat (ld_word w 14) + unat (w 16) * bpb_fatsz w + unat (ld_word w 17) div (ss div 32)"

text \<open>The volume at sector \<open>b\<close> is not empty, ends below the last 32-bit sector number, and its
  system area has a 32-bit size.\<close>

definition bpb_fits :: "nat \<Rightarrow> nat \<Rightarrow> mem \<Rightarrow> bool" where
  "bpb_fits ss b w \<longleftrightarrow> 0 < bpb_total w \<and> b + bpb_total w < 2 ^ 32 \<and> bpb_sys ss w < 2 ^ 32"

text \<open>The size of the FAT as the code computes it.\<close>

definition need_fat :: "BYTE \<Rightarrow> DWORD \<Rightarrow> DWORD" where
  "need_fat fmt n = (if fmt = FS_FAT32 then n * 4 else if fmt = FS_FAT16 then n * 2 else n * 3 div 2 + (n AND 1))"

lemma unat_and_1: "unat (n AND 1 :: DWORD) = unat n mod 2"
  by (simp add: and_one_eq unat_mod)

lemma unat_need_fat:
  assumes "fmt \<in> {FS_FAT12, FS_FAT16, FS_FAT32}" and "n \<le> 0x0FFFFFF7"
  shows "unat (need_fat fmt n) = fat_bytes fmt (unat n)"
proof -
  have n: "unat n \<le> 0x0FFFFFF7" using assms(2) by (simp add: word_le_nat_alt)
  then have "unat (n * 4) = unat n * 4" "unat (n * 2) = unat n * 2" "unat (n * 3 div 2) = unat n * 3 div 2"
    by (simp_all add: unat_div unat_word_ariths(2))
  moreover have "unat (n * 3 div 2 + (n AND 1)) = unat n * 3 div 2 + unat n mod 2"
    using n \<open>unat (n * 3 div 2) = _\<close> by (simp add: unat_word_ariths(1) unat_and_1)
  moreover have "unat n * 3 div 2 + unat n mod 2 = (3 * unat n + 1) div 2" by presburger
  ultimately show ?thesis using assms(1) by (auto simp: need_fat_def fat_bytes_def)
qed

lemma fat_size_enough:
  assumes "fmt \<in> {FS_FAT12, FS_FAT16, FS_FAT32}" and "n \<le> 0x0FFFFFF7" and "512 \<le> ss" "ss \<le> 4096"
    and "\<not> fsz < (need_fat fmt n + (ss - 1)) div ss"
  shows "fat_bytes fmt (unat n) \<le> unat fsz * unat ss"
proof -
  have n: "unat n \<le> 0x0FFFFFF7" and ss: "512 \<le> unat ss" "unat ss \<le> 4096"
    using assms(2-4) by (simp_all add: word_le_nat_alt)
  have "fat_bytes fmt (unat n) \<le> 4 * unat n" by (simp add: fat_bytes_def) presburger
  moreover have s1: "unat (ss - 1) = unat ss - 1" using ss(1) by (simp add: unat_sub word_le_nat_alt)
  ultimately have "unat (need_fat fmt n + (ss - 1)) = fat_bytes fmt (unat n) + (unat ss - 1)"
    using n ss by (simp add: unat_word_ariths(1) unat_need_fat [OF assms(1,2)])
  then have "(fat_bytes fmt (unat n) + (unat ss - 1)) div unat ss \<le> unat fsz"
    using assms(5) by (simp add: not_less word_le_nat_alt unat_div)
  then have "fat_bytes fmt (unat n) + (unat ss - 1) < (unat fsz + 1) * unat ss"
    using ss(1) by (metis Suc_eq_plus1 div_less_iff_less_mult le_imp_less_Suc less_le_trans zero_less_numeral)
  then show ?thesis using ss(1) by (simp add: algebra_simps)
qed

lemma mount_limits_ok:
  assumes "mount_limits fs fmt fasize b = (FR_OK, fs')" and "clean fs"
  shows "clean fs'" "pdrv fs' = pdrv fs" "\<exists>db. geom_eq (fs\<lparr>dirbase := db\<rparr>) fs'"
    and "\<not> fsize fs < (need_fat fmt (n_fatent fs) + (SS fs - 1)) div SS fs"
proof -
  obtain db where fs': "fs' = load_fsinfo (fs\<lparr>dirbase := db, last_clst := 0xFFFFFFFF, free_clst := 0xFFFFFFFF, fsi_flag := 0x80\<rparr>) fmt b"
    and "\<not> fsize fs < (need_fat fmt (n_fatent fs) + (SS fs - 1)) div SS fs"
    using assms(1) by (auto simp: mount_limits_def Let_def need_fat_def SS_def split: if_splits prod.splits option.splits)
  then show "\<not> fsize fs < (need_fat fmt (n_fatent fs) + (SS fs - 1)) div SS fs" by simp
  have c: "clean (fs\<lparr>dirbase := db, last_clst := 0xFFFFFFFF, free_clst := 0xFFFFFFFF, fsi_flag := 0x80\<rparr>)"
    using assms(2) by (simp add: clean_def win_ok_def SSn_def)
  show "clean fs'" "pdrv fs' = pdrv fs" using load_fsinfo_clean [OF c, of fmt b] by (simp_all add: fs')
  show "\<exists>db. geom_eq (fs\<lparr>dirbase := db\<rparr>) fs'"
    using load_fsinfo_clean [OF c, of fmt b] by (intro exI [of _ db]) (simp add: fs' geom_eq_def)
qed

lemma fat_subtype_cases:
  "fat_subtype n = FS_FAT12 \<and> n \<le> 0xFF5 \<or> fat_subtype n = FS_FAT16 \<and> n \<le> 0xFFF5 \<or>
   fat_subtype n = FS_FAT32 \<and> n \<le> 0x0FFFFFF5 \<or> fat_subtype n = 0"
  by (auto simp: fat_subtype_def Let_def)

text \<open>The fields \<open>mount_fat\<close> sets, in the arithmetic of the code.\<close>

definition fat_geo :: "FATFS \<Rightarrow> mem \<Rightarrow> LBA \<Rightarrow> BYTE \<Rightarrow> bool" where
  "fat_geo fs w b fmt \<longleftrightarrow>
     (let fasize = (if ld_word w 22 = 0 then ld_dword w 36 else ucast (ld_word w 22)) :: DWORD;
          tsect = (if ld_word w 19 = 0 then ld_dword w 32 else ucast (ld_word w 19)) :: DWORD;
          sysect = ucast (ld_word w 14) + fasize * ucast (w 16) + ucast (ld_word w 17) div (SS fs div 32) in
      fsize fs = fasize \<and> n_fats fs = w 16 \<and> (w 16 = 1 \<or> w 16 = 2) \<and> ld_word w 14 \<noteq> 0 \<and> csize fs = ucast (w 13) \<and> csize fs \<noteq> 0 \<and>
      csize fs AND (csize fs - 1) = 0 \<and>
      sysect \<le> tsect \<and> n_fatent fs = (tsect - sysect) div ucast (csize fs) + 2 \<and> (tsect - sysect) div ucast (csize fs) \<noteq> 0 \<and>
      fmt = fat_subtype ((tsect - sysect) div ucast (csize fs)) \<and> fmt \<noteq> 0 \<and>
      volbase fs = b \<and> fatbase fs = b + ucast (ld_word w 14) \<and> database fs = b + sysect)"

lemma fat_geo_geom: "geom_eq fs fs' \<Longrightarrow> fat_geo fs w b fmt \<Longrightarrow> fat_geo fs' w b fmt"
  by (simp add: fat_geo_def geom_eqD SS_def)

lemma guard_ok:
  "(if c then (FR_NO_FILESYSTEM, x) else e) = (FR_OK, y) \<longleftrightarrow> \<not> c \<and> e = (FR_OK, y)"
  by simp

lemma mount_fat_ok:
  assumes "mount_fat fs b = (FR_OK, fs', fmt)" and "clean fs"
  shows "clean fs'" "pdrv fs' = pdrv fs" "ssize fs' = ssize fs" "fat_geo fs' (win fs) b fmt"
    and "\<not> fsize fs' < (need_fat fmt (n_fatent fs') + (SS fs - 1)) div SS fs"
proof -
  define fasize where "fasize = (if ld_word (win fs) 22 = 0 then ld_dword (win fs) 36 else ucast (ld_word (win fs) 22))"
  define tsect where "tsect = (if ld_word (win fs) 19 = 0 then ld_dword (win fs) 32 else ucast (ld_word (win fs) 19))"
  define sysect where "sysect = ucast (ld_word (win fs) 14) + fasize * ucast (win fs 16) + ucast (ld_word (win fs) 17) div (SS fs div 32)"
  define fs1 where "fs1 = fs\<lparr>fsize := fasize, n_fats := win fs 16, csize := ucast (win fs 13), n_rootdir := ld_word (win fs) 17,
    n_fatent := (tsect - sysect) div ucast (ucast (win fs 13) :: WORD) + 2, volbase := b, fatbase := b + ucast (ld_word (win fs) 14), database := b + sysect\<rparr>"
  have p: "pdrv fs1 = pdrv fs" "wflag fs1 = wflag fs" "winsect fs1 = winsect fs" "win fs1 = win fs" "ssize fs1 = ssize fs"
    by (simp_all add: fs1_def)
  note mf = assms(1) [unfolded mount_fat_def Let_def fasize_def [symmetric] tsect_def [symmetric] guard_ok, simplified SS_def]
  have g: "fat_geo fs1 (win fs) b fmt"
    using mf unfolding Let_def fasize_def [symmetric] tsect_def [symmetric] fat_geo_def fs1_def
    by (elim conjE) (simp add: sysect_def SS_def not_less split: prod.splits)
  have m: "mount_limits fs1 fmt (fasize * ucast (win fs 16)) b = (FR_OK, fs')"
    using mf unfolding fs1_def by (elim conjE) (simp add: sysect_def SS_def split: prod.splits)
  have c: "clean fs1" using assms(2) p by (simp add: clean_def win_ok_def SSn_def)
  note ml = mount_limits_ok [OF m c]
  obtain db where db: "geom_eq (fs1\<lparr>dirbase := db\<rparr>) fs'" using ml(3) by blast
  have g1: "fat_geo (fs1\<lparr>dirbase := db\<rparr>) (win fs) b fmt" using g by (simp add: fat_geo_def SS_def)
  show "clean fs'" "pdrv fs' = pdrv fs" using ml p by simp_all
  show "ssize fs' = ssize fs" using db p by (simp add: geom_eq_def)
  show "fat_geo fs' (win fs) b fmt" using fat_geo_geom [OF db g1] .
  show "\<not> fsize fs' < (need_fat fmt (n_fatent fs') + (SS fs - 1)) div SS fs"
    using ml(4) db p by (simp add: geom_eq_def SS_def)
qed

section \<open>Separation of the FATs and the clusters\<close>

text \<open>The FATs lie before the data area, the data area does not begin at sector 0 and ends below the
  last sector number, and the cluster size is a power of two.\<close>

definition layout_ok :: "FATFS \<Rightarrow> bool" where
  "layout_ok fs \<longleftrightarrow>
     unat (fatbase fs) + unat (n_fats fs) * unat (fsize fs) \<le> unat (database fs) \<and>
     unat (database fs) + (unat (n_fatent fs) - 2) * unat (csize fs) < 2 ^ 32 \<and> n_fats fs \<in> {1, 2} \<and>
     csize fs \<noteq> 0 \<and> csize fs AND (csize fs - 1) = 0 \<and> database fs \<noteq> 0"

lemma layout_ok_geom: "geom_eq fs fs' \<Longrightarrow> layout_ok fs' = layout_ok fs"
  by (simp add: layout_ok_def geom_eqD)

lemma unat_ucast_wide [simp]: "unat (ucast (x :: BYTE) :: DWORD) = unat x" "unat (ucast (y :: WORD) :: DWORD) = unat y"
    "unat (ucast (x :: BYTE) :: WORD) = unat x"
  by (simp_all add: unsigned_ucast_eq take_bit_nat_eq_self order_less_trans [OF unsigned_less])

lemma fat_geo_sys:
  assumes g: "fat_geo fs w b fmt" and f: "bpb_fits (SSn fs) (unat b) w" and s: "512 \<le> SSn fs"
  shows "bpb_sys (SSn fs) w \<le> bpb_total w" "unat (database fs) = unat b + bpb_sys (SSn fs) w"
    and "unat (n_fatent fs) = (bpb_total w - bpb_sys (SSn fs) w) div unat (csize fs) + 2"
    and "(bpb_total w - bpb_sys (SSn fs) w) div unat (csize fs) \<noteq> 0"
    and "unat (fatbase fs) = unat b + unat (ld_word w 14)" "unat (fsize fs) = bpb_fatsz w"
proof -
  define fasize :: DWORD where "fasize = (if ld_word w 22 = 0 then ld_dword w 36 else ucast (ld_word w 22))"
  define tsect :: DWORD where "tsect = (if ld_word w 19 = 0 then ld_dword w 32 else ucast (ld_word w 19))"
  define sysect where "sysect = ucast (ld_word w 14) + fasize * ucast (w 16) + ucast (ld_word w 17) div (SS fs div 32)"
  define ncl where "ncl = (tsect - sysect) div ucast (csize fs)"
  note g = g [unfolded fat_geo_def Let_def fasize_def [symmetric] tsect_def [symmetric], folded sysect_def, folded ncl_def]
  have fa: "unat fasize = bpb_fatsz w" and ts: "unat tsect = bpb_total w"
    by (simp_all add: fasize_def tsect_def bpb_fatsz_def bpb_total_def)
  have lt: "unat (ld_word w 14) + bpb_fatsz w * unat (w 16) + unat (ld_word w 17) div (SSn fs div 32) < 4294967296"
    "unat b + bpb_total w < 4294967296"
    using f by (simp_all add: bpb_fits_def bpb_sys_def mult.commute)
  then have "unat (fasize * ucast (w 16)) = bpb_fatsz w * unat (w 16)" by (simp add: unat_word_ariths(2) fa)
  then have "unat (ucast (ld_word w 14) + fasize * ucast (w 16)) = unat (ld_word w 14) + bpb_fatsz w * unat (w 16)"
    using lt(1) by (simp add: unat_word_ariths(1))
  then have sy: "unat sysect = bpb_sys (SSn fs) w"
    using lt(1) by (simp add: sysect_def unat_word_ariths(1) bpb_sys_def unat_div mult.commute)
  have le: "bpb_sys (SSn fs) w \<le> bpb_total w" using g sy ts by (simp add: word_le_nat_alt)
  then show "bpb_sys (SSn fs) w \<le> bpb_total w" .
  have "unat (b + sysect) = unat b + bpb_sys (SSn fs) w" using lt(2) sy le by (simp add: unat_word_ariths(1))
  then show "unat (database fs) = unat b + bpb_sys (SSn fs) w" using g by simp
  have uc: "unat ncl = (bpb_total w - bpb_sys (SSn fs) w) div unat (csize fs)"
    using g le by (simp add: ncl_def unat_div unat_sub word_le_nat_alt sy ts)
  have "ncl \<noteq> 0" "fat_subtype ncl \<noteq> 0" using g by auto
  then have "ncl \<le> 0x0FFFFFF5" by (auto simp: fat_subtype_def Let_def word_le_nat_alt split: if_splits)
  then have "unat (ncl + 2) = unat ncl + 2" by (simp add: unat_word_ariths(1) word_le_nat_alt)
  moreover have "n_fatent fs = ncl + 2" using g by blast
  ultimately show "unat (n_fatent fs) = (bpb_total w - bpb_sys (SSn fs) w) div unat (csize fs) + 2" by (simp add: uc)
  show "(bpb_total w - bpb_sys (SSn fs) w) div unat (csize fs) \<noteq> 0" using \<open>ncl \<noteq> 0\<close> uc by (simp add: word_unat_eq_iff)
  have "unat (b + ucast (ld_word w 14)) = unat b + unat (ld_word w 14)"
    using lt(2) le by (simp add: unat_word_ariths(1) bpb_sys_def)
  then show "unat (fatbase fs) = unat b + unat (ld_word w 14)" using g by simp
  show "unat (fsize fs) = bpb_fatsz w" using g fa by simp
qed

lemma fat_geo_layout:
  assumes g: "fat_geo fs w b fmt" and f: "bpb_fits (SSn fs) (unat b) w" and s: "512 \<le> SSn fs"
  shows "layout_ok fs"
proof -
  note sy = fat_geo_sys [OF assms]
  have n: "n_fats fs = w 16" "w 16 = 1 \<or> w 16 = 2" "csize fs \<noteq> 0" "csize fs AND (csize fs - 1) = 0" "unat (ld_word w 14) \<noteq> 0" using g by (auto simp: fat_geo_def Let_def unat_eq_0)
  have "(unat (n_fatent fs) - 2) * unat (csize fs) \<le> bpb_total w - bpb_sys (SSn fs) w"
    by (simp add: sy(3) div_times_less_eq_dividend)
  moreover have "unat b + bpb_total w < 4294967296" using f by (simp add: bpb_fits_def)
  ultimately have "unat (database fs) + (unat (n_fatent fs) - 2) * unat (csize fs) < 4294967296"
    using sy(1,2) by linarith
  moreover have "database fs \<noteq> 0" using sy(2) n(5) by (auto simp: bpb_sys_def)
  ultimately show ?thesis using n sy(2,5,6) by (auto simp: layout_ok_def bpb_sys_def)
qed

lemma unat_minus_one_dword: "unat (- 1 :: DWORD) = 4294967295"
  by (simp add: unsigned_minus_1_eq_mask mask_eq_exp_minus_1)

text \<open>The \<open>i\<close>-th sector of cluster \<open>c\<close> is in no FAT.\<close>

lemma unat_cluster_sector:
  assumes l: "layout_ok fs" and c: "2 \<le> c" "c < n_fatent fs" and i: "unat i < unat (csize fs)"
  shows "unat (clst2sect fs c + i) = unat (database fs) + (unat c - 2) * unat (csize fs) + unat i"
    and "unat (clst2sect fs c + i) < unat (database fs) + (unat (n_fatent fs) - 2) * unat (csize fs)"
proof -
  have c': "unat (c - 2) = unat c - 2" using c(1) by (simp add: unat_sub word_le_nat_alt)
  have lt: "unat (database fs) + (unat (n_fatent fs) - 2) * unat (csize fs) < 4294967296"
    using l by (simp add: layout_ok_def)
  have "(unat c - 2) + 1 \<le> unat (n_fatent fs) - 2" using c by (simp add: word_le_nat_alt word_less_nat_alt)
  from mult_le_mono1 [OF this, of "unat (csize fs)"] i
  have le: "(unat c - 2) * unat (csize fs) + unat i < (unat (n_fatent fs) - 2) * unat (csize fs)"
    by (simp add: algebra_simps)
  then have "unat (ucast (csize fs) * (c - 2)) = (unat c - 2) * unat (csize fs)"
    using lt by (simp add: unat_word_ariths(2) c' mult.commute)
  then have "unat (clst2sect fs c) = unat (database fs) + (unat c - 2) * unat (csize fs)"
    using lt le by (simp add: clst2sect_valid [OF c] unat_word_ariths(1))
  then show "unat (clst2sect fs c + i) = unat (database fs) + (unat c - 2) * unat (csize fs) + unat i"
    using lt le by (simp add: unat_word_ariths(1))
  then show "unat (clst2sect fs c + i) < unat (database fs) + (unat (n_fatent fs) - 2) * unat (csize fs)"
    using le by linarith
qed

lemma above_fats:
  assumes l: "layout_ok fs" and s: "unat (database fs) \<le> unat s" "s \<noteq> -1"
  shows "\<not> in_fat1 fs s" "\<not> in_fat2 fs s"
proof -
  have n: "n_fats fs = 1 \<or> n_fats fs = 2"
    and le: "unat (fatbase fs) + unat (n_fats fs) * unat (fsize fs) \<le> unat s"
    using l s(1) by (auto simp: layout_ok_def)
  have le1: "unat (fatbase fs) + unat (fsize fs) \<le> unat s" using n le by auto
  then show "\<not> in_fat1 fs s"
    by (simp add: in_fat1_def not_less word_le_nat_alt unat_sub_if')
  show "\<not> in_fat2 fs s"
  proof
    assume "in_fat2 fs s"
    then have n2: "n_fats fs = 2" and lt: "unat (s - fsize fs - fatbase fs) < unat (fsize fs)"
      by (simp_all add: in_fat2_def word_less_nat_alt)
    have "unat (fatbase fs) + 2 * unat (fsize fs) \<le> unat s" using le n2 by simp
    then have "unat (s - fsize fs - fatbase fs) = unat s - unat (fsize fs) - unat (fatbase fs)"
      by (simp add: unat_sub_if')
    with lt \<open>unat (fatbase fs) + 2 * unat (fsize fs) \<le> unat s\<close> show False by linarith
  qed
qed

lemma cluster_above_fats:
  assumes l: "layout_ok fs" and c: "2 \<le> c" "c < n_fatent fs" and i: "unat i < unat (csize fs)"
  shows "\<not> in_fat1 fs (clst2sect fs c + i)" "\<not> in_fat2 fs (clst2sect fs c + i)" "clst2sect fs c + i \<noteq> -1"
proof -
  note u = unat_cluster_sector [OF assms]
  have lt: "unat (database fs) + (unat (n_fatent fs) - 2) * unat (csize fs) \<le> 4294967295" using l by (simp add: layout_ok_def)
  then show ne: "clst2sect fs c + i \<noteq> -1" using u(2) unat_minus_one_dword by auto
  show "\<not> in_fat1 fs (clst2sect fs c + i)" "\<not> in_fat2 fs (clst2sect fs c + i)"
    using above_fats [OF l _ ne] u(1) by simp_all
qed

section \<open>Mounting a FAT volume\<close>

lemma pow2_between:
  fixes v :: "'a :: len word"
  assumes "v AND (v - 1) = 0" and "2 ^ k \<le> unat v" "unat v < 2 ^ Suc k"
  shows "unat v = 2 ^ k"
proof (rule ccontr)
  assume ne: "unat v \<noteq> 2 ^ k"
  have one: "bit m k" if "2 ^ k \<le> m" "m < 2 ^ Suc k" for m :: nat
  proof -
    have "m div 2 ^ k = 1" using that by (simp add: div_nat_eqI)
    then show ?thesis by (simp add: bit_iff_odd)
  qed
  have "v \<noteq> 0" using assms(2) by (metis not_less unsigned_0 zero_less_power zero_less_numeral)
  then have "unat (v - 1) = unat v - 1" by (simp add: unat_minus_one)
  then have "bit (unat (v - 1)) k" using one [of "unat v - 1"] assms(2,3) ne by simp
  moreover have "bit (unat v) k" using one assms(2,3) by blast
  ultimately have "bit (unat (v AND (v - 1))) k" by (simp add: unsigned_and_eq bit_and_iff)
  then show False using assms(1) by simp
qed

lemma pow2_sizes:
  assumes "\<not> (ss > 4096 \<or> ss < 512 \<or> ss AND (ss - 1) \<noteq> 0)"
  shows "(ss :: WORD) \<in> {512, 1024, 2048, 4096}"
proof -
  have a: "ss AND (ss - 1) = 0" and r: "512 \<le> unat ss" "unat ss \<le> 4096"
    using assms by (simp_all add: word_less_nat_alt not_less)
  consider "unat ss < 1024" | "1024 \<le> unat ss" "unat ss < 2048" | "2048 \<le> unat ss" "unat ss < 4096" | "unat ss = 4096"
    using r by linarith
  then have "unat ss = 512 \<or> unat ss = 1024 \<or> unat ss = 2048 \<or> unat ss = 4096"
    using pow2_between [OF a, of 9] pow2_between [OF a, of 10] pow2_between [OF a, of 11] r by cases simp_all
  then show ?thesis by (auto simp: word_unat_eq_iff)
qed

lemma fat_geo_ok:
  assumes g: "fat_geo fs w b fmt" and f: "bpb_fits (SSn fs) (unat b) w" and ss: "ssize fs \<in> {512, 1024, 2048, 4096}"
    and sz: "\<not> fsize fs < (need_fat fmt (n_fatent fs) + (SS fs - 1)) div SS fs" and ty: "fs_type fs = fmt"
  shows "fat_ok fs" "fmt \<in> {FS_FAT12, FS_FAT16, FS_FAT32}"
proof -
  have s: "512 \<le> SSn fs" "SSn fs \<le> 4096" using ss by (auto simp: SSn_def)
  note sy = fat_geo_sys [OF g f s(1)] and l = fat_geo_layout [OF g f s(1)]
  define ncl where "ncl = n_fatent fs - 2"
  have n: "n_fatent fs = ncl + 2" by (simp add: ncl_def)
  have fm: "fmt = fat_subtype ncl" "fmt \<noteq> 0" using g by (auto simp: fat_geo_def Let_def ncl_def)
  then have nf: "fmt = FS_FAT12 \<and> unat ncl \<le> 0xFF5 \<or> fmt = FS_FAT16 \<and> unat ncl \<le> 0xFFF5 \<or> fmt = FS_FAT32 \<and> unat ncl \<le> 0x0FFFFFF5"
    using fat_subtype_cases [of ncl] by (auto simp: word_le_nat_alt)
  then show t: "fmt \<in> {FS_FAT12, FS_FAT16, FS_FAT32}" by auto
  have un: "unat (n_fatent fs) = unat ncl + 2" using nf by (auto simp: n unat_word_ariths(1))
  have "n_fatent fs \<le> 0x0FFFFFF7" using nf un by (auto simp: word_le_nat_alt)
  from fat_size_enough [OF t this _ _ sz] s
  have "fat_bytes fmt (unat (n_fatent fs)) \<le> fatlen fs" by (simp add: fatlen_def word_le_nat_alt)
  moreover have "n_fatent fs \<le> fat_mask fmt" using nf un by (auto simp: fat_mask_def word_le_nat_alt)
  moreover have "3 \<le> n_fatent fs" using sy(3,4) by (simp add: word_le_nat_alt)
  moreover have lt: "unat (fatbase fs) + unat (n_fats fs) * unat (fsize fs) \<le> 4294967295" "n_fats fs = 1 \<or> n_fats fs = 2"
    using l unat_dword_less [of "database fs"] by (auto simp: layout_ok_def)
  then have "\<not> in_fat1 fs (-1)" "n_fats fs = 2 \<longrightarrow> 2 * unat (fsize fs) \<le> 2 ^ 32"
    by (auto simp: in_fat1_def word_less_nat_alt unat_sub_if' unat_minus_one_dword)
  ultimately show "fat_ok fs" using ss by (simp add: fat_ok_def ty)
qed

lemma bpb_fits_cong:
  assumes "\<And>i. i < 512 \<Longrightarrow> w i = w' i"
  shows "bpb_fits ss b w = bpb_fits ss b w'"
proof -
  have "ld_word w p = ld_word w' p" if "p < 500" for p by (rule wd.ld_cong) (use that in \<open>auto intro: assms\<close>)
  moreover have "ld_dword w p = ld_dword w' p" if "p < 500" for p by (rule dw.ld_cong) (use that in \<open>auto intro: assms\<close>)
  ultimately show ?thesis using assms [of 16] by (simp add: bpb_fits_def bpb_sys_def bpb_fatsz_def bpb_total_def)
qed

lemma mount_fs_fat:
  assumes "mount_fs fs fsid = (FR_OK, fs', fsid')" and "fs_type fs = 0" and "fs_type fs' \<noteq> FS_EXFAT"
    and "reads_ok (pdrv fs)" and "unat (d_sector_size (pdrv fs)) < 2 ^ 16"
  obtains fs1 fs2 fmt where "clean fs1" "pdrv fs1 = pdrv fs" "mount_fat fs1 (winsect fs1) = (FR_OK, fs2, fmt)"
    "fs' = fs2\<lparr>fs_type := fmt, fs_id := fsid + 1\<rparr>" "fsid' = fsid + 1" "ssize fs1 \<in> {512, 1024, 2048, 4096}"
proof -
  define fs0 where "fs0 = fs\<lparr>fs_type := 0, ssize := ucast (d_sector_size (pdrv fs))\<rparr>"
  obtain fmt fs1 where fv: "find_volume fs0 0 = (fmt, fs1)" by fastforce
  have ss: "\<not> (ssize fs0 > 4096 \<or> ssize fs0 < 512 \<or> ssize fs0 AND (ssize fs0 - 1) \<noteq> 0)"
    by (rule notI) (use assms(1,2) in \<open>simp add: mount_fs_def Let_def fs0_def [symmetric]\<close>)
  have "dev_ok fs0"
    using assms(4,5) by (simp add: dev_ok_def fs0_def word_unat_eq_iff unsigned_ucast_eq unsigned_take_bit_eq take_bit_nat_eq_self)
  note c = find_volume_clean [OF this fv]
  have s1: "ssize fs1 \<in> {512, 1024, 2048, 4096}" using pow2_sizes [OF ss] c by (simp add: geom_eq_def)
  obtain r fs2 fmt2 where x: "(if fmt = 1 then case mount_exfat fs1 (winsect fs1) of (res, fs) \<Rightarrow> (res, fs, FS_EXFAT)
      else mount_fat fs1 (winsect fs1)) = (r, fs2, fmt2)"
    by (metis prod_cases3)
  have r: "r = FR_OK \<and> fs' = fs2\<lparr>fs_type := fmt2, fs_id := fsid + 1\<rparr> \<and> fsid' = fsid + 1"
    using assms(1,2) ss fv x by (auto simp: mount_fs_def mount_done_def Let_def fs0_def [symmetric] split: if_splits)
  then have "fmt2 \<noteq> FS_EXFAT" using assms(3) by auto
  then have "mount_fat fs1 (winsect fs1) = (FR_OK, fs2, fmt2)"
    using x r by (simp split: if_splits prod.splits)
  then show ?thesis using that [of fs1 fs2 fmt2] c s1 r by (simp add: fs0_def)
qed

lemma mount_fs_fat_ok:
  assumes "mount_fs fs fsid = (FR_OK, fs', fsid')" and "fs_type fs = 0" and "fs_type fs' \<noteq> FS_EXFAT"
    and "reads_ok (pdrv fs)" and "unat (d_sector_size (pdrv fs)) < 2 ^ 16"
    and fits: "bpb_fits (SSn fs') (unat (volbase fs')) (dev_sect (pdrv fs) (volbase fs'))"
  shows "fat_vol fs' \<and> layout_ok fs' \<and> pdrv fs' = pdrv fs \<and> fs_id fs' = fsid + 1 \<and> fsid' = fsid + 1"
proof -
  obtain fs1 fs2 fmt where c: "clean fs1" "pdrv fs1 = pdrv fs" and m: "mount_fat fs1 (winsect fs1) = (FR_OK, fs2, fmt)"
    and fs': "fs' = fs2\<lparr>fs_type := fmt, fs_id := fsid + 1\<rparr>" "fsid' = fsid + 1" and ss: "ssize fs1 \<in> {512, 1024, 2048, 4096}"
    using mount_fs_fat [OF assms(1-5)] .
  note mf = mount_fat_ok [OF m c(1)]
  have same: "SSn fs' = SSn fs2" "SS fs' = SS fs2" "SSn fs2 = SSn fs1" "SS fs2 = SS fs1" "ssize fs' = ssize fs1" "n_fatent fs' = n_fatent fs2"
    "fsize fs' = fsize fs2"
    using mf(3) by (simp_all add: fs' SSn_def SS_def)
  have g: "fat_geo fs' (win fs1) (winsect fs1) fmt" using mf(4) by (simp add: fs' fat_geo_def SS_def)
  have vb: "volbase fs' = winsect fs1" using g by (simp add: fat_geo_def Let_def)
  have "winsect fs1 \<noteq> -1"
    using fits unat_minus_one_dword by (auto simp: bpb_fits_def vb)
  moreover have s: "512 \<le> SSn fs1" using ss by (auto simp: SSn_def)
  ultimately have "bpb_fits (SSn fs') (unat (winsect fs1)) (win fs1)"
    using fits clean_shows [OF c(1)] c(2) by (subst bpb_fits_cong [where w' = "dev_sect (pdrv fs) (winsect fs1)"]) (auto simp: vb)
  note ok = fat_geo_ok [OF g this] fat_geo_layout [OF g this]
  have "fat_ok fs'" "fmt \<in> {FS_FAT12, FS_FAT16, FS_FAT32}" "layout_ok fs'"
    using ok ss s mf(5) same by (simp_all add: fs')
  moreover have "win_ok fs'" using mf(1) by (simp add: clean_def win_ok_def fs' SSn_def)
  ultimately show ?thesis using mf(2) c(2) by (simp add: fat_vol_def fs')
qed

section \<open>Properties\<close>

text \<open>A drive with a FAT12 volume of 200 sectors, and one whose boot sector gives two FATs of
  \<open>0x80000001\<close> sectors to a volume of 100000.\<close>

definition disk_of :: "(nat \<times> BYTE) list \<Rightarrow> device" where
  "disk_of bs =
     \<lparr>d_bytes = (\<lambda>i. case map_of bs i of Some b \<Rightarrow> b | None \<Rightarrow> 0), d_read = (\<lambda>off n. Some n),
      d_write = (\<lambda>off n. n), d_seek = (\<lambda>_. True), d_flush = True, d_sector_size = 512,
      d_alloc = (\<lambda>_. True), d_uni2oem = [], d_oem2uni = []\<rparr>"

definition unmounted :: "device \<Rightarrow> FATFS" where
  "unmounted d =
     \<lparr>fs_type = 0, pdrv = d, n_fats = 0, wflag = 0, fsi_flag = 0, fs_id = 0,
      n_rootdir = 0, csize = 0, ssize = 0, lfnbuf = (\<lambda>_. 0), dirbuf = (\<lambda>_. 0),
      last_clst = 0, free_clst = 0, n_fatent = 0, fsize = 0, volbase = 0, fatbase = 0,
      dirbase = 0, database = 0, bitbase = 0, winsect = 0, win = (\<lambda>_. 0)\<rparr>"

definition disk12 :: device where
  "disk12 = disk_of [(0, 0xEB), (12, 2), (13, 1), (14, 1), (16, 1), (17, 16), (19, 200), (22, 1), (510, 0x55), (511, 0xAA)]"


text \<open>C3. Mounting an untrusted FAT volume establishes what all operations on it rely on. Let the
  boot sector describe a volume of at least one sector that ends below the last 32-bit sector
  number (its first sector plus its total number of sectors is less than \<open>2 ^ 32\<close>), and a system area
  (reserved sectors, FATs and root directory) of less than \<open>2 ^ 32\<close> sectors; nothing else is asked of
  it. If the mount succeeds, the table has an entry for every cluster and fits its sectors, the FATs
  lie before the data area, the window is coherent, the device is unchanged, and no sector of a
  cluster lies in a FAT or is the marker of an empty window.\<close>

theorem mount_fat_safe:
  assumes "mount_fs fs fsid = (FR_OK, fs', fsid')" and "fs_type fs = 0" and "fs_type fs' \<noteq> FS_EXFAT"
    and "reads_ok (pdrv fs)" and "unat (d_sector_size (pdrv fs)) < 2 ^ 16"
    and "bpb_fits (SSn fs') (unat (volbase fs')) (dev_sect (pdrv fs) (volbase fs'))"
  shows "fat_vol fs' \<and> layout_ok fs' \<and> pdrv fs' = pdrv fs \<and> fs_id fs' = fsid + 1 \<and> fsid' = fsid + 1 \<and>
    (\<forall>c i. 2 \<le> c \<longrightarrow> c < n_fatent fs' \<longrightarrow> unat i < unat (csize fs') \<longrightarrow>
       \<not> in_fat1 fs' (clst2sect fs' c + i) \<and> \<not> in_fat2 fs' (clst2sect fs' c + i) \<and> clst2sect fs' c + i \<noteq> -1)"
  using mount_fs_fat_ok [OF assms] cluster_above_fats [of fs'] by blast

theorem mount_fat_safe_witness:
  "fst (mount_fs (unmounted disk12) 0) = FR_OK \<and> fat_vol (fst (snd (mount_fs (unmounted disk12) 0))) \<and>
   n_fatent (fst (snd (mount_fs (unmounted disk12) 0))) = 199"
proof -
  obtain r fs' i where m: "mount_fs (unmounted disk12) 0 = (r, fs', i)" by (metis prod_cases3)
  have "case mount_fs (unmounted disk12) 0 of (r, fs', i) \<Rightarrow>
      r = FR_OK \<and> fs_type fs' = 1 \<and> n_fatent fs' = 199 \<and> volbase fs' = 0 \<and> SSn fs' = 512"
    by code_simp
  then have f: "r = FR_OK" "fs_type fs' \<noteq> FS_EXFAT" "n_fatent fs' = 199" "volbase fs' = 0" "SSn fs' = 512" using m by simp_all
  have "bpb_fits 512 (unat (0 :: LBA)) (dev_sect disk12 0)" by code_simp
  moreover have "pdrv (unmounted disk12) = disk12" "fs_type (unmounted disk12) = 0" "reads_ok disk12" "d_sector_size disk12 = 512"
    by (simp_all add: unmounted_def disk12_def disk_of_def reads_ok_def)
  ultimately show ?thesis using mount_fat_safe [OF m [unfolded f(1)]] f m by simp
qed




end
