(* ===== verification/FfFileOk.thy ===== *)
theory FfFileOk
  imports FfFile FfMountOk
begin

text \<open>
  What \<open>f_read\<close> and \<open>f_write\<close> do to the contents of a file. A file is a cluster chain \<open>xs\<close>; its
  byte \<open>k\<close> is at the device address \<open>faddr\<close>, overlaid by the dirty sector buffer of the file
  object (\<open>fbyte\<close>). The invariant \<open>fil_ok\<close> relates position, current cluster and sector buffer of
  the file object to the chain.
\<close>

section \<open>Transfers of several sectors\<close>

lemma disk_read_bytes:
  assumes "disk_read d b s n = (RES_OK, b')" and "reads_ok d"
  shows "b' k = (if k < unat n * unat (d_sector_size d) then d_bytes d (unat s * unat (d_sector_size d) + k) else b k)"
proof -
  obtain m where "d_read d (unat s * unat (d_sector_size d)) (unat n * unat (d_sector_size d)) = Some m"
    using assms(2) by (fastforce simp: reads_ok_def)
  then show ?thesis using assms(1) by (auto simp: unfold_defs Let_def split: if_splits)
qed

lemma disk_write_bytes:
  assumes "disk_write d b s n = (RES_OK, d')"
  shows "d_bytes d' a = (if unat s * unat (d_sector_size d) \<le> a \<and> a < (unat s + unat n) * unat (d_sector_size d)
    then b (a - unat s * unat (d_sector_size d)) else d_bytes d a)"
  using assms by (auto simp: unfold_defs Let_def algebra_simps split: if_splits)

lemma in_block:
  fixes a s z :: nat
  assumes "0 < z"
  shows "s * z \<le> a \<and> a < (s + 1) * z \<longleftrightarrow> a div z = s"
proof
  assume "s * z \<le> a \<and> a < (s + 1) * z"
  then show "a div z = s" by (intro div_nat_eqI) (simp_all add: mult.commute)
next
  assume "a div z = s"
  then show "s * z \<le> a \<and> a < (s + 1) * z"
    using div_times_less_eq_dividend [of a z] dividend_less_div_times [OF assms, of a] by auto
qed

lemma block_add:
  fixes k t c :: nat
  assumes "k mod c + t < c"
  shows "(k + t) div c = k div c" "(k + t) mod c = k mod c + t"
proof -
  have "t < c" using assms by simp
  then show "(k + t) div c = k div c" using assms by (simp add: div_add1_eq [of k t])
  show "(k + t) mod c = k mod c + t" using mod_add_left_eq [of k c t] assms by simp
qed

section \<open>Where the bytes of a file are\<close>

text \<open>Bytes per cluster.\<close>

definition cbytes :: "FATFS \<Rightarrow> nat" where
  "cbytes fs = unat (csize fs) * SSn fs"

definition faddr :: "FATFS \<Rightarrow> DWORD list \<Rightarrow> nat \<Rightarrow> nat" where
  "faddr fs xs k = unat (clst2sect fs (xs ! (k div cbytes fs))) * SSn fs + k mod cbytes fs"

definition dirty :: "FIL \<Rightarrow> bool" where
  "dirty fp \<longleftrightarrow> flag fp AND FA_DIRTY \<noteq> 0"

definition abyte :: "FATFS \<Rightarrow> FIL \<Rightarrow> nat \<Rightarrow> BYTE" where
  "abyte fs fp a =
     (if dirty fp \<and> a div SSn fs = unat (f_sect fp) then buf fp (a mod SSn fs) else d_bytes (pdrv fs) a)"

definition fbyte :: "FATFS \<Rightarrow> FIL \<Rightarrow> DWORD list \<Rightarrow> nat \<Rightarrow> BYTE" where
  "fbyte fs fp xs k = abyte fs fp (faddr fs xs k)"

text \<open>The chain of a file; an empty file has none.\<close>

definition file_chain :: "FATFS \<Rightarrow> DWORD \<Rightarrow> DWORD list \<Rightarrow> bool" where
  "file_chain fs c xs \<longleftrightarrow>
     (if c = 0 then xs = [] else xs \<noteq> [] \<and> is_chain (fat_entry fs) (n_fatent fs) c xs)"

text \<open>A volume on which files can be read and written.\<close>

definition vol_ok :: "FATFS \<Rightarrow> bool" where
  "vol_ok fs \<longleftrightarrow> fat_vol fs \<and> layout_ok fs"

definition fil_ok :: "FATFS \<Rightarrow> FIL \<Rightarrow> DWORD list \<Rightarrow> bool" where
  "fil_ok fs fp xs \<longleftrightarrow>
     vol_ok fs \<and> file_chain fs (sclust (f_obj fp)) xs \<and>
     unat (objsize (f_obj fp)) \<le> length xs * cbytes fs \<and> fptr fp \<le> objsize (f_obj fp) \<and>
     (0 < fptr fp \<longrightarrow> f_clust fp = xs ! ((unat (fptr fp) - 1) div cbytes fs)) \<and>
     (unat (fptr fp) mod SSn fs \<noteq> 0 \<longrightarrow> unat (f_sect fp) = faddr fs xs (unat (fptr fp)) div SSn fs) \<and>
     (\<forall>k<unat (objsize (f_obj fp)). unat (f_sect fp) = faddr fs xs k div SSn fs \<longrightarrow> \<not> dirty fp \<longrightarrow>
        (\<forall>i<SSn fs. buf fp i = dev_sect (pdrv fs) (f_sect fp) i)) \<and>
     (dirty fp \<longrightarrow> (\<exists>k<length xs * cbytes fs. unat (f_sect fp) = faddr fs xs k div SSn fs)) \<and>
     (\<forall>k<length xs * cbytes fs. unat (winsect fs) \<noteq> faddr fs xs k div SSn fs)"

lemma vol_sizes:
  assumes "vol_ok fs"
  shows "512 \<le> SSn fs" "SSn fs \<le> 4096" "0 < unat (csize fs)" "0 < cbytes fs" "unat (d_sector_size (pdrv fs)) = SSn fs"
    "reads_ok (pdrv fs)" "SSn fs dvd cbytes fs" "cbytes fs div SSn fs = unat (csize fs)"
proof -
  have s: "SSn fs \<in> {512, 1024, 2048, 4096}" using assms fat_ok_sector by (auto simp: vol_ok_def fat_vol_def)
  then show "512 \<le> SSn fs" "SSn fs \<le> 4096" by auto
  have "csize fs \<noteq> 0" using assms by (simp add: vol_ok_def layout_ok_def)
  then show c: "0 < unat (csize fs)" by (simp add: unat_gt_0)
  show "0 < cbytes fs" using c s by (auto simp: cbytes_def)
  show "unat (d_sector_size (pdrv fs)) = SSn fs" "reads_ok (pdrv fs)"
    using assms by (simp_all add: vol_ok_def fat_vol_def win_ok_def SSn_def)
  show "SSn fs dvd cbytes fs" "cbytes fs div SSn fs = unat (csize fs)" using s by (auto simp: cbytes_def)
qed

lemma chain_nth_range:
  assumes "file_chain fs c xs" and "i < length xs"
  shows "2 \<le> xs ! i" "xs ! i < n_fatent fs" "c \<noteq> 0"
  using assms is_chain_range [of "fat_entry fs" "n_fatent fs" c xs "xs ! i"] by (auto simp: file_chain_def split: if_splits)

lemma chain_nth:
  assumes "is_chain e n c xs" and "i < length xs"
  shows "xs ! i = (if i = 0 then c else e (xs ! (i - 1)))"
  using assms
proof (induction xs arbitrary: c i)
  case Nil
  then show ?case by simp
next
  case (Cons x xs)
  show ?case
  proof (cases i)
    case 0
    then show ?thesis using Cons.prems by simp
  next
    case (Suc j)
    then show ?thesis using Cons.IH [of "e c" j] Cons.prems by (cases j) auto
  qed
qed

lemma faddr_add:
  assumes "k mod cbytes fs + t < cbytes fs"
  shows "faddr fs xs (k + t) = faddr fs xs k + t"
proof -
  show ?thesis using block_add [OF assms] by (simp add: faddr_def)
qed

definition fsect :: "FATFS \<Rightarrow> DWORD list \<Rightarrow> nat \<Rightarrow> LBA" where
  "fsect fs xs k = clst2sect fs (xs ! (k div cbytes fs)) + of_nat (k mod cbytes fs div SSn fs)"

lemma div_length: "k < length xs * n \<Longrightarrow> k div n < length xs" for n :: nat
  by (simp add: less_mult_imp_div_less)

lemma fsect_facts:
  assumes v: "vol_ok fs" and ch: "file_chain fs c xs" and k: "k < length xs * cbytes fs"
  shows "unat (fsect fs xs k) = faddr fs xs k div SSn fs" "faddr fs xs k mod SSn fs = k mod SSn fs"
    and "\<not> in_fat1 fs (fsect fs xs k)" "\<not> in_fat2 fs (fsect fs xs k)" "fsect fs xs k \<noteq> -1" "fsect fs xs k \<noteq> 0"
    and "clst2sect fs (xs ! (k div cbytes fs)) \<noteq> 0"
proof -
  note z = vol_sizes [OF v]
  have l: "layout_ok fs" using v by (simp add: vol_ok_def)
  define x where "x = xs ! (k div cbytes fs)"
  have x: "2 \<le> x" "x < n_fatent fs" using chain_nth_range [OF ch div_length [OF k]] by (simp_all add: x_def)
  have lt: "k mod cbytes fs div SSn fs < unat (csize fs)"
    using z(1,4) by (simp add: cbytes_def less_mult_imp_div_less)
  then have u: "unat (of_nat (k mod cbytes fs div SSn fs) :: DWORD) = k mod cbytes fs div SSn fs"
    using unat_word_less [of "csize fs"] by (simp add: unat_of_nat)
  note cs = unat_cluster_sector [OF l x] and ab = cluster_above_fats [OF l x]
  have b: "unat (clst2sect fs x) = unat (database fs) + (unat x - 2) * unat (csize fs)" using cs(1) [of 0] z(3) by simp
  have us: "unat (fsect fs xs k) = unat (clst2sect fs x) + k mod cbytes fs div SSn fs"
    using cs(1) [of "of_nat (k mod cbytes fs div SSn fs)"] lt by (simp add: fsect_def x_def [symmetric] u b)
  have ss: "0 < SSn fs" using z(1) by simp
  have "faddr fs xs k div SSn fs = unat (clst2sect fs x) + k mod cbytes fs div SSn fs"
    using ss by (simp add: faddr_def x_def [symmetric] mult.commute [of _ "SSn fs"])
  with us show "unat (fsect fs xs k) = faddr fs xs k div SSn fs" by simp
  show "faddr fs xs k mod SSn fs = k mod SSn fs" using z(7) by (simp add: faddr_def mod_mod_cancel)
  show "\<not> in_fat1 fs (fsect fs xs k)" "\<not> in_fat2 fs (fsect fs xs k)" "fsect fs xs k \<noteq> -1"
    using ab [of "of_nat (k mod cbytes fs div SSn fs)"] lt by (simp_all add: fsect_def x_def [symmetric] u)
  have d: "unat (database fs) \<noteq> 0" using l by (simp add: layout_ok_def unat_eq_0)
  show "fsect fs xs k \<noteq> 0" using us b d by auto
  show "clst2sect fs (xs ! (k div cbytes fs)) \<noteq> 0" using b d by (auto simp: x_def [symmetric])
qed

section \<open>The window stays off the file\<close>

text \<open>Operations on the FAT leave the window where it was, over no sector, or over the FAT.\<close>

definition wmove :: "FATFS \<Rightarrow> FATFS \<Rightarrow> bool" where
  "wmove fs fs' \<longleftrightarrow> winsect fs' = winsect fs \<or> winsect fs' = -1 \<or> in_fat1 fs (winsect fs')"

lemma wmove_refl [simp]: "wmove fs fs"
  by (simp add: wmove_def)

lemma wmove_trans:
  assumes "wmove a b" and "wmove b c" and "geom_eq a b"
  shows "wmove a c"
proof -
  have "in_fat1 b (winsect c) = in_fat1 a (winsect c)" using in_fat_geom [OF assms(3)] by (rule conjunct1)
  then show ?thesis using assms(1,2) unfolding wmove_def by (elim disjE) simp_all
qed

lemma move_window_wmove:
  assumes "move_window fs s = (r, fs')" and "in_fat1 fs s"
  shows "wmove fs fs'"
proof -
  obtain r1 fs1 where w: "sync_window fs = (r1, fs1)" by fastforce
  have "winsect fs1 = winsect fs" using sync_window_frame [OF w] by simp
  then show ?thesis
    using assms w by (auto simp: move_window_def wmove_def Let_def split: if_splits prod.splits)
qed

lemma get_fat_wmove:
  assumes v: "fat_vol fs" and c: "2 \<le> c" "c < n_fatent fs" and g: "get_fat fs obj c = (x, fs')"
  shows "wmove fs fs'"
proof (cases "fs_type fs = FS_FAT12")
  case True
  have ok: "fat_ok fs" "win_ok fs" using v by (simp_all add: fat_vol_def)
  define b where "b = c + c div 2"
  note pos = fat12_pos [OF ok(1) True c(2), folded b_def]
  obtain r1 fs1 where m1: "move_window fs (fatbase fs + b div SS fs) = (r1, fs1)" by fastforce
  obtain r2 fs2 where m2: "move_window fs1 (fatbase fs1 + (b + 1) div SS fs1) = (r2, fs2)" by fastforce
  note ge = same_volD(3) [OF move_window_same [OF ok(2) m1]]
  have w1: "wmove fs fs1" using move_window_wmove [OF m1] fat1_sector(3) [OF ok(1) pos(3)] by simp
  have "in_fat1 fs1 (fatbase fs1 + (b + 1) div SS fs1)"
    using fat1_sector(3) [OF ok(1) pos(4)] in_fat_geom [OF ge] by (simp add: geom_eqD [OF ge])
  then have w2: "wmove fs fs2" using wmove_trans [OF w1 move_window_wmove [OF m2] ge] by simp
  show ?thesis
    using g True c m1 m2 w1 w2
    by (auto simp: get_fat_def b_def [symmetric] Let_def geom_eqD [OF ge] split: if_splits prod.splits)
next
  case False
  have ok: "fat_ok fs" "win_ok fs" and ty: "fs_type fs = FS_FAT16 \<or> fs_type fs = FS_FAT32"
    using v False by (auto simp: fat_vol_def)
  define e :: DWORD where "e = (if fs_type fs = FS_FAT16 then 2 else 4)"
  obtain r1 fs1 where m: "move_window fs (fatbase fs + c div (SS fs div e)) = (r1, fs1)" by fastforce
  have "unat e * unat (n_fatent fs) \<le> fatlen fs"
    using fat_okD(3) [OF ok(1)] False by (simp add: fat_bytes_def e_def split: if_splits)
  note pos = fat_pos [OF ok(1) _ c(2) this]
  have e: "e = 2 \<or> e = 4" by (simp add: e_def)
  have "wmove fs fs1" using move_window_wmove [OF m] fat1_sector(3) [OF ok(1) pos(1) [OF e]] by simp
  then show ?thesis
    using g ty m c by (auto simp: get_fat_def e_def Let_def split: if_splits prod.splits)
qed

text \<open>Where the window is off a sector of the file, an operation on the FAT leaves its bytes.\<close>

definition off_file :: "FATFS \<Rightarrow> DWORD list \<Rightarrow> bool" where
  "off_file fs xs \<longleftrightarrow> (\<forall>k<length xs * cbytes fs. unat (winsect fs) \<noteq> faddr fs xs k div SSn fs)"

lemma geom_addr:
  assumes "geom_eq fs fs'"
  shows "cbytes fs' = cbytes fs" "faddr fs' xs k = faddr fs xs k" "SSn fs' = SSn fs" "fsect fs' xs k = fsect fs xs k"
  using geom_eqD [OF assms] by (simp_all add: cbytes_def faddr_def fsect_def clst2sect_def Let_def)

lemma wmove_off_file:
  assumes v: "vol_ok fs" and ch: "file_chain fs c xs" and "off_file fs xs" and "wmove fs fs'" and g: "geom_eq fs fs'"
  shows "off_file fs' xs"
  unfolding off_file_def geom_addr [OF g]
proof (intro allI impI)
  fix k assume k: "k < length xs * cbytes fs"
  note f = fsect_facts [OF v ch k]
  have "unat (winsect fs) \<noteq> faddr fs xs k div SSn fs" using assms(3) k by (simp add: off_file_def)
  then have "winsect fs' \<noteq> fsect fs xs k" using assms(4) f(1,3,5) by (auto simp: wmove_def)
  then show "unat (winsect fs') \<noteq> faddr fs xs k div SSn fs" using f(1) by (simp add: word_unat_eq_iff)
qed

lemma off_file_sect:
  assumes v: "vol_ok fs" and ch: "file_chain fs c xs" and "off_file fs xs" "off_file fs' xs"
    and d: "data_eq fs fs'" and g: "geom_eq fs fs'" and k: "k < length xs * cbytes fs" and i: "i < SSn fs"
  shows "dev_sect (pdrv fs') (fsect fs xs k) i = dev_sect (pdrv fs) (fsect fs xs k) i"
proof -
  note f = fsect_facts [OF v ch k]
  have "winsect fs \<noteq> fsect fs xs k" "winsect fs' \<noteq> fsect fs xs k"
    using assms(3,4) k f(1) geom_addr [OF g] by (auto simp: off_file_def)
  moreover have "lsect fs' (fsect fs xs k) i = lsect fs (fsect fs xs k) i"
    using d f(3-5) i unfolding data_eq_def by blast
  ultimately show ?thesis by (auto simp: lsect_def)
qed

lemma faddr_split:
  assumes v: "vol_ok fs" and ch: "file_chain fs c xs" and k: "k < length xs * cbytes fs"
  shows "faddr fs xs k = unat (fsect fs xs k) * SSn fs + k mod SSn fs"
  using div_mult_mod_eq [of "faddr fs xs k" "SSn fs"] fsect_facts(1,2) [OF assms] by simp

lemma off_file_bytes:
  assumes v: "vol_ok fs" and ch: "file_chain fs c xs" and "off_file fs xs" "off_file fs' xs"
    and d: "data_eq fs fs'" and g: "geom_eq fs fs'" and k: "k < length xs * cbytes fs"
  shows "d_bytes (pdrv fs') (faddr fs xs k) = d_bytes (pdrv fs) (faddr fs xs k)"
proof -
  have "d_sector_size (pdrv fs') = d_sector_size (pdrv fs)" using g by (simp add: geom_eq_def same_device_def)
  moreover have "k mod SSn fs < SSn fs" using vol_sizes(1) [OF v] by simp
  ultimately show ?thesis
    using off_file_sect [OF assms, of "k mod SSn fs"] faddr_split [OF v ch k] vol_sizes(5) [OF v]
    by (simp add: dev_sect_def)
qed

section \<open>The current cluster\<close>

lemma pow2_word:
  fixes v :: "'a :: len word"
  assumes "v \<noteq> 0" and "v AND (v - 1) = 0"
  obtains k where "unat v = 2 ^ k"
proof -
  have "0 < unat v" using assms(1) by (simp add: unat_gt_0)
  then obtain k where "2 ^ k \<le> unat v" "unat v < 2 ^ Suc k"
    using ex_power_ivl1 [of 2 "unat v"] by auto
  then show thesis using pow2_between [OF assms(2)] that by blast
qed

lemma unat_and_pred:
  fixes x c :: "64 word"
  assumes "unat c = 2 ^ k"
  shows "unat (x AND (c - 1)) = unat x mod unat c"
proof -
  have "c \<noteq> 0" using assms by auto
  then have "unat (c - 1) = mask k" using assms by (simp add: unat_minus_one mask_eq_exp_minus_1)
  then show ?thesis by (simp add: unsigned_and_eq assms flip: take_bit_eq_mask take_bit_eq_mod)
qed

lemma unat_ucast_64 [simp]: "unat (ucast (x :: WORD) :: 64 word) = unat x" "unat (ucast (y :: DWORD) :: 64 word) = unat y"
  by (simp_all add: unsigned_ucast_eq take_bit_nat_eq_self order_less_trans [OF unsigned_less])

lemma sect_in_clust_nat:
  assumes v: "vol_ok fs"
  shows "unat (sect_in_clust fs fp) = unat (fptr fp) mod cbytes fs div SSn fs"
    "unat (sect_in_clust fs fp) < unat (csize fs)"
proof -
  note z = vol_sizes [OF v]
  have "csize fs \<noteq> 0" "csize fs AND (csize fs - 1) = 0" using v by (simp_all add: vol_ok_def layout_ok_def)
  then obtain k where k: "unat (csize fs) = 2 ^ k" by (rule pow2_word)
  define q where "q = fptr fp div ucast (ssize fs)"
  have q: "unat q = unat (fptr fp) div SSn fs" by (simp add: q_def unat_div SSn_def)
  have m: "unat (q AND (ucast (csize fs) - 1)) = unat q mod unat (csize fs)"
    using unat_and_pred [of "ucast (csize fs)" k q] k by simp
  moreover have "unat q mod unat (csize fs) < 65536"
    using unat_word_less [of "csize fs"] mod_less_divisor [OF z(3), of "unat q"] by linarith
  ultimately have u: "unat (sect_in_clust fs fp) = unat (fptr fp) div SSn fs mod unat (csize fs)"
    by (simp add: sect_in_clust_def q_def [symmetric] unsigned_ucast_eq take_bit_nat_eq_self q)
  then show "unat (sect_in_clust fs fp) < unat (csize fs)" using z(3) by simp
  have "unat (fptr fp) mod cbytes fs div SSn fs = unat (fptr fp) div SSn fs mod unat (csize fs)"
    using z(1) by (simp add: cbytes_def mult.commute [of "unat (csize fs)"] mod_mult2_eq)
  then show "unat (sect_in_clust fs fp) = unat (fptr fp) mod cbytes fs div SSn fs" using u by simp
qed

lemma fil_okD:
  assumes "fil_ok fs fp xs"
  shows "vol_ok fs" "file_chain fs (sclust (f_obj fp)) xs" "unat (objsize (f_obj fp)) \<le> length xs * cbytes fs"
    "fptr fp \<le> objsize (f_obj fp)" "0 < fptr fp \<Longrightarrow> f_clust fp = xs ! ((unat (fptr fp) - 1) div cbytes fs)"
    "unat (fptr fp) mod SSn fs \<noteq> 0 \<Longrightarrow> unat (f_sect fp) = faddr fs xs (unat (fptr fp)) div SSn fs"
    "k < unat (objsize (f_obj fp)) \<Longrightarrow> unat (f_sect fp) = faddr fs xs k div SSn fs \<Longrightarrow> \<not> dirty fp \<Longrightarrow> i < SSn fs \<Longrightarrow>
      buf fp i = dev_sect (pdrv fs) (f_sect fp) i"
    "dirty fp \<Longrightarrow> \<exists>k<length xs * cbytes fs. unat (f_sect fp) = faddr fs xs k div SSn fs"
    "off_file fs xs"
  using assms unfolding fil_ok_def off_file_def by blast+

lemma fil_okI:
  assumes "vol_ok fs" "file_chain fs (sclust (f_obj fp)) xs" "unat (objsize (f_obj fp)) \<le> length xs * cbytes fs"
    "fptr fp \<le> objsize (f_obj fp)" "0 < fptr fp \<Longrightarrow> f_clust fp = xs ! ((unat (fptr fp) - 1) div cbytes fs)"
    "unat (fptr fp) mod SSn fs \<noteq> 0 \<Longrightarrow> unat (f_sect fp) = faddr fs xs (unat (fptr fp)) div SSn fs"
    "\<And>k i. k < unat (objsize (f_obj fp)) \<Longrightarrow> unat (f_sect fp) = faddr fs xs k div SSn fs \<Longrightarrow> \<not> dirty fp \<Longrightarrow> i < SSn fs \<Longrightarrow>
      buf fp i = dev_sect (pdrv fs) (f_sect fp) i"
    "dirty fp \<Longrightarrow> \<exists>k<length xs * cbytes fs. unat (f_sect fp) = faddr fs xs k div SSn fs"
    "off_file fs xs"
  shows "fil_ok fs fp xs"
  using assms unfolding fil_ok_def off_file_def by simp

lemma read_clust_ok:
  assumes f: "fil_ok fs fp xs" and lt: "fptr fp < objsize (f_obj fp)" and bd: "unat (fptr fp) mod SSn fs = 0"
    and rc: "read_clust fs fp (sect_in_clust fs fp) = (r, fs', fp')"
  shows "(r = FR_OK \<or> r = FR_DISK_ERR) \<and> same_vol fs fs' \<and> wmove fs fs' \<and>
    (r = FR_OK \<longrightarrow> fp' = fp\<lparr>f_clust := xs ! (unat (fptr fp) div cbytes fs)\<rparr>)"
proof -
  note F = fil_okD [OF f]
  note z = vol_sizes [OF F(1)]
  define p where "p = unat (fptr fp)"
  have p: "p < length xs * cbytes fs" using lt F(3) by (simp add: word_less_nat_alt p_def)
  have cs0: "sect_in_clust fs fp = 0 \<longleftrightarrow> p mod cbytes fs = 0"
  proof -
    have "SSn fs dvd p mod cbytes fs" using bd z(7) by (simp add: p_def dvd_mod dvd_eq_mod_eq_0 [symmetric])
    then have "p mod cbytes fs div SSn fs = 0 \<longleftrightarrow> p mod cbytes fs = 0" using z(1) by auto
    then show ?thesis using sect_in_clust_nat(1) [OF F(1), of fp] by (simp add: p_def word_unat_eq_iff)
  qed
  have fv: "fat_vol fs" using F(1) by (simp add: vol_ok_def)
  have sv0: "same_vol fs fs" using fv by (auto simp: fat_vol_def)
  show ?thesis
  proof (cases "p mod cbytes fs = 0")
    case False
    then have "0 < p" by (cases p) auto
    then have "0 < fptr fp" by (simp add: p_def unat_gt_0 word_gt_0)
    moreover have "(p - 1) div cbytes fs = p div cbytes fs" using False \<open>0 < p\<close> by (cases p) (simp_all add: div_Suc)
    ultimately have "f_clust fp = xs ! (p div cbytes fs)" using F(5) by (simp add: p_def)
    then show ?thesis using rc False cs0 sv0 by (auto simp: read_clust_def p_def)
  next
    case True
    define x where "x = xs ! (p div cbytes fs)"
    have q: "p div cbytes fs < length xs" using div_length [OF p] .
    note x = chain_nth_range [OF F(2) q, folded x_def]
    have ch: "is_chain (fat_entry fs) (n_fatent fs) (sclust (f_obj fp)) xs" using F(2) x(3) by (simp add: file_chain_def)
    have xr: "\<not> x < 2" "x \<noteq> 0xFFFFFFFF"
      using x(1,2) unat_dword_less [of "n_fatent fs"] by (auto simp: word_less_nat_alt word_le_nat_alt)
    show ?thesis
    proof (cases "p = 0")
      case True
      then have "sclust (f_obj fp) = x" "fptr fp = 0" using chain_nth [OF ch q] by (auto simp: x_def p_def unat_eq_0)
      then show ?thesis using rc cs0 True sv0 xr by (simp add: read_clust_def x_def p_def split: if_splits)
    next
      case False
      define y where "y = xs ! ((p - 1) div cbytes fs)"
      have q1: "(p - 1) div cbytes fs = p div cbytes fs - 1" "0 < p div cbytes fs"
        using False True z(4) by (cases p; simp add: div_Suc)+
      then have y: "2 \<le> y" "y < n_fatent fs" "fat_entry fs y = x"
        using chain_nth_range [OF F(2), of "(p - 1) div cbytes fs"] q chain_nth [OF ch q] by (auto simp: x_def y_def)
      have fy: "f_clust fp = y" "fptr fp \<noteq> 0" using False F(5) by (auto simp: y_def p_def unat_eq_0 word_gt_0)
      obtain v fs1 where g: "get_fat fs (f_obj fp) y = (v, fs1)" by fastforce
      have sv: "same_vol fs fs1 \<and> (v = x \<or> v = 0xFFFFFFFF)"
        using get_fat_table [OF _ _ y(1,2) _ g] fat_volD [OF fv] y(3) by blast
      have "wmove fs fs1" by (rule get_fat_wmove [OF fv y(1,2) g])
      then show ?thesis using rc cs0 True fy g sv xr by (auto simp: read_clust_def x_def p_def split: if_splits)
    qed
  qed
qed

section \<open>Steps that leave the contents\<close>

text \<open>
  The bytes of the file and the sector buffer are kept by an operation on the FAT that keeps
  the chain.
\<close>

lemma file_chain_cong:
  assumes "geom_eq fs fs'" and "\<And>c. 2 \<le> c \<Longrightarrow> c < n_fatent fs \<Longrightarrow> fat_entry fs' c = fat_entry fs c"
  shows "file_chain fs' c xs = file_chain fs c xs"
proof -
  have "is_chain (fat_entry fs') (n_fatent fs) c xs = is_chain (fat_entry fs) (n_fatent fs) c xs"
    by (induction xs arbitrary: c) (simp_all add: assms(2) cong: conj_cong)
  then show ?thesis by (simp add: file_chain_def geom_eqD [OF assms(1)])
qed

lemma fil_ok_frame:
  assumes f: "fil_ok fs fp xs" and "fat_frame fs fs'" and "wmove fs fs'"
    and e: "\<And>c. 2 \<le> c \<Longrightarrow> c < n_fatent fs \<Longrightarrow> fat_entry fs' c = fat_entry fs c"
  shows "fil_ok fs' fp xs" "k < length xs * cbytes fs \<Longrightarrow> fbyte fs' fp xs k = fbyte fs fp xs k"
proof -
  note F = fil_okD [OF f]
  have g: "geom_eq fs fs'" and d: "data_eq fs fs'" and w: "win_ok fs'" using assms(2) by (simp_all add: fat_frame_def)
  note ga = geom_addr [OF g]
  have v': "vol_ok fs'" using F(1) fat_vol_geom [OF g w] layout_ok_geom [OF g] by (simp add: vol_ok_def)
  have off': "off_file fs' xs" using wmove_off_file [OF F(1,2,9) assms(3) g] .
  note os = off_file_sect [OF F(1,2,9) off' d g] and ob = off_file_bytes [OF F(1,2,9) off' d g]
  have cl: "buf fp i = dev_sect (pdrv fs') (f_sect fp) i"
    if "k < unat (objsize (f_obj fp))" "unat (f_sect fp) = faddr fs xs k div SSn fs" "\<not> dirty fp" "i < SSn fs" for k i
  proof -
    have k: "k < length xs * cbytes fs" using that(1) F(3) by simp
    have "f_sect fp = fsect fs xs k" using that(2) fsect_facts(1) [OF F(1,2) k] by (simp add: word_unat_eq_iff)
    then show ?thesis using F(7) [OF that] os [OF k that(4)] by simp
  qed
  have "file_chain fs' (sclust (f_obj fp)) xs" using F(2) file_chain_cong [OF g e] by simp
  then show "fil_ok fs' fp xs" using v' F(3-6,8) cl off' by (intro fil_okI) (simp_all add: ga)
  show "fbyte fs' fp xs k = fbyte fs fp xs k" if "k < length xs * cbytes fs"
    using ob [OF that] by (simp add: fbyte_def abyte_def ga)
qed

lemma fil_ok_same:
  assumes f: "fil_ok fs fp xs" and sv: "same_vol fs fs'" and "wmove fs fs'"
  shows "fil_ok fs' fp xs" "k < length xs * cbytes fs \<Longrightarrow> fbyte fs' fp xs k = fbyte fs fp xs k"
proof -
  have "fat_frame fs fs'" using fat_frameI [OF same_vol_fat_step [OF sv]] .
  moreover have "fat_entry fs' c = fat_entry fs c" if "2 \<le> c" "c < n_fatent fs" for c
    using fat_entry_same_vol [OF _ sv that(2)] fil_okD(1) [OF f] by (simp add: vol_ok_def fat_vol_def)
  ultimately show "fil_ok fs' fp xs" "k < length xs * cbytes fs \<Longrightarrow> fbyte fs' fp xs k = fbyte fs fp xs k"
    using fil_ok_frame [OF f _ assms(3)] by blast+
qed

text \<open>A write to the device that spares the FAT and the sector under the window.\<close>

lemma data_write_vol:
  assumes v: "fat_vol fs" and sd: "same_device (pdrv fs) d"
    and eq: "\<And>s i. i < SSn fs \<Longrightarrow> s = winsect fs \<or> in_fat1 fs s \<Longrightarrow> dev_sect d s i = dev_sect (pdrv fs) s i"
  shows "fat_vol (fs\<lparr>pdrv := d\<rparr>)" "geom_eq fs (fs\<lparr>pdrv := d\<rparr>)"
    "c < n_fatent fs \<Longrightarrow> fat_entry (fs\<lparr>pdrv := d\<rparr>) c = fat_entry fs c"
proof -
  let ?fs = "fs\<lparr>pdrv := d\<rparr>"
  have ok: "fat_ok fs" "win_ok fs" using v by (simp_all add: fat_vol_def)
  show g: "geom_eq fs ?fs" using sd by (simp add: geom_eq_def)
  have "reads_ok d" "d_sector_size d = d_sector_size (pdrv fs)"
    using ok(2) sd reads_ok_same [OF sd] by (simp_all add: win_ok_def same_device_def)
  then have "win_ok ?fs" using ok(2) eq by (simp add: win_ok_def)
  then show "fat_vol ?fs" using fat_vol_geom [OF g _ v] by blast
  have z: "0 < SSn fs" using fat_ok_sector [OF ok(1)] by auto
  have m: "fatmem ?fs k = fatmem fs k" if "k < fatlen fs" for k
  proof -
    have "k div SSn fs < unat (fsize fs)" using that z by (simp add: fatlen_def less_mult_imp_div_less)
    then have "of_nat (k div SSn fs) < fsize fs"
      using unat_dword_less [of "fsize fs"] by (simp add: word_less_nat_alt unat_of_nat)
    from fat1_sector(3) [OF ok(1) this] show ?thesis using eq z by (simp add: fatmem_def lsect_def)
  qed
  show "fat_entry ?fs c = fat_entry fs c" if "c < n_fatent fs"
    using fat_entry_mem [OF ok(1) g m that] by (simp add: fat_entry_def)
qed

lemma clear_dirty [simp]: "(x AND - 129) AND 128 = (0 :: BYTE)"
  by (simp add: and.assoc)

lemma dirty_upd [simp]:
  "\<not> dirty (fp\<lparr>flag := x AND - 129\<rparr>)" "dirty (fp\<lparr>fptr := p\<rparr>) = dirty fp" "dirty (fp\<lparr>f_clust := c\<rparr>) = dirty fp"
  "dirty (fp\<lparr>f_sect := s\<rparr>) = dirty fp" "dirty (fp\<lparr>buf := b\<rparr>) = dirty fp" "dirty (fp\<lparr>f_obj := ob\<rparr>) = dirty fp"
  by (simp_all add: dirty_def)

lemma flush_buf_ok:
  assumes f: "fil_ok fs fp xs" and fb: "flush_buf fs fp = (True, fs', fp')"
  shows "\<not> dirty fp'" "\<exists>x. fp' = fp\<lparr>flag := x\<rparr>" "fat_vol fs'" "geom_eq fs fs'" "winsect fs' = winsect fs"
    "c < n_fatent fs \<Longrightarrow> fat_entry fs' c = fat_entry fs c" "d_bytes (pdrv fs') a = abyte fs fp a"
proof -
  note F = fil_okD [OF f]
  note z = vol_sizes [OF F(1)]
  have fv: "fat_vol fs" using F(1) by (simp add: vol_ok_def)
  have "\<not> dirty fp' \<and> (\<exists>x. fp' = fp\<lparr>flag := x\<rparr>) \<and> fat_vol fs' \<and> geom_eq fs fs' \<and> winsect fs' = winsect fs \<and>
    (\<forall>c<n_fatent fs. fat_entry fs' c = fat_entry fs c) \<and> (\<forall>a. d_bytes (pdrv fs') a = abyte fs fp a)"
  proof (cases "dirty fp")
    case False
    then have "fs' = fs" "fp' = fp" using fb by (simp_all add: flush_buf_def dirty_def)
    then show ?thesis using False fv by (simp add: abyte_def) (metis FIL.surjective FIL.update_convs(2))
  next
    case True
    then obtain d where w: "disk_write (pdrv fs) (buf fp) (f_sect fp) 1 = (RES_OK, d)"
      and fs': "fs' = fs\<lparr>pdrv := d\<rparr>" and fp': "fp' = fp\<lparr>flag := flag fp AND NOT FA_DIRTY\<rparr>"
      using fb by (auto simp: flush_buf_def dirty_def Let_def split: if_splits prod.splits)
    obtain k where k: "k < length xs * cbytes fs" "unat (f_sect fp) = faddr fs xs k div SSn fs" using F(8) [OF True] by blast
    note fk = fsect_facts [OF F(1,2) k(1)]
    have fsk: "f_sect fp = fsect fs xs k" using k(2) fk(1) by (simp add: word_unat_eq_iff)
    have "winsect fs \<noteq> f_sect fp" using F(9) k by (auto simp: off_file_def)
    then have "dev_sect d s i = dev_sect (pdrv fs) s i" if "i < SSn fs" "s = winsect fs \<or> in_fat1 fs s" for s i
      using disk_write_one [OF w, of i s] that fk(3) fsk z(5) by auto
    note dw = data_write_vol [OF fv disk_write_same [OF w] this]
    have "d_bytes d a = abyte fs fp a" for a
    proof -
      have "unat (f_sect fp) * SSn fs \<le> a \<and> a < (unat (f_sect fp) + 1) * SSn fs \<longleftrightarrow> a div SSn fs = unat (f_sect fp)"
        using z(1) by (intro in_block) simp
      moreover have "a - unat (f_sect fp) * SSn fs = a mod SSn fs" if "a div SSn fs = unat (f_sect fp)"
        using that by (simp add: minus_div_mult_eq_mod flip: that)
      ultimately show ?thesis using disk_write_bytes [OF w, of a] True z(5) by (simp add: abyte_def)
    qed
    then show ?thesis using dw by (auto simp: fs' fp')
  qed
  then show "\<not> dirty fp'" "\<exists>x. fp' = fp\<lparr>flag := x\<rparr>" "fat_vol fs'" "geom_eq fs fs'" "winsect fs' = winsect fs"
    "c < n_fatent fs \<Longrightarrow> fat_entry fs' c = fat_entry fs c" "d_bytes (pdrv fs') a = abyte fs fp a"
    by blast+
qed

lemma vol_ok_vol: "vol_ok fs \<Longrightarrow> fat_vol fs" "vol_ok fs \<Longrightarrow> layout_ok fs"
  by (simp_all add: vol_ok_def)

lemma vol_ok_geom: "vol_ok fs \<Longrightarrow> geom_eq fs fs' \<Longrightarrow> fat_vol fs' \<Longrightarrow> vol_ok fs'"
  by (simp add: vol_ok_def layout_ok_geom)

lemma fil_ok_flush:
  assumes f: "fil_ok fs fp xs" and fb: "flush_buf fs fp = (True, fs', fp')"
  shows "fil_ok fs' fp' xs" "abyte fs' fp' a = abyte fs fp a"
proof -
  note F = fil_okD [OF f] and fl = flush_buf_ok [OF assms]
  note z = vol_sizes [OF F(1)] and ga = geom_addr [OF fl(4)]
  show "abyte fs' fp' a = abyte fs fp a" using fl(1,7) by (simp add: abyte_def [of fs'])
  have v': "vol_ok fs'" using vol_ok_geom [OF F(1) fl(4,3)] .
  obtain x where fp': "fp' = fp\<lparr>flag := x\<rparr>" using fl(2) by blast
  have cl: "buf fp i = dev_sect (pdrv fs') (f_sect fp) i"
    if "k < unat (objsize (f_obj fp))" "unat (f_sect fp) = faddr fs xs k div SSn fs" "i < SSn fs" for k i
    using F(7) [OF that(1,2) _ that(3)] that(3) fl(7) z(5) vol_sizes(5) [OF v']
    by (cases "dirty fp") (simp_all add: dev_sect_def abyte_def ga)
  have "file_chain fs' (sclust (f_obj fp)) xs" using F(2) file_chain_cong [OF fl(4,6)] by simp
  moreover have "off_file fs' xs" using F(9) by (simp add: off_file_def ga fl(5))
  ultimately show "fil_ok fs' fp' xs"
    using v' F(3-6) cl fl(1) unfolding fp' by (intro fil_okI) (simp_all add: ga)
qed

text \<open>Loading the sector of the current position into a clean buffer.\<close>

lemma fil_ok_load:
  assumes f: "fil_ok fs fp xs" and "\<not> dirty fp" and p: "fptr fp < objsize (f_obj fp)"
    and b: "disk_read (pdrv fs) (buf fp) (fsect fs xs (unat (fptr fp))) 1 = (RES_OK, b)"
  shows "fil_ok fs (fp\<lparr>buf := b, f_sect := fsect fs xs (unat (fptr fp))\<rparr>) xs"
    "abyte fs (fp\<lparr>buf := b, f_sect := fsect fs xs (unat (fptr fp))\<rparr>) a = abyte fs fp a"
proof -
  note F = fil_okD [OF f]
  have k: "unat (fptr fp) < length xs * cbytes fs" using p F(3) by (simp add: word_less_nat_alt)
  have "b i = dev_sect (pdrv fs) (fsect fs xs (unat (fptr fp))) i" if "i < SSn fs" for i
    using disk_read_one [OF b vol_sizes(6) [OF F(1)]] that vol_sizes(5) [OF F(1)] by simp
  then show "fil_ok fs (fp\<lparr>buf := b, f_sect := fsect fs xs (unat (fptr fp))\<rparr>) xs"
    using F assms(2) fsect_facts(1) [OF F(1,2) k] by (intro fil_okI) simp_all
  show "abyte fs (fp\<lparr>buf := b, f_sect := fsect fs xs (unat (fptr fp))\<rparr>) a = abyte fs fp a"
    using assms(2) by (simp add: abyte_def)
qed

text \<open>Moving the position by \<open>n\<close> bytes inside the current cluster.\<close>

lemma fil_ok_advance:
  assumes f: "fil_ok fs fp xs" and n: "0 < n" "unat (fptr fp) mod cbytes fs + n \<le> cbytes fs"
    "unat (fptr fp) + n \<le> unat (objsize (f_obj fp))" and q: "unat q = unat (fptr fp) + n"
    and s: "(unat (fptr fp) + n) mod SSn fs \<noteq> 0 \<Longrightarrow>
      unat (f_sect fp) = faddr fs xs (unat (fptr fp)) div SSn fs \<and> unat (fptr fp) mod SSn fs + n < SSn fs"
  shows "fil_ok fs (fp\<lparr>f_clust := xs ! (unat (fptr fp) div cbytes fs), fptr := q\<rparr>) xs"
proof -
  note F = fil_okD [OF f]
  note z = vol_sizes [OF F(1)]
  define p where "p = unat (fptr fp)"
  have "(p + (n - 1)) div cbytes fs = p div cbytes fs" using n(1,2) by (intro block_add) (simp add: p_def)
  then have c: "(unat q - 1) div cbytes fs = p div cbytes fs" using q n(1) by (simp add: p_def)
  have st: "unat (f_sect fp) = faddr fs xs (unat q) div SSn fs" if "unat q mod SSn fs \<noteq> 0"
  proof -
    have a: "unat (f_sect fp) = faddr fs xs p div SSn fs" "p mod SSn fs + n < SSn fs" using s that q by (simp_all add: p_def)
    have "p + n < length xs * cbytes fs \<or> p + n = length xs * cbytes fs" using n(3) F(3) by (auto simp: p_def)
    moreover have "(p + n) mod SSn fs \<noteq> 0" using that q by (simp add: p_def)
    moreover have "length xs * cbytes fs mod SSn fs = 0" using z(7) by simp
    ultimately have k: "p + n < length xs * cbytes fs" by auto
    have "p mod cbytes fs + n \<noteq> cbytes fs"
    proof
      assume "p mod cbytes fs + n = cbytes fs"
      then have "(p + n) mod cbytes fs = 0" using mod_add_left_eq [of p "cbytes fs" n] by simp
      then have "(p + n) mod SSn fs = 0" using dvd_trans [OF z(7)] by (simp add: mod_eq_0_iff_dvd)
      then show False using \<open>(p + n) mod SSn fs \<noteq> 0\<close> by simp
    qed
    then have "faddr fs xs (p + n) = faddr fs xs p + n" using n(2) by (intro faddr_add) (simp add: p_def)
    moreover have "faddr fs xs p mod SSn fs = p mod SSn fs"
      using k by (intro fsect_facts(2) [OF F(1,2)]) simp
    ultimately have "faddr fs xs (p + n) div SSn fs = faddr fs xs p div SSn fs"
      using a(2) block_add(1) [of "faddr fs xs p"] by simp
    then show ?thesis using a(1) q by (simp add: p_def)
  qed
  show ?thesis
    using F(1-3,7-9) n(3) q st by (intro fil_okI) (simp_all add: c [unfolded q p_def, simplified] word_le_nat_alt)
qed

end
