(* ===== verification/FfReadOk.thy ===== *)
theory FfReadOk
  imports FfFileOk FfDemo
begin

text \<open>
  \<open>f_read\<close> returns the contents of the file. Each step of its loop delivers the next bytes and
  keeps the invariant \<open>fil_ok\<close>; the loop ends within the number of steps the model gives it.
\<close>

section \<open>Reading\<close>

text \<open>
  What one step of a read has done when it has delivered \<open>n\<close> bytes at offset \<open>br\<close> of the
  caller's buffer: they are the next bytes of the file, the rest of the buffer is untouched,
  and the contents of the file are as before.
\<close>

definition read_done ::
  "FATFS \<Rightarrow> FIL \<Rightarrow> DWORD list \<Rightarrow> mem \<Rightarrow> nat \<Rightarrow> nat \<Rightarrow> FATFS \<Rightarrow> FIL \<Rightarrow> mem \<Rightarrow> bool"
where
  "read_done fs fp xs dst br n fs' fp' dst' \<longleftrightarrow>
     (\<forall>t<n. dst' (br + t) = fbyte fs fp xs (unat (fptr fp) + t)) \<and>
     (\<forall>j. j < br \<or> br + n \<le> j \<longrightarrow> dst' j = dst j) \<and>
     geom_eq fs fs' \<and> (\<forall>k<length xs * cbytes fs. fbyte fs' fp' xs k = fbyte fs fp xs k)"

text \<open>The copy of a dirty sector buffer over the \<open>cc\<close> sectors read from \<open>sect\<close> on below it.\<close>

lemma sector_offset:
  assumes "unat sect + unat cc < 2 ^ 32"
  shows "(s :: LBA) - sect < cc \<longleftrightarrow> unat sect \<le> unat s \<and> unat s < unat sect + unat cc"
    and "s - sect < cc \<Longrightarrow> unat (s - sect) = unat s - unat sect"
  using assms unat_dword_less [of s] unat_dword_less [of sect]
  by (auto simp: word_less_nat_alt unat_sub_if' split: if_splits)

lemma read_overlay:
  assumes z: "0 < ss" "ss = SSn fs" and fit: "unat cc * ss < 2 ^ 32" and top: "unat sect + unat cc < 2 ^ 32"
    and rd: "disk_read (pdrv fs) (sub_buf dst br) sect cc = (RES_OK, b)"
    and dev: "reads_ok (pdrv fs)" "unat (d_sector_size (pdrv fs)) = ss"
    and dst': "dst' = (let d = set_sub dst br b in
      if dirty fp \<and> f_sect fp - sect < cc
      then mem_cpy d (br + unat ((f_sect fp - sect) * SS fs)) (buf fp) 0 ss else d)"
  shows "t < unat cc * ss \<Longrightarrow> dst' (br + t) = abyte fs fp (unat sect * ss + t)"
    "j < br \<or> br + unat cc * ss \<le> j \<Longrightarrow> dst' j = dst j"
proof -
  note so = sector_offset [OF top, of "f_sect fp"]
  have b: "b k = (if k < unat cc * ss then d_bytes (pdrv fs) (unat sect * ss + k) else dst (br + k))" for k
    using disk_read_bytes [OF rd dev(1), of k] by (simp add: dev(2) sub_buf_def)
  define m where "m = unat (f_sect fp) - unat sect"
  have um: "unat ((f_sect fp - sect) * SS fs) = m * ss" and ml: "m < unat cc" if "f_sect fp - sect < cc"
  proof -
    show "m < unat cc" using that so(1) by (auto simp: m_def)
    then have "m * ss < 4294967296" using le_less_trans [OF mult_le_mono1 [OF less_imp_le] fit, of m] by simp
    then show "unat ((f_sect fp - sect) * SS fs) = m * ss"
      using so(2) [OF that] z(2) by (simp add: unat_word_ariths(2) m_def)
  qed
  show "dst' (br + t) = abyte fs fp (unat sect * ss + t)" if t: "t < unat cc * ss"
  proof -
    have q: "(unat sect * ss + t) div ss = unat sect + t div ss" "(unat sect * ss + t) mod ss = t mod ss" using z(1) by simp_all
    have tq: "t div ss < unat cc" using t by (simp add: less_mult_imp_div_less)
    show ?thesis
    proof (cases "dirty fp \<and> unat (f_sect fp) = unat sect + t div ss")
      case True
      then have m: "f_sect fp - sect < cc" "m = t div ss" using so(1) tq by (simp_all add: m_def)
      have "m * ss \<le> t" "t < m * ss + ss" "t - m * ss = t mod ss"
        using in_block [OF z(1), of m t] m(2) by (simp_all add: minus_div_mult_eq_mod)
      then show ?thesis
        using True m um [OF m(1)] z(2) [symmetric] q by (simp add: dst' Let_def abyte_def)
    next
      case False
      have "t < m * ss \<or> m * ss + ss \<le> t" if "dirty fp" "f_sect fp - sect < cc"
        using False that so(1) in_block [OF z(1), of m t] by (auto simp: m_def)
      then have "dst' (br + t) = b t"
        using um by (auto simp: dst' Let_def set_sub_def)
      then show ?thesis using b [of t] t False z(2) [symmetric] q by (auto simp: abyte_def)
    qed
  qed
  show "dst' j = dst j" if j: "j < br \<or> br + unat cc * ss \<le> j"
  proof -
    have "j < br + m * ss \<or> br + m * ss + ss \<le> j" if "f_sect fp - sect < cc"
      using j mult_le_mono1 [of "m + 1" "unat cc" ss] ml [OF that] by auto
    then have "dst' j = set_sub dst br b j" using um by (auto simp: dst' Let_def)
    then show ?thesis using j b [of "j - br"] by (auto simp: set_sub_def)
  qed
qed

lemma sector_in_cluster:
  assumes v: "vol_ok fs" and "p mod SSn fs + t \<le> SSn fs"
  shows "p mod cbytes fs + t \<le> cbytes fs"
proof -
  note z = vol_sizes [OF v]
  have "p mod cbytes fs div SSn fs < unat (csize fs)" using z(1,4) by (simp add: cbytes_def less_mult_imp_div_less)
  then have "(p mod cbytes fs div SSn fs + 1) * SSn fs \<le> cbytes fs" using mult_le_mono1 [of "p mod cbytes fs div SSn fs + 1" "unat (csize fs)" "SSn fs"] by (simp add: cbytes_def)
  moreover have "p mod cbytes fs = p mod cbytes fs div SSn fs * SSn fs + p mod SSn fs"
    using div_mult_mod_eq [of "p mod cbytes fs" "SSn fs"] mod_mod_cancel [OF z(7), of p] by simp
  ultimately show ?thesis using assms(2) by simp
qed

lemma buffer_byte:
  assumes f: "fil_ok fs fp xs" and p: "p < unat (objsize (f_obj fp))" "unat (f_sect fp) = faddr fs xs p div SSn fs"
    and t: "p mod SSn fs + t < SSn fs"
  shows "buf fp (p mod SSn fs + t) = fbyte fs fp xs (p + t)"
proof -
  note F = fil_okD [OF f]
  note z = vol_sizes [OF F(1)]
  have k: "p < length xs * cbytes fs" using p(1) F(3) by simp
  have "p mod SSn fs + Suc t \<le> SSn fs" using t by simp
  from sector_in_cluster [OF F(1) this] have a: "faddr fs xs (p + t) = faddr fs xs p + t" by (intro faddr_add) simp
  have m: "faddr fs xs p mod SSn fs = p mod SSn fs" using fsect_facts(2) [OF F(1,2) k] .
  note b = block_add [of "faddr fs xs p" "SSn fs" t, unfolded m, OF t]
  have "faddr fs xs p + t = unat (f_sect fp) * SSn fs + (p mod SSn fs + t)"
    using div_mult_mod_eq [of "faddr fs xs p" "SSn fs"] m p(2) by simp
  then show ?thesis
    using F(7) [OF p _ t] b p(2) z(5)
    by (cases "dirty fp") (simp_all only: fbyte_def abyte_def a dev_sect_def simp_thms if_True if_False)
qed

lemma clst2sect_upd [simp]: "clst2sect (fs\<lparr>pdrv := d\<rparr>) c = clst2sect fs c"
  by (simp add: clst2sect_def Let_def)

lemma unat_div_SS: "unat (n div SS fs) = unat n div SSn fs"
  by (simp add: unat_div)

text \<open>The number of whole sectors to transfer: clipped to the end of the cluster.\<close>

lemma sector_count:
  assumes v: "vol_ok fs" and bd: "unat (fptr fp) mod SSn fs = 0" and gt: "0 < n div SS fs"
    and cc: "cc = (if sect_in_clust fs fp + n div SS fs > ucast (csize fs) then ucast (csize fs) - sect_in_clust fs fp else n div SS fs)"
  shows "0 < unat cc" "unat cc * SSn fs \<le> unat n" "unat (fptr fp) mod cbytes fs + unat cc * SSn fs \<le> cbytes fs"
    "unat (SS fs * cc) = unat cc * SSn fs" "unat (sect_in_clust fs fp) + unat cc \<le> unat (csize fs)"
proof -
  note z = vol_sizes [OF v] and sc = sect_in_clust_nat [OF v, of fp]
  define c where "c = unat (sect_in_clust fs fp)"
  have c: "c < unat (csize fs)" using sc(2) by (simp add: c_def)
  have q: "unat (n div SS fs) = unat n div SSn fs" by (rule unat_div_SS)
  have q1: "0 < unat n div SSn fs" using gt q by (simp add: word_less_nat_alt)
  have small: "unat n div SSn fs < 8388608"
    using z(1) unat_dword_less [of n] by (intro less_mult_imp_div_less) simp
  have cw: "unat (csize fs) < 65536" using unat_word_less [of "csize fs"] by simp
  have sum: "unat (sect_in_clust fs fp + n div SS fs) = c + unat n div SSn fs"
    using small c cw by (simp add: unat_word_ariths(1) q c_def)
  have ucc: "unat cc = min (unat (csize fs) - c) (unat n div SSn fs)"
    using c by (auto simp: cc word_less_nat_alt sum q c_def unat_sub word_le_nat_alt min_def)
  show "0 < unat cc" using ucc c q1 by simp
  have "unat cc * SSn fs \<le> unat n div SSn fs * SSn fs" using ucc by (intro mult_le_mono1) simp
  also have "\<dots> \<le> unat n" by (rule div_times_less_eq_dividend)
  finally show le: "unat cc * SSn fs \<le> unat n" .
  show "unat (SS fs * cc) = unat cc * SSn fs"
    using le unat_dword_less [of n] by (simp add: unat_word_ariths(2) mult.commute)
  show cl: "unat (sect_in_clust fs fp) + unat cc \<le> unat (csize fs)" using ucc c by (simp add: c_def)
  have "unat (fptr fp) mod cbytes fs mod SSn fs = 0" using bd z(7) by (simp add: mod_mod_cancel)
  then have "unat (fptr fp) mod cbytes fs = c * SSn fs"
    using div_mult_mod_eq [of "unat (fptr fp) mod cbytes fs" "SSn fs"] sc(1) by (simp add: c_def)
  then show "unat (fptr fp) mod cbytes fs + unat cc * SSn fs \<le> cbytes fs"
    using mult_le_mono1 [OF cl, of "SSn fs"] by (simp add: cbytes_def c_def algebra_simps)
qed

lemma fbyte_upd [simp]:
  "fbyte fs (fp\<lparr>f_clust := c\<rparr>) xs k = fbyte fs fp xs k" "fbyte fs (fp\<lparr>fptr := p\<rparr>) xs k = fbyte fs fp xs k"
  "fbyte fs (fp\<lparr>f_obj := ob\<rparr>) xs k = fbyte fs fp xs k"
  by (simp_all add: fbyte_def abyte_def)

text \<open>The sector of the position, as the code computes it.\<close>

lemma current_sector:
  assumes v: "vol_ok fs"
  shows "clst2sect fs (xs ! (unat (fptr fp) div cbytes fs)) + sect_in_clust fs fp = fsect fs xs (unat (fptr fp))"
proof -
  have "sect_in_clust fs fp = of_nat (unat (fptr fp) mod cbytes fs div SSn fs)"
    by (simp flip: sect_in_clust_nat(1) [OF v])
  then show ?thesis by (simp add: fsect_def)
qed

text \<open>
  The state between the two halves of a step: a file object that satisfies the invariant but
  for the current cluster, which is already that of the position.
\<close>

definition at_clust :: "FATFS \<Rightarrow> FIL \<Rightarrow> DWORD list \<Rightarrow> FIL \<Rightarrow> FIL \<Rightarrow> bool" where
  "at_clust fs fp xs fp0 fp' \<longleftrightarrow>
     fil_ok fs fp0 xs \<and> fp' = fp0\<lparr>f_clust := xs ! (unat (fptr fp) div cbytes fs)\<rparr> \<and>
     fptr fp0 = fptr fp \<and> f_obj fp0 = f_obj fp"

text \<open>The sectors from the position to the end of its cluster.\<close>

lemma cluster_top:
  assumes v: "vol_ok fs" and ch: "file_chain fs c xs" and k: "unat (fptr fp) < length xs * cbytes fs"
    and n: "unat (sect_in_clust fs fp) + n \<le> unat (csize fs)"
  shows "unat (fsect fs xs (unat (fptr fp))) + n < 2 ^ 32"
    "unat (fsect fs xs (unat (fptr fp))) = unat (clst2sect fs (xs ! (unat (fptr fp) div cbytes fs))) + unat (sect_in_clust fs fp)"
proof -
  have l: "layout_ok fs" using v by (rule vol_ok_vol)
  define x where "x = xs ! (unat (fptr fp) div cbytes fs)"
  have x: "2 \<le> x" "x < n_fatent fs" using chain_nth_range [OF ch div_length [OF k]] by (simp_all add: x_def)
  note sc = sect_in_clust_nat [OF v, of fp]
  have cs: "0 < unat (csize fs)" using vol_sizes(3) [OF v] .
  have u: "unat (clst2sect fs x) = unat (database fs) + (unat x - 2) * unat (csize fs)"
    using unat_cluster_sector(1) [OF l x, of 0] cs by simp
  have us: "unat (clst2sect fs x + sect_in_clust fs fp) = unat (clst2sect fs x) + unat (sect_in_clust fs fp)"
    using unat_cluster_sector(1) [OF l x sc(2)] u by simp
  then show "unat (fsect fs xs (unat (fptr fp))) = unat (clst2sect fs (xs ! (unat (fptr fp) div cbytes fs))) + unat (sect_in_clust fs fp)"
    using current_sector [OF v, of xs fp] by (simp add: x_def)
  have "(unat x - 2 + 1) * unat (csize fs) \<le> (unat (n_fatent fs) - 2) * unat (csize fs)"
    using x by (intro mult_le_mono1) (simp add: word_le_nat_alt word_less_nat_alt)
  moreover have "unat (database fs) + (unat (n_fatent fs) - 2) * unat (csize fs) < 4294967296" using l by (simp add: layout_ok_def)
  ultimately show "unat (fsect fs xs (unat (fptr fp))) + n < 2 ^ 32"
    using n us u current_sector [OF v, of xs fp] by (simp add: x_def)
qed

lemma read_whole:
  assumes f: "fil_ok fs fp xs" and lt: "fptr fp < objsize (f_obj fp)" and bd: "unat (fptr fp) mod SSn fs = 0"
    and n: "unat (fptr fp) + unat btr \<le> unat (objsize (f_obj fp))" and gt: "0 < btr div SS fs"
    and cc: "cc = (if sect_in_clust fs fp + btr div SS fs > ucast (csize fs)
      then ucast (csize fs) - sect_in_clust fs fp else btr div SS fs)"
    and rd: "disk_read (pdrv fs) (sub_buf dst br) (fsect fs xs (unat (fptr fp))) cc = (RES_OK, b)"
    and dst': "dst' = (let d = set_sub dst br b in
      if dirty fp \<and> f_sect fp - fsect fs xs (unat (fptr fp)) < cc
      then mem_cpy d (br + unat ((f_sect fp - fsect fs xs (unat (fptr fp))) * SS fs)) (buf fp) 0 (SSn fs) else d)"
  shows "read_done fs fp xs dst br (unat (SS fs * cc)) fs fp dst'" "0 < unat (SS fs * cc)" "unat (SS fs * cc) \<le> unat btr"
    "unat (SS fs * cc) mod SSn fs = 0" "unat (fptr fp) mod cbytes fs + unat (SS fs * cc) \<le> cbytes fs"
proof -
  note F = fil_okD [OF f]
  note z = vol_sizes [OF F(1)] and sc = sector_count [OF F(1) bd gt cc]
  define p where "p = unat (fptr fp)"
  define sect where "sect = fsect fs xs p"
  have k: "p < length xs * cbytes fs" using lt F(3) by (simp add: word_less_nat_alt p_def)
  note fk = fsect_facts [OF F(1,2) k, folded sect_def]
  show "0 < unat (SS fs * cc)" "unat (SS fs * cc) \<le> unat btr" "unat (SS fs * cc) mod SSn fs = 0"
    "unat (fptr fp) mod cbytes fs + unat (SS fs * cc) \<le> cbytes fs" using sc z(1) by simp_all
  have a: "unat sect * SSn fs = faddr fs xs p" using faddr_split [OF F(1,2) k] bd by (simp add: sect_def p_def)
  have top: "unat sect + unat cc < 2 ^ 32"
    using cluster_top(1) [OF F(1,2) k [unfolded p_def] sc(5)] by (simp add: sect_def p_def)
  have fit: "unat cc * SSn fs < 2 ^ 32" using sc(2) unat_dword_less [of btr] by simp
  note ro = read_overlay [OF _ refl fit top rd [folded p_def, folded sect_def] z(6,5) dst' [folded p_def, folded sect_def]]
  have "fbyte fs fp xs (p + t) = abyte fs fp (unat sect * SSn fs + t)" if "t < unat cc * SSn fs" for t
    using faddr_add [of p fs t xs] sc(3) that a by (simp add: fbyte_def p_def)
  then show "read_done fs fp xs dst br (unat (SS fs * cc)) fs fp dst'"
    using ro z(1) by (auto simp: read_done_def sc(4) p_def)
qed

lemma read_done_trans:
  assumes "geom_eq fs fs1" and "\<And>k. k < length xs * cbytes fs \<Longrightarrow> fbyte fs1 fp1 xs k = fbyte fs fp xs k"
    and "fptr fp1 = fptr fp" and "unat (fptr fp) + n \<le> length xs * cbytes fs"
    and "read_done fs1 fp1 xs dst br n fs' fp' dst'"
  shows "read_done fs fp xs dst br n fs' fp' dst'"
  using assms geom_addr [OF assms(1)] by (auto simp: read_done_def intro: geom_eq_trans)

text \<open>The rest of the work on a sector boundary, once the cluster is known.\<close>

definition read_here ::
  "FATFS \<Rightarrow> FIL \<Rightarrow> LBA \<Rightarrow> UINT \<Rightarrow> mem \<Rightarrow> UINT \<Rightarrow> UINT \<Rightarrow> (FRESULT + UINT option) \<times> FATFS \<times> FIL \<times> mem"
where
  "read_here fs fp sect csect dst br btr =
     (let cc = btr div SS fs in
      if cc > 0 then
        let cc = (if csect + cc > ucast (csize fs) then ucast (csize fs) - csect else cc) in
        (case disk_read (pdrv fs) (sub_buf dst (unat br)) sect cc of (r, b) \<Rightarrow>
          let dst = set_sub dst (unat br) b in
          if r \<noteq> RES_OK then (Inl FR_DISK_ERR, fs, fp, dst)
          else
            let dst = (if flag fp AND FA_DIRTY \<noteq> 0 \<and> f_sect fp - sect < cc
                       then mem_cpy dst (unat br + unat ((f_sect fp - sect) * SS fs)) (buf fp) 0 (SSn fs) else dst) in
            (Inr (Some (SS fs * cc)), fs, fp, dst))
      else if f_sect fp \<noteq> sect then
        (case flush_buf fs fp of (ok, fs, fp) \<Rightarrow>
          if \<not> ok then (Inl FR_DISK_ERR, fs, fp, dst)
          else
            (case disk_read (pdrv fs) (buf fp) sect 1 of (r, b) \<Rightarrow>
              let fp = fp\<lparr>buf := b\<rparr> in
              if r \<noteq> RES_OK then (Inl FR_DISK_ERR, fs, fp, dst)
              else (Inr None, fs, fp\<lparr>f_sect := sect\<rparr>, dst)))
      else (Inr None, fs, fp, dst))"

lemma read_sectors_here:
  "read_sectors fs fp dst br btr =
     (case read_clust fs fp (sect_in_clust fs fp) of (res, fs1, fp1) \<Rightarrow>
      if res \<noteq> FR_OK then (Inl res, fs1, fp1, dst)
      else if clst2sect fs1 (f_clust fp1) = 0 then (Inl FR_INT_ERR, fs1, fp1, dst)
      else read_here fs1 fp1 (clst2sect fs1 (f_clust fp1) + sect_in_clust fs fp) (sect_in_clust fs fp) dst br btr)"
  by (simp add: read_sectors_def read_here_def Let_def cong: if_cong split: prod.splits)

lemma flush_buf_clust:
  "flush_buf fs (fp\<lparr>f_clust := x\<rparr>) = (case flush_buf fs fp of (ok, fs', fp') \<Rightarrow> (ok, fs', fp'\<lparr>f_clust := x\<rparr>))"
  by (simp add: flush_buf_def Let_def split: prod.splits)

definition read_result ::
  "FATFS \<Rightarrow> FIL \<Rightarrow> DWORD list \<Rightarrow> mem \<Rightarrow> nat \<Rightarrow> UINT \<Rightarrow> FRESULT + UINT option \<Rightarrow> FATFS \<Rightarrow> FIL \<Rightarrow> mem \<Rightarrow> bool"
where
  "read_result fs fp xs dst br btr res fs' fp' dst' \<longleftrightarrow>
     (case res of Inl e \<Rightarrow> e = FR_DISK_ERR
      | Inr None \<Rightarrow> dst' = dst \<and> read_done fs fp xs dst br 0 fs' fp' dst \<and>
          (\<exists>fp0. at_clust fs' fp xs fp0 fp' \<and> unat (f_sect fp0) = faddr fs xs (unat (fptr fp)) div SSn fs)
      | Inr (Some m) \<Rightarrow> 0 < unat m \<and> unat m \<le> unat btr \<and> unat m mod SSn fs = 0 \<and>
          unat (fptr fp) mod cbytes fs + unat m \<le> cbytes fs \<and> (\<exists>fp0. at_clust fs' fp xs fp0 fp') \<and>
          read_done fs fp xs dst br (unat m) fs' fp' dst')"

lemma read_here_ok:
  assumes f: "fil_ok fs fp xs" and lt: "fptr fp < objsize (f_obj fp)" and bd: "unat (fptr fp) mod SSn fs = 0"
    and n: "unat (fptr fp) + unat btr \<le> unat (objsize (f_obj fp))"
    and x: "x = xs ! (unat (fptr fp) div cbytes fs)"
    and rh: "read_here fs (fp\<lparr>f_clust := x\<rparr>) (fsect fs xs (unat (fptr fp))) (sect_in_clust fs fp) dst br btr = (res, fs', fp', dst')"
  shows "read_result fs fp xs dst (unat br) btr res fs' fp' dst'"
proof -
  note F = fil_okD [OF f]
  define p where "p = unat (fptr fp)"
  have k: "p < length xs * cbytes fs" using lt F(3) by (simp add: word_less_nat_alt p_def)
  have self: "at_clust fs fp xs fp (fp\<lparr>f_clust := x\<rparr>)" using f by (simp add: at_clust_def x)
  have done0: "read_done fs fp xs dst (unat br) 0 fs (fp\<lparr>f_clust := x\<rparr>) dst" by (simp add: read_done_def)
  consider (whole) "0 < btr div SS fs" | (here) "\<not> 0 < btr div SS fs" "f_sect fp = fsect fs xs p"
    | (load) "\<not> 0 < btr div SS fs" "f_sect fp \<noteq> fsect fs xs p" by blast
  then show ?thesis
  proof cases
    case whole
    define cc where "cc = (if sect_in_clust fs fp + btr div SS fs > ucast (csize fs) then ucast (csize fs) - sect_in_clust fs fp else btr div SS fs)"
    obtain r b where rd: "disk_read (pdrv fs) (sub_buf dst (unat br)) (fsect fs xs p) cc = (r, b)" by fastforce
    define d where "d = (let d = set_sub dst (unat br) b in if dirty fp \<and> f_sect fp - fsect fs xs p < cc
      then mem_cpy d (unat br + unat ((f_sect fp - fsect fs xs p) * SS fs)) (buf fp) 0 (SSn fs) else d)"
    have eq: "(res, fs', fp', dst') = (if r \<noteq> RES_OK then (Inl FR_DISK_ERR, fs, fp\<lparr>f_clust := x\<rparr>, set_sub dst (unat br) b)
        else (Inr (Some (SS fs * cc)), fs, fp\<lparr>f_clust := x\<rparr>, d))"
      unfolding rh [symmetric] using whole rd
      by (simp add: read_here_def Let_def cc_def [symmetric] dirty_def p_def d_def)
    show ?thesis
    proof (cases "r = RES_OK")
      case False
      then show ?thesis using eq by (simp add: read_result_def)
    next
      case True
      note rw = read_whole [OF f lt bd n whole cc_def rd [unfolded True p_def] d_def [unfolded p_def]]
      then have "read_done fs fp xs dst (unat br) (unat (SS fs * cc)) fs (fp\<lparr>f_clust := x\<rparr>) d" by (simp add: read_done_def)
      then show ?thesis using rw(2-5) self eq True by (auto simp: read_result_def)
    qed
  next
    case here
    have "(res, fs', fp', dst') = (Inr None, fs, fp\<lparr>f_clust := x\<rparr>, dst)"
      unfolding rh [symmetric] using here by (simp add: read_here_def Let_def p_def)
    moreover have "unat (f_sect fp) = faddr fs xs p div SSn fs" using here fsect_facts(1) [OF F(1,2) k] by simp
    ultimately show ?thesis using self done0 by (auto simp: read_result_def p_def)
  next
    case load
    obtain ok fs1 fp1 where fl: "flush_buf fs fp = (ok, fs1, fp1)" by (metis prod_cases3)
    obtain r b where rd: "disk_read (pdrv fs1) (buf fp1) (fsect fs xs p) 1 = (r, b)" by fastforce
    define fp2 where "fp2 = fp1\<lparr>buf := b, f_sect := fsect fs xs p\<rparr>"
    have eq: "(res, fs', fp', dst') = (if \<not> ok then (Inl FR_DISK_ERR, fs1, fp1\<lparr>f_clust := x\<rparr>, dst)
        else if r \<noteq> RES_OK then (Inl FR_DISK_ERR, fs1, fp1\<lparr>f_clust := x, buf := b\<rparr>, dst)
        else (Inr None, fs1, fp2\<lparr>f_clust := x\<rparr>, dst))"
      unfolding rh [symmetric] using load fl rd
      by (simp add: read_here_def Let_def flush_buf_clust p_def fp2_def)
    show ?thesis
    proof (cases "ok \<and> r = RES_OK")
      case False
      then show ?thesis using eq by (auto simp: read_result_def split: if_splits)
    next
      case True
      then have fl: "flush_buf fs fp = (True, fs1, fp1)" and rd: "disk_read (pdrv fs1) (buf fp1) (fsect fs xs p) 1 = (RES_OK, b)"
        using fl rd by simp_all
      note f1 = fil_ok_flush [OF f fl] and fb = flush_buf_ok [OF f fl]
      note ga = geom_addr [OF fb(4)]
      have same: "fptr fp1 = fptr fp" "f_obj fp1 = f_obj fp" using fb(2) by auto
      have rd1: "disk_read (pdrv fs1) (buf fp1) (fsect fs1 xs (unat (fptr fp1))) 1 = (RES_OK, b)" using rd by (simp add: ga same p_def)
      note f2 = fil_ok_load [OF f1(1) fb(1) _ rd1]
      have at: "at_clust fs1 fp xs fp2 (fp2\<lparr>f_clust := x\<rparr>)"
        using f2(1) lt by (simp add: at_clust_def x fp2_def ga same p_def)
      have "fbyte fs1 fp2 xs k = fbyte fs fp xs k" for k
        using f1(2) f2(2) lt by (simp add: fbyte_def ga same fp2_def p_def)
      then have "read_done fs fp xs dst (unat br) 0 fs1 (fp2\<lparr>f_clust := x\<rparr>) dst" using fb(4) by (simp add: read_done_def)
      moreover have "unat (f_sect fp2) = faddr fs xs p div SSn fs" using fsect_facts(1) [OF F(1,2) k] by (simp add: fp2_def)
      ultimately show ?thesis using at eq True by (auto simp: read_result_def p_def)
    qed
  qed
qed

lemma read_sectors_ok:
  assumes f: "fil_ok fs fp xs" and lt: "fptr fp < objsize (f_obj fp)" and bd: "unat (fptr fp) mod SSn fs = 0"
    and n: "unat (fptr fp) + unat btr \<le> unat (objsize (f_obj fp))"
    and rs: "read_sectors fs fp dst br btr = (res, fs', fp', dst')"
  shows "read_result fs fp xs dst (unat br) btr res fs' fp' dst'"
proof -
  define p where "p = unat (fptr fp)"
  obtain r fs1 fp1 where rc: "read_clust fs fp (sect_in_clust fs fp) = (r, fs1, fp1)" by (metis prod_cases3)
  note c = read_clust_ok [OF f lt bd rc]
  show ?thesis
  proof (cases "r = FR_OK")
    case False
    then have "res = Inl FR_DISK_ERR" using rs rc c by (auto simp: read_sectors_here)
    then show ?thesis by (simp add: read_result_def)
  next
    case True
    have fp1: "fp1 = fp\<lparr>f_clust := xs ! (p div cbytes fs)\<rparr>" and sv: "same_vol fs fs1" and wm: "wmove fs fs1"
      using c True by (simp_all add: p_def)
    note f1 = fil_ok_same(1) [OF f sv wm] and b1 = fil_ok_same(2) [OF f sv wm]
    note F = fil_okD [OF f] and F1 = fil_okD [OF f1]
    note g = geom_addr [OF same_volD(3) [OF sv]] and gg = geom_eqD [OF same_volD(3) [OF sv]]
    have k: "p < length xs * cbytes fs1" using lt F1(3) by (simp add: word_less_nat_alt p_def)
    have sc: "sect_in_clust fs1 fp = sect_in_clust fs fp" by (simp add: sect_in_clust_def gg)
    have s0: "clst2sect fs1 (f_clust fp1) \<noteq> 0" using fsect_facts(7) [OF F1(1,2) k] by (simp add: fp1 g)
    have cur: "clst2sect fs1 (f_clust fp1) + sect_in_clust fs fp = fsect fs1 xs p"
      using current_sector [OF F1(1), of xs fp] by (simp add: fp1 p_def g sc)
    have "read_here fs1 (fp\<lparr>f_clust := xs ! (p div cbytes fs1)\<rparr>) (fsect fs1 xs p) (sect_in_clust fs1 fp) dst br btr = (res, fs', fp', dst')"
      using rs rc True s0 cur by (simp add: read_sectors_here fp1 g sc)
    from read_here_ok [OF f1 lt _ n refl this [unfolded p_def]] bd
    have r1: "read_result fs1 fp xs dst (unat br) btr res fs' fp' dst'" by (simp add: g)
    have tr: "read_done fs fp xs dst (unat br) m fs' fp' d" if "read_done fs1 fp xs dst (unat br) m fs' fp' d" "m \<le> unat btr" for m d
      using read_done_trans [OF same_volD(3) [OF sv] b1 refl _ that(1)] that(2) n F(3) by simp
    show ?thesis using r1 tr by (auto simp: read_result_def g split: sum.splits option.splits)
  qed
qed

text \<open>The part of the current sector that is asked for.\<close>

lemma unat_fptr_mod:
  assumes v: "vol_ok fs"
  shows "unat (ucast (fptr fp) mod SS fs :: UINT) = unat (fptr fp) mod SSn fs"
    "unat (fptr fp mod ucast (ssize fs)) = unat (fptr fp) mod SSn fs"
proof -
  have "SSn fs \<in> {512, 1024, 2048, 4096}" using v fat_ok_sector by (auto simp: vol_ok_def fat_vol_def)
  then have "SSn fs dvd 2 ^ 32" by auto
  then show "unat (ucast (fptr fp) mod SS fs :: UINT) = unat (fptr fp) mod SSn fs"
    by (simp add: unat_mod unsigned_ucast_eq take_bit_eq_mod mod_mod_cancel)
  show "unat (fptr fp mod ucast (ssize fs)) = unat (fptr fp) mod SSn fs" by (simp add: unat_mod SSn_def)
qed

lemma part_count_nat:
  assumes v: "vol_ok fs"
  shows "unat (part_count fs fp n) = min (SSn fs - unat (fptr fp) mod SSn fs) (unat n)"
proof -
  note z = vol_sizes [OF v] and u = unat_fptr_mod(1) [OF v, of fp]
  have "unat (fptr fp) mod SSn fs < SSn fs" using z(1) by simp
  then have "unat (SS fs - ucast (fptr fp) mod SS fs) = SSn fs - unat (fptr fp) mod SSn fs"
    using u by (simp add: unat_sub word_le_nat_alt)
  then show ?thesis by (simp add: part_count_def Let_def word_less_nat_alt min_def)
qed

lemma on_boundary_nat: "vol_ok fs \<Longrightarrow> on_boundary fs fp \<longleftrightarrow> unat (fptr fp) mod SSn fs = 0"
  using unat_fptr_mod(2) [of fs fp] by (simp add: on_boundary_def word_unat_eq_iff)

lemma read_part:
  assumes f: "fil_ok fs fp xs" and b: "0 < btr" and n: "unat (fptr fp) + unat btr \<le> unat (objsize (f_obj fp))"
    and s: "unat (f_sect fp) = faddr fs xs (unat (fptr fp)) div SSn fs" and m: "m = unat (part_count fs fp btr)"
    and q: "unat q = unat (fptr fp) + m"
    and dst': "dst' = mem_cpy dst br (buf fp) (unat (fptr fp) mod SSn fs) m"
  shows "0 < m" "m \<le> unat btr" "m = unat btr \<or> (unat (fptr fp) + m) mod SSn fs = 0"
    "fil_ok fs (fp\<lparr>f_clust := xs ! (unat (fptr fp) div cbytes fs), fptr := q\<rparr>) xs"
    "read_done fs fp xs dst br m fs fp dst'"
proof -
  note F = fil_okD [OF f]
  note z = vol_sizes [OF F(1)] and pc = part_count_nat [OF F(1), of fp btr]
  define p where "p = unat (fptr fp)"
  have pm: "p mod SSn fs < SSn fs" using z(1) by simp
  show m0: "0 < m" using pc m pm b by (simp add: p_def word_less_nat_alt)
  show mb: "m \<le> unat btr" using pc m by simp
  have le: "p mod SSn fs + m \<le> SSn fs" using pc m pm by (simp add: p_def)
  show "m = unat btr \<or> (unat (fptr fp) + m) mod SSn fs = 0"
  proof (cases "m = unat btr")
    case False
    then have "p mod SSn fs + m = SSn fs" using pc m pm by (simp add: p_def min_def split: if_splits)
    then show ?thesis using mod_add_left_eq [of p "SSn fs" m] by (simp add: p_def)
  qed simp
  have nz: "p mod SSn fs + m < SSn fs" if "(p + m) mod SSn fs \<noteq> 0"
    using that le mod_add_left_eq [of p "SSn fs" m] by (cases "p mod SSn fs + m = SSn fs") auto
  show "fil_ok fs (fp\<lparr>f_clust := xs ! (unat (fptr fp) div cbytes fs), fptr := q\<rparr>) xs"
    using fil_ok_advance [OF f m0 _ _ q] sector_in_cluster [OF F(1) le] n mb s nz by (simp add: p_def)
  have "buf fp (p mod SSn fs + t) = fbyte fs fp xs (p + t)" if "t < m" for t
    using buffer_byte [OF f _ s, of t] le that n b by (simp add: p_def word_less_nat_alt)
  then show "read_done fs fp xs dst br m fs fp dst'" by (auto simp: read_done_def dst' p_def)
qed

text \<open>One step of the loop.\<close>

definition read_stepped ::
  "FATFS \<Rightarrow> FIL \<Rightarrow> DWORD list \<Rightarrow> mem \<Rightarrow> nat \<Rightarrow> UINT \<Rightarrow> UINT \<Rightarrow> FATFS \<Rightarrow> FIL \<Rightarrow> mem \<Rightarrow> bool"
where
  "read_stepped fs fp xs dst br btr m fs' fp' dst' \<longleftrightarrow>
     0 < unat m \<and> unat m \<le> unat btr \<and> f_obj fp' = f_obj fp \<and> fptr fp' = fptr fp \<and>
     (unat m = unat btr \<or> (unat (fptr fp) + unat m) mod SSn fs = 0) \<and>
     fil_ok fs' (fp'\<lparr>fptr := fptr fp + ucast m\<rparr>) xs \<and> read_done fs fp xs dst br (unat m) fs' fp' dst'"

lemma unat_advance:
  fixes m btr :: UINT and p z :: FSIZE
  assumes "unat p + unat btr \<le> unat z" and "unat m \<le> unat btr"
  shows "unat (p + ucast m) = unat p + unat m"
proof -
  have "unat p + unat m < 2 ^ 64" using assms unsigned_less [of z, where ?'a = nat] by simp
  then show ?thesis by (simp add: unat_word_ariths(1))
qed

lemma read_part_step:
  assumes f: "fil_ok fs fp xs" and b: "0 < btr" and n: "unat (fptr fp) + unat btr \<le> unat (objsize (f_obj fp))"
    and g: "geom_eq fs fs1" and at: "at_clust fs1 fp xs fp0 fp1"
    and s: "unat (f_sect fp0) = faddr fs xs (unat (fptr fp)) div SSn fs"
    and d: "read_done fs fp xs dst br 0 fs1 fp1 dst" and m: "m = part_count fs1 fp1 btr"
    and dst': "dst' = mem_cpy dst br (buf fp1) (unat (fptr fp1 mod ucast (ssize fs1))) (unat m)"
  shows "read_stepped fs fp xs dst br btr m fs1 fp1 dst'"
proof -
  have f0: "fil_ok fs1 fp0 xs" and e0: "fptr fp0 = fptr fp" "f_obj fp0 = f_obj fp"
    and fp1: "fp1 = fp0\<lparr>f_clust := xs ! (unat (fptr fp) div cbytes fs1)\<rparr>"
    using at by (simp_all add: at_clust_def)
  note ga = geom_addr [OF g] and F = fil_okD [OF f]
  note u = unat_fptr_mod(2) [OF fil_okD(1) [OF f0], of fp1]
  have n0: "unat (fptr fp0) + unat btr \<le> unat (objsize (f_obj fp0))" using n e0 by simp
  have m0: "unat m = unat (part_count fs1 fp0 btr)" by (simp add: m part_count_def fp1)
  have mb: "unat m \<le> unat btr" using part_count_nat [OF fil_okD(1) [OF f0], of fp0 btr] m0 by simp
  have q: "unat (fptr fp + ucast m) = unat (fptr fp0) + unat m" using unat_advance [OF n mb] e0 by simp
  note rp = read_part [OF f0 b n0 _ m0 q, of dst' dst br]
  have "unat (f_sect fp0) = faddr fs1 xs (unat (fptr fp0)) div SSn fs1" using s by (simp add: ga e0)
  note rp = rp [OF this]
  have d': "dst' = mem_cpy dst br (buf fp0) (unat (fptr fp0) mod SSn fs1) (unat m)" using dst' u by (simp add: fp1)
  have "read_done fs1 fp0 xs dst br (unat m) fs1 fp1 dst'" using rp(5) [OF d'] by (simp add: fp1 read_done_def)
  moreover have "fbyte fs1 fp0 xs k = fbyte fs fp xs k" if "k < length xs * cbytes fs" for k
    using d that by (simp add: read_done_def fp1)
  ultimately have "read_done fs fp xs dst br (unat m) fs1 fp1 dst'"
    using n mb F(3) by (intro read_done_trans [OF g _ e0(1)]) auto
  then show ?thesis using rp(1-4) [OF d'] by (simp add: read_stepped_def fp1 e0 ga)
qed

lemma read_step_ok:
  assumes f: "fil_ok fs fp xs" and b: "0 < btr" and n: "unat (fptr fp) + unat btr \<le> unat (objsize (f_obj fp))"
    and st: "read_step fs fp dst br btr = (res, fs', fp', dst')"
  shows "case res of Inl e \<Rightarrow> e = FR_DISK_ERR | Inr m \<Rightarrow> read_stepped fs fp xs dst (unat br) btr m fs' fp' dst'"
proof -
  note F = fil_okD [OF f]
  note z = vol_sizes [OF F(1)] and ob = on_boundary_nat [OF F(1), of fp]
  define p where "p = unat (fptr fp)"
  have lt: "fptr fp < objsize (f_obj fp)" using b n by (simp add: word_less_nat_alt)
  show ?thesis
  proof (cases "on_boundary fs fp")
    case False
    then have pn: "p mod SSn fs \<noteq> 0" using ob by (simp add: p_def)
    then have "p mod cbytes fs \<noteq> 0" using mod_mod_cancel [OF z(7), of p] by (intro notI) simp
    moreover have "0 < p" using pn by (cases p) auto
    ultimately have "(p - 1) div cbytes fs = p div cbytes fs" by (cases p) (simp_all add: div_Suc)
    then have "f_clust fp = xs ! (p div cbytes fs)" using F(5) \<open>0 < p\<close> by (simp add: p_def unat_gt_0 word_gt_0)
    then have at: "at_clust fs fp xs fp fp" using f by (simp add: at_clust_def p_def)
    have "read_done fs fp xs dst (unat br) 0 fs fp dst" by (simp add: read_done_def)
    note rp = read_part_step [OF f b n geom_eq_refl at _ this refl refl]
    have "res = Inr (part_count fs fp btr) \<and> fs' = fs \<and> fp' = fp \<and>
        dst' = mem_cpy dst (unat br) (buf fp) (unat (fptr fp mod ucast (ssize fs))) (unat (part_count fs fp btr))"
      using st False by (auto simp: read_step_def Let_def)
    then show ?thesis using rp F(6) pn by (simp add: p_def)
  next
    case True
    obtain r fs1 fp1 d1 where rs: "read_sectors fs fp dst br btr = (r, fs1, fp1, d1)" by (metis prod_cases4)
    have bd: "unat (fptr fp) mod SSn fs = 0" using True ob by simp
    note rr = read_sectors_ok [OF f lt bd n rs, unfolded read_result_def]
    show ?thesis
    proof (cases r)
      case (Inl e)
      then show ?thesis using rr st True rs by (auto simp: read_step_def)
    next
      case (Inr o1)
      show ?thesis
      proof (cases o1)
        case None
        then obtain fp0 where "at_clust fs1 fp xs fp0 fp1" "unat (f_sect fp0) = faddr fs xs (unat (fptr fp)) div SSn fs"
          and d: "d1 = dst" "read_done fs fp xs dst (unat br) 0 fs1 fp1 dst" using rr unfolding Inr None by (simp, blast)
        moreover have "geom_eq fs fs1" using d by (simp add: read_done_def)
        moreover define m where "m = part_count fs1 fp1 btr"
        moreover define d2 where "d2 = mem_cpy dst (unat br) (buf fp1) (unat (fptr fp1 mod ucast (ssize fs1))) (unat m)"
        ultimately have "read_stepped fs fp xs dst (unat br) btr m fs1 fp1 d2" by (intro read_part_step [OF f b n])
        moreover have "(res, fs', fp', dst') = (Inr m, fs1, fp1, d2)"
          unfolding st [symmetric] using True rs Inr None d(1) by (simp add: read_step_def Let_def m_def d2_def)
        ultimately show ?thesis by simp
      next
        case (Some m)
        then have m: "0 < unat m" "unat m \<le> unat btr" "unat m mod SSn fs = 0" "p mod cbytes fs + unat m \<le> cbytes fs"
          "read_done fs fp xs dst (unat br) (unat m) fs1 fp1 d1" using rr Inr by (simp_all add: p_def)
        obtain fp0 where at: "at_clust fs1 fp xs fp0 fp1" using rr unfolding Inr Some by (simp, blast)
        note ga = geom_addr [OF m(5) [unfolded read_done_def, THEN conjunct2, THEN conjunct2, THEN conjunct1]]
        have pm: "(p + unat m) mod SSn fs = 0" using mod_add_eq [of p "SSn fs" "unat m"] bd m(3) by (simp add: p_def)
        have e: "fil_ok fs1 fp0 xs" "fptr fp0 = fptr fp" "f_obj fp0 = f_obj fp"
          "fp1 = fp0\<lparr>f_clust := xs ! (p div cbytes fs1)\<rparr>" using at by (simp_all add: at_clust_def p_def)
        have "fil_ok fs1 (fp0\<lparr>f_clust := xs ! (unat (fptr fp0) div cbytes fs1), fptr := fptr fp + ucast m\<rparr>) xs"
          by (rule fil_ok_advance [OF e(1) m(1)])
            (use m(2,4) n pm unat_advance [OF n m(2)] in \<open>simp_all add: e(2,3) ga(1,3) p_def\<close>)
        then have "fil_ok fs1 (fp1\<lparr>fptr := fptr fp + ucast m\<rparr>) xs" by (simp add: e(2,4) p_def)
        then have "read_stepped fs fp xs dst (unat br) btr m fs1 fp1 d1"
          using m pm at by (simp add: read_stepped_def at_clust_def p_def)
        moreover have "(res, fs', fp', dst') = (Inr m, fs1, fp1, d1)"
          unfolding st [symmetric] using True rs Inr Some by (simp add: read_step_def)
        ultimately show ?thesis by simp
      qed
    qed
  qed
qed

text \<open>The number of sectors a transfer of \<open>n\<close> bytes from position \<open>p\<close> touches.\<close>

definition touched :: "nat \<Rightarrow> nat \<Rightarrow> nat \<Rightarrow> nat" where
  "touched ss p n = (p mod ss + n + (ss - 1)) div ss"

lemma touched_step:
  assumes "0 < ss" "0 < m" "m < n" "(p + m) mod ss = 0"
  shows "touched ss (p + m) (n - m) < touched ss p n"
proof -
  have "(p mod ss + m) mod ss = 0" using assms(4) by (simp add: mod_add_left_eq)
  then have "ss \<le> p mod ss + m" using assms(1,2) by (metis add_gr_0 mod_less not_less not_gr_zero)
  then have "(n - m) + (ss - 1) + ss \<le> p mod ss + n + (ss - 1)" using assms(3) by simp
  then have "((n - m) + (ss - 1) + ss) div ss \<le> touched ss p n" unfolding touched_def by (rule div_le_mono)
  moreover have "((n - m) + (ss - 1) + ss) div ss = ((n - m) + (ss - 1)) div ss + 1" using assms(1) by (intro div_add_self2) simp
  moreover have "touched ss (p + m) (n - m) = ((n - m) + (ss - 1)) div ss" using assms(4) by (simp only: touched_def) simp
  ultimately show ?thesis by linarith
qed

lemma touched_pos: "0 < ss \<Longrightarrow> 0 < n \<Longrightarrow> 0 < touched ss p n"
proof -
  assume "0 < ss" "0 < n"
  then have "ss \<le> p mod ss + n + (ss - 1)" by linarith
  then show ?thesis using \<open>0 < ss\<close> unfolding touched_def by (simp only: div_greater_zero_iff)
qed

lemma touched_fuel:
  assumes "0 < ss"
  shows "touched ss p n \<le> n div ss + 2"
proof -
  have "p mod ss < ss" using assms by simp
  moreover have "n < (n div ss + 1) * ss" using assms in_block [of ss "n div ss" n] by simp
  ultimately have "p mod ss + n + (ss - 1) < (n div ss + 3) * ss" by (simp add: algebra_simps)
  then have "touched ss p n < n div ss + 3" unfolding touched_def by (simp add: less_mult_imp_div_less)
  then show ?thesis by simp
qed

lemma read_done_append:
  assumes a: "read_done fs fp xs dst br m fs1 fp1 d1" and b: "read_done fs1 fp2 xs d1 (br + m) n fs' fp' dst'"
    and p: "unat (fptr fp2) = unat (fptr fp) + m" and le: "unat (fptr fp) + m + n \<le> length xs * cbytes fs"
    and eq: "\<And>k. fbyte fs1 fp2 xs k = fbyte fs1 fp1 xs k"
  shows "read_done fs fp xs dst br (m + n) fs' fp' dst'"
proof -
  have g: "geom_eq fs fs1" and k: "\<And>k. k < length xs * cbytes fs \<Longrightarrow> fbyte fs1 fp1 xs k = fbyte fs fp xs k"
    using a by (simp_all add: read_done_def)
  note ga = geom_addr [OF g]
  have "dst' (br + t) = fbyte fs fp xs (unat (fptr fp) + t)" if t: "t < m + n" for t
  proof (cases "t < m")
    case True
    then have "dst' (br + t) = d1 (br + t)" using b by (simp add: read_done_def)
    then show ?thesis using a True by (simp add: read_done_def)
  next
    case False
    then obtain u where u: "t = m + u" "u < n" using t by (metis add_less_cancel_left le_iff_add not_less)
    then have "dst' (br + m + u) = fbyte fs1 fp1 xs (unat (fptr fp) + m + u)"
      using b p eq by (simp add: read_done_def)
    then show ?thesis using k [of "unat (fptr fp) + t"] le u by (simp add: add.assoc)
  qed
  moreover have "dst' j = dst j" if "j < br \<or> br + (m + n) \<le> j" for j
    using a b that by (auto simp: read_done_def)
  moreover have "geom_eq fs fs'" using a b by (auto simp: read_done_def intro: geom_eq_trans)
  moreover have "fbyte fs' fp' xs k = fbyte fs fp xs k" if "k < length xs * cbytes fs" for k
    using b k that eq by (simp add: read_done_def ga)
  ultimately show ?thesis by (simp add: read_done_def)
qed

lemma read_loop_ok:
  assumes "fil_ok fs fp xs" "unat (fptr fp) + unat btr \<le> unat (objsize (f_obj fp))" "unat br + unat btr < 2 ^ 32"
    "btr = 0 \<or> touched (SSn fs) (unat (fptr fp)) (unat btr) \<le> N" "read_loop N fs fp dst br btr = (r, br', fs', fp', dst')"
  shows "(r = FR_OK \<or> r = FR_DISK_ERR) \<and> (r = FR_OK \<longrightarrow> unat br' = unat br + unat btr \<and> fil_ok fs' fp' xs \<and>
    unat (fptr fp') = unat (fptr fp) + unat btr \<and> f_obj fp' = f_obj fp \<and> read_done fs fp xs dst (unat br) (unat btr) fs' fp' dst')"
  using assms
proof (induction N arbitrary: fs fp dst br btr)
  case 0
  have "0 < SSn fs" using vol_sizes(1) [OF fil_okD(1) [OF "0.prems"(1)]] by simp
  then have "0 < touched (SSn fs) (unat (fptr fp)) (unat btr)" if "btr \<noteq> 0"
    using that by (intro touched_pos) (simp_all add: unat_gt_0)
  then have "btr = 0" using "0.prems"(4) by fastforce
  then show ?case using "0.prems" by (auto simp: read_done_def)
next
  case (Suc N)
  show ?case
  proof (cases "btr = 0")
    case True
    then show ?thesis using Suc.prems by (auto simp: read_done_def)
  next
    case False
    then have b: "0 < btr" by (simp add: word_gt_0)
    obtain res fs1 fp1 d1 where st: "read_step fs fp dst br btr = (res, fs1, fp1, d1)" by (metis prod_cases4)
    note so = read_step_ok [OF Suc.prems(1) b Suc.prems(2) st]
    show ?thesis
    proof (cases res)
      case (Inl e)
      then show ?thesis using so Suc.prems(5) st b by (auto simp: word_gt_0)
    next
      case (Inr m)
      then have s: "read_stepped fs fp xs dst (unat br) btr m fs1 fp1 d1" using so by simp
      define fp2 where "fp2 = fp1\<lparr>fptr := fptr fp1 + ucast m\<rparr>"
      have m: "0 < unat m" "unat m \<le> unat btr" and f2: "fil_ok fs1 fp2 xs" and o2: "f_obj fp2 = f_obj fp"
        and d: "read_done fs fp xs dst (unat br) (unat m) fs1 fp1 d1" and fe: "fptr fp1 = fptr fp"
        and bd: "unat m = unat btr \<or> (unat (fptr fp) + unat m) mod SSn fs = 0"
        using s by (simp_all add: read_stepped_def fp2_def)
      have p2: "unat (fptr fp2) = unat (fptr fp) + unat m"
        using unat_advance [OF Suc.prems(2) m(2)] by (simp add: fp2_def fe)
      have ub: "unat (btr - m) = unat btr - unat m" using m(2) by (simp add: unat_sub word_le_nat_alt)
      have ur: "unat (br + m) = unat br + unat m" using m(2) Suc.prems(3) by (simp add: unat_word_ariths(1))
      have ss: "SSn fs1 = SSn fs" "0 < SSn fs"
        using d vol_sizes(1) [OF fil_okD(1) [OF Suc.prems(1)]] geom_addr(3) [of fs fs1] by (simp_all add: read_done_def)
      have fu: "btr - m = 0 \<or> touched (SSn fs1) (unat (fptr fp2)) (unat (btr - m)) \<le> N"
      proof (cases "unat m = unat btr")
        case True
        then have "m = btr" by (simp add: word_unat_eq_iff)
        then show ?thesis by simp
      next
        case nb: False
        then have "touched (SSn fs) (unat (fptr fp) + unat m) (unat btr - unat m) < touched (SSn fs) (unat (fptr fp)) (unat btr)"
          using bd m by (intro touched_step [OF ss(2)]) auto
        then show ?thesis using Suc.prems(4) False by (simp add: ub p2 ss)
      qed
      have lp: "read_loop N fs1 fp2 d1 (br + m) (btr - m) = (r, br', fs', fp', dst')"
        using Suc.prems(5) st Inr b by (simp add: fp2_def fe)
      have "unat (fptr fp2) + unat (btr - m) \<le> unat (objsize (f_obj fp2))" "unat (br + m) + unat (btr - m) < 2 ^ 32"
        using Suc.prems(2,3) m(2) by (simp_all add: p2 ub ur o2)
      note ih = Suc.IH [OF f2 this fu lp]
      have "read_done fs fp xs dst (unat br) (unat m + unat (btr - m)) fs' fp' dst'" if "r = FR_OK"
        by (rule read_done_append [OF d _ p2])
          (use ih that m(2) Suc.prems(2) fil_okD(3) [OF Suc.prems(1)] in \<open>simp_all add: ur ub fp2_def\<close>)
      then show ?thesis using ih m(2) by (simp add: ub ur p2 o2)
    qed
  qed
qed

section \<open>The property\<close>

lemma f_read_ok:
  assumes f: "fil_ok fs fp xs" and v: "validate fs (f_obj fp) = FR_OK" "f_err fp = FR_OK" "flag fp AND FA_READ \<noteq> 0"
    and fr: "f_read fs fp buff btr = (r, br, fs', fp', buff')"
  shows "(r = FR_OK \<or> r = FR_DISK_ERR) \<and> (r = FR_OK \<longrightarrow>
    unat br = min (unat btr) (unat (objsize (f_obj fp)) - unat (fptr fp)) \<and> fil_ok fs' fp' xs \<and>
    unat (fptr fp') = unat (fptr fp) + unat br \<and> f_obj fp' = f_obj fp \<and> read_done fs fp xs buff 0 (unat br) fs' fp' buff')"
proof -
  note F = fil_okD [OF f]
  define remain where "remain = objsize (f_obj fp) - fptr fp"
  have ur: "unat remain = unat (objsize (f_obj fp)) - unat (fptr fp)" using F(4) by (simp add: remain_def unat_sub)
  define n where "n = (if ucast btr > remain then ucast remain else btr)"
  have un: "unat n = min (unat btr) (unat remain)"
  proof (cases "ucast btr > remain")
    case True
    then have "unat remain < unat btr" by (simp add: word_less_nat_alt)
    moreover from this have "unat (ucast remain :: UINT) = unat remain"
      using unat_dword_less [of btr] by (simp add: unsigned_ucast_eq take_bit_nat_eq_self)
    ultimately show ?thesis using True by (simp add: n_def)
  next
    case False
    then show ?thesis by (simp add: n_def word_less_nat_alt not_less)
  qed
  have lp: "read_loop (unat n div SSn fs + 2) fs fp buff 0 n = (r, br, fs', fp', buff')"
    using fr v by (simp add: f_read_def Let_def n_def remain_def del: read_loop.simps split: if_splits)
  have "unat (fptr fp) + unat n \<le> unat (objsize (f_obj fp))" using un ur F(4) by (simp add: word_le_nat_alt)
  from read_loop_ok [OF f this _ _ lp] show ?thesis
    using touched_fuel [of "SSn fs" "unat (fptr fp)" "unat n"] vol_sizes(1) [OF F(1)] unat_dword_less [of n] un ur by simp
qed

text \<open>C1. \<open>f_read\<close> returns the file. For a file object on a FAT12/16/32 volume that satisfies the invariant
  (which includes a device that reports every failed read), the only
  results are success and a disk error. On success the number of bytes is the number asked
  for, clipped at the end of the file; the caller's buffer holds exactly those bytes of the
  file and is otherwise untouched; the position has moved by that number, the invariant holds
  again, and the contents of the file have not changed. The bytes come from whichever place
  holds them: sectors of the chain across cluster boundaries, the sector buffer, or sectors
  with a dirty buffer over them.\<close>

theorem f_read_returns_file:
  assumes "fil_ok fs fp xs" and "validate fs (f_obj fp) = FR_OK" "f_err fp = FR_OK" "flag fp AND FA_READ \<noteq> 0"
    and "f_read fs fp buff btr = (r, br, fs', fp', buff')"
  shows "(r = FR_OK \<or> r = FR_DISK_ERR) \<and> (r = FR_OK \<longrightarrow>
    unat br = min (unat btr) (unat (objsize (f_obj fp)) - unat (fptr fp)) \<and>
    (\<forall>t<unat br. buff' t = fbyte fs fp xs (unat (fptr fp) + t)) \<and> (\<forall>t\<ge>unat br. buff' t = buff t) \<and>
    unat (fptr fp') = unat (fptr fp) + unat br \<and> f_obj fp' = f_obj fp \<and> fil_ok fs' fp' xs \<and>
    (\<forall>k<unat (objsize (f_obj fp)). fbyte fs' fp' xs k = fbyte fs fp xs k))"
  using f_read_ok [OF assms] fil_okD(3) [OF assms(1)] by (auto simp: read_done_def)

definition demo_fil :: FIL where
  "demo_fil =
     \<lparr>f_obj = demo_obj\<lparr>objsize := 100\<rparr>, flag = 1, f_err = FR_OK, fptr = 0, f_clust = 0, f_sect = 0,
      dir_sect = 2, dir_ptr = 0, buf = (\<lambda>_. 0)\<rparr>"

lemma demo_fil_ok: "fil_ok demo_fs demo_fil [2]"
proof -
  have l: "layout_ok demo_fs" by (simp add: layout_ok_def demo_fs_def)
  have c: "cbytes demo_fs = 512" "SSn demo_fs = 512" by (simp_all add: cbytes_def demo_fs_def SSn_def)
  have "clst2sect demo_fs 2 = 3" by (simp add: clst2sect_def demo_fs_def)
  then have a: "faddr demo_fs [2] k = 1536 + k" if "k < 512" for k using that by (simp add: faddr_def c)
  have d: "faddr demo_fs [2] k div 512 = 3" if "k < 512" for k
    using that by (simp add: a div_nat_eqI)
  have "is_chain (fat_entry demo_fs) (n_fatent demo_fs) 2 [2]" by code_simp
  then show ?thesis
    using l demo_vol d
    by (intro fil_okI) (simp_all add: vol_ok_def file_chain_def demo_fil_def demo_obj_def c dirty_def off_file_def, simp add: demo_fs_def)
qed

theorem f_read_returns_file_witness:
  "case f_read demo_fs demo_fil (\<lambda>_. 7) 10 of (r, br, fs', fp', buff') \<Rightarrow>
     r = FR_OK \<and> br = 10 \<and> buff' 9 = fbyte demo_fs demo_fil [2] 9 \<and> buff' 10 = 7"
proof -
  obtain r br fs' fp' buff' where fr: "f_read demo_fs demo_fil (\<lambda>_. 7) 10 = (r, br, fs', fp', buff')" by (metis prod_cases5)
  have r: "case f_read demo_fs demo_fil (\<lambda>_. 7) 10 of (r, br, fs', fp', buff') \<Rightarrow> r = FR_OK \<and> br = 10" by code_simp
  have "validate demo_fs (f_obj demo_fil) = FR_OK" "f_err demo_fil = FR_OK" "flag demo_fil AND FA_READ \<noteq> 0"
    by (simp_all add: validate_def demo_fs_def demo_fil_def demo_obj_def)
  from f_read_returns_file [OF demo_fil_ok this fr] r fr
  show ?thesis by (simp add: demo_fil_def)
qed

end
