(* ===== verification/FfWriteOk.thy ===== *)
theory FfWriteOk
  imports FfReadOk
begin

text \<open>
  \<open>f_write\<close> replaces the bytes of the file it is told to and nothing else: no byte of another
  file, no other chain. The chain of the file grows as needed, by clusters that were free.
\<close>

section \<open>The window during cluster allocation\<close>

text \<open>A walk over the FAT: the geometry is kept, the window stays coherent and on the FAT.\<close>

definition fat_walk :: "FATFS \<Rightarrow> FATFS \<Rightarrow> bool" where
  "fat_walk fs fs' \<longleftrightarrow> geom_eq fs fs' \<and> win_ok fs' \<and> wmove fs fs'"

lemma fat_walk_refl: "fat_vol fs \<Longrightarrow> fat_walk fs fs"
  by (simp add: fat_walk_def fat_vol_def)

lemma fat_walk_trans: "fat_walk a b \<Longrightarrow> fat_walk b c \<Longrightarrow> fat_walk a c"
  unfolding fat_walk_def using geom_eq_trans wmove_trans by blast

lemma fat_walk_vol: "fat_vol fs \<Longrightarrow> fat_walk fs fs' \<Longrightarrow> fat_vol fs'"
  using fat_vol_geom by (auto simp: fat_walk_def)

lemma get_fat_walk:
  assumes v: "fat_vol fs" and g: "get_fat fs obj c = (x, fs')"
  shows "fat_walk fs fs'"
proof (cases "2 \<le> c \<and> c < n_fatent fs")
  case True
  then show ?thesis
    using get_fat_table [OF _ _ _ _ _ g] fat_volD [OF v] get_fat_wmove [OF v _ _ g] same_volD [of fs fs']
    by (auto simp: fat_walk_def)
next
  case False
  then have "fs' = fs" using g by (auto simp: get_fat_def not_le not_less)
  then show ?thesis using fat_walk_refl [OF v] by simp
qed

lemma move_window_at:
  assumes "move_window fs s = (FR_OK, fs')"
  shows "winsect fs' = s"
proof -
  obtain r1 fs1 where w: "sync_window fs = (r1, fs1)" by fastforce
  then show ?thesis using assms by (auto simp: move_window_def Let_def split: if_splits prod.splits)
qed

lemma put_fat12_wmove:
  assumes ok: "fat_ok fs" "win_ok fs" and c: "2 \<le> c" "c < n_fatent fs" and ty: "fs_type fs = FS_FAT12"
    and g: "put_fat fs c x = (r, fs')"
  shows "wmove fs fs' \<and> (r = FR_OK \<longrightarrow> in_fat1 fs (winsect fs'))"
proof -
  define b where "b = c + c div 2"
  note pos = fat12_pos [OF ok(1) ty c(2), folded b_def]
  obtain r1 fs1 where m1: "move_window fs (fatbase fs + b div SS fs) = (r1, fs1)" by fastforce
  note ge = geom_eqD [OF same_volD(3) [OF move_window_same [OF ok(2) m1]]]
  have in1: "in_fat1 fs (fatbase fs + b div SS fs)" "in_fat1 fs (fatbase fs + (b + 1) div SS fs)"
    using fat1_sector(3) [OF ok(1)] pos(3,4) by blast+
  have w1: "wmove fs fs1" using move_window_wmove [OF m1 in1(1)] .
  show ?thesis
  proof (cases "r1 = FR_OK")
    case False
    then have "fs' = fs1 \<and> r \<noteq> FR_OK"
      using g c ty m1 by (auto simp: put_fat_def b_def [symmetric] Let_def split: if_splits)
    then show ?thesis using w1 by simp
  next
    case True
    define w where "w = (win fs1)(unat (b mod SS fs) :=
      if odd (unat c) then (win fs1 (unat (b mod SS fs)) AND 0x0F) OR push_bit 4 (ucast x) else ucast x)"
    obtain r2 fs2 where m2: "move_window (fs1\<lparr>win := w, wflag := 1\<rparr>) (fatbase fs + (b + 1) div SS fs) = (r2, fs2)" by fastforce
    have "SS fs2 = SS fs" using move_window_frame [OF m2] ge(14) by (simp add: geom_eq_def SS_def)
    note pe = put_fat12_eq [OF c ty b_def m1 [unfolded True] _ m2 ge(7) ge(14) this]
    have w: "winsect fs' = winsect fs2 \<and> (r = FR_OK \<longrightarrow> r2 = FR_OK)"
      using pe [of x] g by (auto simp: w_def split: if_splits)
    have "in_fat1 (fs1\<lparr>win := w, wflag := 1\<rparr>) s = in_fat1 fs s" for s by (simp add: in_fat1_def ge)
    then have "wmove (fs1\<lparr>win := w, wflag := 1\<rparr>) fs2" using move_window_wmove [OF m2] in1(2) by simp
    then have "wmove fs fs2" using w1 by (auto simp: wmove_def in_fat1_def ge)
    then show ?thesis using w move_window_at m2 in1(2) by (auto simp: wmove_def)
  qed
qed

lemma put_fat_wmove:
  assumes v: "fat_vol fs" and c: "2 \<le> c" "c < n_fatent fs" and g: "put_fat fs c x = (r, fs')"
  shows "wmove fs fs' \<and> (r = FR_OK \<longrightarrow> in_fat1 fs (winsect fs'))"
proof (cases "fs_type fs = FS_FAT12")
  case True
  then show ?thesis using put_fat12_wmove [OF _ _ c _ g] v by (simp add: fat_vol_def)
next
  case False
  have ok: "fat_ok fs" "win_ok fs" and ty: "fs_type fs = FS_FAT16 \<or> fs_type fs = FS_FAT32"
    using v False by (auto simp: fat_vol_def)
  define e :: DWORD where "e = (if fs_type fs = FS_FAT16 then 2 else 4)"
  obtain r1 fs1 where m: "move_window fs (fatbase fs + c div (SS fs div e)) = (r1, fs1)" by fastforce
  have "unat e * unat (n_fatent fs) \<le> fatlen fs"
    using fat_okD(3) [OF ok(1)] False by (simp add: fat_bytes_def e_def split: if_splits)
  note pos = fat_pos [OF ok(1) _ c(2) this]
  have e: "e = 2 \<or> e = 4" by (simp add: e_def)
  have in1: "in_fat1 fs (fatbase fs + c div (SS fs div e))" using fat1_sector(3) [OF ok(1) pos(1) [OF e]] .
  have "winsect fs' = winsect fs1" "r = FR_OK \<Longrightarrow> r1 = FR_OK"
    using g ty m c by (auto simp: put_fat_def e_def Let_def split: if_splits prod.splits)
  then show ?thesis using move_window_wmove [OF m in1] move_window_at m in1 by (auto simp: wmove_def)
qed

lemma put_fat_walk:
  assumes v: "fat_vol fs" and g: "put_fat fs c x = (r, fs')"
  shows "fat_walk fs fs'" "r = FR_OK \<Longrightarrow> in_fat1 fs' (winsect fs')"
proof -
  have "fat_walk fs fs' \<and> (r = FR_OK \<longrightarrow> in_fat1 fs' (winsect fs'))"
  proof (cases "2 \<le> c \<and> c < n_fatent fs")
    case False
    then have "fs' = fs" "r \<noteq> FR_OK" using g by (auto simp: put_fat_def)
    then show ?thesis using fat_walk_refl [OF v] by simp
  next
    case True
    have ok: "fat_ok fs" "win_ok fs" using v by (simp_all add: fat_vol_def)
    have st: "win_ok fs' \<and> geom_eq fs fs'"
      using put_fat_upd [OF ok fat_volD(7) [OF v] _ _ g] True by (simp add: fat_upd_def fat_step_def)
    have "wmove fs fs' \<and> (r = FR_OK \<longrightarrow> in_fat1 fs (winsect fs'))"
      using put_fat_wmove [OF v _ _ g] True by blast
    then show ?thesis using st in_fat_geom [of fs fs'] by (simp add: fat_walk_def)
  qed
  then show "fat_walk fs fs'" "r = FR_OK \<Longrightarrow> in_fat1 fs' (winsect fs')" by auto
qed

lemma find_free_walk:
  "fat_vol fs \<Longrightarrow> find_free n fs obj scl ncl = Some (x, fs') \<Longrightarrow> fat_walk fs fs'"
proof (induction n arbitrary: fs ncl)
  case 0
  then show ?case by simp
next
  case (Suc n)
  define c where "c = (if ncl + 1 \<ge> n_fatent fs then 2 else ncl + 1)"
  obtain v fs1 where g: "get_fat fs obj c = (v, fs1)" by fastforce
  note w = get_fat_walk [OF Suc.prems(1) g]
  have "fs' = fs \<or> fs' = fs1 \<or> find_free n fs1 obj scl c = Some (x, fs')"
    using Suc.prems(2) g by (auto simp: Let_def c_def split: if_splits)
  then show ?case
    using Suc.IH [OF fat_walk_vol [OF Suc.prems(1) w]] w fat_walk_refl [OF Suc.prems(1)] fat_walk_trans by blast
qed

lemma pick_cluster_walk:
  assumes v: "fat_vol fs" and p: "pick_cluster fs obj clst scl = (x, fs')"
  shows "fat_walk fs fs'"
proof -
  have ff: "fat_walk fs fs2" if "fat_walk fs fs1" "find_free n fs1 obj a a = Some (y, fs2)" for fs1 n a y fs2
    using find_free_walk [OF fat_walk_vol [OF v that(1)] that(2)] that(1) fat_walk_trans by blast
  define c where "c = (if scl + 1 \<ge> n_fatent fs then 2 else scl + 1)"
  obtain y fs1 where g: "get_fat fs obj c = (y, fs1)" by fastforce
  note w = get_fat_walk [OF v g] and r = fat_walk_refl [OF v]
  show ?thesis
    using p g w r
    by (auto simp: pick_cluster_def c_def Let_def split: if_splits option.splits prod.splits intro: ff)
qed

lemma find_free_Inl: "find_free n fs obj scl ncl = Some (Inl r, fs') \<Longrightarrow> r = 0 \<or> r = 1 \<or> r = 0xFFFFFFFF"
  by (induction n arbitrary: fs ncl) (auto simp: Let_def split: if_splits prod.splits)

lemma pick_cluster_Inl: "pick_cluster fs obj clst scl = (Inl r, fs') \<Longrightarrow> r = 0 \<or> r = 1 \<or> r = 0xFFFFFFFF"
  by (auto simp: pick_cluster_def Let_def split: if_splits option.splits prod.splits dest: find_free_Inl)

lemma create_chain_fat_walk:
  assumes v: "fat_vol fs" and cc: "create_chain_fat fs obj clst scl = (x, fs')"
  shows "fat_walk fs fs'" "x = Inr (FR_OK, ncl) \<Longrightarrow> in_fat1 fs' (winsect fs')"
proof -
  obtain y fs1 where p: "pick_cluster fs obj clst scl = (y, fs1)" by fastforce
  note w1 = pick_cluster_walk [OF v p]
  have "fat_walk fs fs' \<and> (x = Inr (FR_OK, ncl) \<longrightarrow> in_fat1 fs' (winsect fs'))"
  proof (cases y)
    case (Inl r)
    then show ?thesis using cc p w1 by (auto simp: create_chain_fat_def)
  next
    case (Inr c)
    obtain r2 fs2 where p2: "put_fat fs1 c 0xFFFFFFFF = (r2, fs2)" by fastforce
    obtain r3 fs3 where p3: "put_fat fs2 clst c = (r3, fs3)" by fastforce
    note w2 = put_fat_walk [OF fat_walk_vol [OF v w1] p2]
    note v2 = fat_walk_vol [OF fat_walk_vol [OF v w1] w2(1)]
    note w3 = put_fat_walk [OF v2 p3] and w12 = fat_walk_trans [OF w1 w2(1)]
    have eq: "(x, fs') = (if r2 = FR_OK \<and> clst \<noteq> 0 then (Inr (r3, c), fs3) else (Inr (r2, c), fs2))"
      unfolding cc [symmetric] using p Inr p2 p3 by (simp add: create_chain_fat_def)
    show ?thesis
      using eq w12 fat_walk_trans [OF w12 w3(1)] w2(2) w3(2) by (auto split: if_splits)
  qed
  then show "fat_walk fs fs'" "x = Inr (FR_OK, ncl) \<Longrightarrow> in_fat1 fs' (winsect fs')" by auto
qed

lemma chain_done_walk:
  assumes "chain_done fs res ncl = (r, fs')"
  shows "fat_walk fs0 fs \<Longrightarrow> fat_walk fs0 fs'" "winsect fs' = winsect fs" "in_fat1 fs' = in_fat1 fs"
    "res \<noteq> FR_OK \<Longrightarrow> r = 1 \<or> r = 0xFFFFFFFF"
  using assms by (auto simp: chain_done_def fat_walk_def wmove_def geom_eq_def in_fat1_def fun_eq_iff split: if_splits)

text \<open>The first decision of \<open>create_chain\<close>: the successor the cluster has, or where to search from.\<close>

definition chain_start :: "FATFS \<Rightarrow> FFOBJID \<Rightarrow> DWORD \<Rightarrow> (DWORD + DWORD) \<times> FATFS" where
  "chain_start fs obj clst =
     (if clst = 0 then
        (Inr (if last_clst fs = 0 \<or> last_clst fs \<ge> n_fatent fs then 1 else last_clst fs), fs)
      else
        (case get_fat fs obj clst of (cs, fs) \<Rightarrow>
          if cs < 2 then (Inl 1, fs)
          else if cs = 0xFFFFFFFF then (Inl cs, fs)
          else if cs < n_fatent fs then (Inl cs, fs)
          else (Inr clst, fs)))"

lemma create_chain_start:
  assumes v: "fat_vol fs" and cs: "chain_start fs obj clst = (y, fs1)"
  shows "fat_walk fs fs1"
    and "create_chain fs obj clst =
      (case y of Inl r \<Rightarrow> (r, fs1, obj)
       | Inr scl \<Rightarrow> if free_clst fs1 = 0 then (0, fs1, obj)
         else (case create_chain_fat fs1 obj clst scl of
             (Inl r, fs2) \<Rightarrow> (r, fs2, obj)
           | (Inr (res, ncl), fs2) \<Rightarrow> (case chain_done fs2 res ncl of (r, fs3) \<Rightarrow> (r, fs3, obj))))"
proof -
  obtain x fs2 where g: "get_fat fs obj clst = (x, fs2)" by fastforce
  show w: "fat_walk fs fs1"
    using cs g get_fat_walk [OF v g] fat_walk_refl [OF v] by (auto simp: chain_start_def split: if_splits)
  have "fs_type fs1 \<noteq> FS_EXFAT" using fat_volD(3) [OF fat_walk_vol [OF v w]] .
  then show "create_chain fs obj clst =
      (case y of Inl r \<Rightarrow> (r, fs1, obj)
       | Inr scl \<Rightarrow> if free_clst fs1 = 0 then (0, fs1, obj)
         else (case create_chain_fat fs1 obj clst scl of
             (Inl r, fs2) \<Rightarrow> (r, fs2, obj)
           | (Inr (res, ncl), fs2) \<Rightarrow> (case chain_done fs2 res ncl of (r, fs3) \<Rightarrow> (r, fs3, obj))))"
    unfolding create_chain_def cs [unfolded chain_start_def]
    by (simp split: sum.split prod.split)
qed

lemma create_chain_walk:
  assumes v: "fat_vol fs" and cc: "create_chain fs obj clst = (r, fs', obj')"
  shows "fat_walk fs fs'" "obj' = obj"
    "chain_start fs obj clst = (Inr scl, fs1) \<Longrightarrow> 2 \<le> r \<Longrightarrow> r < n_fatent fs \<Longrightarrow> in_fat1 fs' (winsect fs')"
proof -
  obtain y fs1 where cs: "chain_start fs obj clst = (y, fs1)" by fastforce
  note st = create_chain_start [OF v cs]
  note v1 = fat_walk_vol [OF v st(1)]
  have "fat_walk fs fs' \<and> obj' = obj \<and> (isl y \<or> \<not> (2 \<le> r \<and> r < n_fatent fs) \<or> in_fat1 fs' (winsect fs'))"
  proof (cases y)
    case (Inl a)
    then show ?thesis using cc st by simp
  next
    case (Inr a)
    obtain x fs2 where f: "create_chain_fat fs1 obj clst a = (x, fs2)" by fastforce
    note w2 = create_chain_fat_walk [OF v1 f] and w12 = fat_walk_trans [OF st(1) create_chain_fat_walk(1) [OF v1 f]]
    have big: "\<not> (2 \<le> q \<and> q < n_fatent fs)" if "q = 0 \<or> q = 1 \<or> q = 0xFFFFFFFF" for q
      using that unat_dword_less [of "n_fatent fs"] by (auto simp: word_less_nat_alt word_le_nat_alt)
    show ?thesis
    proof (cases "free_clst fs1 = 0")
      case True
      then show ?thesis using cc st Inr by auto
    next
      case nz: False
      show ?thesis
      proof (cases x)
        case (Inl q)
        have "q = 0 \<or> q = 1 \<or> q = 0xFFFFFFFF"
          using f Inl by (auto simp: create_chain_fat_def split: sum.splits prod.splits if_splits dest: pick_cluster_Inl)
        then show ?thesis using cc st(2) Inr nz f Inl w12 big by auto
      next
        case in2: (Inr rn)
        obtain res ncl where rn: "rn = (res, ncl)" by fastforce
        obtain q fs3 where d: "chain_done fs2 res ncl = (q, fs3)" by fastforce
        have "r = q" "fs' = fs3" "obj' = obj" using cc st(2) Inr nz f in2 rn d by simp_all
        then show ?thesis using chain_done_walk [OF d] w12 w2(2) in2 rn big by (cases "res = FR_OK") auto
      qed
    qed
  qed
  then show "fat_walk fs fs'" "obj' = obj"
    "chain_start fs obj clst = (Inr scl, fs1) \<Longrightarrow> 2 \<le> r \<Longrightarrow> r < n_fatent fs \<Longrightarrow> in_fat1 fs' (winsect fs')" for scl fs1
    using cs by auto
qed

text \<open>Whether the first decision is to search depends on the entry of the cluster.\<close>

lemma chain_start_next:
  assumes v: "fat_vol fs" and c: "2 \<le> c" "c < n_fatent fs" and e: "2 \<le> fat_entry fs c" "fat_entry fs c < n_fatent fs"
    and cs: "chain_start fs obj c = (y, fs1)"
  shows "(y = Inl (fat_entry fs c) \<or> y = Inl 0xFFFFFFFF) \<and> same_vol fs fs1"
proof -
  obtain x fs2 where g: "get_fat fs obj c = (x, fs2)" by fastforce
  have t: "same_vol fs fs2 \<and> (x = fat_entry fs c \<or> x = 0xFFFFFFFF)"
    using get_fat_table [OF _ _ c _ g] fat_volD [OF v] by blast
  then have "n_fatent fs2 = n_fatent fs" using geom_eqD(5) [OF same_volD(3)] by blast
  moreover have "c \<noteq> 0" using c(1) by auto
  ultimately show ?thesis using cs g t e by (auto simp: chain_start_def not_less split: if_splits)
qed

lemma chain_start_end:
  assumes v: "fat_vol fs" and c: "c = 0 \<or> 2 \<le> c \<and> c < n_fatent fs \<and> n_fatent fs \<le> fat_entry fs c"
    and cs: "chain_start fs obj c = (y, fs1)"
  shows "(\<exists>scl. y = Inr scl) \<or> y = Inl 0xFFFFFFFF"
proof (cases "c = 0")
  case True
  then show ?thesis using cs by (auto simp: chain_start_def)
next
  case False
  then have c': "2 \<le> c" "c < n_fatent fs" "n_fatent fs \<le> fat_entry fs c" using c by auto
  obtain x fs2 where g: "get_fat fs obj c = (x, fs2)" by fastforce
  have t: "same_vol fs fs2 \<and> (x = fat_entry fs c \<or> x = 0xFFFFFFFF)"
    using get_fat_table [OF _ _ c'(1,2) _ g] fat_volD [OF v] by blast
  then have n: "n_fatent fs2 = n_fatent fs" using geom_eqD(5) [OF same_volD(3)] by blast
  have "\<not> fat_entry fs c < 2" using c'(3) fat_volD(6) [OF v] by (auto simp: word_le_nat_alt word_less_nat_alt)
  then show ?thesis using cs g t c'(3) n False by (auto simp: chain_start_def split: if_splits)
qed

section \<open>Growing a file\<close>

definition sect_of :: "FATFS \<Rightarrow> DWORD list \<Rightarrow> LBA \<Rightarrow> bool" where
  "sect_of fs xs s \<longleftrightarrow> (\<exists>k<length xs * cbytes fs. unat s = faddr fs xs k div SSn fs)"

text \<open>
  What an operation on the file with chain \<open>xs\<close> leaves of the rest of the volume while the chain
  becomes \<open>xs'\<close>: every sector outside the FATs and the file, and every other chain.
\<close>

definition other_files :: "FATFS \<Rightarrow> DWORD list \<Rightarrow> FATFS \<Rightarrow> DWORD list \<Rightarrow> bool" where
  "other_files fs xs fs' xs' \<longleftrightarrow>
     (\<exists>ys. xs' = xs @ ys) \<and> geom_eq fs fs' \<and>
     (\<forall>s i. i < SSn fs \<longrightarrow> s \<noteq> -1 \<longrightarrow> \<not> in_fat1 fs s \<longrightarrow> \<not> in_fat2 fs s \<longrightarrow> \<not> sect_of fs xs' s \<longrightarrow>
        lsect fs' s i = lsect fs s i) \<and>
     (\<forall>d ds. is_chain (fat_entry fs) (n_fatent fs) d ds \<longrightarrow> set ds \<inter> set xs = {} \<longrightarrow>
        is_chain (fat_entry fs') (n_fatent fs') d ds \<and> set ds \<inter> set xs' = {})"

lemma faddr_append: "k < length xs * cbytes fs \<Longrightarrow> faddr fs (xs @ ys) k = faddr fs xs k"
  by (simp add: faddr_def nth_append div_length)

lemma sect_of_append: "sect_of fs xs s \<Longrightarrow> sect_of fs (xs @ ys) s"
proof -
  assume "sect_of fs xs s"
  then obtain k where "k < length xs * cbytes fs" "unat s = faddr fs xs k div SSn fs" by (auto simp: sect_of_def)
  then show ?thesis unfolding sect_of_def by (intro exI [of _ k]) (simp add: faddr_append algebra_simps)
qed

lemma sect_of_geom: "geom_eq fs fs' \<Longrightarrow> sect_of fs' xs s = sect_of fs xs s"
  by (simp add: sect_of_def geom_addr)

lemma other_files_refl [simp]: "other_files fs xs fs xs"
  by (simp add: other_files_def)

lemma other_filesD:
  assumes "other_files fs xs fs' xs'"
  shows "\<exists>ys. xs' = xs @ ys" "geom_eq fs fs'"
    "i < SSn fs \<Longrightarrow> s \<noteq> -1 \<Longrightarrow> \<not> in_fat1 fs s \<Longrightarrow> \<not> in_fat2 fs s \<Longrightarrow> \<not> sect_of fs xs' s \<Longrightarrow> lsect fs' s i = lsect fs s i"
    "is_chain (fat_entry fs) (n_fatent fs) d ds \<Longrightarrow> set ds \<inter> set xs = {} \<Longrightarrow>
       is_chain (fat_entry fs') (n_fatent fs') d ds \<and> set ds \<inter> set xs' = {}"
  using assms unfolding other_files_def by blast+

lemma other_files_trans:
  assumes a: "other_files fs xs fs1 xs1" and b: "other_files fs1 xs1 fs2 xs2"
  shows "other_files fs xs fs2 xs2"
proof -
  note A = other_filesD [OF a] and B = other_filesD [OF b]
  obtain zs where zs: "xs2 = xs1 @ zs" using B(1) by blast
  note n = in_fat_geom [OF A(2)] geom_eqD(15) [OF A(2)] sect_of_geom [OF A(2)]
  have "lsect fs2 s i = lsect fs s i"
    if "i < SSn fs" "s \<noteq> -1" "\<not> in_fat1 fs s" "\<not> in_fat2 fs s" "\<not> sect_of fs xs2 s" for s i
    using A(3) [OF that(1-4)] B(3) [of i s] that sect_of_append [of fs xs1 s zs] by (auto simp: n zs)
  moreover have "is_chain (fat_entry fs2) (n_fatent fs2) d ds \<and> set ds \<inter> set xs2 = {}"
    if "is_chain (fat_entry fs) (n_fatent fs) d ds" "set ds \<inter> set xs = {}" for d ds
    using A(4) [OF that] B(4) [of d ds] by blast
  moreover have "\<exists>ys. xs2 = xs @ ys" using A(1) zs by auto
  ultimately show ?thesis using geom_eq_trans [OF A(2) B(2)] by (simp add: other_files_def)
qed

lemma linked_frame:
  assumes "linked fs l r fs'"
  shows "fat_frame fs fs'"
proof -
  obtain fs1 fs2 where u: "fat_upd fs r 0xFFFFFFFF FR_OK fs1" "if l = 0 then fs2 = fs1 else fat_upd fs1 l r FR_OK fs2"
    and fs': "fs' = fs2\<lparr>last_clst := r,
        free_clst := if free_clst fs \<le> n_fatent fs - 2 then free_clst fs - 1 else free_clst fs, fsi_flag := fsi_flag fs OR 1\<rparr>"
    using assms by (auto simp: linked_def)
  have "fat_step fs fs2" using u by (auto simp: fat_upd_def split: if_splits intro: fat_step_trans)
  then show ?thesis using fat_frameI by (simp add: fs')
qed

definition last_of :: "DWORD list \<Rightarrow> DWORD" where
  "last_of xs = (if xs = [] then 0 else last xs)"

lemma last_of_range:
  assumes ch: "file_chain fs c xs"
  shows "last_of xs = 0 \<or> 2 \<le> last_of xs \<and> last_of xs < n_fatent fs \<and> n_fatent fs \<le> fat_entry fs (last_of xs)"
proof (cases "xs = []")
  case False
  then have x: "is_chain (fat_entry fs) (n_fatent fs) c (butlast xs @ [last xs])" using ch by (auto simp: file_chain_def split: if_splits)
  then show ?thesis using is_chain_end [OF x] is_chain_range [OF x, of "last xs"] False by (simp add: last_of_def)
qed (simp add: last_of_def)

lemma file_chain_linked:
  assumes v: "fat_vol fs" and ch: "file_chain fs c xs" and ln: "linked fs (last_of xs) r fs'"
  shows "file_chain fs' (if c = 0 then r else c) (xs @ [r])"
    and "is_chain (fat_entry fs) (n_fatent fs) d ds \<Longrightarrow> set ds \<inter> set xs = {} \<Longrightarrow>
      is_chain (fat_entry fs') (n_fatent fs') d ds \<and> set ds \<inter> set (xs @ [r]) = {}"
proof -
  have l: "last_of xs = 0 \<or> 2 \<le> last_of xs \<and> last_of xs < n_fatent fs" using last_of_range [OF ch] by blast
  note lc = linked_chains [OF v l ln, unfolded ft.chain_def]
  have r: "2 \<le> r" "r \<noteq> 0" using ln by (auto simp: linked_def)
  show "file_chain fs' (if c = 0 then r else c) (xs @ [r])"
  proof (cases "xs = []")
    case True
    then have "c = 0" using ch by (auto simp: file_chain_def split: if_splits)
    then show ?thesis using lc(3) True r by (simp add: file_chain_def last_of_def)
  next
    case False
    then have "c \<noteq> 0" and x: "is_chain (fat_entry fs) (n_fatent fs) c (butlast xs @ [last xs])"
      using ch by (auto simp: file_chain_def split: if_splits)
    have "last xs \<noteq> 0" using is_chain_range [OF x, of "last xs"] by auto
    then have "is_chain (fat_entry fs') (n_fatent fs') c (butlast xs @ [last xs, r])"
      using lc(1) [of c "butlast xs"] x False by (simp add: last_of_def)
    moreover have "butlast xs @ [last xs, r] = xs @ [r]"
      using append_butlast_last_id [OF False] by (metis append.assoc append_Cons append_Nil)
    ultimately show ?thesis using \<open>c \<noteq> 0\<close> by (simp add: file_chain_def)
  qed
  assume ds: "is_chain (fat_entry fs) (n_fatent fs) d ds" "set ds \<inter> set xs = {}"
  have "last_of xs \<notin> set ds"
    using is_chain_range [OF ds(1), of 0] ds(2) last_in_set [of xs] by (auto simp: last_of_def)
  then show "is_chain (fat_entry fs') (n_fatent fs') d ds \<and> set ds \<inter> set (xs @ [r]) = {}"
    using lc(2) [OF ds(1)] lc(4) [OF ds(1)] ds(2) by auto
qed

text \<open>The file object of a file whose first cluster has been set.\<close>

abbreviation (input) start_at :: "FIL \<Rightarrow> DWORD \<Rightarrow> FIL" where
  "start_at fp c \<equiv> fp\<lparr>f_obj := (f_obj fp)\<lparr>sclust := c\<rparr>\<rparr>"

lemma fil_ok_grow:
  assumes f: "fil_ok fs fp xs" and ln: "linked fs (last_of xs) r fs'" and w: "fat_walk fs fs'"
    and in1: "in_fat1 fs' (winsect fs')" and c: "c = (if sclust (f_obj fp) = 0 then r else sclust (f_obj fp))"
  shows "fil_ok fs' (start_at fp c) (xs @ [r])" "other_files fs xs fs' (xs @ [r])"
    "k < length xs * cbytes fs \<Longrightarrow> fbyte fs' fp (xs @ [r]) k = fbyte fs fp xs k"
proof -
  note F = fil_okD [OF f]
  have v: "fat_vol fs" and v': "fat_vol fs'" using F(1) fat_walk_vol [OF _ w] by (simp_all add: vol_ok_def)
  have g: "geom_eq fs fs'" and wm: "wmove fs fs'" using w by (simp_all add: fat_walk_def)
  have d: "data_eq fs fs'" using linked_frame [OF ln] by (simp add: fat_frame_def)
  note ga = geom_addr [OF g] and fc = file_chain_linked [OF v F(2) ln]
  have vo: "vol_ok fs'" using vol_ok_geom [OF F(1) g v'] .
  have ch: "file_chain fs' (sclust (f_obj (start_at fp c))) (xs @ [r])" using fc(1) by (simp add: c)
  show "other_files fs xs fs' (xs @ [r])"
    using g d fc(2) by (auto simp: other_files_def data_eq_def)
  have off: "off_file fs' xs" using wmove_off_file [OF F(1,2,9) wm g] .
  note os = off_file_sect [OF F(1,2,9) off d g] and ob = off_file_bytes [OF F(1,2,9) off d g]
  show "fbyte fs' fp (xs @ [r]) k = fbyte fs fp xs k" if "k < length xs * cbytes fs" for k
    using ob [OF that] that by (simp add: fbyte_def abyte_def faddr_append ga)
  have off': "off_file fs' (xs @ [r])"
    unfolding off_file_def
  proof (intro allI impI)
    fix k assume "k < length (xs @ [r]) * cbytes fs'"
    note ff = fsect_facts(1,3) [OF vo ch this]
    have "winsect fs' \<noteq> fsect fs' (xs @ [r]) k" using ff(2) in1 by auto
    then show "unat (winsect fs') \<noteq> faddr fs' (xs @ [r]) k div SSn fs'" using ff(1) by (simp add: word_unat_eq_iff)
  qed
  have z: "unat (objsize (f_obj fp)) \<le> length xs * cbytes fs" and p: "unat (fptr fp) \<le> unat (objsize (f_obj fp))"
    using F(3,4) by (simp_all add: word_le_nat_alt)
  have cl: "buf fp i = dev_sect (pdrv fs') (f_sect fp) i"
    if "k < unat (objsize (f_obj fp))" "unat (f_sect fp) = faddr fs (xs @ [r]) k div SSn fs" "\<not> dirty fp" "i < SSn fs" for k i
  proof -
    have k: "k < length xs * cbytes fs" using that(1) z by simp
    have e: "unat (f_sect fp) = faddr fs xs k div SSn fs" using that(2) k by (simp add: faddr_append)
    then have "f_sect fp = fsect fs xs k" using fsect_facts(1) [OF F(1,2) k] by (simp add: word_unat_eq_iff)
    then show ?thesis using F(7) [OF that(1) e that(3,4)] os [OF k that(4)] by simp
  qed
  have dr: "\<exists>k<length (xs @ [r]) * cbytes fs. unat (f_sect fp) = faddr fs (xs @ [r]) k div SSn fs" if dy: "dirty fp"
  proof -
    obtain k where "k < length xs * cbytes fs" "unat (f_sect fp) = faddr fs xs k div SSn fs" using F(8) [OF dy] by blast
    then show ?thesis by (intro exI [of _ k]) (simp add: faddr_append algebra_simps)
  qed
  have cu: "f_clust fp = (xs @ [r]) ! ((unat (fptr fp) - 1) div cbytes fs)" if "0 < fptr fp"
  proof -
    have "0 < unat (fptr fp)" using that by (simp add: unat_gt_0 word_gt_0)
    then have "unat (fptr fp) - 1 < length xs * cbytes fs" using p z by simp
    then show ?thesis using F(5) [OF that] by (simp add: nth_append div_length)
  qed
  have fsx: "unat (f_sect fp) = faddr fs (xs @ [r]) (unat (fptr fp)) div SSn fs" if "unat (fptr fp) mod SSn fs \<noteq> 0"
  proof -
    have "length xs * cbytes fs mod SSn fs = 0" using vol_sizes(7) [OF F(1)] by simp
    then have "unat (fptr fp) \<noteq> length xs * cbytes fs" using that by auto
    then have "unat (fptr fp) < length xs * cbytes fs" using p z by simp
    then show ?thesis using F(6) [OF that] by (simp add: faddr_append)
  qed
  show "fil_ok fs' (start_at fp c) (xs @ [r])"
    using vo ch F(3,4) cu fsx cl dr off' by (intro fil_okI) (simp_all add: ga)
qed

text \<open>
  The cluster of a position on a cluster boundary, for writing: the next of the chain, or a
  new one.
\<close>

definition full :: "FATFS \<Rightarrow> bool" where
  "full fs \<longleftrightarrow> free_clst fs = 0 \<or> no_free fs"

definition write_clusted :: "FATFS \<Rightarrow> FIL \<Rightarrow> DWORD list \<Rightarrow> FATFS \<Rightarrow> FIL \<Rightarrow> bool" where
  "write_clusted fs fp xs fs' fp' \<longleftrightarrow>
     (\<exists>xs' c. fil_ok fs' (start_at fp c) xs' \<and> other_files fs xs fs' xs' \<and> unat (fptr fp) < length xs' * cbytes fs \<and>
        fp' = (start_at fp c)\<lparr>f_clust := xs' ! (unat (fptr fp) div cbytes fs)\<rparr> \<and>
        (\<forall>k<length xs * cbytes fs. fbyte fs' fp xs' k = fbyte fs fp xs k))"

lemma same_sclust: "start_at fp (sclust (f_obj fp)) = fp"
  by simp

lemma other_files_same:
  assumes v: "fat_vol fs" and sv: "same_vol fs fs'"
  shows "other_files fs xs fs' xs"
proof -
  have g: "geom_eq fs fs'" using sv by (rule same_volD)
  have e: "fat_entry fs' c = fat_entry fs c" if "c < n_fatent fs" for c
    using fat_entry_same_vol [OF fat_volD(1) [OF v] sv that] .
  have "is_chain (fat_entry fs') (n_fatent fs') d ds" if "is_chain (fat_entry fs) (n_fatent fs) d ds" for d ds
    using that is_chain_cong [of ds "fat_entry fs'" "fat_entry fs"] is_chain_range [OF that] e by (simp add: geom_eqD [OF g])
  then show ?thesis using g same_volD(2) [OF sv] by (auto simp: other_files_def vol_eq_def)
qed

lemma new_cluster:
  assumes f: "fil_ok fs fp xs" and p: "unat (fptr fp) = length xs * cbytes fs"
    and cc: "create_chain fs (f_obj fp) (last_of xs) = (r, fs', ob)"
  shows "ob = f_obj fp" "r = 0 \<Longrightarrow> same_vol fs fs' \<and> full fs \<and> wmove fs fs'"
    "r \<noteq> 0 \<Longrightarrow> r \<noteq> 1 \<Longrightarrow> r \<noteq> 0xFFFFFFFF \<Longrightarrow> c = (if sclust (f_obj fp) = 0 then r else sclust (f_obj fp)) \<Longrightarrow>
      write_clusted fs fp xs fs' ((start_at fp c)\<lparr>f_clust := r\<rparr>)"
proof -
  note F = fil_okD [OF f]
  have v: "fat_vol fs" using F(1) by (simp add: vol_ok_def)
  note lr = last_of_range [OF F(2)]
  then have l: "last_of xs = 0 \<or> 2 \<le> last_of xs \<and> last_of xs < n_fatent fs" by blast
  have new: "last_of xs = 0 \<or> n_fatent fs \<le> fat_entry fs (last_of xs)" using lr by blast
  note ok = create_chain_ok [OF v l cc] and w = create_chain_walk [OF v cc]
  show "ob = f_obj fp" by (rule ok(2))
  show "same_vol fs fs' \<and> full fs \<and> wmove fs fs'" if "r = 0"
    using ok(1) that w(1) by (auto simp: create_result_def full_def fat_walk_def linked_def)
  show "write_clusted fs fp xs fs' ((start_at fp c)\<lparr>f_clust := r\<rparr>)"
    if r: "r \<noteq> 0" "r \<noteq> 1" "r \<noteq> 0xFFFFFFFF" and c: "c = (if sclust (f_obj fp) = 0 then r else sclust (f_obj fp))"
  proof -
    have rr: "2 \<le> r" "r < n_fatent fs" using ok(1) r by (auto simp: create_result_def linked_def)
    have ln: "linked fs (last_of xs) r fs'" using create_result_linked [OF v ok(1) rr new] .
    obtain y fs1 where cs: "chain_start fs (f_obj fp) (last_of xs) = (y, fs1)" by fastforce
    have "\<exists>scl. y = Inr scl"
      using chain_start_end [OF v _ cs] lr create_chain_start(2) [OF v cs] cc r(3) by auto
    then have "in_fat1 fs' (winsect fs')" using w(3) [of _ fs1] cs rr by auto
    note gr = fil_ok_grow [OF f ln w(1) this c]
    have "(xs @ [r]) ! (unat (fptr fp) div cbytes fs) = r" using p vol_sizes(4) [OF F(1)] by simp
    moreover have "unat (fptr fp) < length (xs @ [r]) * cbytes fs" using p vol_sizes(4) [OF F(1)] by simp
    ultimately show ?thesis
      unfolding write_clusted_def using gr by (intro exI [of _ "xs @ [r]"] exI [of _ c]) simp
  qed
qed

lemma write_same_chain:
  assumes f: "fil_ok fs' fp xs" and sv: "same_vol fs fs'" "fat_vol fs" and p: "unat (fptr fp) < length xs * cbytes fs"
    and "\<And>k. k < length xs * cbytes fs \<Longrightarrow> fbyte fs' fp xs k = fbyte fs fp xs k"
  shows "write_clusted fs fp xs fs' (fp\<lparr>f_clust := xs ! (unat (fptr fp) div cbytes fs)\<rparr>)"
  unfolding write_clusted_def
  using assms other_files_same [OF sv(2,1)] by (intro exI [of _ xs] exI [of _ "sclust (f_obj fp)"]) simp

text \<open>Where the position lies in the chain, by its offset in its cluster.\<close>

lemma position_cases:
  assumes f: "fil_ok fs fp xs" and bd: "unat (fptr fp) mod SSn fs = 0"
  shows "sect_in_clust fs fp = 0 \<longleftrightarrow> unat (fptr fp) mod cbytes fs = 0"
    "unat (fptr fp) mod cbytes fs \<noteq> 0 \<Longrightarrow>
      unat (fptr fp) < length xs * cbytes fs \<and> f_clust fp = xs ! (unat (fptr fp) div cbytes fs)"
    "unat (fptr fp) mod cbytes fs = 0 \<Longrightarrow> fptr fp \<noteq> 0 \<Longrightarrow> 0 < unat (fptr fp) div cbytes fs \<and>
      unat (fptr fp) div cbytes fs \<le> length xs \<and> f_clust fp = xs ! (unat (fptr fp) div cbytes fs - 1)"
proof -
  note F = fil_okD [OF f]
  note z = vol_sizes [OF F(1)]
  define p where "p = unat (fptr fp)"
  have le: "p \<le> length xs * cbytes fs" using F(3,4) by (simp add: word_le_nat_alt p_def)
  have "SSn fs dvd p mod cbytes fs" using bd z(7) by (simp add: p_def dvd_mod dvd_eq_mod_eq_0 [symmetric])
  then have "p mod cbytes fs div SSn fs = 0 \<longleftrightarrow> p mod cbytes fs = 0" using z(1) by auto
  then show "sect_in_clust fs fp = 0 \<longleftrightarrow> unat (fptr fp) mod cbytes fs = 0"
    using sect_in_clust_nat(1) [OF F(1), of fp] by (simp add: p_def word_unat_eq_iff)
  show "unat (fptr fp) < length xs * cbytes fs \<and> f_clust fp = xs ! (unat (fptr fp) div cbytes fs)"
    if m: "unat (fptr fp) mod cbytes fs \<noteq> 0"
  proof -
    have "0 < p" "p \<noteq> length xs * cbytes fs" using m by (auto simp: p_def intro!: gr0I)
    moreover from this have "(p - 1) div cbytes fs = p div cbytes fs" using m by (cases p) (simp_all add: div_Suc p_def)
    ultimately show ?thesis using F(5) le by (simp add: p_def unat_gt_0 word_gt_0)
  qed
  show "0 < unat (fptr fp) div cbytes fs \<and> unat (fptr fp) div cbytes fs \<le> length xs \<and>
      f_clust fp = xs ! (unat (fptr fp) div cbytes fs - 1)" if m: "unat (fptr fp) mod cbytes fs = 0" "fptr fp \<noteq> 0"
  proof -
    have "0 < p" using m(2) by (simp add: p_def unat_gt_0)
    then have "(p - 1) div cbytes fs = p div cbytes fs - 1" "0 < p div cbytes fs"
      using m(1) z(4) by (cases p; simp add: div_Suc p_def)+
    moreover have "p div cbytes fs \<le> length xs" using div_le_mono [OF le, of "cbytes fs"] z(4) by simp
    ultimately show ?thesis using F(5) m(2) by (simp add: p_def word_gt_0)
  qed
qed

text \<open>The cluster the code looks for, on a cluster boundary.\<close>

definition next_for_write :: "FATFS \<Rightarrow> FIL \<Rightarrow> DWORD \<times> FATFS \<times> FFOBJID" where
  "next_for_write fs fp =
     (if fptr fp = 0 then
        if sclust (f_obj fp) = 0 then create_chain fs (f_obj fp) 0 else (sclust (f_obj fp), fs, f_obj fp)
      else create_chain fs (f_obj fp) (f_clust fp))"

lemma write_clust_next:
  "write_clust fs fp 0 =
     (case next_for_write fs fp of (clst, fs', ob) \<Rightarrow>
        if clst = 0 then (None, fs', fp\<lparr>f_obj := ob\<rparr>)
        else if clst = 1 then (Some FR_INT_ERR, fs', fp\<lparr>f_obj := ob\<rparr>)
        else if clst = 0xFFFFFFFF then (Some FR_DISK_ERR, fs', fp\<lparr>f_obj := ob\<rparr>)
        else (Some FR_OK, fs', fp\<lparr>f_obj := ob\<lparr>sclust := if sclust ob = 0 then clst else sclust ob\<rparr>, f_clust := clst\<rparr>))"
  by (simp add: write_clust_def next_for_write_def Let_def split: prod.splits)

lemma next_in_chain:
  assumes f: "fil_ok fs fp xs" and p: "unat (fptr fp) mod cbytes fs = 0" "unat (fptr fp) < length xs * cbytes fs"
    "unat (fptr fp) mod SSn fs = 0" and nx: "next_for_write fs fp = (r, fs', ob)"
  shows "ob = f_obj fp \<and> (r = 0xFFFFFFFF \<or> r = xs ! (unat (fptr fp) div cbytes fs) \<and> same_vol fs fs' \<and> wmove fs fs' \<and> 2 \<le> r \<and> r < n_fatent fs)"
proof -
  note F = fil_okD [OF f]
  have fv: "fat_vol fs" using F(1) by (simp add: vol_ok_def)
  define q where "q = unat (fptr fp) div cbytes fs"
  have q: "q < length xs" using div_length [OF p(2)] by (simp add: q_def)
  note x = chain_nth_range [OF F(2) q]
  have ch: "is_chain (fat_entry fs) (n_fatent fs) (sclust (f_obj fp)) xs" using F(2) x(3) by (simp add: file_chain_def)
  note nt = chain_nth [OF ch q]
  show ?thesis
  proof (cases "fptr fp = 0")
    case True
    then have "sclust (f_obj fp) = xs ! q" "sclust (f_obj fp) \<noteq> 0" using nt x by (auto simp: q_def)
    then show ?thesis using nx True x fv by (auto simp: next_for_write_def q_def fat_vol_def)
  next
    case False
    note ps = position_cases(3) [OF f p(3,1) False, folded q_def]
    define y where "y = xs ! (q - 1)"
    have y: "2 \<le> y" "y < n_fatent fs" "fat_entry fs y = xs ! q"
      using chain_nth_range [OF F(2), of "q - 1"] q ps nt by (auto simp: y_def)
    have cc: "create_chain fs (f_obj fp) y = (r, fs', ob)" using nx False ps by (simp add: next_for_write_def y_def)
    obtain w fs1 where cs: "chain_start fs (f_obj fp) y = (w, fs1)" by fastforce
    have "(w = Inl (xs ! q) \<or> w = Inl 0xFFFFFFFF) \<and> same_vol fs fs1" using chain_start_next [OF fv y(1,2) _ _ cs] y(3) x by simp
    then have "same_vol fs fs' \<and> (r = xs ! q \<or> r = 0xFFFFFFFF)" using cc create_chain_start(2) [OF fv cs] by auto
    moreover have "wmove fs fs'" "ob = f_obj fp" using create_chain_walk [OF fv cc] by (simp_all add: fat_walk_def)
    ultimately show ?thesis using x by (auto simp: q_def)
  qed
qed

lemma write_clust_ok:
  assumes f: "fil_ok fs fp xs" and bd: "unat (fptr fp) mod SSn fs = 0"
    and wc: "write_clust fs fp (sect_in_clust fs fp) = (res, fs', fp')"
  shows "case res of None \<Rightarrow> same_vol fs fs' \<and> full fs \<and> wmove fs fs' \<and> fp' = fp
    | Some e \<Rightarrow> if e = FR_OK then write_clusted fs fp xs fs' fp' else e = FR_INT_ERR \<or> e = FR_DISK_ERR"
proof -
  note F = fil_okD [OF f] and ps = position_cases [OF f bd]
  have fv: "fat_vol fs" using F(1) by (simp add: vol_ok_def)
  have sv0: "same_vol fs fs" using fv by (auto simp: fat_vol_def)
  define p where "p = unat (fptr fp)"
  have le: "p \<le> length xs * cbytes fs" using F(3,4) by (simp add: word_le_nat_alt p_def)
  show ?thesis
  proof (cases "p mod cbytes fs = 0")
    case False
    then have "write_clusted fs fp xs fs (fp\<lparr>f_clust := xs ! (p div cbytes fs)\<rparr>)"
      using write_same_chain [OF f sv0 fv] ps(2) by (simp add: p_def)
    moreover have "fp\<lparr>f_clust := xs ! (p div cbytes fs)\<rparr> = fp" using ps(2) False by (simp add: p_def)
    ultimately show ?thesis using wc ps(1) False by (auto simp: write_clust_def p_def)
  next
    case True
    obtain r fs1 ob where nx: "next_for_write fs fp = (r, fs1, ob)" by (metis prod_cases3)
    note wn = wc [unfolded ps(1) [THEN iffD2, OF True [unfolded p_def]] write_clust_next nx prod.case]
    show ?thesis
    proof (cases "p < length xs * cbytes fs")
      case lt: True
      note nc = next_in_chain [OF f True [unfolded p_def] lt [unfolded p_def] bd nx]
      have "xs \<noteq> []" using lt by auto
      then have "sclust (f_obj fp) \<noteq> 0" using F(2) by (auto simp: file_chain_def)
      moreover have "r \<noteq> 0 \<and> r \<noteq> 1" if "2 \<le> r" using that by auto
      moreover have "write_clusted fs fp xs fs1 (fp\<lparr>f_clust := xs ! (p div cbytes fs)\<rparr>)" if "same_vol fs fs1" "wmove fs fs1"
        using write_same_chain [OF fil_ok_same(1) [OF f that] that(1) fv] fil_ok_same(2) [OF f that] lt by (simp add: p_def)
      ultimately show ?thesis using wn nc by (auto simp: p_def split: if_splits)
    next
      case False
      then have pe: "unat (fptr fp) = length xs * cbytes fs" using le by (simp add: p_def)
      have "create_chain fs (f_obj fp) (last_of xs) = (r, fs1, ob)"
      proof (cases "xs = []")
        case True
        then have "fptr fp = 0" "sclust (f_obj fp) = 0" using pe F(2) by (auto simp: unat_eq_0 file_chain_def split: if_splits)
        then show ?thesis using nx True by (simp add: next_for_write_def last_of_def)
      next
        case ne: False
        then have "fptr fp \<noteq> 0" using pe vol_sizes(4) [OF F(1)] by (auto simp: unat_eq_0)
        then show ?thesis using nx ne ps(3) pe vol_sizes(4) [OF F(1)] by (simp add: next_for_write_def last_of_def last_conv_nth)
      qed
      note nw = new_cluster [OF f pe this]
      show ?thesis using wn nw by (auto split: if_splits)
    qed
  qed
qed

section \<open>Distinct positions lie at distinct addresses\<close>

lemma faddr_nat:
  assumes v: "vol_ok fs" and ch: "file_chain fs c xs" and k: "k < length xs * cbytes fs"
  shows "faddr fs xs k = unat (database fs) * SSn fs + ((unat (xs ! (k div cbytes fs)) - 2) * cbytes fs + k mod cbytes fs)"
proof -
  have l: "layout_ok fs" using v by (rule vol_ok_vol)
  have x: "2 \<le> xs ! (k div cbytes fs)" "xs ! (k div cbytes fs) < n_fatent fs"
    using chain_nth_range [OF ch div_length [OF k]] by simp_all
  then show ?thesis
    using unat_cluster_sector(1) [OF l x, of 0] vol_sizes(3) [OF v] by (simp add: faddr_def cbytes_def algebra_simps)
qed

lemma faddr_inj:
  assumes v: "vol_ok fs" and ch: "file_chain fs c xs" and k: "k < length xs * cbytes fs" "j < length xs * cbytes fs"
    and eq: "faddr fs xs k = faddr fs xs j"
  shows "k = j"
proof -
  define n where "n = cbytes fs"
  define x y where "x = unat (xs ! (k div n)) - 2" and "y = unat (xs ! (j div n)) - 2"
  have n: "0 < n" using vol_sizes(4) [OF v] by (simp add: n_def)
  have e: "x * n + k mod n = y * n + j mod n"
    using eq faddr_nat [OF v ch k(1)] faddr_nat [OF v ch k(2)] by (simp add: x_def y_def n_def)
  have "(x * n + k mod n) div n = (y * n + j mod n) div n" "(x * n + k mod n) mod n = (y * n + j mod n) mod n" using e by simp_all
  then have xy: "x = y" and m: "k mod n = j mod n" using n by simp_all
  have q: "k div n < length xs" "j div n < length xs" using k by (simp_all add: n_def div_length)
  have r: "2 \<le> unat (xs ! (k div n))" "2 \<le> unat (xs ! (j div n))"
    using chain_nth_range(1) [OF ch q(1)] chain_nth_range(1) [OF ch q(2)] by (simp_all add: word_le_nat_alt)
  then have "unat (xs ! (k div n)) = unat (xs ! (j div n))" using xy unfolding x_def y_def by linarith
  then have "xs ! (k div n) = xs ! (j div n)" by (simp add: word_unat_eq_iff)
  moreover have "distinct xs" using ch is_chain_distinct by (auto simp: file_chain_def split: if_splits)
  ultimately have "k div n = j div n" using q nth_eq_iff_index_eq by blast
  then show ?thesis using m by (metis div_mult_mod_eq)
qed

text \<open>Which positions of the file a run of \<open>n\<close> bytes inside a cluster covers.\<close>

lemma faddr_run:
  assumes v: "vol_ok fs" and ch: "file_chain fs c xs" and p: "p < length xs * cbytes fs" "p mod cbytes fs + n \<le> cbytes fs"
    and k: "k < length xs * cbytes fs"
  shows "faddr fs xs p \<le> faddr fs xs k \<and> faddr fs xs k < faddr fs xs p + n \<longleftrightarrow> p \<le> k \<and> k < p + n"
    "p \<le> k \<Longrightarrow> k < p + n \<Longrightarrow> faddr fs xs k - faddr fs xs p = k - p"
    "p + n \<le> length xs * cbytes fs"
proof -
  have n: "0 < cbytes fs" using vol_sizes(4) [OF v] .
  have ad: "faddr fs xs (p + t) = faddr fs xs p + t" if "t < n" for t using that p(2) by (intro faddr_add) simp
  have "p div cbytes fs + 1 \<le> length xs" using div_length [OF p(1)] by simp
  then have "(p div cbytes fs + 1) * cbytes fs \<le> length xs * cbytes fs" by (rule mult_le_mono1)
  then have "p div cbytes fs * cbytes fs + cbytes fs \<le> length xs * cbytes fs" by simp
  then show le: "p + n \<le> length xs * cbytes fs" using p(2) div_mult_mod_eq [of p "cbytes fs"] by linarith
  show "faddr fs xs p \<le> faddr fs xs k \<and> faddr fs xs k < faddr fs xs p + n \<longleftrightarrow> p \<le> k \<and> k < p + n"
  proof
    assume a: "faddr fs xs p \<le> faddr fs xs k \<and> faddr fs xs k < faddr fs xs p + n"
    define t where "t = faddr fs xs k - faddr fs xs p"
    have t: "t < n" "faddr fs xs k = faddr fs xs (p + t)" using a ad [of t] by (auto simp: t_def)
    have "k = p + t" using faddr_inj [OF v ch k _ t(2)] t(1) le by simp
    then show "p \<le> k \<and> k < p + n" using t(1) by simp
  next
    assume "p \<le> k \<and> k < p + n"
    then show "faddr fs xs p \<le> faddr fs xs k \<and> faddr fs xs k < faddr fs xs p + n" using ad [of "k - p"] by auto
  qed
  show "faddr fs xs k - faddr fs xs p = k - p" if "p \<le> k" "k < p + n" using ad [of "k - p"] that by auto
qed

section \<open>Writing into the clusters of a file\<close>

text \<open>
  What a step has written: \<open>n\<close> bytes of \<open>src\<close> from offset \<open>bw\<close> on stand at the position; the other
  bytes up to the end of the file are as before, and so is the rest of the volume.
\<close>

definition wrote ::
  "FATFS \<Rightarrow> FIL \<Rightarrow> DWORD list \<Rightarrow> mem \<Rightarrow> nat \<Rightarrow> nat \<Rightarrow> FATFS \<Rightarrow> FIL \<Rightarrow> DWORD list \<Rightarrow> bool"
where
  "wrote fs fp xs src bw n fs' fp' xs' \<longleftrightarrow>
     other_files fs xs fs' xs' \<and>
     (\<forall>t<n. fbyte fs' fp' xs' (unat (fptr fp) + t) = src (bw + t)) \<and>
     (\<forall>k<unat (objsize (f_obj fp)). k < unat (fptr fp) \<or> unat (fptr fp) + n \<le> k \<longrightarrow>
        fbyte fs' fp' xs' k = fbyte fs fp xs k)"

lemma other_files_data:
  assumes g: "geom_eq fs (fs\<lparr>pdrv := d\<rparr>)" and e: "\<And>c. c < n_fatent fs \<Longrightarrow> fat_entry (fs\<lparr>pdrv := d\<rparr>) c = fat_entry fs c"
    and s: "\<And>s i. i < SSn fs \<Longrightarrow> \<not> sect_of fs xs s \<Longrightarrow> dev_sect d s i = dev_sect (pdrv fs) s i"
  shows "other_files fs xs (fs\<lparr>pdrv := d\<rparr>) xs"
proof -
  have "is_chain (fat_entry (fs\<lparr>pdrv := d\<rparr>)) (n_fatent fs) c ds" if "is_chain (fat_entry fs) (n_fatent fs) c ds" for c ds
    using that is_chain_cong [of ds "fat_entry (fs\<lparr>pdrv := d\<rparr>)" "fat_entry fs"] is_chain_range [OF that] e by simp
  then show ?thesis using g s by (auto simp: other_files_def lsect_def)
qed

lemma sect_of_fsect:
  assumes "vol_ok fs" "file_chain fs c xs" "k < length xs * cbytes fs"
  shows "sect_of fs xs (fsect fs xs k)"
  using fsect_facts(1) [OF assms] assms(3) by (auto simp: sect_of_def)

lemma dirty_set [simp]: "dirty (fp\<lparr>flag := x OR 128\<rparr>)"
proof -
  have "bit ((x OR 128) AND 128) 7" for x :: BYTE
    using bit_mask_consts by (simp add: bit_simps)
  then have "(x OR 128) AND 128 \<noteq> (0 :: BYTE)" for x by (metis bit_0_eq bot_apply bot_bool_def)
  then show ?thesis by (simp add: dirty_def)
qed

lemma fil_ok_resize:
  assumes f: "fil_ok fs fp xs" and z: "objsize (f_obj fp) \<le> z" "unat z \<le> length xs * cbytes fs"
    and b: "\<And>k i. unat (objsize (f_obj fp)) \<le> k \<Longrightarrow> k < unat z \<Longrightarrow> unat (f_sect fp) = faddr fs xs k div SSn fs \<Longrightarrow>
      \<not> dirty fp \<Longrightarrow> i < SSn fs \<Longrightarrow> buf fp i = dev_sect (pdrv fs) (f_sect fp) i"
  shows "fil_ok fs (fp\<lparr>f_obj := (f_obj fp)\<lparr>objsize := z\<rparr>\<rparr>) xs"
proof -
  note F = fil_okD [OF f]
  have "buf fp i = dev_sect (pdrv fs) (f_sect fp) i"
    if "k < unat z" "unat (f_sect fp) = faddr fs xs k div SSn fs" "\<not> dirty fp" "i < SSn fs" for k i
    using F(7) [OF _ that(2-4)] b [OF _ that] by (cases "k < unat (objsize (f_obj fp))") auto
  then show ?thesis using F z by (intro fil_okI) (simp_all add: order_trans [OF F(4) z(1)])
qed

text \<open>Bytes put into the sector buffer.\<close>

lemma write_part:
  assumes f: "fil_ok fs fp xs" and s: "unat (f_sect fp) = faddr fs xs (unat (fptr fp)) div SSn fs"
    and p: "unat (fptr fp) < length xs * cbytes fs" and m: "unat (fptr fp) mod SSn fs + m \<le> SSn fs"
    and fp': "fp' = fp\<lparr>buf := mem_cpy (buf fp) (unat (fptr fp) mod SSn fs) src bw m, flag := flag fp OR FA_DIRTY\<rparr>"
  shows "fil_ok fs fp' xs" "wrote fs fp xs src bw m fs fp' xs"
proof -
  note F = fil_okD [OF f]
  note z = vol_sizes [OF F(1)]
  define p where "p = unat (fptr fp)"
  have e: "f_obj fp' = f_obj fp" "fptr fp' = fptr fp" "f_sect fp' = f_sect fp" "f_clust fp' = f_clust fp" "dirty fp'"
    by (simp_all add: fp')
  show "fil_ok fs fp' xs"
    using F s p e by (intro fil_okI) auto
  have pm: "faddr fs xs p mod SSn fs = p mod SSn fs" using fsect_facts(2) [OF F(1,2)] p by (simp add: p_def)
  have ad: "faddr fs xs (p + t) div SSn fs = unat (f_sect fp) \<and> faddr fs xs (p + t) mod SSn fs = p mod SSn fs + t" if "t < m" for t
  proof -
    have lt: "p mod SSn fs + t < SSn fs" using that m by (simp add: p_def)
    then have "p mod SSn fs + Suc t \<le> SSn fs" by simp
    from sector_in_cluster [OF F(1) this] have "faddr fs xs (p + t) = faddr fs xs p + t" by (intro faddr_add) simp
    then show ?thesis using block_add [of "faddr fs xs p" "SSn fs" t, unfolded pm, OF lt] s by (simp add: p_def)
  qed
  have new: "fbyte fs fp' xs (p + t) = src (bw + t)" if "t < m" for t
    using ad [OF that] that e(5) by (simp add: fbyte_def abyte_def e(3)) (simp add: fp' p_def)
  have old: "fbyte fs fp' xs k = fbyte fs fp xs k" if k: "k < unat (objsize (f_obj fp))" "k < p \<or> p + m \<le> k" for k
  proof (cases "faddr fs xs k div SSn fs = unat (f_sect fp)")
    case False
    then show ?thesis by (simp add: fbyte_def abyte_def e(3))
  next
    case True
    have kl: "k < length xs * cbytes fs" using k(1) F(3) by simp
    have km: "faddr fs xs k mod SSn fs = k mod SSn fs" using fsect_facts(2) [OF F(1,2) kl] .
    have out: "k mod SSn fs < p mod SSn fs \<or> p mod SSn fs + m \<le> k mod SSn fs"
    proof (rule ccontr)
      assume "\<not> (k mod SSn fs < p mod SSn fs \<or> p mod SSn fs + m \<le> k mod SSn fs)"
      then obtain t where t: "t < m" "k mod SSn fs = p mod SSn fs + t"
        by (metis add_less_cancel_left le_iff_add not_less)
      have "faddr fs xs k = faddr fs xs (p + t)"
        using ad [OF t(1)] True km t(2) by (metis div_mult_mod_eq)
      moreover have "p mod cbytes fs + m \<le> cbytes fs" using sector_in_cluster [OF F(1)] m by (simp add: p_def)
      then have "p + m \<le> length xs * cbytes fs" using faddr_run(3) [OF F(1,2)] p kl by (simp add: p_def)
      then have "p + t < length xs * cbytes fs" using t(1) by simp
      ultimately have "k = p + t" using faddr_inj [OF F(1,2) kl] by blast
      then show False using k(2) t(1) by simp
    qed
    have b: "buf fp' (k mod SSn fs) = buf fp (k mod SSn fs)" using out by (auto simp: fp' p_def)
    have "buf fp (k mod SSn fs) = abyte fs fp (faddr fs xs k)"
    proof (cases "dirty fp")
      case dy: True
      then show ?thesis using True km by (simp add: abyte_def)
    next
      case False
      have "buf fp (k mod SSn fs) = dev_sect (pdrv fs) (f_sect fp) (k mod SSn fs)"
        using F(7) [OF k(1) True [symmetric] False] z(1) by simp
      moreover have "unat (f_sect fp) * SSn fs + k mod SSn fs = faddr fs xs k"
        using div_mult_mod_eq [of "faddr fs xs k" "SSn fs"] True km by simp
      ultimately show ?thesis using False z(5) by (simp add: abyte_def dev_sect_def)
    qed
    then show ?thesis using b True km e(5) by (simp add: fbyte_def abyte_def [of fs fp'] e(3))
  qed
  show "wrote fs fp xs src bw m fs fp' xs" using new old by (simp add: wrote_def p_def)
qed

text \<open>Sectors of the file from the position on, written past the buffer.\<close>

lemma run_sector:
  fixes i :: nat
  assumes "0 < ss" "i < ss"
  shows "(a * ss \<le> s * ss + i \<and> s * ss + i < a * ss + c * ss) = (a \<le> s \<and> s < a + c)"
proof -
  have "(s * ss + i) div ss = s" using assms by simp
  moreover have "a * ss \<le> s * ss + i \<longleftrightarrow> a \<le> (s * ss + i) div ss" using assms by (simp only: less_eq_div_iff_mult_less_eq)
  moreover have "s * ss + i < (a + c) * ss \<longleftrightarrow> (s * ss + i) div ss < a + c" using assms by (simp only: div_less_iff_less_mult)
  ultimately show ?thesis by (simp only: add_mult_distrib)
qed

lemma write_run:
  assumes v: "vol_ok fs" and ch: "file_chain fs c xs" and off: "off_file fs xs" and p: "p < length xs * cbytes fs"
    and bd: "p mod SSn fs = 0" and n: "n = unat cc * SSn fs" "p mod cbytes fs + n \<le> cbytes fs"
    and wr: "disk_write (pdrv fs) (sub_buf src bw) (fsect fs xs p) cc = (RES_OK, d)"
  shows "d_bytes d b = (if faddr fs xs p \<le> b \<and> b < faddr fs xs p + n then src (bw + (b - faddr fs xs p)) else d_bytes (pdrv fs) b)"
    and "i < SSn fs \<Longrightarrow> dev_sect d s i =
      (if unat (fsect fs xs p) \<le> unat s \<and> unat s < unat (fsect fs xs p) + unat cc
       then src (bw + (unat s - unat (fsect fs xs p)) * SSn fs + i) else dev_sect (pdrv fs) s i)"
    and "fat_vol (fs\<lparr>pdrv := d\<rparr>)" "geom_eq fs (fs\<lparr>pdrv := d\<rparr>)" "other_files fs xs (fs\<lparr>pdrv := d\<rparr>) xs"
    and "e < n_fatent fs \<Longrightarrow> fat_entry (fs\<lparr>pdrv := d\<rparr>) e = fat_entry fs e"
proof -
  note z = vol_sizes [OF v]
  define q where "q = unat (fsect fs xs p)"
  have ss: "0 < SSn fs" using z(1) by simp
  have a: "q * SSn fs = faddr fs xs p" using faddr_split [OF v ch p] bd by (simp add: q_def)
  have sd: "same_device (pdrv fs) d" using disk_write_same [OF wr] .
  have dss: "unat (d_sector_size d) = SSn fs" using sd z(5) by (simp add: same_device_def)
  show db: "d_bytes d b = (if faddr fs xs p \<le> b \<and> b < faddr fs xs p + n then src (bw + (b - faddr fs xs p)) else d_bytes (pdrv fs) b)" for b
    using disk_write_bytes [OF wr, of b] z(5) by (simp add: q_def [symmetric] a add_mult_distrib n sub_buf_def)
  show ds: "dev_sect d s i = (if unat (fsect fs xs p) \<le> unat s \<and> unat s < unat (fsect fs xs p) + unat cc
      then src (bw + (unat s - unat (fsect fs xs p)) * SSn fs + i) else dev_sect (pdrv fs) s i)" if "i < SSn fs" for s i
  proof -
    note r = run_sector [OF ss that, of q "unat s" "unat cc"]
    have "bw + (unat s * SSn fs + i - q * SSn fs) = bw + (unat s - q) * SSn fs + i" if "q \<le> unat s"
    proof -
      have "unat s * SSn fs + i - q * SSn fs = unat s * SSn fs - q * SSn fs + i"
        using mult_le_mono1 [OF that, of "SSn fs"] by linarith
      then show ?thesis by (simp only: diff_mult_distrib add.assoc)
    qed
    then show ?thesis using db [of "unat s * SSn fs + i"] r z(5) dss by (simp add: dev_sect_def q_def [symmetric] a [symmetric] n add.assoc)
  qed
  have sec: "sect_of fs xs s" if s: "q \<le> unat s" "unat s < q + unat cc" for s
  proof -
    define t where "t = (unat s - q) * SSn fs"
    have "unat s - q < unat cc" using s by linarith
    then have tn: "t < n" unfolding t_def n using ss by (rule mult_less_mono1)
    then have "faddr fs xs (p + t) = q * SSn fs + t" using n(2) faddr_add [of p fs t xs] a by simp
    also have "\<dots> = unat s * SSn fs" using s(1) by (simp add: t_def flip: add_mult_distrib)
    finally have "faddr fs xs (p + t) div SSn fs = unat s" using ss by simp
    moreover have "p + t < length xs * cbytes fs" using faddr_run(3) [OF v ch p n(2) p] tn by simp
    ultimately show ?thesis by (auto simp: sect_of_def)
  qed
  have no: "dev_sect d s i = dev_sect (pdrv fs) s i" if "i < SSn fs" "\<not> sect_of fs xs s" for s i
    using ds [OF that(1), of s] that(2) sec by (auto simp: q_def)
  have fs: "\<not> sect_of fs xs s" if "s = winsect fs \<or> in_fat1 fs s" for s
  proof
    assume "sect_of fs xs s"
    then obtain k where k: "k < length xs * cbytes fs" "unat s = faddr fs xs k div SSn fs" by (auto simp: sect_of_def)
    then have "s = fsect fs xs k" using fsect_facts(1) [OF v ch k(1)] by (simp add: word_unat_eq_iff)
    then show False using that k off fsect_facts(3) [OF v ch k(1)] by (auto simp: off_file_def)
  qed
  note dw = data_write_vol [OF vol_ok_vol(1) [OF v] sd no [OF _ fs]]
  show "fat_vol (fs\<lparr>pdrv := d\<rparr>)" "geom_eq fs (fs\<lparr>pdrv := d\<rparr>)"
    "e < n_fatent fs \<Longrightarrow> fat_entry (fs\<lparr>pdrv := d\<rparr>) e = fat_entry fs e" for e by (rule dw; simp)+
  show "other_files fs xs (fs\<lparr>pdrv := d\<rparr>) xs" by (rule other_files_data [OF dw(2)]) (use dw(3) no in auto)
qed

lemma write_whole:
  assumes f: "fil_ok fs fp xs" and cl: "\<not> dirty fp" and p: "unat (fptr fp) < length xs * cbytes fs"
    and bd: "unat (fptr fp) mod SSn fs = 0" and gt: "0 < btw div SS fs"
    and cc: "cc = (if sect_in_clust fs fp + btw div SS fs > ucast (csize fs)
      then ucast (csize fs) - sect_in_clust fs fp else btw div SS fs)"
    and wr: "disk_write (pdrv fs) (sub_buf src bw) (fsect fs xs (unat (fptr fp))) cc = (RES_OK, d)"
    and fp': "fp' = (if f_sect fp - fsect fs xs (unat (fptr fp)) < cc
      then fp\<lparr>buf := mem_cpy (buf fp) 0 src (bw + unat ((f_sect fp - fsect fs xs (unat (fptr fp))) * SS fs)) (SSn fs),
              flag := flag fp AND (NOT FA_DIRTY)\<rparr> else fp)"
  shows "fil_ok (fs\<lparr>pdrv := d\<rparr>) fp' xs" "wrote fs fp xs src bw (unat (SS fs * cc)) (fs\<lparr>pdrv := d\<rparr>) fp' xs" "\<not> dirty fp'"
    "\<And>k i. unat (fptr fp) \<le> k \<Longrightarrow> k < unat (fptr fp) + unat (SS fs * cc) \<Longrightarrow> unat (f_sect fp') = faddr fs xs k div SSn fs \<Longrightarrow>
      i < SSn fs \<Longrightarrow> buf fp' i = dev_sect d (f_sect fp') i"
proof -
  note F = fil_okD [OF f]
  note z = vol_sizes [OF F(1)] and sc = sector_count [OF F(1) bd gt cc]
  define p where "p = unat (fptr fp)"
  define q where "q = unat (fsect fs xs p)"
  define n where "n = unat cc * SSn fs"
  let ?fs = "fs\<lparr>pdrv := d\<rparr>"
  have k: "p < length xs * cbytes fs" using p by (simp add: p_def)
  have pn: "p mod cbytes fs + n \<le> cbytes fs" using sc(3) by (simp add: p_def n_def)
  note wrn = write_run [OF F(1,2,9) k bd [folded p_def] n_def pn wr [folded p_def]]
  note run = faddr_run [OF F(1,2) k pn] and ga = geom_addr [OF wrn(4)]
  have un: "unat (SS fs * cc) = n" using sc(4) by (simp add: n_def)
  have top: "q + unat cc < 2 ^ 32" using cluster_top(1) [OF F(1,2) p sc(5)] by (simp add: q_def p_def)
  note so = sector_offset [of "fsect fs xs p" cc, folded q_def, OF top]
  have e: "f_obj fp' = f_obj fp" "fptr fp' = fptr fp" "f_sect fp' = f_sect fp" "f_clust fp' = f_clust fp" "\<not> dirty fp'"
    using cl by (auto simp: fp')
  show "\<not> dirty fp'" by (rule e)
  have hit: "buf fp' i = dev_sect d (f_sect fp) i" if i: "i < SSn fs" and h: "q \<le> unat (f_sect fp)" "unat (f_sect fp) < q + unat cc" for i
  proof -
    have o: "f_sect fp - fsect fs xs p < cc" "unat (f_sect fp - fsect fs xs p) = unat (f_sect fp) - q" using so h by blast+
    have "(unat (f_sect fp) - q) * SSn fs < 2 ^ 32"
    proof -
      have "(unat (f_sect fp) - q) * SSn fs \<le> unat cc * SSn fs" using h by (intro mult_le_mono1) simp
      moreover have "unat cc * SSn fs < 2 ^ 32" using sc(4) unat_dword_less [of "SS fs * cc"] by simp
      ultimately show ?thesis by (rule le_less_trans)
    qed
    then have "unat ((f_sect fp - fsect fs xs p) * SS fs) = (unat (f_sect fp) - q) * SSn fs"
      using o(2) by (simp add: unat_word_ariths(2))
    then show ?thesis using o(1) i wrn(2) [OF i, of "f_sect fp"] h by (simp add: fp' p_def [symmetric] q_def)
  qed
  have miss: "buf fp' = buf fp" "dev_sect d (f_sect fp) i = dev_sect (pdrv fs) (f_sect fp) i"
    if "i < SSn fs" "\<not> (q \<le> unat (f_sect fp) \<and> unat (f_sect fp) < q + unat cc)" for i
    using that so(1) wrn(2) [OF that(1), of "f_sect fp"] by (auto simp: fp' p_def q_def)
  have ck: "buf fp' i = dev_sect d (f_sect fp) i"
    if "j < unat (objsize (f_obj fp))" "unat (f_sect fp) = faddr fs xs j div SSn fs" "i < SSn fs" for i j
    using hit [OF that(3)] miss [OF that(3)] F(7) [OF that(1,2) cl that(3)] by metis
  have ch': "file_chain ?fs (sclust (f_obj fp)) xs" using F(2) file_chain_cong [OF wrn(4,6)] by simp
  have off: "off_file ?fs xs" using F(9) by (simp add: off_file_def ga)
  show "fil_ok ?fs fp' xs"
    using vol_ok_geom [OF F(1) wrn(4,3)] ch' F(3-6) ck e off by (intro fil_okI) (simp_all add: ga)
  show "buf fp' i = dev_sect d (f_sect fp') i"
    if j: "unat (fptr fp) \<le> j" "j < unat (fptr fp) + unat (SS fs * cc)" "unat (f_sect fp') = faddr fs xs j div SSn fs" "i < SSn fs" for i j
  proof -
    have jl: "j < length xs * cbytes fs" using run(3) [OF k] j(2) by (simp add: p_def un)
    have a: "q * SSn fs = faddr fs xs p" using faddr_split [OF F(1,2) k] bd by (simp add: q_def p_def)
    have "faddr fs xs p \<le> faddr fs xs j \<and> faddr fs xs j < faddr fs xs p + n" using run(1) [OF jl] j by (simp add: p_def un)
    moreover have "faddr fs xs j = unat (f_sect fp) * SSn fs + faddr fs xs j mod SSn fs" using j(3) e(3) by simp
    ultimately have "q \<le> unat (f_sect fp) \<and> unat (f_sect fp) < q + unat cc"
      using run_sector [of "SSn fs" "faddr fs xs j mod SSn fs" q "unat (f_sect fp)" "unat cc"] z(1) by (simp add: a n_def)
    then show ?thesis using hit [OF j(4)] e(3) by simp
  qed
  have fb: "fbyte ?fs fp' xs j = (if p \<le> j \<and> j < p + n then src (bw + (j - p)) else fbyte fs fp xs j)"
    if "j < length xs * cbytes fs" for j
    using run(1,2) [OF that] wrn(1) [of "faddr fs xs j"] cl e(5) by (simp add: fbyte_def abyte_def ga)
  have "fbyte ?fs fp' xs (p + t) = src (bw + t)" if "t < n" for t using fb [of "p + t"] run(3) [OF k] that by simp
  moreover have "fbyte ?fs fp' xs j = fbyte fs fp xs j" if "j < unat (objsize (f_obj fp))" "j < p \<or> p + n \<le> j" for j
    using fb [of j] that F(3) by auto
  ultimately show "wrote fs fp xs src bw (unat (SS fs * cc)) ?fs fp' xs" using wrn(5) by (simp add: wrote_def un p_def)
qed

section \<open>One step of a write\<close>

text \<open>
  The state once the cluster of the position is in the chain and the buffer is clean; nothing of
  the contents has changed.
\<close>

definition prepared :: "FATFS \<Rightarrow> FIL \<Rightarrow> DWORD list \<Rightarrow> FATFS \<Rightarrow> FIL \<Rightarrow> DWORD list \<Rightarrow> bool" where
  "prepared fs fp xs fs' fp' xs' \<longleftrightarrow>
     fil_ok fs' fp' xs' \<and> fptr fp' = fptr fp \<and> objsize (f_obj fp') = objsize (f_obj fp) \<and>
     unat (fptr fp) < length xs' * cbytes fs' \<and> other_files fs xs fs' xs' \<and>
     (\<forall>k<unat (objsize (f_obj fp)). fbyte fs' fp' xs' k = fbyte fs fp xs k)"

lemma wrote_prepared:
  assumes a: "prepared fs fp xs fs1 fp1 xs1" and b: "wrote fs1 fp1 xs1 src bw n fs2 fp2 xs2"
  shows "wrote fs fp xs src bw n fs2 fp2 xs2"
  using assms other_files_trans by (auto simp: prepared_def wrote_def)

lemma flush_other:
  assumes f: "fil_ok fs fp xs" and fb: "flush_buf fs fp = (True, fs', fp')"
  shows "other_files fs xs fs' xs"
proof -
  note F = fil_okD [OF f] and fl = flush_buf_ok [OF f fb]
  note z = vol_sizes [OF F(1)]
  obtain d where fs': "fs' = fs\<lparr>pdrv := d\<rparr>"
  proof (cases "dirty fp")
    case True
    then show ?thesis using fb that by (auto simp: flush_buf_def dirty_def Let_def split: if_splits prod.splits)
  next
    case False
    then have "fs' = fs\<lparr>pdrv := pdrv fs\<rparr>" using fb by (simp add: flush_buf_def dirty_def)
    then show ?thesis using that by blast
  qed
  have dss: "unat (d_sector_size d) = SSn fs" using vol_sizes(5) [OF vol_ok_geom [OF F(1) fl(4,3)]] geom_addr(3) [OF fl(4)] by (simp add: fs')
  have "dev_sect d s i = dev_sect (pdrv fs) s i" if i: "i < SSn fs" "\<not> sect_of fs xs s" for s i
  proof -
    have "\<not> (dirty fp \<and> unat s = unat (f_sect fp))" using F(8) i(2) by (auto simp: sect_of_def)
    then show ?thesis using fl(7) [of "unat s * SSn fs + i"] i(1) z(1,5) dss by (auto simp: dev_sect_def fs' abyte_def)
  qed
  then show ?thesis using fl(4,6) unfolding fs' by (intro other_files_data) auto
qed

lemma prepared_flush:
  assumes c: "write_clusted fs fp xs fs1 fp1" and zz: "unat (objsize (f_obj fp)) \<le> length xs * cbytes fs" and fb: "flush_buf fs1 fp1 = (True, fs2, fp2)"
  shows "\<exists>fp3 xs'. prepared fs fp xs fs2 fp3 xs' \<and> \<not> dirty fp3 \<and> fp2 = fp3\<lparr>f_clust := xs' ! (unat (fptr fp) div cbytes fs2)\<rparr>"
proof -
  obtain xs' c where f1: "fil_ok fs1 (start_at fp c) xs'" and o1: "other_files fs xs fs1 xs'"
    and p: "unat (fptr fp) < length xs' * cbytes fs" and fp1: "fp1 = (start_at fp c)\<lparr>f_clust := xs' ! (unat (fptr fp) div cbytes fs)\<rparr>"
    and b1: "\<And>k. k < length xs * cbytes fs \<Longrightarrow> fbyte fs1 fp xs' k = fbyte fs fp xs k"
    using c by (auto simp: write_clusted_def)
  obtain ok fs3 fp3 where fl: "flush_buf fs1 (start_at fp c) = (ok, fs3, fp3)" by (metis prod_cases3)
  have e: "ok" "fs3 = fs2" "fp2 = fp3\<lparr>f_clust := xs' ! (unat (fptr fp) div cbytes fs)\<rparr>"
    using fb fl by (simp_all add: fp1 flush_buf_clust)
  note fl = fl [unfolded e(2) e(1) [THEN eqTrueI]]
  note f2 = fil_ok_flush [OF f1 fl] and fo = flush_buf_ok [OF f1 fl]
  note g1 = geom_addr [OF other_filesD(2) [OF o1]] and g2 = geom_addr [OF fo(4)]
  have "fptr fp3 = fptr fp" "objsize (f_obj fp3) = objsize (f_obj fp)" using fo(2) by auto
  moreover have "fbyte fs2 fp3 xs' k = fbyte fs fp xs k" if "k < unat (objsize (f_obj fp))" for k
    using f2(2) b1 [of k] that zz by (simp add: fbyte_def [of fs2] g2 flip: fbyte_def)
  ultimately have "prepared fs fp xs fs2 fp3 xs'"
    using f2(1) p other_files_trans [OF o1 flush_other [OF f1 fl]] by (simp add: prepared_def g1 g2)
  then show ?thesis using fo(1) e(3) by (auto simp: g1 g2)
qed

definition write_here ::
  "FATFS \<Rightarrow> FIL \<Rightarrow> LBA \<Rightarrow> UINT \<Rightarrow> mem \<Rightarrow> UINT \<Rightarrow> UINT \<Rightarrow> (FRESULT option + UINT option) \<times> FATFS \<times> FIL"
where
  "write_here fs fp sect csect src bw btw =
     (let cc = btw div SS fs in
      if cc > 0 then
        let cc = (if csect + cc > ucast (csize fs) then ucast (csize fs) - csect else cc) in
        (case disk_write (pdrv fs) (sub_buf src (unat bw)) sect cc of (r, d) \<Rightarrow>
          let fs = fs\<lparr>pdrv := d\<rparr> in
          if r \<noteq> RES_OK then (Inl (Some FR_DISK_ERR), fs, fp)
          else
            (Inr (Some (SS fs * cc)), fs,
             if f_sect fp - sect < cc
             then fp\<lparr>buf := mem_cpy (buf fp) 0 src (unat bw + unat ((f_sect fp - sect) * SS fs)) (SSn fs),
                     flag := flag fp AND (NOT FA_DIRTY)\<rparr>
             else fp))
      else if f_sect fp \<noteq> sect \<and> fptr fp < objsize (f_obj fp) then
        (case disk_read (pdrv fs) (buf fp) sect 1 of (r, b) \<Rightarrow>
          let fp = fp\<lparr>buf := b\<rparr> in
          if r \<noteq> RES_OK then (Inl (Some FR_DISK_ERR), fs, fp)
          else (Inr None, fs, fp\<lparr>f_sect := sect\<rparr>))
      else (Inr None, fs, fp\<lparr>f_sect := sect\<rparr>))"

lemma write_sectors_here:
  "write_sectors fs fp src bw btw =
     (case write_clust fs fp (sect_in_clust fs fp) of
        (None, fs1, fp1) \<Rightarrow> (Inl None, fs1, fp1)
      | (Some res, fs1, fp1) \<Rightarrow>
          if res \<noteq> FR_OK then (Inl (Some res), fs1, fp1)
          else
            (case flush_buf fs1 fp1 of (ok, fs2, fp2) \<Rightarrow>
              if \<not> ok then (Inl (Some FR_DISK_ERR), fs2, fp2)
              else if clst2sect fs2 (f_clust fp2) = 0 then (Inl (Some FR_INT_ERR), fs2, fp2)
              else write_here fs2 fp2 (clst2sect fs2 (f_clust fp2) + sect_in_clust fs fp) (sect_in_clust fs fp) src bw btw))"
  by (simp add: write_sectors_def write_here_def Let_def cong: if_cong split: prod.splits option.splits)

text \<open>
  After the work on a sector boundary: nothing could be written, whole sectors were, or the
  buffer is over the sector of the position.
\<close>

definition write_result ::
  "FATFS \<Rightarrow> FIL \<Rightarrow> DWORD list \<Rightarrow> mem \<Rightarrow> nat \<Rightarrow> UINT \<Rightarrow> FRESULT option + UINT option \<Rightarrow> FATFS \<Rightarrow> FIL \<Rightarrow> bool"
where
  "write_result fs fp xs src bw btw res fs' fp' \<longleftrightarrow>
     (case res of
        Inl None \<Rightarrow> full fs' \<and> fp' = fp \<and> fil_ok fs' fp xs \<and> wrote fs fp xs src bw 0 fs' fp xs
      | Inl (Some e) \<Rightarrow> e = FR_INT_ERR \<or> e = FR_DISK_ERR
      | Inr None \<Rightarrow> \<exists>fp0 xs'. prepared fs fp xs fs' fp0 xs' \<and> fp' = fp0\<lparr>f_clust := xs' ! (unat (fptr fp) div cbytes fs')\<rparr> \<and>
          unat (f_sect fp0) = faddr fs' xs' (unat (fptr fp)) div SSn fs'
      | Inr (Some m) \<Rightarrow> 0 < unat m \<and> unat m \<le> unat btw \<and> unat m mod SSn fs = 0 \<and>
          unat (fptr fp) mod cbytes fs + unat m \<le> cbytes fs \<and>
          (\<exists>fp0 xs'. fil_ok fs' fp0 xs' \<and> fp' = fp0\<lparr>f_clust := xs' ! (unat (fptr fp) div cbytes fs')\<rparr> \<and>
             fptr fp0 = fptr fp \<and> objsize (f_obj fp0) = objsize (f_obj fp) \<and> unat (fptr fp) < length xs' * cbytes fs' \<and>
             wrote fs fp xs src bw (unat m) fs' fp0 xs' \<and>
             (\<forall>k i. unat (fptr fp) \<le> k \<longrightarrow> k < unat (fptr fp) + unat m \<longrightarrow> unat (f_sect fp0) = faddr fs' xs' k div SSn fs' \<longrightarrow>
                i < SSn fs' \<longrightarrow> buf fp0 i = dev_sect (pdrv fs') (f_sect fp0) i)))"

text \<open>A clean buffer moved to the sector of a position at the end of the file.\<close>

lemma fil_ok_new_sector:
  assumes f: "fil_ok fs fp xs" and cl: "\<not> dirty fp" and p: "unat (fptr fp) < length xs * cbytes fs" "fptr fp = objsize (f_obj fp)"
    and bd: "unat (fptr fp) mod SSn fs = 0"
  shows "fil_ok fs (fp\<lparr>f_sect := fsect fs xs (unat (fptr fp))\<rparr>) xs"
proof -
  note F = fil_okD [OF f]
  define p where "p = unat (fptr fp)"
  have k: "p < length xs * cbytes fs" using p(1) by (simp add: p_def)
  have False if "j < p" "unat (fsect fs xs p) = faddr fs xs j div SSn fs" for j
  proof -
    define t where "t = j mod SSn fs"
    have jl: "j < length xs * cbytes fs" using that(1) k by simp
    have t: "t < SSn fs" using vol_sizes(1) [OF F(1)] by (simp add: t_def)
    have "p mod SSn fs + Suc t \<le> SSn fs" using t bd by (simp add: p_def)
    from sector_in_cluster [OF F(1) this] have pc: "p mod cbytes fs + Suc t \<le> cbytes fs" .
    have a: "faddr fs xs j = faddr fs xs p + t"
      using fsect_facts(1,2) [OF F(1,2) k] fsect_facts(2) [OF F(1,2) jl] that(2) bd
        div_mult_mod_eq [of "faddr fs xs j" "SSn fs"] div_mult_mod_eq [of "faddr fs xs p" "SSn fs"] by (simp add: t_def p_def)
    have "p \<le> j" using faddr_run(1) [OF F(1,2) k pc jl] a by simp
    then show False using that(1) by simp
  qed
  then show ?thesis
    using F cl p bd fsect_facts(1) [OF F(1,2) k] by (intro fil_okI) (auto simp: p_def)
qed

lemma write_here_whole:
  assumes pr: "prepared fs fp xs fs2 fp3 xs'" and cl: "\<not> dirty fp3" and bd: "unat (fptr fp) mod SSn fs = 0"
    and x: "x = xs' ! (unat (fptr fp) div cbytes fs2)" and gt: "0 < btw div SS fs2"
    and wh: "write_here fs2 (fp3\<lparr>f_clust := x\<rparr>) (fsect fs2 xs' (unat (fptr fp))) (sect_in_clust fs2 fp3) src bw btw = (res, fs', fp')"
  shows "write_result fs fp xs src (unat bw) btw res fs' fp'"
proof -
  have f3: "fil_ok fs2 fp3 xs'" and e: "fptr fp3 = fptr fp" "objsize (f_obj fp3) = objsize (f_obj fp)"
    and p: "unat (fptr fp3) < length xs' * cbytes fs2" and o: "other_files fs xs fs2 xs'" using pr by (simp_all add: prepared_def)
  note ga = geom_addr [OF other_filesD(2) [OF o]] and v = fil_okD(1) [OF f3]
  define cc where "cc = (if sect_in_clust fs2 fp3 + btw div SS fs2 > ucast (csize fs2) then ucast (csize fs2) - sect_in_clust fs2 fp3 else btw div SS fs2)"
  define sect where "sect = fsect fs2 xs' (unat (fptr fp))"
  obtain r d where wr: "disk_write (pdrv fs2) (sub_buf src (unat bw)) sect cc = (r, d)" by fastforce
  define fp4 where "fp4 = (if f_sect fp3 - sect < cc
    then fp3\<lparr>buf := mem_cpy (buf fp3) 0 src (unat bw + unat ((f_sect fp3 - sect) * SS fs2)) (SSn fs2),
             flag := flag fp3 AND (NOT FA_DIRTY)\<rparr> else fp3)"
  have eq: "(res, fs', fp') = (if r \<noteq> RES_OK then (Inl (Some FR_DISK_ERR), fs2\<lparr>pdrv := d\<rparr>, fp3\<lparr>f_clust := x\<rparr>)
      else (Inr (Some (SS fs2 * cc)), fs2\<lparr>pdrv := d\<rparr>, fp4\<lparr>f_clust := x\<rparr>))"
    unfolding wh [symmetric] using gt wr by (simp add: write_here_def Let_def cc_def [symmetric] sect_def [symmetric] fp4_def)
  show ?thesis
  proof (cases "r = RES_OK")
    case False
    then show ?thesis using eq by (simp add: write_result_def)
  next
    case True
    have bd3: "unat (fptr fp3) mod SSn fs2 = 0" using bd by (simp add: e ga)
    note sc = sector_count [OF v bd3 gt cc_def]
    note ww = write_whole [OF f3 cl p bd3 gt cc_def wr [unfolded True sect_def, folded e(1)] fp4_def [unfolded sect_def, folded e(1)]]
    have n: "0 < unat (SS fs2 * cc)" "unat (SS fs2 * cc) \<le> unat btw" "unat (SS fs2 * cc) mod SSn fs = 0"
      "unat (fptr fp) mod cbytes fs + unat (SS fs2 * cc) \<le> cbytes fs" using sc vol_sizes(1) [OF v] by (simp_all add: e ga)
    have "geom_eq fs2 (fs2\<lparr>pdrv := d\<rparr>)" using ww(2) other_filesD(2) by (auto simp: wrote_def)
    note g2 = geom_addr [OF this]
    have "fptr fp4 = fptr fp" "objsize (f_obj fp4) = objsize (f_obj fp)" using e by (simp_all add: fp4_def)
    moreover have "wrote fs fp xs src (unat bw) (unat (SS fs2 * cc)) (fs2\<lparr>pdrv := d\<rparr>) fp4 xs'" using wrote_prepared [OF pr ww(2)] .
    ultimately show ?thesis
      using n eq True ww(1) ww(4) p by (auto simp: write_result_def x e g2 intro!: exI [of _ fp4] exI [of _ xs'])
  qed
qed

lemma write_here_ok:
  assumes pr: "prepared fs fp xs fs2 fp3 xs'" and cl: "\<not> dirty fp3" and bd: "unat (fptr fp) mod SSn fs = 0"
    and x: "x = xs' ! (unat (fptr fp) div cbytes fs2)"
    and wh: "write_here fs2 (fp3\<lparr>f_clust := x\<rparr>) (fsect fs2 xs' (unat (fptr fp))) (sect_in_clust fs2 fp3) src bw btw = (res, fs', fp')"
  shows "write_result fs fp xs src (unat bw) btw res fs' fp'"
proof (cases "0 < btw div SS fs2")
  case True
  then show ?thesis using write_here_whole [OF assms(1-4) _ wh] by blast
next
  case small: False
  have f3: "fil_ok fs2 fp3 xs'" and e: "fptr fp3 = fptr fp" "objsize (f_obj fp3) = objsize (f_obj fp)"
    and p: "unat (fptr fp3) < length xs' * cbytes fs2" and o: "other_files fs xs fs2 xs'" using pr by (simp_all add: prepared_def)
  note ga = geom_addr [OF other_filesD(2) [OF o]] and F = fil_okD [OF f3]
  define sect where "sect = fsect fs2 xs' (unat (fptr fp))"
  have us: "unat sect = faddr fs2 xs' (unat (fptr fp)) div SSn fs2" using fsect_facts(1) [OF F(1,2) p] by (simp add: sect_def e)
  have bd3: "unat (fptr fp3) mod SSn fs2 = 0" using bd by (simp add: e ga)
  have res: "write_result fs fp xs src (unat bw) btw (Inr None) fs2 (fp4\<lparr>f_clust := x\<rparr>)"
    if "fil_ok fs2 fp4 xs'" "f_sect fp4 = sect" "fptr fp4 = fptr fp3" "f_obj fp4 = f_obj fp3" "\<not> dirty fp4" for fp4
  proof -
    have "fbyte fs2 fp4 xs' k = fbyte fs2 fp3 xs' k" for k using that(5) cl by (simp add: fbyte_def abyte_def)
    then have "prepared fs fp xs fs2 fp4 xs'" using pr that by (simp add: prepared_def)
    then show ?thesis using that us by (auto simp: write_result_def x)
  qed
  show ?thesis
  proof (cases "f_sect fp3 \<noteq> sect \<and> fptr fp3 < objsize (f_obj fp3)")
    case True
    obtain r b where rd: "disk_read (pdrv fs2) (buf fp3) sect 1 = (r, b)" by fastforce
    have eq: "(res, fs', fp') = (if r \<noteq> RES_OK then (Inl (Some FR_DISK_ERR), fs2, fp3\<lparr>f_clust := x, buf := b\<rparr>)
        else (Inr None, fs2, fp3\<lparr>buf := b, f_sect := sect, f_clust := x\<rparr>))"
      unfolding wh [symmetric] using small rd True by (simp add: write_here_def Let_def sect_def [symmetric])
    show ?thesis
    proof (cases "r = RES_OK")
      case ok: True
      have "fil_ok fs2 (fp3\<lparr>buf := b, f_sect := sect\<rparr>) xs'"
        using fil_ok_load(1) [OF f3 cl _ rd [unfolded ok sect_def, folded e(1)]] True by (simp add: sect_def e)
      then have "write_result fs fp xs src (unat bw) btw (Inr None) fs2 (fp3\<lparr>buf := b, f_sect := sect, f_clust := x\<rparr>)"
        using res [of "fp3\<lparr>buf := b, f_sect := sect\<rparr>"] cl by simp
      then show ?thesis using eq ok by simp
    qed (use eq in \<open>simp add: write_result_def\<close>)
  next
    case False
    have "fil_ok fs2 (fp3\<lparr>f_sect := sect\<rparr>) xs'"
    proof (cases "f_sect fp3 = sect")
      case True
      then have "fp3\<lparr>f_sect := sect\<rparr> = fp3" by simp
      then show ?thesis using f3 by (simp only:)
    next
      case ne: False
      then have "fptr fp3 = objsize (f_obj fp3)" using False F(4) by simp
      then show ?thesis using fil_ok_new_sector [OF f3 cl p _ bd3] by (simp add: sect_def e)
    qed
    then have "write_result fs fp xs src (unat bw) btw (Inr None) fs2 (fp3\<lparr>f_sect := sect, f_clust := x\<rparr>)"
      using res [of "fp3\<lparr>f_sect := sect\<rparr>"] cl by simp
    moreover have "(res, fs', fp') = (Inr None, fs2, fp3\<lparr>f_sect := sect, f_clust := x\<rparr>)"
      unfolding wh [symmetric] using small False by (auto simp: write_here_def Let_def sect_def [symmetric])
    ultimately show ?thesis by simp
  qed
qed

lemma full_same:
  assumes v: "fat_vol fs" and "same_vol fs fs'" and "full fs"
  shows "full fs'"
proof -
  have "fat_entry fs' c = fat_entry fs c" if "c < n_fatent fs" for c
    using fat_entry_same_vol [OF fat_volD(1) [OF v] assms(2) that] .
  moreover have "free_clst fs' = free_clst fs" "n_fatent fs' = n_fatent fs"
    using assms(2) geom_eqD(5) by (auto simp: same_vol_def alloc_eq_def)
  ultimately show ?thesis using assms(3) by (auto simp: full_def no_free_def)
qed

lemma write_sectors_ok:
  assumes f: "fil_ok fs fp xs" and bd: "unat (fptr fp) mod SSn fs = 0"
    and ws: "write_sectors fs fp src bw btw = (res, fs', fp')"
  shows "write_result fs fp xs src (unat bw) btw res fs' fp'"
proof -
  note F = fil_okD [OF f]
  obtain r fs1 fp1 where wc: "write_clust fs fp (sect_in_clust fs fp) = (r, fs1, fp1)" by (metis prod_cases3)
  note c = write_clust_ok [OF f bd wc]
  note ws = ws [unfolded write_sectors_here wc prod.case]
  consider (stop) "r = None" | (err) e where "r = Some e" "e \<noteq> FR_OK" | (ok) "r = Some FR_OK" by (cases r) auto
  then show ?thesis
  proof cases
    case stop
    then have sv: "same_vol fs fs1" "full fs" "wmove fs fs1" "fp1 = fp" using c by simp_all
    note fs = fil_ok_same [OF f sv(1,3)]
    have "wrote fs fp xs src (unat bw) 0 fs1 fp xs"
      using other_files_same [OF vol_ok_vol(1) [OF F(1)] sv(1)] fs(2) F(3) by (simp add: wrote_def)
    then show ?thesis using ws stop sv(4) fs(1) full_same [OF vol_ok_vol(1) [OF F(1)] sv(1,2)] by (auto simp: write_result_def)
  next
    case err
    then show ?thesis using ws c by (auto simp: write_result_def)
  next
    case ok
    then have wcd: "write_clusted fs fp xs fs1 fp1" using c by simp
    obtain b fs2 fp2 where fl: "flush_buf fs1 fp1 = (b, fs2, fp2)" by (metis prod_cases3)
    show ?thesis
    proof (cases b)
      case False
      then show ?thesis using ws ok fl by (auto simp: write_result_def)
    next
      case True
      obtain fp3 xs' where pr: "prepared fs fp xs fs2 fp3 xs'" "\<not> dirty fp3"
        and fp2: "fp2 = fp3\<lparr>f_clust := xs' ! (unat (fptr fp) div cbytes fs2)\<rparr>"
        using prepared_flush [OF wcd F(3)] fl True by fastforce
      have f3: "fil_ok fs2 fp3 xs'" and e: "fptr fp3 = fptr fp" and p: "unat (fptr fp3) < length xs' * cbytes fs2"
        and o: "other_files fs xs fs2 xs'" using pr by (simp_all add: prepared_def)
      note G = fil_okD [OF f3] and gg = geom_eqD [OF other_filesD(2) [OF o]]
      have sc: "sect_in_clust fs fp = sect_in_clust fs2 fp3" by (simp add: sect_in_clust_def gg e)
      have s0: "clst2sect fs2 (f_clust fp2) \<noteq> 0" using fsect_facts(7) [OF G(1,2) p] by (simp add: fp2 e)
      have cur: "clst2sect fs2 (f_clust fp2) + sect_in_clust fs2 fp3 = fsect fs2 xs' (unat (fptr fp))"
        using current_sector [OF G(1), of xs' fp3] by (simp add: fp2 e)
      have "write_here fs2 fp2 (fsect fs2 xs' (unat (fptr fp))) (sect_in_clust fs2 fp3) src bw btw = (res, fs', fp')"
        using ws ok fl True s0 by (simp add: sc cur)
      then show ?thesis using write_here_ok [OF pr bd refl] by (simp add: fp2)
    qed
  qed
qed

text \<open>After a step: \<open>m\<close> bytes are in the file and the position can advance over them.\<close>

definition write_stepped ::
  "FATFS \<Rightarrow> FIL \<Rightarrow> DWORD list \<Rightarrow> mem \<Rightarrow> nat \<Rightarrow> UINT \<Rightarrow> UINT \<Rightarrow> FATFS \<Rightarrow> FIL \<Rightarrow> DWORD list \<Rightarrow> bool"
where
  "write_stepped fs fp xs src bw btw m fs' fp' xs' \<longleftrightarrow>
     0 < unat m \<and> unat m \<le> unat btw \<and> objsize (f_obj fp') = objsize (f_obj fp) \<and> fptr fp' = fptr fp \<and>
     (unat m = unat btw \<or> (unat (fptr fp) + unat m) mod SSn fs = 0) \<and>
     fil_ok fs' (advance fp' m) xs' \<and> wrote fs fp xs src bw (unat m) fs' fp' xs'"

lemma advance_ok:
  assumes f: "fil_ok fs fp xs" and p: "unat (fptr fp) < length xs * cbytes fs" and m: "0 < unat m" "unat (fptr fp) mod cbytes fs + unat m \<le> cbytes fs"
    and top: "unat (fptr fp) + unat m < 2 ^ 64"
    and s: "(unat (fptr fp) + unat m) mod SSn fs \<noteq> 0 \<Longrightarrow>
      unat (f_sect fp) = faddr fs xs (unat (fptr fp)) div SSn fs \<and> unat (fptr fp) mod SSn fs + unat m < SSn fs"
    and b: "\<And>k i. unat (fptr fp) \<le> k \<Longrightarrow> k < unat (fptr fp) + unat m \<Longrightarrow> unat (f_sect fp) = faddr fs xs k div SSn fs \<Longrightarrow>
      \<not> dirty fp \<Longrightarrow> i < SSn fs \<Longrightarrow> buf fp i = dev_sect (pdrv fs) (f_sect fp) i"
  shows "fil_ok fs (advance (fp\<lparr>f_clust := xs ! (unat (fptr fp) div cbytes fs)\<rparr>) m) xs"
proof -
  note F = fil_okD [OF f]
  define q where "q = fptr fp + ucast m"
  define z where "z = (if q > objsize (f_obj fp) then q else objsize (f_obj fp))"
  have q: "unat q = unat (fptr fp) + unat m" using top by (simp add: q_def unat_word_ariths(1))
  have le: "unat (fptr fp) + unat m \<le> length xs * cbytes fs" using faddr_run(3) [OF F(1,2) p m(2) p] .
  have uz: "unat z = max (unat q) (unat (objsize (f_obj fp)))" by (auto simp: z_def word_less_nat_alt)
  have "fil_ok fs (fp\<lparr>f_obj := (f_obj fp)\<lparr>objsize := z\<rparr>\<rparr>) xs"
  proof (rule fil_ok_resize [OF f])
    show "objsize (f_obj fp) \<le> z" "unat z \<le> length xs * cbytes fs" using uz q le F(3) by (simp_all add: word_le_nat_alt)
    fix k i assume k: "unat (objsize (f_obj fp)) \<le> k" "k < unat z" "unat (f_sect fp) = faddr fs xs k div SSn fs" "\<not> dirty fp" "i < SSn fs"
    then have "unat (fptr fp) \<le> k" "k < unat (fptr fp) + unat m" using F(4) uz q by (auto simp: word_le_nat_alt)
    then show "buf fp i = dev_sect (pdrv fs) (f_sect fp) i" using b k by blast
  qed
  note fa = fil_ok_advance [OF this m(1), of q]
  have "fil_ok fs (fp\<lparr>f_obj := (f_obj fp)\<lparr>objsize := z\<rparr>, f_clust := xs ! (unat (fptr fp) div cbytes fs), fptr := q\<rparr>) xs"
    using fa s uz q m(2) by simp
  moreover have "advance (fp\<lparr>f_clust := xs ! (unat (fptr fp) div cbytes fs)\<rparr>) m =
      fp\<lparr>f_obj := (f_obj fp)\<lparr>objsize := z\<rparr>, f_clust := xs ! (unat (fptr fp) div cbytes fs), fptr := q\<rparr>"
    by (simp add: advance_def Let_def q_def z_def)
  ultimately show ?thesis by (simp only:)
qed

lemma wrote_clust: "wrote fs fp xs src bw n fs' (fp'\<lparr>f_clust := x\<rparr>) xs' = wrote fs fp xs src bw n fs' fp' xs'"
  by (simp add: wrote_def)

lemma write_part_step:
  assumes pr: "prepared fs fp xs fs1 fp0 xs'" and b: "0 < btw" and top: "unat (fptr fp) + unat btw < 2 ^ 64"
    and s: "unat (f_sect fp0) = faddr fs1 xs' (unat (fptr fp)) div SSn fs1"
    and fp1: "fp1 = fp0\<lparr>f_clust := xs' ! (unat (fptr fp) div cbytes fs1)\<rparr>" and m: "m = part_count fs1 fp1 btw"
    and fp2: "fp2 = fp1\<lparr>buf := mem_cpy (buf fp1) (unat (fptr fp1 mod ucast (ssize fs1))) src bw (unat m), flag := flag fp1 OR FA_DIRTY\<rparr>"
  shows "write_stepped fs fp xs src bw btw m fs1 fp2 xs'"
proof -
  have f0: "fil_ok fs1 fp0 xs'" and e: "fptr fp0 = fptr fp" "objsize (f_obj fp0) = objsize (f_obj fp)"
    and p: "unat (fptr fp0) < length xs' * cbytes fs1" and o: "other_files fs xs fs1 xs'" using pr by (simp_all add: prepared_def)
  note ga = geom_addr [OF other_filesD(2) [OF o]] and v = fil_okD(1) [OF f0]
  define q where "q = unat (fptr fp)"
  have um: "unat m = min (SSn fs1 - q mod SSn fs1) (unat btw)" using part_count_nat [OF v, of fp1 btw] by (simp add: m fp1 e q_def)
  have lt: "q mod SSn fs1 < SSn fs1" using vol_sizes(1) [OF v] by simp
  have m0: "0 < unat m" "unat m \<le> unat btw" using um lt b by (simp_all add: word_less_nat_alt)
  have le: "q mod SSn fs1 + unat m \<le> SSn fs1" using um lt by simp
  have bd: "unat m = unat btw \<or> (q + unat m) mod SSn fs = 0"
  proof (cases "unat m = unat btw")
    case False
    then have "q mod SSn fs1 + unat m = SSn fs1" using um lt by (simp add: min_def split: if_splits)
    then show ?thesis using mod_add_left_eq [of q "SSn fs1" "unat m"] by (simp add: ga)
  qed simp
  define fp3 where "fp3 = fp0\<lparr>buf := mem_cpy (buf fp0) (unat (fptr fp0) mod SSn fs1) src bw (unat m), flag := flag fp0 OR FA_DIRTY\<rparr>"
  have s0: "unat (f_sect fp0) = faddr fs1 xs' (unat (fptr fp0)) div SSn fs1" using s e by simp
  note wp = write_part [OF f0 s0 p _ fp3_def] 
  have wp: "fil_ok fs1 fp3 xs'" "wrote fs1 fp0 xs' src bw (unat m) fs1 fp3 xs'" using wp le by (simp_all add: e q_def)
  have e2: "fp2 = fp3\<lparr>f_clust := xs' ! (unat (fptr fp3) div cbytes fs1)\<rparr>"
    using unat_fptr_mod(2) [OF v, of fp0] by (simp add: fp2 fp1 fp3_def e)
  have nz: "q mod SSn fs1 + unat m < SSn fs1" if "(q + unat m) mod SSn fs1 \<noteq> 0"
    using that le mod_add_left_eq [of q "SSn fs1" "unat m"] by (cases "q mod SSn fs1 + unat m = SSn fs1") auto
  have fe: "fptr fp3 = fptr fp" "f_sect fp3 = f_sect fp0" "dirty fp3" "f_obj fp3 = f_obj fp0" by (simp_all add: fp3_def e)
  have "fil_ok fs1 (advance fp2 m) xs'"
    unfolding e2 using p sector_in_cluster [OF v le] top m0 s nz
    by (intro advance_ok [OF wp(1)]) (simp_all add: fe e q_def)
  moreover have "wrote fs fp xs src bw (unat m) fs1 fp2 xs'"
    using wrote_prepared [OF pr wp(2)] by (simp add: e2 wrote_clust)
  ultimately show ?thesis using m0 bd by (simp add: write_stepped_def e2 fe e q_def)
qed

lemma write_step_ok:
  assumes f: "fil_ok fs fp xs" and b: "0 < btw" and top: "unat (fptr fp) + unat btw < 2 ^ 64"
    and st: "write_step fs fp src bw btw = (res, fs', fp')"
  shows "case res of Inl None \<Rightarrow> full fs' \<and> fp' = fp \<and> fil_ok fs' fp xs \<and> wrote fs fp xs src (unat bw) 0 fs' fp xs
    | Inl (Some e) \<Rightarrow> e = FR_INT_ERR \<or> e = FR_DISK_ERR
    | Inr m \<Rightarrow> \<exists>xs'. write_stepped fs fp xs src (unat bw) btw m fs' fp' xs'"
proof -
  note F = fil_okD [OF f]
  note z = vol_sizes [OF F(1)] and ob = on_boundary_nat [OF F(1), of fp]
  define p where "p = unat (fptr fp)"
  show ?thesis
  proof (cases "on_boundary fs fp")
    case False
    then have pn: "p mod SSn fs \<noteq> 0" using ob by (simp add: p_def)
    then have pc: "p mod cbytes fs \<noteq> 0" using mod_mod_cancel [OF z(7), of p] by (intro notI) simp
    have "p \<noteq> length xs * cbytes fs" using pc by auto
    moreover have "p \<le> length xs * cbytes fs" using F(3,4) by (simp add: word_le_nat_alt p_def)
    ultimately have lt: "p < length xs * cbytes fs" by simp
    have p0: "0 < p" using pn by (cases p) auto
    then have "(p - 1) div cbytes fs = p div cbytes fs" using pc by (cases p) (simp_all add: div_Suc)
    then have "f_clust fp = xs ! (p div cbytes fs)" using F(5) p0 by (simp add: p_def unat_gt_0 word_gt_0)
    then have cl: "fp = fp\<lparr>f_clust := xs ! (unat (fptr fp) div cbytes fs)\<rparr>" by (simp add: p_def)
    have "prepared fs fp xs fs fp xs" using f lt by (simp add: prepared_def p_def)
    note wp = write_part_step [OF this b top _ cl refl refl]
    have "res = Inr (part_count fs fp btw)" "fs' = fs"
      "fp' = fp\<lparr>buf := mem_cpy (buf fp) (unat (fptr fp mod ucast (ssize fs))) src (unat bw) (unat (part_count fs fp btw)), flag := flag fp OR FA_DIRTY\<rparr>"
      using st False by (auto simp: write_step_def Let_def)
    then show ?thesis using wp F(6) pn by (auto simp: p_def)
  next
    case True
    obtain r fs1 fp1 where ws: "write_sectors fs fp src bw btw = (r, fs1, fp1)" by (metis prod_cases3)
    have bd: "unat (fptr fp) mod SSn fs = 0" using True ob by simp
    note wr = write_sectors_ok [OF f bd ws, unfolded write_result_def]
    consider (stop) e where "r = Inl e" | (part) "r = Inr None" | (whole) m where "r = Inr (Some m)" by (metis (no_types) option.exhaust sum.exhaust)
    then show ?thesis
    proof cases
      case stop
      then show ?thesis using wr st True ws by (auto simp: write_step_def split: option.splits)
    next
      case part
      then obtain fp0 xs' where pr: "prepared fs fp xs fs1 fp0 xs'" and fp1: "fp1 = fp0\<lparr>f_clust := xs' ! (unat (fptr fp) div cbytes fs1)\<rparr>"
        and s: "unat (f_sect fp0) = faddr fs1 xs' (unat (fptr fp)) div SSn fs1" using wr by auto
      note wp = write_part_step [OF pr b top s fp1 refl refl, where src = src and bw = "unat bw"]
      have "res = Inr (part_count fs1 fp1 btw)" "fs' = fs1"
        "fp' = fp1\<lparr>buf := mem_cpy (buf fp1) (unat (fptr fp1 mod ucast (ssize fs1))) src (unat bw) (unat (part_count fs1 fp1 btw)), flag := flag fp1 OR FA_DIRTY\<rparr>"
        using st True ws part by (auto simp: write_step_def Let_def)
      then show ?thesis using wp by auto
    next
      case whole
      then have m: "0 < unat m" "unat m \<le> unat btw" "unat m mod SSn fs = 0" "p mod cbytes fs + unat m \<le> cbytes fs"
        using wr by (simp_all add: p_def)
      obtain fp0 xs' where f0: "fil_ok fs1 fp0 xs'" and fp1: "fp1 = fp0\<lparr>f_clust := xs' ! (unat (fptr fp) div cbytes fs1)\<rparr>"
        and e: "fptr fp0 = fptr fp" "objsize (f_obj fp0) = objsize (f_obj fp)" "unat (fptr fp) < length xs' * cbytes fs1"
        and w: "wrote fs fp xs src (unat bw) (unat m) fs1 fp0 xs'"
        and bb: "\<forall>k i. unat (fptr fp) \<le> k \<longrightarrow> k < unat (fptr fp) + unat m \<longrightarrow> unat (f_sect fp0) = faddr fs1 xs' k div SSn fs1 \<longrightarrow>
                i < SSn fs1 \<longrightarrow> buf fp0 i = dev_sect (pdrv fs1) (f_sect fp0) i"
        using wr whole by auto
      have "geom_eq fs fs1" using w other_filesD(2) by (auto simp: wrote_def)
      note ga = geom_addr [OF this]
      have pm: "(p + unat m) mod SSn fs = 0" using mod_add_eq [of p "SSn fs" "unat m"] bd m(3) by (simp add: p_def)
      have "fil_ok fs1 (advance (fp0\<lparr>f_clust := xs' ! (unat (fptr fp0) div cbytes fs1)\<rparr>) m) xs'"
        using e m pm top bb by (intro advance_ok [OF f0]) (simp_all add: ga p_def)
      then have "write_stepped fs fp xs src (unat bw) btw m fs1 fp1 xs'"
        using m pm w e by (simp add: write_stepped_def fp1 wrote_clust p_def)
      moreover have "res = Inr m" "fs' = fs1" "fp' = fp1" using st True ws whole by (simp_all add: write_step_def)
      ultimately show ?thesis by auto
    qed
  qed
qed

section \<open>The loop\<close>

lemma wrote_append:
  assumes a: "wrote fs fp xs src bw m fs1 fp1 xs1" and b: "wrote fs1 fp2 xs1 src (bw + m) n fs2 fp3 xs2"
    and p: "unat (fptr fp2) = unat (fptr fp) + m"
    and z: "unat (objsize (f_obj fp2)) = max (unat (fptr fp) + m) (unat (objsize (f_obj fp)))"
    and eq: "\<And>k. fbyte fs1 fp2 xs1 k = fbyte fs1 fp1 xs1 k"
  shows "wrote fs fp xs src bw (m + n) fs2 fp3 xs2"
proof -
  have "fbyte fs2 fp3 xs2 (unat (fptr fp) + t) = src (bw + t)" if t: "t < m + n" for t
  proof (cases "t < m")
    case True
    then have "fbyte fs2 fp3 xs2 (unat (fptr fp) + t) = fbyte fs1 fp2 xs1 (unat (fptr fp) + t)" using b p z by (simp add: wrote_def)
    then show ?thesis using a True eq by (simp add: wrote_def)
  next
    case False
    then obtain u where u: "t = m + u" "u < n" using t by (metis add_less_cancel_left le_iff_add not_less)
    then have "fbyte fs2 fp3 xs2 (unat (fptr fp2) + u) = src (bw + m + u)" using b by (simp add: wrote_def)
    then show ?thesis using p u by (simp add: add.assoc)
  qed
  moreover have "fbyte fs2 fp3 xs2 k = fbyte fs fp xs k"
    if "k < unat (objsize (f_obj fp))" "k < unat (fptr fp) \<or> unat (fptr fp) + (m + n) \<le> k" for k
  proof -
    have "fbyte fs2 fp3 xs2 k = fbyte fs1 fp2 xs1 k" using b that p z by (auto simp: wrote_def)
    then show ?thesis using a that eq by (auto simp: wrote_def)
  qed
  ultimately show ?thesis using a b other_files_trans by (auto simp: wrote_def)
qed

lemma advance_fields:
  assumes "unat (fptr fp) + unat m < 2 ^ 64"
  shows "unat (fptr (advance fp m)) = unat (fptr fp) + unat m"
    "unat (objsize (f_obj (advance fp m))) = max (unat (fptr fp) + unat m) (unat (objsize (f_obj fp)))"
    "fbyte fs (advance fp m) xs k = fbyte fs fp xs k"
proof -
  have q: "unat (fptr fp + ucast m) = unat (fptr fp) + unat m" using assms by (simp add: unat_word_ariths(1))
  then show "unat (fptr (advance fp m)) = unat (fptr fp) + unat m"
    "unat (objsize (f_obj (advance fp m))) = max (unat (fptr fp) + unat m) (unat (objsize (f_obj fp)))"
    by (auto simp: advance_def Let_def word_less_nat_alt)
  show "fbyte fs (advance fp m) xs k = fbyte fs fp xs k" by (simp add: advance_def Let_def fbyte_def abyte_def dirty_def)
qed

lemma wrote_0: "wrote fs fp xs src bw 0 fs fp xs"
  by (simp add: wrote_def)

text \<open>The outcome of the loop when \<open>n\<close> bytes have been written.\<close>

definition written ::
  "FATFS \<Rightarrow> FIL \<Rightarrow> DWORD list \<Rightarrow> mem \<Rightarrow> nat \<Rightarrow> nat \<Rightarrow> FATFS \<Rightarrow> FIL \<Rightarrow> bool"
where
  "written fs fp xs src bw n fs' fp' \<longleftrightarrow>
     (\<exists>xs'. fil_ok fs' fp' xs' \<and> wrote fs fp xs src bw n fs' fp' xs') \<and> unat (fptr fp') = unat (fptr fp) + n \<and>
     unat (objsize (f_obj fp')) = max (unat (fptr fp) + n) (unat (objsize (f_obj fp)))"

lemma written_0: "fil_ok fs fp xs \<Longrightarrow> written fs fp xs src bw 0 fs fp"
  using fil_okD(4) [of fs fp xs] wrote_0 by (auto simp: written_def word_le_nat_alt)

lemma written_step:
  assumes s: "write_stepped fs fp xs src bw btw m fs1 fp1 xs1" and top: "unat (fptr fp) + unat m < 2 ^ 64"
    and w: "written fs1 (advance fp1 m) xs1 src (bw + unat m) n fs' fp'"
  shows "written fs fp xs src bw (unat m + n) fs' fp'"
proof -
  have e: "fptr fp1 = fptr fp" "objsize (f_obj fp1) = objsize (f_obj fp)" and w1: "wrote fs fp xs src bw (unat m) fs1 fp1 xs1"
    using s by (simp_all add: write_stepped_def)
  note af = advance_fields [of fp1 m, unfolded e, OF top]
  obtain xs' where x: "fil_ok fs' fp' xs'" "wrote fs1 (advance fp1 m) xs1 src (bw + unat m) n fs' fp' xs'" using w by (auto simp: written_def)
  have "wrote fs fp xs src bw (unat m + n) fs' fp' xs'" by (rule wrote_append [OF w1 x(2)]) (simp_all add: af)
  then show ?thesis using w x(1) af by (auto simp: written_def)
qed

lemma write_loop_ok:
  assumes "fil_ok fs fp xs" "unat (fptr fp) + unat btw < 2 ^ 64" "unat bw + unat btw < 2 ^ 32"
    "btw = 0 \<or> touched (SSn fs) (unat (fptr fp)) (unat btw) \<le> N" "write_loop N fs fp src bw btw = (r, bw', fs', fp')"
  shows "r = Some FR_INT_ERR \<or> r = Some FR_DISK_ERR \<or> r = None \<and> (\<exists>n. unat bw' = unat bw + n \<and> n \<le> unat btw \<and>
    written fs fp xs src (unat bw) n fs' fp' \<and> (n < unat btw \<longrightarrow> full fs'))"
  using assms
proof (induction N arbitrary: fs fp xs bw btw)
  case 0
  have "0 < SSn fs" using vol_sizes(1) [OF fil_okD(1) [OF "0.prems"(1)]] by simp
  then have "0 < touched (SSn fs) (unat (fptr fp)) (unat btw)" if "btw \<noteq> 0"
    using that by (intro touched_pos) (simp_all add: unat_gt_0)
  then have "btw = 0" using "0.prems"(4) by fastforce
  then show ?case using "0.prems" written_0 by auto
next
  case (Suc N)
  show ?case
  proof (cases "btw = 0")
    case True
    then show ?thesis using Suc.prems written_0 by auto
  next
    case False
    then have b: "0 < btw" by (simp add: word_gt_0)
    obtain res fs1 fp1 where st: "write_step fs fp src bw btw = (res, fs1, fp1)" by (metis prod_cases3)
    note so = write_step_ok [OF Suc.prems(1) b Suc.prems(2) st]
    consider (stop) "res = Inl None" | (err) e where "res = Inl (Some e)" | (go) m where "res = Inr m"
      by (metis (no_types) option.exhaust sum.exhaust)
    then show ?thesis
    proof cases
      case stop
      then have "full fs1" "fp1 = fp" "fil_ok fs1 fp xs" "wrote fs fp xs src (unat bw) 0 fs1 fp xs" using so by simp_all
      moreover have "r = None" "bw' = bw" "fs' = fs1" "fp' = fp1" using Suc.prems(5) st stop b by (simp_all add: word_gt_0)
      moreover have "fptr fp \<le> objsize (f_obj fp)" using fil_okD(4) [OF Suc.prems(1)] .
      ultimately show ?thesis by (auto simp: written_def word_le_nat_alt)
    next
      case err
      then show ?thesis using so Suc.prems(5) st b by (auto simp: word_gt_0)
    next
      case go
      then obtain xs1 where s: "write_stepped fs fp xs src (unat bw) btw m fs1 fp1 xs1" using so by auto
      define fp2 where "fp2 = advance fp1 m"
      have m: "0 < unat m" "unat m \<le> unat btw" and f2: "fil_ok fs1 fp2 xs1" and fe: "fptr fp1 = fptr fp"
        and bd: "unat m = unat btw \<or> (unat (fptr fp) + unat m) mod SSn fs = 0" and w: "wrote fs fp xs src (unat bw) (unat m) fs1 fp1 xs1"
        using s by (simp_all add: write_stepped_def fp2_def)
      have top: "unat (fptr fp) + unat m < 2 ^ 64" using m(2) Suc.prems(2) by simp
      have p2: "unat (fptr fp2) = unat (fptr fp) + unat m" using advance_fields(1) [of fp1 m] top by (simp add: fp2_def fe)
      have ub: "unat (btw - m) = unat btw - unat m" using m(2) by (simp add: unat_sub word_le_nat_alt)
      have ur: "unat (bw + m) = unat bw + unat m" using m(2) Suc.prems(3) by (simp add: unat_word_ariths(1))
      have ss: "SSn fs1 = SSn fs" "0 < SSn fs"
        using geom_addr(3) [of fs fs1] w other_filesD(2) vol_sizes(1) [OF fil_okD(1) [OF Suc.prems(1)]] by (auto simp: wrote_def)
      have fu: "btw - m = 0 \<or> touched (SSn fs1) (unat (fptr fp2)) (unat (btw - m)) \<le> N"
      proof (cases "unat m = unat btw")
        case True
        then have "m = btw" by (simp add: word_unat_eq_iff)
        then show ?thesis by simp
      next
        case nb: False
        then have "touched (SSn fs) (unat (fptr fp) + unat m) (unat btw - unat m) < touched (SSn fs) (unat (fptr fp)) (unat btw)"
          using bd m by (intro touched_step [OF ss(2)]) auto
        then show ?thesis using Suc.prems(4) False by (simp add: ub p2 ss)
      qed
      have lp: "write_loop N fs1 fp2 src (bw + m) (btw - m) = (r, bw', fs', fp')"
        using Suc.prems(5) st go b by (simp add: fp2_def)
      have "unat (fptr fp2) + unat (btw - m) < 2 ^ 64" "unat (bw + m) + unat (btw - m) < 2 ^ 32"
        using Suc.prems(2,3) m(2) by (simp_all add: p2 ub ur)
      note ih = Suc.IH [OF f2 this fu lp]
      have "written fs fp xs src (unat bw) (unat m + n) fs' fp'" if "written fs1 fp2 xs1 src (unat (bw + m)) n fs' fp'" for n
        using written_step [OF s top] that by (simp add: fp2_def ur)
      moreover have "unat bw' = unat bw + (unat m + n) \<and> unat m + n \<le> unat btw \<and> (unat m + n < unat btw \<longrightarrow> full fs')"
        if "unat bw' = unat (bw + m) + n" "n \<le> unat (btw - m)" "n < unat (btw - m) \<longrightarrow> full fs'" for n
        using that m(2) by (auto simp: ub ur)
      ultimately show ?thesis using ih by blast
    qed
  qed
qed

text \<open>The number of bytes \<open>f_write\<close> tries to write: the size of a file stays below 4 GiB.\<close>

lemma write_clip:
  fixes p :: FSIZE and btw :: UINT
  assumes "unat p < 2 ^ 32"
  shows "unat (if ucast (p + ucast btw) < (ucast p :: DWORD) then 0xFFFFFFFF - ucast p else btw) = min (unat btw) (2 ^ 32 - 1 - unat p)"
proof -
  have p: "unat (ucast p :: DWORD) = unat p" using assms by (simp add: unsigned_ucast_eq take_bit_nat_eq_self)
  have s: "unat (p + ucast btw) = unat p + unat btw"
    using assms unat_dword_less [of btw] by (simp add: unat_word_ariths(1))
  have c: "unat (ucast (p + ucast btw) :: DWORD) = (unat p + unat btw) mod 2 ^ 32"
    using s by (simp add: unsigned_ucast_eq take_bit_eq_mod)
  have b: "unat btw < 2 ^ 32" using unat_dword_less [of btw] by simp
  have m: "(unat p + unat btw) mod 2 ^ 32 = (if unat p + unat btw < 2 ^ 32 then unat p + unat btw else unat p + unat btw - 2 ^ 32)"
    using assms b by (auto simp: mod_if)
  have f: "unat (0xFFFFFFFF - ucast p :: DWORD) = 2 ^ 32 - 1 - unat p" using assms p by (simp add: unat_sub word_le_nat_alt)
  show ?thesis using m b assms f by (auto simp: word_less_nat_alt c p)
qed

section \<open>The property\<close>

lemma f_write_ok:
  assumes f: "fil_ok fs fp xs" and v: "validate fs (f_obj fp) = FR_OK" "f_err fp = FR_OK" "flag fp AND FA_WRITE \<noteq> 0"
    and z: "unat (objsize (f_obj fp)) < 2 ^ 32" and n: "n = min (unat btw) (2 ^ 32 - 1 - unat (fptr fp))"
    and fw: "f_write fs fp buff btw = (r, bw, fs', fp')"
  shows "(r = FR_INT_ERR \<or> r = FR_DISK_ERR) \<and> f_err fp' = r \<or>
    r = FR_OK \<and> unat bw \<le> n \<and> written fs fp xs buff 0 (unat bw) fs' fp' \<and> (unat bw < n \<longrightarrow> full fs')"
proof -
  note F = fil_okD [OF f]
  have ty: "fs_type fs \<noteq> FS_EXFAT" using fat_volD(3) [OF vol_ok_vol(1) [OF F(1)]] .
  have p: "unat (fptr fp) < 2 ^ 32" using F(4) z by (simp add: word_le_nat_alt)
  define b where "b = (if ucast (fptr fp + ucast btw) < (ucast (fptr fp) :: DWORD) then 0xFFFFFFFF - ucast (fptr fp) else btw)"
  have ub: "unat b = n" using write_clip [OF p] by (simp add: b_def n)
  obtain r1 bw1 fs1 fp1 where lp: "write_loop (unat b div SSn fs + 2) fs fp buff 0 b = (r1, bw1, fs1, fp1)" by (metis prod_cases4)
  have eq: "(r, bw, fs', fp') = (case r1 of Some e \<Rightarrow> (e, bw1, fs1, ABORT fp1 e) | None \<Rightarrow> (FR_OK, bw1, fs1, fp1\<lparr>flag := flag fp1 OR FA_MODIFIED\<rparr>))"
    unfolding fw [symmetric] using v ty lp by (simp add: f_write_def Let_def b_def split: option.splits del: write_loop.simps)
  have top: "unat (fptr fp) + unat b < 2 ^ 64" using p unat_dword_less [of b] by simp
  note lo = write_loop_ok [OF f top _ _ lp]
  have md: "written fs fp xs buff 0 k fs1 (fp1\<lparr>flag := flag fp1 OR FA_MODIFIED\<rparr>)" if "written fs fp xs buff 0 k fs1 fp1" for k
  proof -
    have d: "dirty (fp1\<lparr>flag := flag fp1 OR 64\<rparr>) = dirty fp1" by (simp add: dirty_def bit.conj_disj_distrib2)
    then have "fbyte fs1 (fp1\<lparr>flag := flag fp1 OR 64\<rparr>) ys j = fbyte fs1 fp1 ys j" for ys j by (simp add: fbyte_def abyte_def)
    moreover have "fil_ok fs1 (fp1\<lparr>flag := flag fp1 OR 64\<rparr>) ys = fil_ok fs1 fp1 ys" for ys by (simp add: fil_ok_def d)
    ultimately show ?thesis using that by (simp add: written_def wrote_def)
  qed
  have "r1 = Some FR_INT_ERR \<or> r1 = Some FR_DISK_ERR \<or> r1 = None \<and> (\<exists>k. unat bw1 = k \<and> k \<le> unat b \<and>
      written fs fp xs buff 0 k fs1 fp1 \<and> (k < unat b \<longrightarrow> full fs1))"
    using lo touched_fuel [of "SSn fs" "unat (fptr fp)" "unat b"] vol_sizes(1) [OF F(1)] unat_dword_less [of b] by simp
  then show ?thesis using eq md by (auto simp: ABORT_def ub)
qed

text \<open>C2. \<open>f_write\<close> updates the file and nothing else. For a file object on a FAT12/16/32 volume that
  satisfies the invariant (which includes a device that reports every failed read), is open for writing and below 4 GiB, the only results are success, a disk error
  and the internal error of a corrupted table, and an error is stored in the object. On success
  the chain of the file may have grown; the bytes written stand at the position, every other
  byte up to the old end of the file is as it was, position and size have advanced, the
  invariant holds again, and of the rest of the volume every sector outside the FATs and the
  file, and every chain that shared no cluster with the file, are unchanged. Fewer bytes than
  asked for (clipped at 4 GiB) are written only when the volume is full.\<close>

theorem f_write_updates_file:
  assumes "fil_ok fs fp xs" and "validate fs (f_obj fp) = FR_OK" "f_err fp = FR_OK" "flag fp AND FA_WRITE \<noteq> 0"
    and "unat (objsize (f_obj fp)) < 2 ^ 32" and "f_write fs fp buff btw = (r, bw, fs', fp')"
  shows "r = FR_OK \<and> unat bw \<le> min (unat btw) (2 ^ 32 - 1 - unat (fptr fp)) \<and>
      (unat bw < min (unat btw) (2 ^ 32 - 1 - unat (fptr fp)) \<longrightarrow> free_clst fs' = 0 \<or> no_free fs') \<and>
      unat (fptr fp') = unat (fptr fp) + unat bw \<and>
      unat (objsize (f_obj fp')) = max (unat (fptr fp) + unat bw) (unat (objsize (f_obj fp))) \<and>
      (\<exists>xs'. fil_ok fs' fp' xs' \<and> other_files fs xs fs' xs' \<and>
        (\<forall>t<unat bw. fbyte fs' fp' xs' (unat (fptr fp) + t) = buff t) \<and>
        (\<forall>k<unat (objsize (f_obj fp)). k < unat (fptr fp) \<or> unat (fptr fp) + unat bw \<le> k \<longrightarrow>
           fbyte fs' fp' xs' k = fbyte fs fp xs k)) \<or>
    (r = FR_INT_ERR \<or> r = FR_DISK_ERR) \<and> f_err fp' = r"
  using f_write_ok [OF assms(1-5) refl assms(6)] unfolding written_def wrote_def full_def by auto

theorem f_write_updates_file_witness:
  "case f_write demo_fs (demo_fil\<lparr>flag := 2\<rparr>) (\<lambda>i. of_nat i) 600 of (r, bw, fs', fp') \<Rightarrow>
     r = FR_OK \<and> bw = 600 \<and> (\<exists>xs'. fil_ok fs' fp' xs' \<and> fbyte fs' fp' xs' 599 = 87) \<and> objsize (f_obj fp') = 600"
proof -
  let ?fp = "demo_fil\<lparr>flag := 2\<rparr>"
  obtain r bw fs' fp' where fw: "f_write demo_fs ?fp (\<lambda>i. of_nat i) 600 = (r, bw, fs', fp')" by (metis prod_cases4)
  have r: "case f_write demo_fs ?fp (\<lambda>i. of_nat i) 600 of (r, bw, fs', fp') \<Rightarrow> r = FR_OK \<and> bw = 600" by code_simp
  have f: "fil_ok demo_fs ?fp [2]" using demo_fil_ok by (simp add: fil_ok_def dirty_def demo_fil_def)
  have "validate demo_fs (f_obj ?fp) = FR_OK" "f_err ?fp = FR_OK" "flag ?fp AND FA_WRITE \<noteq> 0" "unat (objsize (f_obj ?fp)) < 2 ^ 32"
    by (simp_all add: validate_def demo_fs_def demo_fil_def demo_obj_def)
  from f_write_updates_file [OF f this fw] r fw
  show ?thesis by (auto simp: demo_fil_def demo_obj_def word_unat_eq_iff)
qed

end
