(* ===== verification/NtTypes.thy ===== *)
theory NtTypes
  imports FfBytes
begin

text \<open>
  Vocabulary of the model of libntfs-3g (\<open>ntfs3g/src/ntfs-3g\<close>): the integer types of
  \<open>types.h\<close>, the error codes the functions leave in \<open>errno\<close>, and the little-endian fields of
  \<open>endians.h\<close> and \<open>layout.h\<close>. Unsigned types are words. The signed 64-bit type is \<open>int\<close>, with
  the wrap-around of each operation that can overflow written out by \<open>wrap64\<close>. A pointer into a
  buffer is a buffer and an offset; a little-endian field is read and written by the same byte
  sequences as in FatFs.
\<close>

type_synonym u8 = "8 word"
type_synonym u16 = "16 word"
type_synonym u32 = "32 word"
type_synonym u64 = "64 word"
type_synonym s64 = int
type_synonym VCN = int
type_synonym LCN = int
type_synonym ntfschar = "16 word"

datatype errno = EINVAL | EIO | ENOSPC | ENOMEM | ERANGE | ENOENT | EILSEQ | ENAMETOOLONG | EOPNOTSUPP | EOVERFLOW | EPERM | EINTR | EROFS | ESPIPE

datatype IGNORE_CASE_BOOL = CASE_SENSITIVE | IGNORE_CASE

definition wrap64 :: "int \<Rightarrow> s64" where
  "wrap64 x = signed_take_bit 63 x"

abbreviation le16_at :: "mem \<Rightarrow> nat \<Rightarrow> u16" where
  "le16_at \<equiv> ld_word"

abbreviation le32_at :: "mem \<Rightarrow> nat \<Rightarrow> u32" where
  "le32_at \<equiv> ld_dword"

abbreviation le64_at :: "mem \<Rightarrow> nat \<Rightarrow> u64" where
  "le64_at \<equiv> ld_qword"

abbreviation put_le16 :: "mem \<Rightarrow> nat \<Rightarrow> u16 \<Rightarrow> mem" where
  "put_le16 \<equiv> st_word"

abbreviation put_le32 :: "mem \<Rightarrow> nat \<Rightarrow> u32 \<Rightarrow> mem" where
  "put_le32 \<equiv> st_dword"

lemma wrap64_id: "- (2 ^ 63) \<le> x \<Longrightarrow> x < 2 ^ 63 \<Longrightarrow> wrap64 x = x"
  by (simp add: wrap64_def signed_take_bit_int_eq_self)

end
