(* ===== verification/NtMst.thy ===== *)
theory NtMst
  imports NtTypes
begin

text \<open>
  Multi sector transfer protection, \<open>mst.c\<close>. A record of several sectors carries in its first
  sector an update sequence array: a number, and for each sector the two bytes that the number
  replaces at the end of that sector on disk. Writing applies the protection, reading removes
  it and detects a record of which only some sectors were written.
\<close>

section \<open>The code\<close>

definition NTFS_BLOCK_SIZE :: nat where
  "NTFS_BLOCK_SIZE = 512"

definition magic_BAAD :: u32 where
  "magic_BAAD = 0x44414142"

definition magic_HOLE :: u32 where
  "magic_HOLE = 0x454c4f48"

text \<open>The fields of \<open>NTFS_RECORD\<close>.\<close>

definition magic :: "mem \<Rightarrow> u32" where
  "magic b = le32_at b 0"

definition usa_ofs :: "mem \<Rightarrow> u16" where
  "usa_ofs b = le16_at b 4"

definition usa_count :: "mem \<Rightarrow> u16" where
  "usa_count b = le16_at b 6"

definition is_valid_record :: "u32 \<Rightarrow> u16 \<Rightarrow> u16 \<Rightarrow> bool" where
  "is_valid_record sz ofs count \<longleftrightarrow>
     sz mod 512 = 0 \<and> ofs mod 2 = 0 \<and> ucast count = 1 + sz div 512 \<and> ucast ofs + ucast count * 2 \<le> (510 :: u32)"

text \<open>
  The loops \<open>while (--usa_count)\<close> run \<open>usa_count - 1\<close> times, in 16 bits. Positions are byte
  offsets; the code's pointers to 16-bit values step by two bytes.
\<close>

fun mst_check :: "nat \<Rightarrow> mem \<Rightarrow> nat \<Rightarrow> u16 \<Rightarrow> bool" where
  "mst_check 0 b data_pos usn = True"
| "mst_check (Suc n) b data_pos usn =
     (if le16_at b data_pos \<noteq> usn then False else mst_check n b (data_pos + NTFS_BLOCK_SIZE) usn)"

fun mst_restore :: "nat \<Rightarrow> mem \<Rightarrow> nat \<Rightarrow> nat \<Rightarrow> mem" where
  "mst_restore 0 b usa_pos data_pos = b"
| "mst_restore (Suc n) b usa_pos data_pos =
     (let usa_pos = usa_pos + 2; b = put_le16 b data_pos (le16_at b usa_pos) in
      mst_restore n b usa_pos (data_pos + NTFS_BLOCK_SIZE))"

definition ntfs_mst_post_read_fixup :: "mem \<Rightarrow> u32 \<Rightarrow> errno option \<times> mem" where
  "ntfs_mst_post_read_fixup b sz =
     (let ofs = usa_ofs b; count = usa_count b in
      if \<not> is_valid_record sz ofs count then (Some EINVAL, b)
      else
        let usa_pos = 2 * (unat ofs div 2); usn = le16_at b usa_pos; n = unat (count - 1) in
        if \<not> mst_check n b (NTFS_BLOCK_SIZE - 2) usn then (Some EIO, put_le32 b 0 magic_BAAD)
        else (None, mst_restore n b usa_pos (NTFS_BLOCK_SIZE - 2)))"

fun mst_protect :: "nat \<Rightarrow> mem \<Rightarrow> nat \<Rightarrow> nat \<Rightarrow> u16 \<Rightarrow> mem" where
  "mst_protect 0 b usa_pos data_pos usn = b"
| "mst_protect (Suc n) b usa_pos data_pos usn =
     (let usa_pos = usa_pos + 2; b = put_le16 b usa_pos (le16_at b data_pos); b = put_le16 b data_pos usn in
      mst_protect n b usa_pos (data_pos + NTFS_BLOCK_SIZE) usn)"

definition next_usn :: "u16 \<Rightarrow> u16" where
  "next_usn u = (let usn = u + 1 in if usn = 0xffff \<or> usn = 0 then 1 else usn)"

definition ntfs_mst_pre_write_fixup :: "mem \<Rightarrow> u32 \<Rightarrow> errno option \<times> mem" where
  "ntfs_mst_pre_write_fixup b sz =
     (if magic b = magic_BAAD \<or> magic b = magic_HOLE then (Some EINVAL, b)
      else
        let ofs = usa_ofs b; count = usa_count b in
        if \<not> is_valid_record sz ofs count then (Some EINVAL, b)
        else
          let usa_pos = unat ofs; usn = next_usn (le16_at b usa_pos); b = put_le16 b usa_pos usn in
          (None, mst_protect (unat (count - 1)) b usa_pos (NTFS_BLOCK_SIZE - 2) usn))"

definition ntfs_mst_post_write_fixup :: "mem \<Rightarrow> mem" where
  "ntfs_mst_post_write_fixup b =
     (let ofs = usa_ofs b; count = usa_count b in
      mst_restore (unat (count - 1)) b (2 * (unat ofs div 2)) (NTFS_BLOCK_SIZE - 2))"

section \<open>What the loops do\<close>

text \<open>The place the protection of sector \<open>k\<close> uses, and its slot in the update sequence array.\<close>

abbreviation (input) prot :: "nat \<Rightarrow> nat" where
  "prot k \<equiv> 510 + 512 * k"

lemma mst_check_iff: "mst_check n b d usn \<longleftrightarrow> (\<forall>k<n. le16_at b (d + 512 * k) = usn)"
proof (induction n arbitrary: d)
  case (Suc n)
  have "(\<forall>k<Suc n. le16_at b (d + 512 * k) = usn) \<longleftrightarrow>
      le16_at b d = usn \<and> (\<forall>k<n. le16_at b (d + 512 + 512 * k) = usn)"
    by (simp add: All_less_Suc2 add.assoc)
  then show ?case by (simp add: Suc.IH NTFS_BLOCK_SIZE_def)
qed simp

declare add_2_eq_Suc' [simp del] add_2_eq_Suc [simp del]

lemma mst_restore_Suc: "mst_restore (Suc n) b u d = mst_restore n (put_le16 b d (le16_at b (u + 2))) (u + 2) (d + 512)"
  by (simp add: Let_def NTFS_BLOCK_SIZE_def)

lemma mst_protect_Suc:
  "mst_protect (Suc n) b u d usn =
     mst_protect n (put_le16 (put_le16 b (u + 2) (le16_at b d)) d usn) (u + 2) (d + 512) usn"
  by (simp add: Let_def NTFS_BLOCK_SIZE_def)

declare mst_restore.simps(2) [simp del] mst_protect.simps(2) [simp del]

text \<open>Restoring writes the protected places only.\<close>

lemma mst_restore_outside:
  "(\<And>k. k < n \<Longrightarrow> i < d + 512 * k \<or> d + 512 * k + 2 \<le> i) \<Longrightarrow> mst_restore n b u d i = b i"
proof (induction n arbitrary: b u d)
  case (Suc n)
  have "i < d + 512 + 512 * k \<or> d + 512 + 512 * k + 2 \<le> i" if "k < n" for k
    using Suc.prems [of "Suc k"] that by (auto simp: add.assoc)
  note ih = Suc.IH [OF this]
  have "i < d \<or> d + 2 \<le> i" using Suc.prems [of 0] by simp
  then show ?case by (simp add: mst_restore_Suc ih wd.st_outside)
qed simp

text \<open>
  When the array lies before the protected place of the first sector, the restored words are
  those of the array.
\<close>

lemma mst_restore_words:
  "u + 2 * n + 2 \<le> d \<Longrightarrow> k < n \<Longrightarrow> le16_at (mst_restore n b u d) (d + 512 * k) = le16_at b (u + 2 + 2 * k)"
proof (induction n arbitrary: b u d k)
  case (Suc n)
  let ?b = "put_le16 b d (le16_at b (u + 2))"
  show ?case
  proof (cases k)
    case 0
    have "le16_at (mst_restore n ?b (u + 2) (d + 512)) d = le16_at ?b d"
      by (intro wd.ld_cong mst_restore_outside) auto
    then show ?thesis using 0 by (simp add: mst_restore_Suc)
  next
    case (Suc j)
    have "le16_at ?b (u + 2 + 2 + 2 * j) = le16_at b (u + 2 + 2 + 2 * j)"
      using Suc.prems Suc by (intro wd.ld_st_disjoint) simp
    then show ?thesis using Suc.IH [of "u + 2" "d + 512" j ?b] Suc.prems Suc by (simp add: mst_restore_Suc add.assoc)
  qed
qed simp

text \<open>Protecting writes the array and the protected places only.\<close>

lemma mst_protect_outside:
  "(\<And>k. k < n \<Longrightarrow> i < d + 512 * k \<or> d + 512 * k + 2 \<le> i) \<Longrightarrow> i < u + 2 \<or> u + 2 + 2 * n \<le> i \<Longrightarrow>
     mst_protect n b u d usn i = b i"
proof (induction n arbitrary: b u d)
  case (Suc n)
  have "i < d + 512 + 512 * k \<or> d + 512 + 512 * k + 2 \<le> i" if "k < n" for k
    using Suc.prems(1) [of "Suc k"] that by (auto simp: add.assoc)
  note ih = Suc.IH [OF this]
  have "i < d \<or> d + 2 \<le> i" using Suc.prems(1) [of 0] by simp
  moreover have "i < u + 2 + 2 \<or> u + 2 + 2 + 2 * n \<le> i" "i < u + 2 \<or> u + 2 + 2 \<le> i" using Suc.prems(2) by auto
  ultimately show ?case by (simp add: mst_protect_Suc ih wd.st_outside)
qed simp

lemma mst_protect_words:
  "u + 2 * n + 2 \<le> d \<Longrightarrow> k < n \<Longrightarrow>
     le16_at (mst_protect n b u d usn) (d + 512 * k) = usn \<and>
     le16_at (mst_protect n b u d usn) (u + 2 + 2 * k) = le16_at b (d + 512 * k)"
proof (induction n arbitrary: b u d k)
  case (Suc n)
  let ?b = "put_le16 (put_le16 b (u + 2) (le16_at b d)) d usn"
  show ?case
  proof (cases k)
    case 0
    have "le16_at (mst_protect n ?b (u + 2) (d + 512) usn) d = le16_at ?b d"
      using Suc.prems by (intro wd.ld_cong mst_protect_outside) auto
    moreover have "le16_at (mst_protect n ?b (u + 2) (d + 512) usn) (u + 2) = le16_at ?b (u + 2)"
      using Suc.prems by (intro wd.ld_cong mst_protect_outside) auto
    moreover have "le16_at ?b (u + 2) = le16_at b d" using Suc.prems by (simp add: wd.ld_st_disjoint)
    ultimately show ?thesis using 0 by (simp add: mst_protect_Suc)
  next
    case (Suc j)
    have "le16_at ?b (d + 512 + 512 * j) = le16_at b (d + 512 + 512 * j)"
      using Suc.prems by (simp add: wd.ld_st_disjoint)
    then show ?thesis using Suc.IH [of "u + 2" "d + 512" j ?b] Suc.prems Suc by (simp add: mst_protect_Suc add.assoc)
  qed
qed simp

section \<open>Protected records\<close>

lemma valid_nat:
  assumes "is_valid_record sz ofs count"
  shows "unat ofs + 2 * unat count \<le> 510" "0 < unat count" "unat (count - 1) = unat count - 1"
    "2 * (unat ofs div 2) = unat ofs" "unat sz = 512 * (unat count - 1)"
proof -
  have v: "sz mod 512 = 0" "ofs mod 2 = 0" "ucast count = 1 + sz div 512" "ucast ofs + ucast count * 2 \<le> (510 :: u32)"
    using assms unfolding is_valid_record_def by blast+
  have u: "unat (ucast x :: u32) = unat x" for x :: u16
    using unat_word_less [of x] by (simp add: unsigned_ucast_eq take_bit_nat_eq_self)
  have "unat (ucast ofs + ucast count * 2 :: u32) = unat ofs + unat count * 2"
    using unat_word_less [of ofs] unat_word_less [of count] by (simp add: unat_word_ariths u)
  then show "unat ofs + 2 * unat count \<le> 510" using v(4) by (simp add: word_le_nat_alt)
  have d: "unat sz div 512 < 2 ^ 23" using unat_dword_less [of sz] by (simp add: less_mult_imp_div_less)
  have "unat (sz div 512) = unat sz div 512" by (simp add: unat_div)
  then have "unat (1 + sz div 512) = 1 + unat sz div 512" using d by (simp add: unat_word_ariths)
  then have c1: "unat count = 1 + unat sz div 512" using arg_cong [OF v(3), of unat] by (simp add: u)
  then show c: "0 < unat count" by simp
  then have "1 \<le> count" by (simp add: word_le_nat_alt)
  then show "unat (count - 1) = unat count - 1" by (simp add: unat_sub)
  have "unat ofs mod 2 = 0" using arg_cong [OF v(2), of unat] by (simp add: unat_mod)
  then show "2 * (unat ofs div 2) = unat ofs" by presburger
  have "unat sz mod 512 = 0" using arg_cong [OF v(1), of unat] by (simp add: unat_mod)
  then show "unat sz = 512 * (unat count - 1)" using c1 by auto
qed

text \<open>
  What a successful \<open>ntfs_mst_pre_write_fixup\<close> leaves: \<open>n\<close> sectors that all end in the new
  number, the array with the number and the replaced words, and otherwise the record.
\<close>

definition protected :: "mem \<Rightarrow> nat \<Rightarrow> nat \<Rightarrow> u16 \<Rightarrow> mem \<Rightarrow> bool" where
  "protected b u n usn b' \<longleftrightarrow>
     le16_at b' u = usn \<and>
     (\<forall>k<n. le16_at b' (510 + 512 * k) = usn \<and> le16_at b' (u + 2 + 2 * k) = le16_at b (510 + 512 * k)) \<and>
     (\<forall>i. (\<forall>k<n. i < 510 + 512 * k \<or> 510 + 512 * k + 2 \<le> i) \<longrightarrow> i < u \<or> u + 2 + 2 * n \<le> i \<longrightarrow> b' i = b i)"

lemma mst_protect_protected:
  assumes fit: "u + 2 * n + 2 \<le> 510"
  shows "protected b u n usn (mst_protect n (put_le16 b u usn) u 510 usn)"
proof -
  let ?b = "put_le16 b u usn"
  let ?b' = "mst_protect n ?b u 510 usn"
  have "le16_at ?b' u = le16_at ?b u" using fit by (intro wd.ld_cong mst_protect_outside) auto
  then have a: "le16_at ?b' u = usn" by simp
  have w: "le16_at ?b' (510 + 512 * k) = usn \<and> le16_at ?b' (u + 2 + 2 * k) = le16_at b (510 + 512 * k)" if "k < n" for k
  proof -
    have "le16_at ?b (510 + 512 * k) = le16_at b (510 + 512 * k)" using fit by (intro wd.ld_st_disjoint) simp
    then show ?thesis using mst_protect_words [OF fit that, of ?b usn] by simp
  qed
  have "?b' i = b i" if "\<forall>k<n. i < 510 + 512 * k \<or> 510 + 512 * k + 2 \<le> i" "i < u \<or> u + 2 + 2 * n \<le> i" for i
  proof -
    have "?b' i = ?b i" using that by (intro mst_protect_outside) auto
    also have "\<dots> = b i" using that(2) by (intro wd.st_outside) auto
    finally show ?thesis .
  qed
  then show ?thesis using a w by (auto simp: protected_def)
qed

lemma pre_write_protected:
  assumes pw: "ntfs_mst_pre_write_fixup b sz = (None, b')"
  shows "is_valid_record sz (usa_ofs b) (usa_count b)"
    "protected b (unat (usa_ofs b)) (unat (usa_count b) - 1) (next_usn (le16_at b (unat (usa_ofs b)))) b'"
proof -
  show v: "is_valid_record sz (usa_ofs b) (usa_count b)"
    using pw by (auto simp: ntfs_mst_pre_write_fixup_def Let_def split: if_splits)
  note vn = valid_nat [OF v]
  have "b' = mst_protect (unat (usa_count b) - 1) (put_le16 b (unat (usa_ofs b)) (next_usn (le16_at b (unat (usa_ofs b)))))
      (unat (usa_ofs b)) 510 (next_usn (le16_at b (unat (usa_ofs b))))"
    using pw vn(3) by (auto simp: ntfs_mst_pre_write_fixup_def Let_def NTFS_BLOCK_SIZE_def split: if_splits)
  then show "protected b (unat (usa_ofs b)) (unat (usa_count b) - 1) (next_usn (le16_at b (unat (usa_ofs b)))) b'"
    using mst_protect_protected [of "unat (usa_ofs b)" "unat (usa_count b) - 1"] vn by simp
qed

text \<open>The header of a record is kept, unless the array lies over it.\<close>

lemma protected_header:
  assumes p: "protected b u n usn b'" and fit: "u + 2 * n + 2 \<le> 510" and u: "8 \<le> u"
  shows "usa_ofs b' = usa_ofs b" "usa_count b' = usa_count b"
proof -
  have "b' i = b i" if "i < 8" for i using p u fit that by (simp add: protected_def)
  then show "usa_ofs b' = usa_ofs b" "usa_count b' = usa_count b"
    unfolding usa_ofs_def usa_count_def by (auto intro!: wd.ld_cong)
qed

lemma post_read_eq:
  assumes v: "is_valid_record sz (usa_ofs b) (usa_count b)" and u: "u = unat (usa_ofs b)" and n: "n = unat (usa_count b) - 1"
  shows "ntfs_mst_post_read_fixup b sz =
    (if \<forall>k<n. le16_at b (510 + 512 * k) = le16_at b u then (None, mst_restore n b u 510)
     else (Some EIO, put_le32 b 0 magic_BAAD))"
  using v valid_nat [OF v] by (simp add: ntfs_mst_post_read_fixup_def Let_def mst_check_iff u n NTFS_BLOCK_SIZE_def)

text \<open>A word that agrees at every place agrees byte by byte.\<close>

lemma word_bytes:
  assumes "le16_at b p = le16_at b' p" and "p \<le> i" "i < p + 2"
  shows "b i = b' i"
proof -
  have "st_word b p (le16_at b p) i = st_word b' p (le16_at b' p) i"
    using assms by (simp add: st_word_byte)
  then show ?thesis by (simp add: wd.st_ld)
qed

section \<open>Properties\<close>

lemma mst_read_back:
  assumes pw: "ntfs_mst_pre_write_fixup b sz = (None, b1)" and u: "8 \<le> unat (usa_ofs b)"
  shows "\<exists>b2. ntfs_mst_post_read_fixup b1 sz = (None, b2) \<and> ntfs_mst_post_write_fixup b1 = b2 \<and>
    le16_at b2 (unat (usa_ofs b)) = next_usn (le16_at b (unat (usa_ofs b))) \<and>
    (\<forall>i. i < unat (usa_ofs b) \<or> unat (usa_ofs b) + 2 * unat (usa_count b) \<le> i \<longrightarrow> b2 i = b i)"
proof -
  note p = pre_write_protected [OF pw]
  note vn = valid_nat [OF p(1)]
  define o1 n where "o1 = unat (usa_ofs b)" and "n = unat (usa_count b) - 1"
  have fit: "o1 + 2 * n + 2 \<le> 510" and cn: "unat (usa_count b) = Suc n" using vn(1,2) by (simp_all add: o1_def n_def)
  have pr: "protected b o1 n (next_usn (le16_at b o1)) b1" using p(2) by (simp add: o1_def n_def)
  note hd = protected_header [OF pr fit u [folded o1_def]]
  let ?b2 = "mst_restore n b1 o1 510"
  have "ntfs_mst_post_read_fixup b1 sz = (None, ?b2)"
    using post_read_eq [of sz b1 o1 n] p(1) pr by (simp add: hd o1_def n_def protected_def)
  moreover have "ntfs_mst_post_write_fixup b1 = ?b2"
    using vn by (simp add: ntfs_mst_post_write_fixup_def Let_def hd o1_def n_def NTFS_BLOCK_SIZE_def)
  moreover have "le16_at ?b2 o1 = next_usn (le16_at b o1)"
  proof -
    have "le16_at ?b2 o1 = le16_at b1 o1" using fit by (intro wd.ld_cong mst_restore_outside) auto
    then show ?thesis using pr by (simp add: protected_def)
  qed
  moreover have "?b2 i = b i" if i: "i < o1 \<or> o1 + 2 * Suc n \<le> i" for i
  proof (cases "\<exists>k<n. 510 + 512 * k \<le> i \<and> i < 510 + 512 * k + 2")
    case True
    then obtain k where k: "k < n" "510 + 512 * k \<le> i" "i < 510 + 512 * k + 2" by blast
    have "le16_at ?b2 (510 + 512 * k) = le16_at b (510 + 512 * k)"
      using mst_restore_words [OF fit k(1), of b1] pr k(1) by (simp add: protected_def)
    then show ?thesis using word_bytes k by blast
  next
    case False
    then have no: "\<forall>k<n. i < 510 + 512 * k \<or> 510 + 512 * k + 2 \<le> i" by (metis not_less)
    then have "?b2 i = b1 i" by (intro mst_restore_outside) auto
    then show ?thesis using pr no i unfolding protected_def by auto
  qed
  ultimately show ?thesis using cn unfolding o1_def by auto
qed

text \<open>C5. A protected record reads back. After \<open>ntfs_mst_pre_write_fixup\<close> has succeeded on a
  record whose update sequence array does not lie over its header, \<open>ntfs_mst_post_read_fixup\<close>
  succeeds on the result, and so does undoing the protection in memory with
  \<open>ntfs_mst_post_write_fixup\<close>: both give back the record, except for the array, whose number has
  advanced.\<close>
theorem mst_round_trip:
  assumes "ntfs_mst_pre_write_fixup b sz = (None, b1)" and "8 \<le> unat (usa_ofs b)"
  shows "case ntfs_mst_post_read_fixup b1 sz of (e, b2) \<Rightarrow>
    e = None \<and> ntfs_mst_post_write_fixup b1 = b2 \<and>
    le16_at b2 (unat (usa_ofs b)) = next_usn (le16_at b (unat (usa_ofs b))) \<and>
    (\<forall>i. i < unat (usa_ofs b) \<or> unat (usa_ofs b) + 2 * unat (usa_count b) \<le> i \<longrightarrow> b2 i = b i)"
  using mst_read_back [OF assms] by auto

text \<open>A record of two sectors with its array at byte 42, as in an MFT record.\<close>

definition demo_record :: "u16 \<Rightarrow> mem" where
  "demo_record usn = put_le16 (put_le16 (put_le16 (\<lambda>i. of_nat i) 4 42) 6 3) 42 usn"

theorem mst_round_trip_witness:
  "case ntfs_mst_pre_write_fixup (demo_record 0xFFFE) 1024 of (e, b1) \<Rightarrow>
     e = None \<and> b1 1022 = 1 \<and> (case ntfs_mst_post_read_fixup b1 1024 of (e2, b2) \<Rightarrow> e2 = None \<and> b2 1022 = 254)"
proof -
  obtain e b1 where pw: "ntfs_mst_pre_write_fixup (demo_record 0xFFFE) 1024 = (e, b1)" by fastforce
  have ev: "case ntfs_mst_pre_write_fixup (demo_record 0xFFFE) 1024 of (e, b1) \<Rightarrow> e = None \<and> b1 1022 = 1" by code_simp
  have h: "usa_ofs (demo_record 0xFFFE) = 42" "usa_count (demo_record 0xFFFE) = 3" "demo_record 0xFFFE 1022 = 254" by code_simp+
  have "e = None" using ev pw by simp
  from mst_round_trip [OF pw [unfolded this]] h pw ev show ?thesis by (auto split: prod.splits)
qed

lemma next_usn_fresh: "next_usn u \<noteq> u"
  by (auto simp: next_usn_def Let_def)

text \<open>C4. A torn write is detected. Let \<open>A\<close> be the image of a record on disk and \<open>B\<close> the image
  written over it next, both made by \<open>ntfs_mst_pre_write_fixup\<close> with the array in the same place
  and the number of \<open>A\<close> carried over. If only some of the sectors of \<open>B\<close> reach the disk, then
  reading the mixture back fails with an I/O error and marks the record \<open>BAAD\<close>.\<close>
theorem mst_detects_torn_write:
  assumes "ntfs_mst_pre_write_fixup a sz = (None, A)" and "ntfs_mst_pre_write_fixup b sz = (None, B)"
    and "usa_ofs b = usa_ofs a" and "8 \<le> unat (usa_ofs a)" and "le16_at b (unat (usa_ofs a)) = le16_at A (unat (usa_ofs a))"
    and "\<And>i. i < unat sz \<Longrightarrow> mix i = (if new (i div 512) then B i else A i)"
    and "j < unat sz div 512" and "new j \<noteq> new 0"
  shows "ntfs_mst_post_read_fixup mix sz = (Some EIO, put_le32 mix 0 magic_BAAD)"
proof -
  note pa = pre_write_protected [OF assms(1)] and pb = pre_write_protected [OF assms(2)]
  note va = valid_nat [OF pa(1)]
  define o1 n where "o1 = unat (usa_ofs a)" and "n = unat (usa_count a) - 1"
  have "unat (usa_count b) = unat (usa_count a)" using valid_nat(2,5) [OF pa(1)] valid_nat(2,5) [OF pb(1)] by linarith
  then have cnt: "usa_count b = usa_count a" by (simp add: word_unat_eq_iff)
  have fit: "o1 + 2 * n + 2 \<le> 510" using va(1,2) by (simp add: o1_def n_def)
  have PA: "protected a o1 n (next_usn (le16_at a o1)) A" and PB: "protected b o1 n (next_usn (le16_at A o1)) B"
    using pa(2) pb(2) assms(3,5) cnt by (simp_all add: o1_def n_def)
  have o8: "8 \<le> o1" using assms(4) by (simp add: o1_def)
  note ha = protected_header [OF PA fit o8] and hb = protected_header [OF PB fit o8]
  have sn: "unat sz = 512 * n" "j < n"
    using va(5) assms(7) by (simp_all add: n_def)
  have mw: "le16_at mix p = le16_at (if new k then B else A) p" if "k < n" "512 * k \<le> p" "p + 2 \<le> 512 * k + 512" for p k
  proof (rule wd.ld_cong)
    fix q assume q: "p \<le> q" "q < p + 2"
    then have "q div 512 = k" using that by (intro div_nat_eqI) simp_all
    moreover have "q < unat sz" using q that sn(1) by simp
    ultimately show "mix q = (if new k then B else A) q" using assms(6) by simp
  qed
  have n0: "0 < n" using sn(2) by simp
  have hm: "usa_ofs mix = usa_ofs a" "usa_count mix = usa_count a"
    using mw [of 0 4] mw [of 0 6] n0 ha hb assms(3) cnt by (auto simp: usa_ofs_def usa_count_def)
  have um: "le16_at mix o1 = le16_at (if new 0 then B else A) o1" using mw [of 0 o1] n0 fit by simp
  have jm: "le16_at mix (510 + 512 * j) = le16_at (if new j then B else A) (510 + 512 * j)" using mw [of j] sn(2) by simp
  have "le16_at mix (510 + 512 * j) \<noteq> le16_at mix o1"
    using um jm assms(8) PA PB sn(2) next_usn_fresh [of "le16_at A o1"] by (auto simp: protected_def)
  then show ?thesis using post_read_eq [of sz mix o1 n] pa(1) hm sn(2) by (auto simp: o1_def n_def)
qed

theorem mst_detects_torn_write_witness:
  "case ntfs_mst_pre_write_fixup (demo_record 7) 1024 of (e, A) \<Rightarrow>
   case ntfs_mst_pre_write_fixup (demo_record 8) 1024 of (e', B) \<Rightarrow>
     e = None \<and> e' = None \<and>
     fst (ntfs_mst_post_read_fixup (\<lambda>i. if i div 512 = 1 then B i else A i) 1024) = Some EIO"
proof -
  obtain e A e' B where a: "ntfs_mst_pre_write_fixup (demo_record 7) 1024 = (e, A)"
    and b: "ntfs_mst_pre_write_fixup (demo_record 8) 1024 = (e', B)" by (metis prod.exhaust)
  have "case ntfs_mst_pre_write_fixup (demo_record 7) 1024 of (e, A) \<Rightarrow> e = None \<and> le16_at A 42 = 8"
    "case ntfs_mst_pre_write_fixup (demo_record 8) 1024 of (e, A) \<Rightarrow> e = None" by code_simp+
  then have e: "e = None" "e' = None" "le16_at A 42 = 8" using a b by simp_all
  have h: "usa_ofs (demo_record 7) = 42" "usa_ofs (demo_record 8) = 42" "le16_at (demo_record 8) 42 = 8" by code_simp+
  from mst_detects_torn_write [OF a [unfolded e] b [unfolded e], of "\<lambda>i. if i div 512 = 1 then B i else A i" "\<lambda>k. k = 1" 1] h e a b
  show ?thesis by simp
qed

end
