(* ===== verification/NtDevice.thy ===== *)
theory NtDevice
  imports NtMst
begin

text \<open>
  The device layer of libntfs-3g: \<open>device.c\<close> over the device operations of \<open>unix_io.c\<close>, which
  this program has rewritten to call \<open>ntfs_dev_lseek\<close>, \<open>ntfs_dev_read\<close> and \<open>ntfs_dev_write\<close> of
  \<open>ntfs3g/src/n3g_extern.rs\<close>. The object behind a device is a record of its contents and of its
  answers. None of these functions sets \<open>errno\<close> on a failed transfer: what the caller finds there
  is the field \<open>nd_errno\<close>.
\<close>

section \<open>The device\<close>

record ntfs_device =
  nd_read_only :: bool
  nd_dirty :: bool
  nd_sync :: bool
  nd_pos :: nat
  nd_bytes :: mem
  nd_errno :: errno
  nd_seek :: "nat \<Rightarrow> nat option"
  nd_read :: "nat \<Rightarrow> nat \<Rightarrow> bool"
  nd_write :: "nat \<Rightarrow> nat \<Rightarrow> nat"

text \<open>
  \<open>nd_seek\<close> is the position after a seek, \<open>nd_read\<close> whether \<open>read_exact\<close> succeeds at a position for
  a number of bytes, \<open>nd_write\<close> how many bytes \<open>write_all\<close> stores before it fails.
\<close>

definition ntfs_dev_lseek :: "ntfs_device \<Rightarrow> s64 \<Rightarrow> nat \<Rightarrow> s64 \<times> ntfs_device" where
  "ntfs_dev_lseek d pos whence =
     (if whence \<noteq> 0 then (-1, d)
      else if pos < 0 then (-1, d)
      else case nd_seek d (nat pos) of
        None \<Rightarrow> (-1, d)
      | Some p \<Rightarrow> (if int p < 2 ^ 63 then int p else -1, d\<lparr>nd_pos := p\<rparr>))"

definition ntfs_dev_read :: "ntfs_device \<Rightarrow> mem \<Rightarrow> nat \<Rightarrow> nat \<Rightarrow> s64 \<times> mem \<times> ntfs_device" where
  "ntfs_dev_read d buf at count =
     (if \<not> nd_read d (nd_pos d) count then (-1, buf, d)
      else
        let d' = d\<lparr>nd_pos := nd_pos d + count\<rparr> in
        if count = 0 then (0, buf, d')
        else (if int count < 2 ^ 63 then int count else -1, mem_cpy buf at (nd_bytes d) (nd_pos d) count, d'))"

definition ntfs_dev_write :: "ntfs_device \<Rightarrow> mem \<Rightarrow> nat \<Rightarrow> nat \<Rightarrow> s64 \<times> ntfs_device" where
  "ntfs_dev_write d buf at count =
     (let n = min (nd_write d (nd_pos d) count) count;
          d' = d\<lparr>nd_bytes := mem_cpy (nd_bytes d) (nd_pos d) buf at n, nd_pos := nd_pos d + n\<rparr> in
      (if n = count \<and> int count < 2 ^ 63 then int count else -1, d'))"

section \<open>Device operations\<close>

definition ntfs_device_unix_io_pread ::
  "ntfs_device \<Rightarrow> mem \<Rightarrow> nat \<Rightarrow> nat \<Rightarrow> s64 \<Rightarrow> s64 \<times> mem \<times> ntfs_device"
where
  "ntfs_device_unix_io_pread d buf at count offset =
     (case ntfs_dev_lseek d offset 0 of
        (r, d) \<Rightarrow> if r \<noteq> offset then (-1, buf, d) else ntfs_dev_read d buf at count)"

definition ntfs_device_unix_io_pwrite :: "ntfs_device \<Rightarrow> mem \<Rightarrow> nat \<Rightarrow> nat \<Rightarrow> s64 \<Rightarrow> s64 \<times> ntfs_device" where
  "ntfs_device_unix_io_pwrite d buf at count offset =
     (case ntfs_dev_lseek d offset 0 of
        (r, d) \<Rightarrow> if r \<noteq> offset then (-1, d) else ntfs_dev_write d buf at count)"

definition ntfs_device_unix_io_sync :: "ntfs_device \<Rightarrow> s64" where
  "ntfs_device_unix_io_sync d = 0"

section \<open>Positioned reads and writes\<close>

function pread_loop ::
  "ntfs_device \<Rightarrow> s64 \<Rightarrow> nat \<Rightarrow> mem \<Rightarrow> nat \<Rightarrow> nat \<Rightarrow> (errno + nat) \<times> mem \<times> ntfs_device"
where
  "pread_loop d pos count b at tot =
     (if count = 0 then (Inr tot, b, d)
      else
        case ntfs_device_unix_io_pread d b (at + tot) count (wrap64 (pos + int tot)) of
          (br, b, d) \<Rightarrow>
            if br > 0 then pread_loop d pos (count - nat br) b at (tot + nat br)
            else if br = 0 \<or> tot \<noteq> 0 then (Inr tot, b, d)
            else (Inl (nd_errno d), b, d))"
  by pat_completeness auto
termination by (relation "measure (\<lambda>(d, pos, count, b, at, tot). count)") auto

definition ntfs_pread ::
  "ntfs_device \<Rightarrow> s64 \<Rightarrow> s64 \<Rightarrow> mem \<Rightarrow> nat \<Rightarrow> (errno + nat) \<times> mem \<times> ntfs_device"
where
  "ntfs_pread d pos count b at =
     (if count < 0 \<or> pos < 0 then (Inl EINVAL, b, d)
      else if count = 0 then (Inr 0, b, d)
      else pread_loop d pos (nat count) b at 0)"

function pwrite_loop :: "ntfs_device \<Rightarrow> s64 \<Rightarrow> nat \<Rightarrow> mem \<Rightarrow> nat \<Rightarrow> nat \<Rightarrow> s64 \<times> ntfs_device" where
  "pwrite_loop d pos count b at tot =
     (if count = 0 then (int tot, d)
      else
        case ntfs_device_unix_io_pwrite d b (at + tot) count (wrap64 (pos + int tot)) of
          (written, d) \<Rightarrow>
            if written > 0 then pwrite_loop d pos (count - nat written) b at (tot + nat written)
            else if written = 0 \<or> tot \<noteq> 0 then (int tot, d)
            else (written, d))"
  by pat_completeness auto
termination by (relation "measure (\<lambda>(d, pos, count, b, at, tot). count)") auto

declare pread_loop.simps [simp del] pwrite_loop.simps [simp del]

definition ntfs_pwrite :: "ntfs_device \<Rightarrow> s64 \<Rightarrow> s64 \<Rightarrow> mem \<Rightarrow> nat \<Rightarrow> (errno + nat) \<times> ntfs_device" where
  "ntfs_pwrite d pos count b at =
     (if count < 0 \<or> pos < 0 then (Inl EINVAL, d)
      else if count = 0 then (Inr 0, d)
      else if nd_read_only d then (Inl EROFS, d)
      else
        case pwrite_loop (d\<lparr>nd_dirty := True\<rparr>) pos (nat count) b at 0 of
          (tot, d) \<Rightarrow>
            let tot = (if nd_sync d \<and> tot \<noteq> 0 \<and> ntfs_device_unix_io_sync d \<noteq> 0 then tot - 1 else tot) in
            (if tot < 0 then Inl (nd_errno d) else Inr (nat tot), d))"

section \<open>Records\<close>

text \<open>The buffer from \<open>k\<close> on, and putting it back.\<close>

definition mem_from :: "mem \<Rightarrow> nat \<Rightarrow> mem" where
  "mem_from b k = (\<lambda>i. b (k + i))"

definition mem_back :: "mem \<Rightarrow> nat \<Rightarrow> mem \<Rightarrow> mem" where
  "mem_back b k r = (\<lambda>i. if i < k then b i else r (i - k))"

fun post_read_blocks :: "nat \<Rightarrow> nat \<Rightarrow> u32 \<Rightarrow> mem \<Rightarrow> mem" where
  "post_read_blocks 0 at bksize b = b"
| "post_read_blocks (Suc n) at bksize b =
     post_read_blocks n (at + unat bksize) bksize
       (mem_back b at (snd (ntfs_mst_post_read_fixup (mem_from b at) bksize)))"

text \<open>A block size of 0 passes the test and the division by it has no result.\<close>

definition ntfs_mst_pread ::
  "ntfs_device \<Rightarrow> s64 \<Rightarrow> s64 \<Rightarrow> u32 \<Rightarrow> mem \<Rightarrow> nat \<Rightarrow> ((errno + nat) \<times> mem \<times> ntfs_device) option"
where
  "ntfs_mst_pread d pos count bksize b at =
     (if bksize AND (bksize - 1) \<noteq> 0 \<or> unat bksize mod NTFS_BLOCK_SIZE \<noteq> 0 then Some (Inl EINVAL, b, d)
      else
        case ntfs_pread d pos (wrap64 (count * uint bksize)) b at of
          (Inl e, b, d) \<Rightarrow> Some (Inl e, b, d)
        | (Inr br, b, d) \<Rightarrow>
            if bksize = 0 then None
            else let count = br div unat bksize in Some (Inr count, post_read_blocks count at bksize b, d))"

text \<open>The blocks protected before one is refused, and the error of that one.\<close>

fun pre_write_blocks :: "nat \<Rightarrow> nat \<Rightarrow> u32 \<Rightarrow> mem \<Rightarrow> nat \<Rightarrow> nat \<times> errno option \<times> mem" where
  "pre_write_blocks 0 at bksize b i = (i, None, b)"
| "pre_write_blocks (Suc n) at bksize b i =
     (case ntfs_mst_pre_write_fixup (mem_from b at) bksize of
        (Some e, r) \<Rightarrow> (i, Some e, mem_back b at r)
      | (None, r) \<Rightarrow> pre_write_blocks n (at + unat bksize) bksize (mem_back b at r) (i + 1))"

fun post_write_blocks :: "nat \<Rightarrow> nat \<Rightarrow> u32 \<Rightarrow> mem \<Rightarrow> mem" where
  "post_write_blocks 0 at bksize b = b"
| "post_write_blocks (Suc n) at bksize b =
     post_write_blocks n (at + unat bksize) bksize (mem_back b at (ntfs_mst_post_write_fixup (mem_from b at)))"

definition ntfs_mst_pwrite ::
  "ntfs_device \<Rightarrow> s64 \<Rightarrow> s64 \<Rightarrow> u32 \<Rightarrow> mem \<Rightarrow> nat \<Rightarrow> (errno + nat) \<times> mem \<times> ntfs_device"
where
  "ntfs_mst_pwrite d pos count bksize b at =
     (if count < 0 \<or> unat bksize mod NTFS_BLOCK_SIZE \<noteq> 0 then (Inl EINVAL, b, d)
      else if count = 0 then (Inr 0, b, d)
      else
        case pre_write_blocks (nat count) at bksize b 0 of
          (n, e, b) \<Rightarrow>
            if e \<noteq> None \<and> n = 0 then (Inl (the e), b, d)
            else
              case ntfs_pwrite d pos (wrap64 (int n * uint bksize)) b at of
                (r, d) \<Rightarrow>
                  let b = post_write_blocks n at bksize b in
                  (case r of Inl e \<Rightarrow> Inl e | Inr w \<Rightarrow> Inr (if w = 0 then 0 else w div unat bksize), b, d))"

section \<open>Clusters\<close>

record ntfs_volume =
  v_dev :: ntfs_device
  v_read_only :: bool
  v_cluster_size_bits :: nat
  v_nr_clusters :: s64

definition shl64 :: "s64 \<Rightarrow> nat \<Rightarrow> s64" where
  "shl64 x n = wrap64 (x * 2 ^ n)"

definition ntfs_cluster_read ::
  "ntfs_volume \<Rightarrow> s64 \<Rightarrow> s64 \<Rightarrow> mem \<Rightarrow> nat \<Rightarrow> (errno + nat) \<times> mem \<times> ntfs_volume"
where
  "ntfs_cluster_read vol lcn count b at =
     (if lcn < 0 \<or> count < 0 then (Inl EINVAL, b, vol)
      else if v_nr_clusters vol < wrap64 (lcn + count) then (Inl ESPIPE, b, vol)
      else
        let bits = v_cluster_size_bits vol in
        case ntfs_pread (v_dev vol) (shl64 lcn bits) (shl64 count bits) b at of
          (r, b, d) \<Rightarrow> (map_sum id (\<lambda>br. br div 2 ^ bits) r, b, vol\<lparr>v_dev := d\<rparr>))"

definition ntfs_cluster_write ::
  "ntfs_volume \<Rightarrow> s64 \<Rightarrow> s64 \<Rightarrow> mem \<Rightarrow> nat \<Rightarrow> (errno + nat) \<times> ntfs_volume"
where
  "ntfs_cluster_write vol lcn count b at =
     (if lcn < 0 \<or> count < 0 then (Inl EINVAL, vol)
      else if v_nr_clusters vol < wrap64 (lcn + count) then (Inl ESPIPE, vol)
      else
        let bits = v_cluster_size_bits vol;
            (bw, d) = (if \<not> v_read_only vol then ntfs_pwrite (v_dev vol) (shl64 lcn bits) (shl64 count bits) b at
                       else (if shl64 count bits < 0 then Inl (nd_errno (v_dev vol)) else Inr (nat (shl64 count bits)), v_dev vol)) in
        (map_sum id (\<lambda>bw. bw div 2 ^ bits) bw, vol\<lparr>v_dev := d\<rparr>))"

section \<open>A device that answers\<close>

text \<open>
  Seeks, reads and writes inside the first \<open>n\<close> bytes succeed, and the device is not read-only.
\<close>

definition dev_good :: "nat \<Rightarrow> ntfs_device \<Rightarrow> bool" where
  "dev_good n d \<longleftrightarrow> int n < 2 ^ 63 \<and> \<not> nd_read_only d \<and>
     (\<forall>p<n. nd_seek d p = Some p) \<and> (\<forall>p k. p + k \<le> n \<longrightarrow> nd_read d p k \<and> k \<le> nd_write d p k)"

text \<open>
  What the callers of a device rely on: inside the good range a read returns the bytes of the
  device, a write replaces them, and both leave a good device.
\<close>

locale byte_device =
  fixes good :: "nat \<Rightarrow> 'd \<Rightarrow> bool" and bytes :: "'d \<Rightarrow> mem"
    and pread :: "'d \<Rightarrow> int \<Rightarrow> int \<Rightarrow> mem \<Rightarrow> nat \<Rightarrow> (errno + nat) \<times> mem \<times> 'd"
    and pwrite :: "'d \<Rightarrow> int \<Rightarrow> int \<Rightarrow> mem \<Rightarrow> nat \<Rightarrow> (errno + nat) \<times> 'd"
  assumes pread_good: "good n d \<Longrightarrow> pos + k \<le> n \<Longrightarrow>
      \<exists>d'. pread d (int pos) (int k) b at = (Inr k, mem_cpy b at (bytes d) pos k, d') \<and> good n d' \<and> bytes d' = bytes d"
    and pwrite_good: "good n d \<Longrightarrow> pos + k \<le> n \<Longrightarrow>
      \<exists>d'. pwrite d (int pos) (int k) b at = (Inr k, d') \<and> good n d' \<and> bytes d' = mem_cpy (bytes d) pos b at k"
begin

lemma read_after_write:
  assumes "good n d" "pos + k \<le> n" "pwrite d (int pos) (int k) b at = (r, d1)" "pread d1 (int pos) (int k) b2 at2 = (r2, b3, d2)"
  shows "r = Inr k \<and> r2 = Inr k \<and> (\<forall>i<k. b3 (at2 + i) = b (at + i)) \<and> good n d2 \<and> bytes d2 = bytes d1"
proof -
  from pwrite_good [OF assms(1,2), of b at] assms(3) have w: "r = Inr k" "good n d1" "bytes d1 = mem_cpy (bytes d) pos b at k" by auto
  from pread_good [OF w(2) assms(2), of b2 at2] assms(4) w show ?thesis by (auto simp: mem_cpy_def)
qed

lemma read_outside_write:
  assumes "good n d" "pos + k \<le> n" "pos2 + k2 \<le> n" "pos2 + k2 \<le> pos \<or> pos + k \<le> pos2"
    and "pwrite d (int pos) (int k) b at = (r, d1)" "pread d1 (int pos2) (int k2) b2 at2 = (r2, b3, d2)"
  shows "r2 = Inr k2 \<and> (\<forall>i<k2. b3 (at2 + i) = bytes d (pos2 + i))"
proof -
  from pwrite_good [OF assms(1,2), of b at] assms(5) have w: "good n d1" "bytes d1 = mem_cpy (bytes d) pos b at k" by auto
  from pread_good [OF w(1) assms(3), of b2 at2] assms(4,6) w show ?thesis by (auto simp: mem_cpy_def)
qed

end

lemma unix_io_good:
  assumes "dev_good n d" "pos + k \<le> n" "0 < k"
  shows "ntfs_device_unix_io_pread d b at k (int pos) = (int k, mem_cpy b at (nd_bytes d) pos k, d\<lparr>nd_pos := pos + k\<rparr>)"
    "ntfs_device_unix_io_pwrite d b at k (int pos) = (int k, d\<lparr>nd_bytes := mem_cpy (nd_bytes d) pos b at k, nd_pos := pos + k\<rparr>)"
  using assms by (simp_all add: ntfs_device_unix_io_pread_def ntfs_device_unix_io_pwrite_def ntfs_dev_lseek_def
      ntfs_dev_read_def ntfs_dev_write_def dev_good_def)

lemma pread_loop_good:
  assumes "dev_good n d" "pos + k \<le> n" "0 < k"
  shows "pread_loop d (int pos) k b at 0 = (Inr k, mem_cpy b at (nd_bytes d) pos k, d\<lparr>nd_pos := pos + k\<rparr>)"
proof -
  have "wrap64 (int pos) = int pos" using assms by (intro wrap64_id) (simp_all add: dev_good_def)
  then show ?thesis
    using unix_io_good(1) [OF assms, of b at] assms(3) by (simp add: pread_loop.simps)
qed

lemma pwrite_loop_good:
  assumes "dev_good n d" "pos + k \<le> n" "0 < k"
  shows "pwrite_loop d (int pos) k b at 0 = (int k, d\<lparr>nd_bytes := mem_cpy (nd_bytes d) pos b at k, nd_pos := pos + k\<rparr>)"
proof -
  have "wrap64 (int pos) = int pos" using assms by (intro wrap64_id) (simp_all add: dev_good_def)
  then show ?thesis
    using unix_io_good(2) [OF assms, of b at] assms(3) by (simp add: pwrite_loop.simps)
qed

lemma mem_cpy_0 [simp]: "mem_cpy b at c p 0 = b"
  by (auto simp: mem_cpy_def fun_eq_iff)

interpretation nd: byte_device dev_good nd_bytes ntfs_pread ntfs_pwrite
proof
  fix n d pos k b at
  assume g: "dev_good n d" "pos + k \<le> n"
  show "\<exists>d'. ntfs_pread d (int pos) (int k) b at = (Inr k, mem_cpy b at (nd_bytes d) pos k, d') \<and> dev_good n d' \<and> nd_bytes d' = nd_bytes d"
    using g pread_loop_good [OF g, of b at] by (cases "k = 0") (auto simp: ntfs_pread_def dev_good_def)
  have "dev_good n (d\<lparr>nd_dirty := True\<rparr>)" using g(1) by (simp add: dev_good_def)
  from pwrite_loop_good [OF this g(2), of b at] g
  show "\<exists>d'. ntfs_pwrite d (int pos) (int k) b at = (Inr k, d') \<and> dev_good n d' \<and> nd_bytes d' = mem_cpy (nd_bytes d) pos b at k"
    by (cases "k = 0") (auto simp: ntfs_pwrite_def ntfs_device_unix_io_sync_def dev_good_def)
qed

end
