(* ===== verification/NtRunlist.thy ===== *)
theory NtRunlist
  imports NtTypes
begin

text \<open>
  Runlists, \<open>runlist.c\<close>: the map from the virtual clusters of an attribute to logical clusters of
  the volume, in memory and in the compressed form of the mapping pairs array on disk. A runlist
  array is the list of its elements, the terminator (an element of length 0) included; a pointer
  into it is a suffix of the list. A read past the end of the array has no result (\<open>None\<close>).
\<close>

section \<open>Elements\<close>

record runlist_element =
  rl_vcn :: VCN
  rl_lcn :: LCN
  rl_length :: s64

definition LCN_HOLE :: LCN where
  "LCN_HOLE = -1"

definition LCN_RL_NOT_MAPPED :: LCN where
  "LCN_RL_NOT_MAPPED = -2"

definition LCN_ENOENT :: LCN where
  "LCN_ENOENT = -3"

definition LCN_EINVAL :: LCN where
  "LCN_EINVAL = -4"

lemmas lcn_consts = LCN_HOLE_def LCN_RL_NOT_MAPPED_def LCN_ENOENT_def LCN_EINVAL_def

section \<open>Lookup\<close>

fun vcn_to_lcn_loop :: "runlist_element list \<Rightarrow> VCN \<Rightarrow> LCN option" where
  "vcn_to_lcn_loop [] vcn = None"
| "vcn_to_lcn_loop [e] vcn =
     (if rl_length e \<noteq> 0 then None
      else if rl_lcn e < 0 then Some (rl_lcn e) else Some LCN_ENOENT)"
| "vcn_to_lcn_loop (e # e1 # rl) vcn =
     (if rl_length e \<noteq> 0 then
        if vcn < rl_vcn e1 then
          Some (if rl_lcn e \<ge> 0 then wrap64 (rl_lcn e + wrap64 (vcn - rl_vcn e)) else rl_lcn e)
        else vcn_to_lcn_loop (e1 # rl) vcn
      else if rl_lcn e < 0 then Some (rl_lcn e) else Some LCN_ENOENT)"

definition ntfs_rl_vcn_to_lcn :: "runlist_element list option \<Rightarrow> VCN \<Rightarrow> LCN option" where
  "ntfs_rl_vcn_to_lcn rl vcn =
     (if vcn < 0 then Some LCN_EINVAL
      else case rl of
        None \<Rightarrow> Some LCN_RL_NOT_MAPPED
      | Some [] \<Rightarrow> None
      | Some (e # r) \<Rightarrow> if vcn < rl_vcn e then Some LCN_ENOENT else vcn_to_lcn_loop (e # r) vcn)"

section \<open>Numbers of variable length\<close>

function nr_bytes_loop :: "nat \<Rightarrow> nat \<Rightarrow> nat" where
  "nr_bytes_loop i l = (let i = i + 1; l = l div 256 in if l \<noteq> 0 then nr_bytes_loop i l else i)"
  by pat_completeness auto
termination by (relation "measure snd") auto

definition ntfs_get_nr_significant_bytes :: "s64 \<Rightarrow> nat" where
  "ntfs_get_nr_significant_bytes n =
     (let l = nat (if n < 0 then - n - 1 else n) in
      if l \<ge> 128 then nr_bytes_loop 1 (l div 128) else 1)"

text \<open>
  The bytes go to \<open>dst\<close> from \<open>pos\<close> on, up to \<open>dst_max\<close>; the result is their number, or none when
  there is no room.
\<close>

function write_bytes_loop :: "mem \<Rightarrow> nat \<Rightarrow> int \<Rightarrow> s64 \<Rightarrow> nat \<Rightarrow> nat option \<times> mem" where
  "write_bytes_loop dst pos dst_max l i =
     (if l > 0x7f \<or> l < - 0x80 then
        if int pos > dst_max then (None, dst)
        else
          let l = l div 256; dst = dst(pos := of_int l) in
          write_bytes_loop dst (pos + 1) dst_max l (i + 1)
      else (Some i, dst))"
  by pat_completeness auto
termination by (relation "measure (\<lambda>(dst, pos, dst_max, l, i). nat \<bar>l\<bar>)") auto

definition ntfs_write_significant_bytes :: "mem \<Rightarrow> nat \<Rightarrow> int \<Rightarrow> s64 \<Rightarrow> nat option \<times> mem" where
  "ntfs_write_significant_bytes dst pos dst_max n =
     (if int pos > dst_max then (None, dst)
      else write_bytes_loop (dst(pos := of_int n)) (pos + 1) dst_max n 1)"

section \<open>The mapping pairs array\<close>

text \<open>Skipping to the element that contains \<open>start_vcn\<close>.\<close>

fun skip_to :: "runlist_element list \<Rightarrow> VCN \<Rightarrow> runlist_element list option" where
  "skip_to [] v = None"
| "skip_to [e] v = (if rl_length e \<noteq> 0 then None else Some [e])"
| "skip_to (e # e1 # rl) v =
     (if rl_length e \<noteq> 0 \<and> v \<ge> rl_vcn e1 then skip_to (e1 # rl) v else Some (e # e1 # rl))"

definition bad_run :: "runlist_element \<Rightarrow> bool" where
  "bad_run e \<longleftrightarrow> rl_length e < 0 \<or> rl_lcn e < LCN_HOLE"

definition run_errno :: "runlist_element \<Rightarrow> errno" where
  "run_errno e = (if rl_lcn e = LCN_RL_NOT_MAPPED then EINVAL else EIO)"

text \<open>Whether the cluster number of a run is stored: a hole has none from NTFS 3.0 on.\<close>

definition lcn_stored :: "nat \<Rightarrow> runlist_element \<Rightarrow> bool" where
  "lcn_stored major_ver e \<longleftrightarrow> rl_lcn e \<ge> 0 \<or> major_ver < 3"

fun size_loop :: "nat \<Rightarrow> int \<Rightarrow> runlist_element list \<Rightarrow> LCN \<Rightarrow> int \<Rightarrow> (errno + int) option" where
  "size_loop ver max_size [] prev_lcn rls = None"
| "size_loop ver max_size (e # rl) prev_lcn rls =
     (if rl_length e \<noteq> 0 \<and> rls \<le> max_size then
        if bad_run e then Some (Inl (run_errno e))
        else
          let rls = rls + 1 + int (ntfs_get_nr_significant_bytes (rl_length e)) in
          if lcn_stored ver e
          then size_loop ver max_size rl (rl_lcn e) (rls + int (ntfs_get_nr_significant_bytes (wrap64 (rl_lcn e - prev_lcn))))
          else size_loop ver max_size rl prev_lcn rls
      else Some (Inr rls))"

definition ntfs_get_size_for_mapping_pairs ::
  "nat \<Rightarrow> runlist_element list option \<Rightarrow> VCN \<Rightarrow> int \<Rightarrow> (errno + int) option"
where
  "ntfs_get_size_for_mapping_pairs ver rl start_vcn max_size =
     (if start_vcn < 0 then Some (Inl EINVAL)
      else case rl of
        None \<Rightarrow> Some (if start_vcn \<noteq> 0 then Inl EINVAL else Inr 1)
      | Some l \<Rightarrow>
          (case skip_to l start_vcn of
             None \<Rightarrow> None
           | Some [] \<Rightarrow> None
           | Some (e # r) \<Rightarrow>
               if rl_length e = 0 \<and> start_vcn > rl_vcn e \<or> start_vcn < rl_vcn e then Some (Inl EINVAL)
               else if start_vcn > rl_vcn e then
                 if bad_run e then Some (Inl (run_errno e))
                 else
                   let delta = start_vcn - rl_vcn e;
                       rls = 1 + 1 + int (ntfs_get_nr_significant_bytes (wrap64 (rl_length e - delta))) in
                   if lcn_stored ver e then
                     let prev_lcn = (if rl_lcn e \<ge> 0 then wrap64 (rl_lcn e + delta) else rl_lcn e) in
                     size_loop ver max_size r prev_lcn (rls + int (ntfs_get_nr_significant_bytes prev_lcn))
                   else size_loop ver max_size r 0 rls
               else size_loop ver max_size (e # r) 0 1))"

text \<open>
  One pair: a header byte with the two lengths, the run length, the change of the cluster number
  if it is stored. \<open>Inl\<close> when there is no room (the bytes that fitted are written), \<open>Inr\<close> the
  position after it.
\<close>

definition put_pair :: "mem \<Rightarrow> nat \<Rightarrow> int \<Rightarrow> s64 \<Rightarrow> s64 option \<Rightarrow> (unit + nat) \<times> mem" where
  "put_pair dst pos dst_max len dlcn =
     (case ntfs_write_significant_bytes dst (pos + 1) dst_max len of
        (None, dst) \<Rightarrow> (Inl (), dst)
      | (Some len_len, dst) \<Rightarrow>
          (case (case dlcn of None \<Rightarrow> (Some 0, dst)
                 | Some d \<Rightarrow> ntfs_write_significant_bytes dst (pos + 1 + len_len) dst_max d) of
             (None, dst) \<Rightarrow> (Inl (), dst)
           | (Some lcn_len, dst) \<Rightarrow>
               let dst_next = pos + len_len + lcn_len + 1 in
               if int dst_next > dst_max then (Inl (), dst)
               else (Inr dst_next, dst(pos := push_bit 4 (of_nat lcn_len) OR of_nat len_len))))"

text \<open>The result: the error, if any, the buffer, and where the code stopped.\<close>

fun build_loop ::
  "nat \<Rightarrow> mem \<Rightarrow> nat \<Rightarrow> int \<Rightarrow> runlist_element list \<Rightarrow> LCN \<Rightarrow> (errno option \<times> mem \<times> runlist_element list option) option"
where
  "build_loop ver dst pos dst_max [] prev_lcn = None"
| "build_loop ver dst pos dst_max (e # rl) prev_lcn =
     (if rl_length e \<noteq> 0 then
        if bad_run e then Some (Some (run_errno e), dst, None)
        else
          (case put_pair dst pos dst_max (rl_length e)
                  (if lcn_stored ver e then Some (wrap64 (rl_lcn e - prev_lcn)) else None) of
             (Inl (), dst) \<Rightarrow> Some (Some ENOSPC, dst(pos := 0), Some (e # rl))
           | (Inr next, dst) \<Rightarrow>
               build_loop ver dst next dst_max rl (if lcn_stored ver e then rl_lcn e else prev_lcn))
      else Some (None, dst(pos := 0), Some (e # rl)))"

definition ntfs_mapping_pairs_build ::
  "nat \<Rightarrow> mem \<Rightarrow> nat \<Rightarrow> int \<Rightarrow> runlist_element list option \<Rightarrow> VCN \<Rightarrow>
     (errno option \<times> mem \<times> runlist_element list option) option"
where
  "ntfs_mapping_pairs_build ver dst pos dst_len rl start_vcn =
     (if start_vcn < 0 then Some (Some EINVAL, dst, None)
      else case rl of
        None \<Rightarrow>
          Some (if start_vcn \<noteq> 0 then (Some EINVAL, dst, None)
                else if dst_len < 1 then (Some ENOSPC, dst, None)
                else (None, dst(pos := 0), None))
      | Some l \<Rightarrow>
          (case skip_to l start_vcn of
             None \<Rightarrow> None
           | Some [] \<Rightarrow> None
           | Some (e # r) \<Rightarrow>
               if rl_length e = 0 \<and> start_vcn > rl_vcn e \<or> start_vcn < rl_vcn e then Some (Some EINVAL, dst, None)
               else
                 let dst_max = int pos + dst_len - 1 in
                 if start_vcn > rl_vcn e then
                   if bad_run e then Some (Some (run_errno e), dst, None)
                   else
                     let delta = start_vcn - rl_vcn e;
                         prev_lcn = (if lcn_stored ver e
                                     then if rl_lcn e \<ge> 0 then wrap64 (rl_lcn e + delta) else rl_lcn e else 0) in
                     (case put_pair dst pos dst_max (wrap64 (rl_length e - delta))
                             (if lcn_stored ver e then Some prev_lcn else None) of
                        (Inl (), dst) \<Rightarrow> Some (Some ENOSPC, dst(pos := 0), Some (e # r))
                      | (Inr next, dst) \<Rightarrow> build_loop ver dst next dst_max r prev_lcn)
                 else build_loop ver dst pos dst_max (e # r) 0))"

end
