(* ===== verification/NtRlMerge.thy ===== *)
theory NtRlMerge
  imports NtRunlist
begin

text \<open>
  Merging of runlists, \<open>runlist.c\<close>: the four ways to put one runlist into a hole of another, and
  the choice between them. Arrays are lists; growing an array by \<open>realloc\<close> appends elements \<open>u\<close>
  with whatever the new memory holds, and \<open>alloc\<close> tells which sizes the allocator can provide.
  A result of \<open>None\<close> is a scan past the end of an array, or the crash the code forces when it
  cannot recover; what an index past the end of an array reads is not specified.
\<close>

section \<open>Arrays\<close>

definition ntfs_rl_mm :: "runlist_element list \<Rightarrow> nat \<Rightarrow> nat \<Rightarrow> nat \<Rightarrow> runlist_element list" where
  "ntfs_rl_mm base dst src n =
     map (\<lambda>i. if dst \<le> i \<and> i < dst + n then base ! (src + (i - dst)) else base ! i) [0..<length base]"

definition ntfs_rl_mc ::
  "runlist_element list \<Rightarrow> nat \<Rightarrow> runlist_element list \<Rightarrow> nat \<Rightarrow> nat \<Rightarrow> runlist_element list"
where
  "ntfs_rl_mc dstbase dst srcbase src n =
     map (\<lambda>i. if dst \<le> i \<and> i < dst + n then srcbase ! (src + (i - dst)) else dstbase ! i) [0..<length dstbase]"

definition rl_pages :: "nat \<Rightarrow> nat" where
  "rl_pages n = (n * 24 + 0xfff) div 0x1000 * 0x1000"

definition rl_resize :: "runlist_element \<Rightarrow> runlist_element list \<Rightarrow> nat \<Rightarrow> runlist_element list" where
  "rl_resize u rl n = take n rl @ replicate (n - length rl) u"

definition ntfs_rl_realloc ::
  "(nat \<Rightarrow> bool) \<Rightarrow> runlist_element \<Rightarrow> runlist_element list \<Rightarrow> nat \<Rightarrow> nat \<Rightarrow> runlist_element list option"
where
  "ntfs_rl_realloc alloc u rl old_size new_size =
     (let old_size = rl_pages old_size; pages = rl_pages new_size in
      if old_size = pages \<or> alloc pages then Some (rl_resize u rl new_size) else None)"

definition ntfs_rl_are_mergeable :: "runlist_element \<Rightarrow> runlist_element \<Rightarrow> bool" where
  "ntfs_rl_are_mergeable dst src =
     (if rl_lcn dst = LCN_RL_NOT_MAPPED \<and> rl_lcn src = LCN_RL_NOT_MAPPED then True
      else if wrap64 (rl_vcn dst + rl_length dst) \<noteq> rl_vcn src then False
      else if rl_lcn dst \<ge> 0 \<and> rl_lcn src \<ge> 0 \<and> wrap64 (rl_lcn dst + rl_length dst) = rl_lcn src then True
      else rl_lcn dst = LCN_HOLE \<and> rl_lcn src = LCN_HOLE)"

definition rl_merge :: "runlist_element \<Rightarrow> runlist_element \<Rightarrow> runlist_element" where
  "rl_merge dst src = dst\<lparr>rl_length := wrap64 (rl_length dst + rl_length src)\<rparr>"

text \<open>Assignments to a field of an element.\<close>

abbreviation set_vcn :: "runlist_element list \<Rightarrow> nat \<Rightarrow> VCN \<Rightarrow> runlist_element list" where
  "set_vcn rl i v \<equiv> rl[i := (rl ! i)\<lparr>rl_vcn := v\<rparr>]"

abbreviation set_lcn :: "runlist_element list \<Rightarrow> nat \<Rightarrow> LCN \<Rightarrow> runlist_element list" where
  "set_lcn rl i v \<equiv> rl[i := (rl ! i)\<lparr>rl_lcn := v\<rparr>]"

abbreviation set_length :: "runlist_element list \<Rightarrow> nat \<Rightarrow> s64 \<Rightarrow> runlist_element list" where
  "set_length rl i v \<equiv> rl[i := (rl ! i)\<lparr>rl_length := v\<rparr>]"

text \<open>The first cluster after an element.\<close>

definition vcn_after :: "runlist_element \<Rightarrow> VCN" where
  "vcn_after e = wrap64 (rl_vcn e + rl_length e)"

section \<open>The four operations\<close>

definition ntfs_rl_append ::
  "(nat \<Rightarrow> bool) \<Rightarrow> runlist_element \<Rightarrow> runlist_element list \<Rightarrow> nat \<Rightarrow> runlist_element list \<Rightarrow> nat \<Rightarrow> nat \<Rightarrow>
     runlist_element list option"
where
  "ntfs_rl_append alloc u dst dsize src ssize loc =
     (let right = loc + 1 < dsize \<and> ntfs_rl_are_mergeable (src ! (ssize - 1)) (dst ! (loc + 1)) in
      case ntfs_rl_realloc alloc u dst dsize (dsize + ssize - of_bool right) of
        None \<Rightarrow> None
      | Some dst \<Rightarrow>
          let src = (if right then src[ssize - 1 := rl_merge (src ! (ssize - 1)) (dst ! (loc + 1))] else src);
              marker = loc + ssize + 1;
              dst = ntfs_rl_mm dst marker (loc + 1 + of_bool right) (dsize - loc - 1 - of_bool right);
              dst = ntfs_rl_mc dst (loc + 1) src 0 ssize;
              dst = set_length dst loc (wrap64 (rl_vcn (dst ! (loc + 1)) - rl_vcn (dst ! loc))) in
          Some (if rl_lcn (dst ! marker) = LCN_ENOENT then set_vcn dst marker (vcn_after (dst ! (marker - 1))) else dst))"

definition ntfs_rl_insert ::
  "(nat \<Rightarrow> bool) \<Rightarrow> runlist_element \<Rightarrow> runlist_element list \<Rightarrow> nat \<Rightarrow> runlist_element list \<Rightarrow> nat \<Rightarrow> nat \<Rightarrow>
     runlist_element list option"
where
  "ntfs_rl_insert alloc u dst dsize src ssize loc =
     (let left = loc \<noteq> 0 \<and> ntfs_rl_are_mergeable (dst ! (loc - 1)) (src ! 0);
          disc = (if loc = 0 then rl_vcn (src ! 0) > 0
                  else let merged_length = rl_length (dst ! (loc - 1));
                           merged_length = (if left then wrap64 (merged_length + rl_length (src ! 0)) else merged_length) in
                       rl_vcn (src ! 0) > wrap64 (rl_vcn (dst ! (loc - 1)) + merged_length)) in
      case ntfs_rl_realloc alloc u dst dsize (dsize + ssize - of_bool left + of_bool disc) of
        None \<Rightarrow> None
      | Some dst \<Rightarrow>
          let dst = (if left then dst[loc - 1 := rl_merge (dst ! (loc - 1)) (src ! 0)] else dst);
              marker = loc + ssize - of_bool left + of_bool disc;
              dst = ntfs_rl_mm dst marker loc (dsize - loc);
              dst = ntfs_rl_mc dst (loc + of_bool disc) src (of_bool left) (ssize - of_bool left);
              dst = set_vcn dst marker (vcn_after (dst ! (marker - 1)));
              dst = (if rl_lcn (dst ! marker) = LCN_HOLE \<or> rl_lcn (dst ! marker) = LCN_RL_NOT_MAPPED
                     then set_length dst marker (wrap64 (rl_vcn (dst ! (marker + 1)) - rl_vcn (dst ! marker))) else dst) in
          Some (if disc then
                  let dst = (if loc > 0 then
                               let dst = set_vcn dst loc (vcn_after (dst ! (loc - 1))) in
                               set_length dst loc (wrap64 (rl_vcn (dst ! (loc + 1)) - rl_vcn (dst ! loc)))
                             else
                               let dst = set_vcn dst loc 0 in
                               set_length dst loc (rl_vcn (dst ! (loc + 1)))) in
                  set_lcn dst loc LCN_RL_NOT_MAPPED
                else dst))"

definition ntfs_rl_replace ::
  "(nat \<Rightarrow> bool) \<Rightarrow> runlist_element \<Rightarrow> runlist_element list \<Rightarrow> nat \<Rightarrow> runlist_element list \<Rightarrow> nat \<Rightarrow> nat \<Rightarrow>
     runlist_element list option"
where
  "ntfs_rl_replace alloc u dst dsize src ssize loc =
     (let right = loc + 1 < dsize \<and> ntfs_rl_are_mergeable (src ! (ssize - 1)) (dst ! (loc + 1));
          left = loc > 0 \<and> ntfs_rl_are_mergeable (dst ! (loc - 1)) (src ! 0);
          delta = int ssize - 1 - of_bool left - of_bool right in
      case (if delta > 0 then ntfs_rl_realloc alloc u dst dsize (dsize + nat delta) else Some dst) of
        None \<Rightarrow> None
      | Some dst \<Rightarrow>
          let src = (if right then src[ssize - 1 := rl_merge (src ! (ssize - 1)) (dst ! (loc + 1))] else src);
              dst = (if left then dst[loc - 1 := rl_merge (dst ! (loc - 1)) (src ! 0)] else dst);
              tail = loc + of_bool right + 1;
              marker = loc + ssize - of_bool left;
              dst = ntfs_rl_mm dst marker tail (dsize - tail);
              dst = ntfs_rl_mc dst loc src (of_bool left) (ssize - of_bool left) in
          Some (if dsize - tail > 0 \<and> rl_lcn (dst ! marker) = LCN_ENOENT
                then set_vcn dst marker (vcn_after (dst ! (marker - 1))) else dst))"

definition ntfs_rl_split ::
  "(nat \<Rightarrow> bool) \<Rightarrow> runlist_element \<Rightarrow> runlist_element list \<Rightarrow> nat \<Rightarrow> runlist_element list \<Rightarrow> nat \<Rightarrow> nat \<Rightarrow>
     runlist_element list option"
where
  "ntfs_rl_split alloc u dst dsize src ssize loc =
     (case ntfs_rl_realloc alloc u dst dsize (dsize + ssize + 1) of
        None \<Rightarrow> None
      | Some dst \<Rightarrow>
          let dst = ntfs_rl_mm dst (loc + 1 + ssize) loc (dsize - loc);
              dst = ntfs_rl_mc dst (loc + 1) src 0 ssize;
              dst = set_length dst loc (wrap64 (rl_vcn (dst ! (loc + 1)) - rl_vcn (dst ! loc)));
              dst = set_vcn dst (loc + ssize + 1) (vcn_after (dst ! (loc + ssize))) in
          Some (set_length dst (loc + ssize + 1)
                  (wrap64 (rl_vcn (dst ! (loc + ssize + 2)) - rl_vcn (dst ! (loc + ssize + 1))))))"

section \<open>The merge\<close>

text \<open>The index of the first element from \<open>i\<close> on where a scan stops; the last one up to \<open>i\<close>.\<close>

fun scan :: "(runlist_element \<Rightarrow> bool) \<Rightarrow> runlist_element list \<Rightarrow> nat \<Rightarrow> nat option" where
  "scan stop [] i = None"
| "scan stop (e # rl) i = (if stop e then Some i else scan stop rl (Suc i))"

definition scan_from :: "(runlist_element \<Rightarrow> bool) \<Rightarrow> runlist_element list \<Rightarrow> nat \<Rightarrow> nat option" where
  "scan_from stop rl i = scan stop (drop i rl) i"

fun scan_down :: "runlist_element list \<Rightarrow> nat \<Rightarrow> int" where
  "scan_down rl 0 = (if rl_lcn (rl ! 0) < LCN_HOLE then -1 else 0)"
| "scan_down rl (Suc i) = (if rl_lcn (rl ! Suc i) < LCN_HOLE then scan_down rl i else int (Suc i))"

text \<open>A first mapping: the runlist is completed at its front.\<close>

definition first_mapping ::
  "(nat \<Rightarrow> bool) \<Rightarrow> runlist_element \<Rightarrow> runlist_element list \<Rightarrow> (errno + runlist_element list) option"
where
  "first_mapping alloc u drl =
     (if drl = [] then None
      else if rl_vcn (drl ! 0) \<noteq> 0 then
        (case scan_from (\<lambda>e. rl_length e = 0) drl 0 of
           None \<Rightarrow> None
         | Some dend \<Rightarrow>
             let dend = dend + 1 in
             (case ntfs_rl_realloc alloc u drl dend (dend + 1) of
                None \<Rightarrow> Some (Inl ENOMEM)
              | Some drl \<Rightarrow>
                  let drl = ntfs_rl_mm drl 1 0 dend in
                  Some (Inr (drl[0 := \<lparr>rl_vcn = 0, rl_lcn = LCN_RL_NOT_MAPPED, rl_length = rl_vcn (drl ! 1)\<rparr>]))))
      else Some (Inr drl))"

text \<open>The end marker of the source, when it ends after the destination.\<close>

definition merge_marker ::
  "(nat \<Rightarrow> bool) \<Rightarrow> runlist_element \<Rightarrow> runlist_element list \<Rightarrow> nat \<Rightarrow> VCN \<Rightarrow> (errno + runlist_element list) option"
where
  "merge_marker alloc u drl ds marker_vcn =
     (if rl_vcn (drl ! ds) \<le> marker_vcn then
        if rl_vcn (drl ! ds) = marker_vcn then Some (Inr (set_lcn drl ds LCN_ENOENT))
        else
          let (ds, slots) = (if rl_lcn (drl ! ds) = LCN_ENOENT then (ds - 1, 1 :: nat) else (ds, 0)) in
          (case (if rl_lcn (drl ! ds) \<noteq> LCN_RL_NOT_MAPPED then
                   (case (if slots = 0 then map_option (\<lambda>d. (d, 2 :: nat)) (ntfs_rl_realloc alloc u drl ds (ds + 2))
                          else Some (drl, slots)) of
                      None \<Rightarrow> None
                    | Some (drl, slots) \<Rightarrow>
                        let ds = ds + 1;
                            drl = (if slots \<noteq> 1 then set_vcn drl ds (vcn_after (drl ! (ds - 1))) else drl) in
                        Some (set_lcn drl ds LCN_RL_NOT_MAPPED, ds, slots - 1))
                 else Some (drl, ds, slots)) of
             None \<Rightarrow> None
           | Some (drl, ds, slots) \<Rightarrow>
               let drl = set_length drl ds (wrap64 (marker_vcn - rl_vcn (drl ! ds))); ds = ds + 1 in
               (case (if slots = 0 then ntfs_rl_realloc alloc u drl ds (ds + 1) else Some drl) of
                  None \<Rightarrow> None
                | Some drl \<Rightarrow>
                    Some (Inr (drl[ds := \<lparr>rl_vcn = marker_vcn, rl_lcn = LCN_ENOENT, rl_length = 0\<rparr>]))))
      else Some (Inr drl))"

definition merge_into ::
  "(nat \<Rightarrow> bool) \<Rightarrow> runlist_element \<Rightarrow> runlist_element list \<Rightarrow> nat \<Rightarrow> nat \<Rightarrow> runlist_element list \<Rightarrow> nat \<Rightarrow> nat \<Rightarrow>
     (errno + runlist_element list) option"
where
  "merge_into alloc u drl dins dend srl sstart send =
     (let marker = rl_lcn (srl ! send) = LCN_ENOENT;
          sfinal = scan_down srl send;
          ds = dend + 1; ss = nat (sfinal - int sstart + 1);
          d = drl ! dins; s1 = srl ! (send - 1);
          start = rl_lcn d < LCN_RL_NOT_MAPPED \<or> rl_vcn d = rl_vcn (srl ! sstart);
          finish = rl_lcn d \<ge> LCN_RL_NOT_MAPPED \<and> vcn_after d \<le> vcn_after s1;
          ss = (if finish \<and> rl_length d = 0 then ss + 1 else ss);
          finish = finish \<and> \<not> (marker \<and> send \<noteq> 0 \<and> vcn_after d > rl_vcn s1);
          src = drop sstart srl;
          merged = (if start then if finish then ntfs_rl_replace alloc u drl ds src ss dins
                                  else ntfs_rl_insert alloc u drl ds src ss dins
                    else if finish then ntfs_rl_append alloc u drl ds src ss dins
                         else ntfs_rl_split alloc u drl ds src ss dins) in
      case merged of
        None \<Rightarrow> Some (Inl ENOMEM)
      | Some drl \<Rightarrow>
          if marker \<and> send \<noteq> 0 then
            (case scan_from (\<lambda>e. rl_length e = 0) drl dend of
               None \<Rightarrow> None
             | Some ds \<Rightarrow> merge_marker alloc u drl ds (rl_vcn (srl ! send)))
          else Some (Inr drl))"

definition ntfs_runlists_merge ::
  "(nat \<Rightarrow> bool) \<Rightarrow> runlist_element \<Rightarrow> runlist_element list option \<Rightarrow> runlist_element list option \<Rightarrow>
     (errno + runlist_element list option) option"
where
  "ntfs_runlists_merge alloc u drl srl =
     (case (drl, srl) of
        (_, None) \<Rightarrow> Some (Inr drl)
      | (None, Some srl) \<Rightarrow> map_option (map_sum id Some) (first_mapping alloc u srl)
      | (Some drl, Some srl) \<Rightarrow>
          (case scan_from (\<lambda>e. rl_length e = 0 \<or> rl_lcn e \<ge> LCN_HOLE) srl 0 of
             None \<Rightarrow> None
           | Some sstart \<Rightarrow>
               if rl_length (srl ! sstart) = 0 then Some (Inl EINVAL)
               else
                 (case scan_from (\<lambda>e. rl_length e = 0 \<or> vcn_after e > rl_vcn (srl ! sstart)) drl 0 of
                    None \<Rightarrow> None
                  | Some dins \<Rightarrow>
                      if rl_vcn (drl ! dins) = rl_vcn (srl ! sstart) \<and> rl_lcn (drl ! dins) \<ge> 0 \<and> rl_lcn (srl ! sstart) \<ge> 0
                      then Some (Inl ERANGE)
                      else
                        (case (scan_from (\<lambda>e. rl_length e = 0) srl sstart, scan_from (\<lambda>e. rl_length e = 0) drl dins) of
                           (Some send, Some dend) \<Rightarrow> map_option (map_sum id Some) (merge_into alloc u drl dins dend srl sstart send)
                         | _ \<Rightarrow> None))))"

end
