(* ===== verification/NtPairs.thy ===== *)
theory NtPairs
  imports NtRlMerge
begin

text \<open>
  Decompression of the mapping pairs array of an attribute record into a runlist,
  \<open>ntfs_mapping_pairs_decompress\<close> of \<open>runlist.c\<close>, and its relation to
  \<open>ntfs_mapping_pairs_build\<close> and \<open>ntfs_get_size_for_mapping_pairs\<close>. The attribute record is a
  buffer; its fields lie at the offsets of \<open>ATTR_RECORD\<close> in \<open>layout.h\<close>.
\<close>

section \<open>The code\<close>

definition sle64_at :: "mem \<Rightarrow> nat \<Rightarrow> s64" where
  "sle64_at m p = sint (le64_at m p)"

definition attr_length :: "mem \<Rightarrow> u32" where
  "attr_length a = le32_at a 4"

definition attr_non_resident :: "mem \<Rightarrow> u8" where
  "attr_non_resident a = a 8"

definition attr_lowest_vcn :: "mem \<Rightarrow> VCN" where
  "attr_lowest_vcn a = sle64_at a 16"

definition attr_highest_vcn :: "mem \<Rightarrow> VCN" where
  "attr_highest_vcn a = sle64_at a 24"

definition attr_mapping_pairs_offset :: "mem \<Rightarrow> u16" where
  "attr_mapping_pairs_offset a = le16_at a 32"

definition attr_allocated_size :: "mem \<Rightarrow> s64" where
  "attr_allocated_size a = sle64_at a 40"

text \<open>
  The loop that reads a number: the bytes \<open>b\<close>, \<open>b - 1\<close>, down to \<open>lo + 1\<close> after position \<open>p\<close>, the
  first sign-extended.
\<close>

fun delta_loop :: "mem \<Rightarrow> nat \<Rightarrow> nat \<Rightarrow> nat \<Rightarrow> s64 \<Rightarrow> s64" where
  "delta_loop m p lo 0 d = d"
| "delta_loop m p lo (Suc b) d =
     (if Suc b > lo then delta_loop m p lo b (wrap64 (wrap64 (d * 256) + uint (m (p + Suc b)))) else d)"

definition read_delta :: "mem \<Rightarrow> nat \<Rightarrow> nat \<Rightarrow> nat \<Rightarrow> s64" where
  "read_delta m p lo b = delta_loop m p lo (b - 1) (sint (m (p + b)))"

text \<open>
  The runlist under construction is an array of which the elements below \<open>rlpos\<close>, a 16-bit
  number, are in use.
\<close>

definition put_run :: "runlist_element list \<Rightarrow> u16 \<Rightarrow> runlist_element \<Rightarrow> runlist_element list" where
  "put_run rl rlpos e = (if unat rlpos < length rl then rl[unat rlpos := e] else rl @ [e])"

text \<open>
  One iteration: \<open>None\<close> for corrupt data, otherwise the run, the next cluster numbers and the
  position after the pair.
\<close>

definition pair_step :: "mem \<Rightarrow> nat \<Rightarrow> nat \<Rightarrow> VCN \<Rightarrow> LCN \<Rightarrow> (runlist_element \<times> VCN \<times> LCN) option" where
  "pair_step a attr_end buf vcn lcn =
     (let b = unat (a buf AND 0xf) in
      if b \<noteq> 0 \<and> buf + b > attr_end then None
      else
        let deltaxcn = (if b \<noteq> 0 then read_delta a buf 0 b else -1) in
        if deltaxcn < 0 then None
        else
          let len = deltaxcn; vcn' = wrap64 (vcn + deltaxcn) in
          if a buf AND 0xf0 = 0 then Some (\<lparr>rl_vcn = vcn, rl_lcn = LCN_HOLE, rl_length = len\<rparr>, vcn', lcn)
          else
            let b2 = b; b = b2 + unat (drop_bit 4 (a buf) AND 0xf) in
            if buf + b > attr_end then None
            else
              let lcn = wrap64 (lcn + read_delta a buf b2 b) in
              if lcn < -1 then None
              else Some (\<lparr>rl_vcn = vcn, rl_lcn = lcn, rl_length = len\<rparr>, vcn', lcn))"

definition pair_size :: "mem \<Rightarrow> nat \<Rightarrow> nat" where
  "pair_size a buf = unat (a buf AND 0xf) + unat (drop_bit 4 (a buf) AND 0xf) + 1"

function pairs_loop ::
  "(nat \<Rightarrow> bool) \<Rightarrow> mem \<Rightarrow> nat \<Rightarrow> nat \<Rightarrow> VCN \<Rightarrow> LCN \<Rightarrow> runlist_element list \<Rightarrow> u16 \<Rightarrow> nat \<Rightarrow>
     errno + nat \<times> VCN \<times> runlist_element list \<times> u16"
where
  "pairs_loop alloc a attr_end buf vcn lcn rl rlpos rlsize =
     (if buf < attr_end \<and> a buf \<noteq> 0 then
        let more = (unat rlpos + 3) * 24 > rlsize; rlsize = (if more then rlsize + 0x1000 else rlsize) in
        if more \<and> \<not> alloc rlsize then Inl ENOMEM
        else
          (case pair_step a attr_end buf vcn lcn of
             None \<Rightarrow> Inl EIO
           | Some (e, vcn, lcn) \<Rightarrow>
               pairs_loop alloc a attr_end (buf + pair_size a buf) vcn lcn (put_run rl rlpos e) (rlpos + 1) rlsize)
      else Inr (buf, vcn, rl, rlpos))"
  by pat_completeness auto
termination
  by (relation "measure (\<lambda>(alloc, a, attr_end, buf, vcn, lcn, rl, rlpos, rlsize). attr_end - buf)")
    (auto simp: pair_size_def)

declare pairs_loop.simps [simp del]

text \<open>The end of the runlist: what is known to be missing, and the terminator.\<close>

definition pairs_end :: "nat \<Rightarrow> mem \<Rightarrow> VCN \<Rightarrow> runlist_element list \<Rightarrow> u16 \<Rightarrow> errno + runlist_element list" where
  "pairs_end cluster_size_bits a vcn rl rlpos =
     (let deltaxcn = attr_highest_vcn a in
      if deltaxcn \<noteq> 0 \<and> wrap64 (vcn - 1) \<noteq> deltaxcn then Inl EIO
      else if attr_lowest_vcn a = 0 then
        let num_clusters = wrap64 (attr_allocated_size a + 2 ^ cluster_size_bits - 1) div 2 ^ cluster_size_bits in
        if vcn > num_clusters then Inl EIO
        else
          let more = num_clusters > vcn;
              rl = (if more then put_run rl rlpos \<lparr>rl_vcn = vcn, rl_lcn = LCN_RL_NOT_MAPPED, rl_length = num_clusters - vcn\<rparr> else rl);
              rlpos = (if more then rlpos + 1 else rlpos);
              rl = put_run rl rlpos \<lparr>rl_vcn = if more then num_clusters else vcn, rl_lcn = LCN_ENOENT, rl_length = 0\<rparr> in
          Inr (take (unat rlpos + 1) rl)
      else
        Inr (take (unat rlpos + 1) (put_run rl rlpos \<lparr>rl_vcn = vcn, rl_lcn = LCN_RL_NOT_MAPPED, rl_length = 0\<rparr>)))"

definition decompress_new :: "(nat \<Rightarrow> bool) \<Rightarrow> nat \<Rightarrow> mem \<Rightarrow> errno + runlist_element list" where
  "decompress_new alloc cluster_size_bits a =
     (if attr_non_resident a = 0 \<or> attr_lowest_vcn a < 0 then Inl EINVAL
      else
        let vcn = attr_lowest_vcn a; buf = unat (attr_mapping_pairs_offset a); attr_end = unat (attr_length a) in
        if buf > attr_end then Inl EIO
        else if \<not> alloc 0x1000 then Inl ENOMEM
        else
          let (rl, rlpos) = (if vcn \<noteq> 0 then ([\<lparr>rl_vcn = 0, rl_lcn = LCN_RL_NOT_MAPPED, rl_length = vcn\<rparr>], 1) else ([], 0)) in
          (case pairs_loop alloc a attr_end buf vcn 0 rl rlpos 0x1000 of
             Inl e \<Rightarrow> Inl e
           | Inr (buf, vcn, rl, rlpos) \<Rightarrow>
               if buf \<ge> attr_end then Inl EIO else pairs_end cluster_size_bits a vcn rl rlpos))"

definition ntfs_mapping_pairs_decompress ::
  "(nat \<Rightarrow> bool) \<Rightarrow> runlist_element \<Rightarrow> nat \<Rightarrow> mem \<Rightarrow> runlist_element list option \<Rightarrow>
     (errno + runlist_element list) option"
where
  "ntfs_mapping_pairs_decompress alloc u cluster_size_bits a old_rl =
     (case (decompress_new alloc cluster_size_bits a, old_rl) of
        (Inl e, _) \<Rightarrow> Some (Inl e)
      | (Inr rl, None) \<Rightarrow> Some (Inr rl)
      | (Inr rl, Some old) \<Rightarrow>
          (case ntfs_runlists_merge alloc u (Some old) (Some rl) of
             Some (Inl e) \<Rightarrow> Some (Inl e)
           | Some (Inr (Some rl)) \<Rightarrow> Some (Inr rl)
           | _ \<Rightarrow> None))"

section \<open>Numbers\<close>

text \<open>The number of bytes of a signed number, as the recursion both routines follow.\<close>

function sig :: "int \<Rightarrow> nat" where
  "sig n = (if n > 0x7f \<or> n < - 0x80 then Suc (sig (n div 256)) else 1)"
  by pat_completeness auto
termination by (relation "measure (\<lambda>n. nat \<bar>n\<bar>)") auto

declare sig.simps [simp del] write_bytes_loop.simps [simp del] nr_bytes_loop.simps [simp del]

lemma sig_pos: "0 < sig n"
  by (subst sig.simps) simp

lemma sig_nat:
  "sig (int m) = (if m \<ge> 128 then Suc (sig (int (m div 256))) else 1)"
  by (subst sig.simps) (simp add: zdiv_int)

lemma sig_neg: "sig n = sig (- n - 1)"
proof (induction n rule: sig.induct)
  case (1 n)
  define q r where "q = n div 256" and "r = n mod 256"
  have n: "n = 256 * q + r" and r: "0 \<le> r" "r < 256" by (simp_all add: q_def r_def)
  have "- n - 1 = 256 * (- q - 1) + (255 - r)" using n by (simp add: algebra_simps)
  then have d: "(- n - 1) div 256 = - q - 1" by (rule int_div_pos_eq) (use r in simp_all)
  show ?case
  proof (cases "n > 0x7f \<or> n < - 0x80")
    case True
    then have "sig q = sig (- q - 1)" using 1 by (simp only: q_def)
    moreover have "sig n = Suc (sig q)" using True by (subst sig.simps) (simp add: q_def)
    moreover have "sig (- n - 1) = Suc (sig (- q - 1))" using True by (subst sig.simps) (auto simp: d)
    ultimately show ?thesis by simp
  next
    case False
    then have "sig n = 1" "sig (- n - 1) = 1" by (subst sig.simps, auto)+
    then show ?thesis by simp
  qed
qed

lemma nr_bytes_sig: "128 \<le> m \<Longrightarrow> nr_bytes_loop i (m div 128) = i + sig (int m) - 1"
proof (induction m arbitrary: i rule: less_induct)
  case (less m)
  have d: "m div 128 div 256 = m div 256 div 128" by (simp add: div_mult2_eq [symmetric] mult.commute)
  show ?case
  proof (cases "128 \<le> m div 256")
    case True
    then have "nr_bytes_loop (i + 1) (m div 256 div 128) = i + 1 + sig (int (m div 256)) - 1"
      using less.IH [of "m div 256"] less.prems by simp
    moreover have "m div 256 div 128 \<noteq> 0" using True by (simp add: div_eq_0_iff)
    ultimately show ?thesis using True less.prems sig_pos [of "int (m div 256)"]
      by (subst nr_bytes_loop.simps) (simp add: Let_def d sig_nat [of m])
  next
    case False
    then have "m div 256 div 128 = 0" by simp
    moreover have "sig (int (m div 256)) = 1" using False by (simp add: sig_nat [of "m div 256"])
    ultimately show ?thesis using less.prems by (subst nr_bytes_loop.simps) (simp add: Let_def d sig_nat [of m])
  qed
qed

lemma nr_significant_sig: "ntfs_get_nr_significant_bytes n = sig n"
proof -
  define m where "m = nat (if n < 0 then - n - 1 else n)"
  have "sig n = sig (int m)" using sig_neg [of n] by (simp add: m_def)
  then show ?thesis
    using nr_bytes_sig [of m 1] sig_pos [of "int m"] by (simp add: ntfs_get_nr_significant_bytes_def Let_def m_def [symmetric] sig_nat [of m])
qed

text \<open>A number of \<open>k\<close> bytes lies in the range of \<open>k\<close> signed bytes.\<close>

lemma sig_range: "- (128 * 256 ^ (sig n - 1)) \<le> n \<and> n < 128 * 256 ^ (sig n - 1)"
proof (induction n rule: sig.induct)
  case (1 n)
  show ?case
  proof (cases "n > 0x7f \<or> n < - 0x80")
    case True
    let ?k = "sig (n div 256)"
    have k: "sig n = Suc ?k" using True by (subst sig.simps) simp
    have ih: "- (128 * 256 ^ (?k - 1)) \<le> n div 256" "n div 256 < 128 * 256 ^ (?k - 1)" using "1.IH" True by auto
    have p: "(256 :: int) ^ ?k = 256 * 256 ^ (?k - 1)" using sig_pos [of "n div 256"] by (cases ?k) simp_all
    have "n < 256 * (128 * 256 ^ (?k - 1))" "256 * - (128 * 256 ^ (?k - 1)) \<le> n" using ih by linarith+
    then show ?thesis by (simp add: k p)
  next
    case False
    then have "sig n = 1" by (subst sig.simps) simp
    then show ?thesis using False by simp
  qed
qed

lemma sig_le:
  assumes "- (128 * 256 ^ k) \<le> n" "n < 128 * 256 ^ k"
  shows "sig n \<le> Suc k"
  using assms
proof (induction k arbitrary: n)
  case 0
  then show ?case by (subst sig.simps) simp
next
  case (Suc k)
  have "- (128 * 256 ^ k) \<le> n div 256" "n div 256 < 128 * 256 ^ k" using Suc.prems by simp_all
  from Suc.IH [OF this] show ?case by (subst sig.simps) simp
qed

lemma sig_64: "- (2 ^ 63) \<le> n \<Longrightarrow> n < 2 ^ 63 \<Longrightarrow> sig n \<le> 8"
  using sig_le [of 7 n] by simp

text \<open>The bytes of a number, low byte first.\<close>

definition put_num :: "mem \<Rightarrow> nat \<Rightarrow> int \<Rightarrow> nat \<Rightarrow> mem" where
  "put_num m p n k = (\<lambda>j. if p \<le> j \<and> j < p + k then of_int (n div 256 ^ (j - p)) else m j)"

lemma put_num_0 [simp]: "put_num m p n 0 = m"
  by (auto simp: put_num_def fun_eq_iff)

lemma put_num_Suc: "put_num m p n (Suc k) = put_num (m(p := of_int n)) (p + 1) (n div 256) k"
proof
  fix j
  have "n div 256 div 256 ^ (j - (p + 1)) = n div 256 ^ (j - p)" if "p + 1 \<le> j"
    using that by (simp add: zdiv_zmult2_eq [symmetric] power_Suc [symmetric] Suc_diff_Suc)
  then show "put_num m p n (Suc k) j = put_num (m(p := of_int n)) (p + 1) (n div 256) k j"
    by (auto simp: put_num_def)
qed

lemma write_loop_sig:
  "(sig l = 1 \<or> int pos + int (sig l) - 2 \<le> mx \<longrightarrow>
      write_bytes_loop dst pos mx l i = (Some (i + sig l - 1), put_num dst pos (l div 256) (sig l - 1))) \<and>
   (\<not> (sig l = 1 \<or> int pos + int (sig l) - 2 \<le> mx) \<longrightarrow> fst (write_bytes_loop dst pos mx l i) = None)"
proof (induction dst pos mx l i rule: write_bytes_loop.induct)
  case (1 dst pos mx l i)
  show ?case
  proof (cases "l > 0x7f \<or> l < - 0x80")
    case False
    then have "sig l = 1" by (subst sig.simps) simp
    moreover have "write_bytes_loop dst pos mx l i = (Some i, dst)" using False by (subst write_bytes_loop.simps) simp
    ultimately show ?thesis by simp
  next
    case True
    let ?k = "sig (l div 256)"
    have k: "sig l = Suc ?k" using True by (subst sig.simps) simp
    have kp: "0 < ?k" by (rule sig_pos)
    show ?thesis
    proof (cases "int pos > mx")
      case gt: True
      then have "write_bytes_loop dst pos mx l i = (None, dst)" using True by (subst write_bytes_loop.simps) simp
      then show ?thesis using gt kp k by simp
    next
      case False
      have e: "write_bytes_loop dst pos mx l i = write_bytes_loop (dst(pos := of_int (l div 256))) (pos + 1) mx (l div 256) (i + 1)"
        using True False by (subst write_bytes_loop.simps) (simp add: Let_def)
      have p: "put_num dst pos (l div 256) ?k = put_num (dst(pos := of_int (l div 256))) (pos + 1) (l div 256 div 256) (?k - 1)"
        using kp put_num_Suc [of dst pos "l div 256" "?k - 1"] by simp
      have c: "?k = 1 \<or> int (pos + 1) + int ?k - 2 \<le> mx \<longleftrightarrow> sig l = 1 \<or> int pos + int (sig l) - 2 \<le> mx"
        using False kp by (auto simp: k)
      have n: "i + 1 + ?k - 1 = i + sig l - 1" "sig l - 1 = ?k" using kp by (simp_all add: k)
      from "1.IH" [OF True False refl refl] show ?thesis unfolding e n(2) p by (simp only: c n(1))
    qed
  qed
qed

lemma write_significant_sig:
  "int pos + int (sig n) - 1 \<le> mx \<Longrightarrow> ntfs_write_significant_bytes dst pos mx n = (Some (sig n), put_num dst pos n (sig n))"
  "\<not> int pos + int (sig n) - 1 \<le> mx \<Longrightarrow> fst (ntfs_write_significant_bytes dst pos mx n) = None"
proof -
  have p: "put_num dst pos n (sig n) = put_num (dst(pos := of_int n)) (pos + 1) (n div 256) (sig n - 1)"
    using sig_pos [of n] put_num_Suc [of dst pos n "sig n - 1"] by simp
  note w = write_loop_sig [of n "pos + 1" mx "dst(pos := of_int n)" 1]
  show "ntfs_write_significant_bytes dst pos mx n = (Some (sig n), put_num dst pos n (sig n))" if "int pos + int (sig n) - 1 \<le> mx"
    using that w sig_pos [of n] by (auto simp: ntfs_write_significant_bytes_def p)
  show "fst (ntfs_write_significant_bytes dst pos mx n) = None" if "\<not> int pos + int (sig n) - 1 \<le> mx"
    using that w by (auto simp: ntfs_write_significant_bytes_def)
qed

text \<open>Reading a number back.\<close>

lemma wrap64_add_left [simp]: "wrap64 (wrap64 x + y) = wrap64 (x + y)"
  using signed_take_bit_add [of 63 "signed_take_bit 63 x" y] signed_take_bit_add [of 63 x y] by (simp add: wrap64_def)

lemma delta_loop_num:
  assumes r: "- (2 ^ 63) \<le> n" "n < 2 ^ 63" and b: "\<And>j. j < k \<Longrightarrow> m (p + lo + 1 + j) = of_int (n div 256 ^ j)"
  shows "t \<le> k \<Longrightarrow> delta_loop m p lo (lo + t) (n div 256 ^ t) = n"
proof (induction t)
  case 0
  then show ?case by (cases lo) simp_all
next
  case (Suc t)
  have d: "n div 256 ^ Suc t = n div 256 ^ t div 256" by (simp add: zdiv_zmult2_eq [symmetric] mult.commute)
  have "uint (m (p + Suc (lo + t))) = n div 256 ^ t mod 256"
    using b [of t] Suc.prems by (simp add: add.assoc uint_word_of_int)
  then have "wrap64 (wrap64 (n div 256 ^ Suc t * 256) + uint (m (p + Suc (lo + t)))) = wrap64 (n div 256 ^ t)"
    by (simp add: d del: power_Suc)
  moreover have "- (2 ^ 63) \<le> n div 256 ^ t" "n div 256 ^ t < 2 ^ 63"
  proof -
    have c: "(1 :: int) \<le> 256 ^ t" by simp
    have "0 \<le> n div 256 ^ t \<and> n div 256 ^ t \<le> n" if "0 \<le> n"
      using that zdiv_mono2 [OF that _ c] by (simp add: pos_imp_zdiv_nonneg_iff)
    moreover have "n \<le> n div 256 ^ t \<and> n div 256 ^ t < 0" if "n < 0"
      using that zdiv_mono2_neg [OF that _ c] by (simp add: pos_imp_zdiv_neg_iff)
    ultimately show "- (2 ^ 63) \<le> n div 256 ^ t" "n div 256 ^ t < 2 ^ 63" using r by linarith+
  qed
  ultimately show ?case using Suc by (simp add: wrap64_id)
qed

lemma sint_byte: "- 128 \<le> x \<Longrightarrow> x < 128 \<Longrightarrow> sint (word_of_int x :: u8) = x"
  by (simp add: sint_sbintrunc' signed_take_bit_int_eq_self)

lemma read_delta_num:
  assumes r: "- (2 ^ 63) \<le> n" "n < 2 ^ 63" and b: "\<And>j. j < sig n \<Longrightarrow> m (p + lo + 1 + j) = of_int (n div 256 ^ j)"
  shows "read_delta m p lo (lo + sig n) = n"
proof -
  define k where "k = sig n - 1"
  have k: "sig n = Suc k" using sig_pos [of n] by (simp add: k_def)
  have g: "- 128 \<le> n div 256 ^ k" "n div 256 ^ k < 128"
  proof -
    have s: "- (128 * 256 ^ k) \<le> n" "n < 128 * 256 ^ k" using sig_range [of n] by (simp_all add: k)
    define c q where "c = (256 :: int) ^ k" and "q = n div 256 ^ k"
    have c: "0 < c" by (simp add: c_def)
    have "q * c \<le> n" "n < (q + 1) * c"
      using div_mult_mod_eq [of n c] pos_mod_sign [OF c, of n] pos_mod_bound [OF c, of n]
      unfolding q_def c_def [symmetric] by (simp_all only: distrib_right mult_1 le_add_same_cancel1)
    moreover have "- (128 * c) \<le> n" "n < 128 * c" using s by (simp_all add: c_def)
    ultimately have "q * c < 128 * c" "(- 128) * c < (q + 1) * c" by linarith+
    then have "q < 128" "- 128 < q + 1" using c mult_less_cancel_right_pos by blast+
    then show "- 128 \<le> n div 256 ^ k" "n div 256 ^ k < 128" by (simp_all add: q_def)
  qed
  have "sint (m (p + (lo + sig n))) = n div 256 ^ k"
    using b [of k] sint_byte [OF g] by (simp add: k add.assoc)
  then show ?thesis
    using delta_loop_num [OF r, of "sig n" m p lo k] b by (simp add: read_delta_def k)
qed

section \<open>One pair\<close>

definition pair_len :: "s64 \<Rightarrow> s64 option \<Rightarrow> nat" where
  "pair_len len d = 1 + sig len + (case d of None \<Rightarrow> 0 | Some x \<Rightarrow> sig x)"

definition pair_mem :: "mem \<Rightarrow> nat \<Rightarrow> s64 \<Rightarrow> s64 option \<Rightarrow> mem" where
  "pair_mem m p len d =
     (let m = put_num m (p + 1) len (sig len);
          m = (case d of None \<Rightarrow> m | Some x \<Rightarrow> put_num m (p + 1 + sig len) x (sig x)) in
      m(p := push_bit 4 (of_nat (pair_len len d - 1 - sig len)) OR of_nat (sig len)))"

lemma put_pair_room:
  "int (pos + pair_len len d) \<le> mx \<Longrightarrow> put_pair m pos mx len d = (Inr (pos + pair_len len d), pair_mem m pos len d)"
  "\<not> int (pos + pair_len len d) \<le> mx \<Longrightarrow> \<exists>m'. put_pair m pos mx len d = (Inl (), m')"
proof -
  let ?m = "put_num m (pos + 1) len (sig len)"
  note w = write_significant_sig [of "pos + 1" len mx m]
  show "put_pair m pos mx len d = (Inr (pos + pair_len len d), pair_mem m pos len d)" if r: "int (pos + pair_len len d) \<le> mx"
  proof (cases d)
    case None
    then show ?thesis using r w(1) by (simp add: put_pair_def pair_len_def pair_mem_def Let_def)
  next
    case (Some x)
    then show ?thesis using r w(1) write_significant_sig(1) [of "pos + 1 + sig len" x mx ?m]
      by (simp add: put_pair_def pair_len_def pair_mem_def Let_def)
  qed
  show "\<exists>m'. put_pair m pos mx len d = (Inl (), m')" if r: "\<not> int (pos + pair_len len d) \<le> mx"
  proof (cases "int (pos + 1) + int (sig len) - 1 \<le> mx")
    case False
    then show ?thesis using w(2) by (auto simp: put_pair_def split: prod.splits option.splits)
  next
    case fit: True
    show ?thesis
    proof (cases d)
      case None
      then show ?thesis using r w(1) [OF fit] by (simp add: put_pair_def pair_len_def Let_def)
    next
      case (Some x)
      note w2 = write_significant_sig [of "pos + 1 + sig len" x mx ?m]
      show ?thesis
      proof (cases "int (pos + 1 + sig len) + int (sig x) - 1 \<le> mx")
        case True
        then show ?thesis using r w(1) [OF fit] w2(1) Some by (simp add: put_pair_def pair_len_def Let_def)
      next
        case False
        then show ?thesis using w(1) [OF fit] w2(2) Some by (auto simp: put_pair_def split: prod.splits option.splits)
      qed
    qed
  qed
qed

lemma pair_mem_outside: "j < p \<or> p + pair_len len d \<le> j \<Longrightarrow> pair_mem m p len d j = m j"
  by (auto simp: pair_mem_def pair_len_def put_num_def Let_def split: option.splits)

lemma pair_header:
  fixes a b :: nat
  assumes "a \<le> 8" "b \<le> 8"
  shows "unat ((push_bit 4 (of_nat a) OR of_nat b :: u8) AND 0xf) = b"
    "unat (drop_bit 4 (push_bit 4 (of_nat a) OR of_nat b :: u8) AND 0xf) = a"
    "(push_bit 4 (of_nat a) OR of_nat b :: u8) AND 0xf0 = 0 \<longleftrightarrow> a = 0"
proof -
  have c: "a \<in> {0,1,2,3,4,5,6,7,8}" "b \<in> {0,1,2,3,4,5,6,7,8}" using assms by (simp_all, arith+)
  show "unat ((push_bit 4 (of_nat a) OR of_nat b :: u8) AND 0xf) = b" using c by auto
  show "unat (drop_bit 4 (push_bit 4 (of_nat a) OR of_nat b :: u8) AND 0xf) = a" using c by auto
  show "(push_bit 4 (of_nat a) OR of_nat b :: u8) AND 0xf0 = 0 \<longleftrightarrow> a = 0" using c by auto
qed

lemma put_num_inside: "k < n \<Longrightarrow> put_num m p x n (p + k) = of_int (x div 256 ^ k)"
  by (simp add: put_num_def)

lemma wrap64_diff_add: "wrap64 (prev + wrap64 (x - prev)) = wrap64 x"
  using wrap64_add_left [of "x - prev" prev] by (simp add: add.commute)

lemma wrap64_range: "- (2 ^ 63) \<le> wrap64 x" "wrap64 x < 2 ^ 63"
  unfolding wrap64_def
  using signed_take_bit_int_greater_eq_minus_exp [of 63 x] signed_take_bit_int_less_exp [of 63 x] by simp_all

text \<open>The run a pair describes, read at \<open>pos\<close> from any buffer that holds the pair there.\<close>

lemma pair_read:
  assumes m: "\<And>j. pos \<le> j \<Longrightarrow> j < pos + pair_len len d \<Longrightarrow> a j = pair_mem m0 pos len d j"
    and len: "0 \<le> len" "len < 2 ^ 63" and d: "\<And>x. d = Some x \<Longrightarrow> - (2 ^ 63) \<le> x \<and> x < 2 ^ 63"
    and e: "pos + pair_len len d \<le> attr_end"
    and l: "lcn' = (case d of None \<Rightarrow> lcn | Some x \<Rightarrow> wrap64 (lcn + x))" "d \<noteq> None \<longrightarrow> - 1 \<le> lcn'"
  shows "pair_step a attr_end pos vcn lcn =
      Some (\<lparr>rl_vcn = vcn, rl_lcn = case d of None \<Rightarrow> LCN_HOLE | Some x \<Rightarrow> lcn', rl_length = len\<rparr>, wrap64 (vcn + len), lcn')"
    "pair_size a pos = pair_len len d" "a pos \<noteq> 0"
proof -
  define sl sd where "sl = sig len" and "sd = (case d of None \<Rightarrow> 0 | Some x \<Rightarrow> sig x)"
  have sl: "sl \<le> 8" "0 < sl" using sig_64 [of len] len sig_pos [of len] by (simp_all add: sl_def)
  have sd: "sd \<le> 8" "sd = 0 \<longleftrightarrow> d = None" using d sig_64 sig_pos by (auto simp: sd_def split: option.splits)
  have pl: "pair_len len d = 1 + sl + sd" by (simp add: pair_len_def sl_def sd_def)
  have h: "a pos = push_bit 4 (of_nat sd) OR of_nat sl"
    using m [of pos] by (simp add: pl pair_mem_def Let_def) (simp add: sl_def)
  note ph = pair_header [OF sd(1) sl(1), folded h]
  show "pair_size a pos = pair_len len d" by (simp add: pair_size_def ph pl)
  show "a pos \<noteq> 0" using ph(1) sl(2) by auto
  have bl: "a (pos + 0 + 1 + j) = of_int (len div 256 ^ j)" if "j < sl" for j
    using m [of "pos + 1 + j"] that pl by (cases d) (simp_all add: pair_mem_def Let_def put_num_def sl_def)
  have "read_delta a pos 0 (0 + sig len) = len"
    using bl len by (intro read_delta_num) (simp_all add: sl_def)
  then have rl: "read_delta a pos 0 sl = len" by (simp add: sl_def)
  show "pair_step a attr_end pos vcn lcn =
      Some (\<lparr>rl_vcn = vcn, rl_lcn = case d of None \<Rightarrow> LCN_HOLE | Some x \<Rightarrow> lcn', rl_length = len\<rparr>, wrap64 (vcn + len), lcn')"
  proof (cases d)
    case None
    then have "a pos AND 0xf0 = 0" using ph(3) sd(2) by simp
    then show ?thesis using None rl sl len e [unfolded pl] l by (simp add: pair_step_def Let_def ph)
  next
    case (Some x)
    have bx: "a (pos + sl + 1 + j) = of_int (x div 256 ^ j)" if "j < sig x" for j
      using m [of "pos + sl + 1 + j"] that Some pl by (simp add: pair_mem_def Let_def put_num_def sl_def sd_def)
    have "read_delta a pos sl (sl + sig x) = x" using bx d Some by (intro read_delta_num) simp_all
    then have rx: "read_delta a pos sl (sl + sd) = x" using Some by (simp add: sd_def)
    have "a pos AND 0xf0 \<noteq> 0" using ph(3) sd(2) Some by simp
    then show ?thesis using Some rl rx sl len e [unfolded pl] l by (simp add: pair_step_def Let_def ph)
  qed
qed

section \<open>Whole arrays\<close>

text \<open>
  A runlist the code can have built: contiguous runs of positive length from \<open>v\<close>, on clusters or
  holes, and a terminator.
\<close>

fun runs_from :: "VCN \<Rightarrow> runlist_element list \<Rightarrow> bool" where
  "runs_from v [] = False"
| "runs_from v [e] \<longleftrightarrow> rl_vcn e = v \<and> rl_length e = 0 \<and> v < 2 ^ 63"
| "runs_from v (e # e1 # rl) \<longleftrightarrow>
     rl_vcn e = v \<and> 0 < rl_length e \<and> rl_length e < 2 ^ 63 \<and> LCN_HOLE \<le> rl_lcn e \<and> rl_lcn e < 2 ^ 63 \<and>
     runs_from (v + rl_length e) (e1 # rl)"

definition run_delta :: "nat \<Rightarrow> runlist_element \<Rightarrow> LCN \<Rightarrow> s64 option" where
  "run_delta ver e prev = (if lcn_stored ver e then Some (wrap64 (rl_lcn e - prev)) else None)"

definition lcn_after :: "nat \<Rightarrow> runlist_element \<Rightarrow> LCN \<Rightarrow> LCN" where
  "lcn_after ver e prev = (if lcn_stored ver e then rl_lcn e else prev)"

fun pairs_len :: "nat \<Rightarrow> runlist_element list \<Rightarrow> LCN \<Rightarrow> nat" where
  "pairs_len ver [] prev = 0"
| "pairs_len ver (e # rl) prev =
     (if rl_length e = 0 then 0
      else pair_len (rl_length e) (run_delta ver e prev) + pairs_len ver rl (lcn_after ver e prev))"

fun pairs_mem :: "nat \<Rightarrow> mem \<Rightarrow> nat \<Rightarrow> runlist_element list \<Rightarrow> LCN \<Rightarrow> mem" where
  "pairs_mem ver m p [] prev = m"
| "pairs_mem ver m p (e # rl) prev =
     (if rl_length e = 0 then m
      else pairs_mem ver (pair_mem m p (rl_length e) (run_delta ver e prev))
             (p + pair_len (rl_length e) (run_delta ver e prev)) rl (lcn_after ver e prev))"

lemma pairs_mem_outside:
  "j < p \<or> p + pairs_len ver rl prev \<le> j \<Longrightarrow> pairs_mem ver m p rl prev j = m j"
proof (induction rl arbitrary: m p prev)
  case (Cons e rl)
  then show ?case
    by (cases "rl_length e = 0") (auto simp: pair_mem_outside)
qed simp

lemma write_loop_outside: "j < pos \<or> dst_max < int j \<Longrightarrow> snd (write_bytes_loop dst pos dst_max l i) j = dst j"
proof (induction dst pos dst_max l i rule: write_bytes_loop.induct)
  case (1 dst pos dst_max l i)
  show ?case
  proof (cases "(l > 0x7f \<or> l < - 0x80) \<and> \<not> int pos > dst_max")
    case True
    then show ?thesis using 1 by (subst write_bytes_loop.simps) (auto simp: Let_def simp del: fun_upd_apply, auto)
  next
    case False
    then show ?thesis by (subst write_bytes_loop.simps) auto
  qed
qed

lemma write_significant_outside:
  "j < pos \<or> dst_max < int j \<Longrightarrow> snd (ntfs_write_significant_bytes dst pos dst_max n) j = dst j"
  unfolding ntfs_write_significant_bytes_def
  by (auto simp: write_loop_outside)

lemma put_pair_outside:
  assumes "j < pos \<or> dst_max < int j"
  shows "snd (put_pair dst pos dst_max len d) j = dst j"
proof -
  obtain r m where w: "ntfs_write_significant_bytes dst (pos + 1) dst_max len = (r, m)" by force
  have m: "m j = dst j" using write_significant_outside [of j "pos + 1" dst_max dst len] assms w by auto
  show ?thesis
  proof (cases r)
    case None
    then show ?thesis using w m by (simp add: put_pair_def)
  next
    case r: (Some n)
    define p2 where "p2 = (case d of None \<Rightarrow> (Some 0, m) | Some x \<Rightarrow> ntfs_write_significant_bytes m (pos + 1 + n) dst_max x)"
    have "snd p2 j = m j"
      using write_significant_outside [of j "pos + 1 + n" dst_max m] assms by (auto simp: p2_def split: option.splits)
    then show ?thesis
      using w m r assms by (cases p2) (auto simp: put_pair_def p2_def [symmetric] Let_def split: option.splits)
  qed
qed

lemma runs_cons:
  "runs_from v (e # rl) \<longleftrightarrow> rl_vcn e = v \<and>
     (if rl = [] then rl_length e = 0 \<and> v < 2 ^ 63
      else 0 < rl_length e \<and> rl_length e < 2 ^ 63 \<and> LCN_HOLE \<le> rl_lcn e \<and> rl_lcn e < 2 ^ 63 \<and> runs_from (v + rl_length e) rl)"
  by (cases rl) auto

text \<open>A runlist is its terminator, or a run before a runlist.\<close>

lemma runs_induct [consumes 1, case_names Stop Run]:
  assumes "runs_from v rl"
    and "\<And>v e. rl_vcn e = v \<Longrightarrow> rl_length e = 0 \<Longrightarrow> v < 2 ^ 63 \<Longrightarrow> Q v [e]"
    and "\<And>v e rl. rl_vcn e = v \<Longrightarrow> 0 < rl_length e \<Longrightarrow> rl_length e < 2 ^ 63 \<Longrightarrow> LCN_HOLE \<le> rl_lcn e \<Longrightarrow> rl_lcn e < 2 ^ 63 \<Longrightarrow>
      rl \<noteq> [] \<Longrightarrow> runs_from (v + rl_length e) rl \<Longrightarrow> Q (v + rl_length e) rl \<Longrightarrow> Q v (e # rl)"
  shows "Q v rl"
  using assms(1)
proof (induction rl arbitrary: v)
  case (Cons e rl)
  show ?case
  proof (cases "rl = []")
    case True
    then show ?thesis using Cons.prems assms(2) [of e v] by simp
  next
    case False
    then show ?thesis using Cons assms(3) [of e v rl] by (simp add: runs_cons)
  qed
qed simp

lemma case_unit_const [simp]: "(case x of () \<Rightarrow> y) = y"
proof (cases x)
  case Unity
  show ?thesis unfolding Unity by (rule old.unit.case)
qed

lemma build_loop_run:
  assumes "0 < rl_length e" "LCN_HOLE \<le> rl_lcn e"
  shows "build_loop ver dst pos dst_max (e # rl) prev =
    (case put_pair dst pos dst_max (rl_length e) (run_delta ver e prev) of
       (Inl (), dst) \<Rightarrow> Some (Some ENOSPC, dst(pos := 0), Some (e # rl))
     | (Inr next, dst) \<Rightarrow> build_loop ver dst next dst_max rl (lcn_after ver e prev))"
proof -
  have "\<not> bad_run e" "rl_length e \<noteq> 0" using assms by (simp_all add: bad_run_def)
  then show ?thesis
    unfolding lcn_after_def by (cases "lcn_stored ver e") (simp_all add: run_delta_def)
qed

lemma runs_end: "runs_from v rl \<Longrightarrow> v \<le> rl_vcn (last rl) \<and> rl_vcn (last rl) < 2 ^ 63"
  by (induction v rl rule: runs_induct) auto

lemma build_loop_fits:
  assumes "runs_from v rl" "int (pos + pairs_len ver rl prev) \<le> dst_max"
  shows "build_loop ver dst pos dst_max rl prev =
      Some (None, (pairs_mem ver dst pos rl prev)(pos + pairs_len ver rl prev := 0), Some [last rl])"
  using assms
proof (induction v rl arbitrary: dst pos prev rule: runs_induct)
  case (Run v e rl)
  let ?n = "pair_len (rl_length e) (run_delta ver e prev)"
  have r: "int (pos + ?n) \<le> dst_max" "int (pos + ?n + pairs_len ver rl (lcn_after ver e prev)) \<le> dst_max"
    using Run by simp_all
  show ?case
    using Run r(2) put_pair_room(1) [OF r(1)] by (simp add: build_loop_run add.assoc del: build_loop.simps)
qed simp

lemma build_loop_full:
  assumes "runs_from v rl" "int pos \<le> dst_max" "\<not> int (pos + pairs_len ver rl prev) \<le> dst_max"
  shows "\<exists>m r. build_loop ver dst pos dst_max rl prev = Some (Some ENOSPC, m, r) \<and>
      (\<forall>j. j < pos \<or> dst_max < int j \<longrightarrow> m j = dst j)"
  using assms
proof (induction v rl arbitrary: dst pos prev rule: runs_induct)
  case (Run v e rl)
  let ?d = "run_delta ver e prev"
  let ?n = "pair_len (rl_length e) ?d" and ?m = "pair_mem dst pos (rl_length e) ?d"
  show ?case
  proof (cases "int (pos + ?n) \<le> dst_max")
    case True
    have "\<exists>m r. build_loop ver ?m (pos + ?n) dst_max rl (lcn_after ver e prev) = Some (Some ENOSPC, m, r) \<and>
        (\<forall>j. j < pos + ?n \<or> dst_max < int j \<longrightarrow> m j = ?m j)"
      using True Run.prems Run.hyps by (intro Run.IH) (simp_all add: add.assoc)
    then show ?thesis
      using Run.hyps True put_pair_room(1) [OF True, of dst]
      by (auto simp: build_loop_run pair_mem_outside simp del: build_loop.simps)
  next
    case False
    then obtain m where m: "put_pair dst pos dst_max (rl_length e) ?d = (Inl (), m)" using put_pair_room(2) by blast
    have "m j = dst j" if "j < pos \<or> dst_max < int j" for j using put_pair_outside [OF that, of dst "rl_length e" ?d] m by simp
    moreover have "build_loop ver dst pos dst_max (e # rl) prev = Some (Some ENOSPC, m(pos := 0), Some (e # rl))"
      unfolding build_loop_run [OF Run.hyps(2,4)] m by simp
    ultimately show ?thesis using Run.prems(1) by fastforce
  qed
qed simp

text \<open>In a buffer without room only the terminator is written, behind its end.\<close>

lemma build_loop_empty:
  assumes "runs_from v rl" "dst_max < int pos"
  shows "\<exists>r. build_loop ver dst pos dst_max rl prev = Some (if pairs_len ver rl prev = 0 then None else Some ENOSPC, dst(pos := 0), r)"
proof (cases rl)
  case Nil
  then show ?thesis using assms(1) by simp
next
  case (Cons e r)
  show ?thesis
  proof (cases "rl_length e = 0")
    case True
    then show ?thesis by (simp add: Cons)
  next
    case False
    let ?d = "run_delta ver e prev"
    have e: "0 < rl_length e" "LCN_HOLE \<le> rl_lcn e" using assms(1) False by (auto simp: Cons runs_cons split: if_splits)
    have n: "0 < pair_len (rl_length e) ?d" by (simp add: pair_len_def)
    then obtain m where m: "put_pair dst pos dst_max (rl_length e) ?d = (Inl (), m)" using put_pair_room(2) assms(2) by fastforce
    have "m = dst" using put_pair_outside [of _ pos dst_max dst "rl_length e" ?d] m assms(2) by (intro ext) force
    then show ?thesis using n False by (simp add: Cons build_loop_run [OF e] m del: build_loop.simps)
  qed
qed

lemma size_loop_len:
  assumes "runs_from v rl" "rls + int (pairs_len ver rl prev) \<le> max_size"
  shows "size_loop ver max_size rl prev rls = Some (Inr (rls + int (pairs_len ver rl prev)))"
  using assms
proof (induction v rl arbitrary: rls prev rule: runs_induct)
  case (Run v e rl)
  have "\<not> bad_run e" using Run by (simp add: bad_run_def)
  moreover have "ntfs_get_nr_significant_bytes x = sig x" if "- (2 ^ 63) \<le> x" "x < 2 ^ 63" for x
    using that by (simp add: nr_significant_sig)
  ultimately show ?case
    using Run wrap64_range [of "rl_lcn e - prev"]
    by (cases "lcn_stored ver e") (simp_all add: run_delta_def lcn_after_def pair_len_def add.assoc)
qed simp

lemma run_read:
  fixes ver e prev defines "d \<equiv> run_delta ver e prev" and "l \<equiv> lcn_after ver e prev"
  assumes m: "\<And>j. pos \<le> j \<Longrightarrow> j < pos + pair_len (rl_length e) d \<Longrightarrow> a j = pair_mem m0 pos (rl_length e) d j"
    and len: "0 < rl_length e" "rl_length e < 2 ^ 63" and lcn: "LCN_HOLE \<le> rl_lcn e" "rl_lcn e < 2 ^ 63"
    and v: "0 \<le> rl_vcn e" "rl_vcn e + rl_length e < 2 ^ 63" and fit: "pos + pair_len (rl_length e) d \<le> attr_end"
  shows "pair_step a attr_end pos (rl_vcn e) prev = Some (e, rl_vcn e + rl_length e, l)"
    "pair_size a pos = pair_len (rl_length e) d" "a pos \<noteq> 0"
proof -
  have hole: "rl_lcn e = -1" if "\<not> lcn_stored ver e" using that lcn(1) by (simp add: lcn_stored_def LCN_HOLE_def)
  have w: "wrap64 (rl_lcn e) = rl_lcn e" "wrap64 (rl_vcn e + rl_length e) = rl_vcn e + rl_length e"
    using lcn v len by (simp_all add: wrap64_id LCN_HOLE_def)
  have dr: "- (2 ^ 63) \<le> x \<and> x < 2 ^ 63" if "d = Some x" for x
    using that wrap64_range [of "rl_lcn e - prev"] by (auto simp: d_def run_delta_def split: if_splits)
  have l: "l = (case d of None \<Rightarrow> prev | Some x \<Rightarrow> wrap64 (prev + x))"
    using wrap64_diff_add [of prev "rl_lcn e"] w by (simp add: d_def l_def run_delta_def lcn_after_def)
  have l1: "d \<noteq> None \<longrightarrow> - 1 \<le> l" using lcn(1) by (simp add: d_def l_def run_delta_def lcn_after_def LCN_HOLE_def)
  note p = pair_read [OF m less_imp_le [OF len(1)] len(2) dr fit l l1]
  show "pair_size a pos = pair_len (rl_length e) d" "a pos \<noteq> 0" using p(2,3) by simp_all
  have "\<lparr>rl_vcn = rl_vcn e, rl_lcn = case d of None \<Rightarrow> LCN_HOLE | Some x \<Rightarrow> l, rl_length = rl_length e\<rparr> = e"
    using hole by (cases e) (simp add: d_def l_def run_delta_def lcn_after_def LCN_HOLE_def)
  then show "pair_step a attr_end pos (rl_vcn e) prev = Some (e, rl_vcn e + rl_length e, l)" using p(1) [of "rl_vcn e"] w(2) by simp
qed

lemma pairs_loop_reads:
  assumes "runs_from v rl" "\<And>j. pos \<le> j \<Longrightarrow> j < pos + pairs_len ver rl prev \<Longrightarrow> a j = pairs_mem ver m0 pos rl prev j"
    and "a (pos + pairs_len ver rl prev) = 0" "pos + pairs_len ver rl prev < attr_end"
    and "0 \<le> v" "\<And>n. alloc n" "length rl0 = unat rlpos" "length rl0 + length rl < 65536"
  shows "pairs_loop alloc a attr_end pos v prev rl0 rlpos rlsize =
     Inr (pos + pairs_len ver rl prev, rl_vcn (last rl), rl0 @ butlast rl, rlpos + of_nat (length rl - 1))"
  using assms
proof (induction v rl arbitrary: pos prev rl0 rlpos rlsize m0 rule: runs_induct)
  case (Stop v e)
  then show ?case by (subst pairs_loop.simps) simp
next
  case (Run v e rl)
  let ?d = "run_delta ver e prev"
  let ?n = "pair_len (rl_length e) ?d" and ?m = "pair_mem m0 pos (rl_length e) ?d"
  let ?l = "lcn_after ver e prev"
  have len: "pairs_len ver (e # rl) prev = ?n + pairs_len ver rl ?l"
    "pairs_mem ver m0 pos (e # rl) prev = pairs_mem ver ?m (pos + ?n) rl ?l" using Run.hyps(2) by simp_all
  have in_pair: "a j = ?m j" if "pos \<le> j" "j < pos + ?n" for j
    using Run.prems(1) [of j] that len by (simp add: pairs_mem_outside)
  have rd: "pair_step a attr_end pos v prev = Some (e, v + rl_length e, ?l)" "pair_size a pos = ?n" "a pos \<noteq> 0"
    using run_read [of pos e ver prev a m0 attr_end] in_pair Run.hyps Run.prems(3,4) len runs_end [OF Run.hyps(7)] by simp_all
  have u: "unat (rlpos + 1) = unat rlpos + 1" using Run.prems(6,7) by (simp add: unat_word_ariths)
  have IH: "pairs_loop alloc a attr_end (pos + ?n) (v + rl_length e) ?l (rl0 @ [e]) (rlpos + 1) sz =
      Inr (pos + ?n + pairs_len ver rl ?l, rl_vcn (last rl), (rl0 @ [e]) @ butlast rl, rlpos + 1 + of_nat (length rl - 1))" for sz
    using Run.prems Run.hyps len u by (intro Run.IH [where ?m0.0 = ?m]) (simp_all add: add.assoc)
  have "put_run rl0 rlpos e = rl0 @ [e]" using Run.prems(6) by (simp add: put_run_def)
  moreover have "rlpos + 1 + of_nat (length rl - 1) = rlpos + of_nat (length (e # rl) - 1)"
    using Run.hyps(6) by (cases rl) simp_all
  moreover have "pos < attr_end" using Run.prems(3) by simp
  ultimately show ?case
    using rd Run.hyps(6) Run.prems(5) len
    by (subst pairs_loop.simps) (simp add: IH Let_def add.assoc del: pairs_len.simps pairs_mem.simps)
qed

section \<open>From a given cluster on\<close>

text \<open>The runlist from \<open>v\<close> on: its first run begins at \<open>v\<close>.\<close>

definition cut_run :: "runlist_element \<Rightarrow> VCN \<Rightarrow> runlist_element" where
  "cut_run e v =
     \<lparr>rl_vcn = v, rl_lcn = if rl_lcn e \<ge> 0 then rl_lcn e + (v - rl_vcn e) else rl_lcn e,
      rl_length = if rl_length e = 0 then 0 else rl_length e - (v - rl_vcn e)\<rparr>"

fun cut_at :: "runlist_element list \<Rightarrow> VCN \<Rightarrow> runlist_element list" where
  "cut_at [] v = []"
| "cut_at (e # rl) v =
     (if rl_length e \<noteq> 0 \<and> v \<ge> rl_vcn e + rl_length e then cut_at rl v else cut_run e v # rl)"

text \<open>Every run on clusters stays below \<open>2 ^ 63\<close>.\<close>

definition lcns_fit :: "runlist_element list \<Rightarrow> bool" where
  "lcns_fit rl \<longleftrightarrow> list_all (\<lambda>e. rl_lcn e + rl_length e < 2 ^ 63) rl"

lemma skip_cut:
  assumes "runs_from w rl" "w \<le> v" "v \<le> rl_vcn (last rl)" "lcns_fit rl"
  shows "\<exists>e r. skip_to rl v = Some (e # r) \<and> runs_from (rl_vcn e) (e # r) \<and> rl_vcn e \<le> v \<and> last (e # r) = last rl \<and>
     w \<le> rl_vcn e \<and> set (e # r) \<subseteq> set rl \<and> length (e # r) \<le> length rl \<and>
     (if r = [] then v = rl_vcn e else v < rl_vcn e + rl_length e) \<and> cut_at rl v = cut_at (e # r) v"
  using assms
proof (induction w rl rule: runs_induct)
  case (Stop w e)
  then show ?case by simp
next
  case (Run w e rl)
  then obtain e1 r1 where rl: "rl = e1 # r1" by (cases rl) auto
  have e1: "rl_vcn e1 = w + rl_length e" using Run.hyps(7) rl by (simp add: runs_cons)
  show ?case
  proof (cases "v \<ge> w + rl_length e")
    case True
    then have "skip_to (e # rl) v = skip_to rl v" "cut_at (e # rl) v = cut_at rl v" using Run.hyps e1 rl by simp_all
    then show ?thesis using Run True by (fastforce simp: lcns_fit_def)
  next
    case False
    then have "skip_to (e # rl) v = Some (e # rl)" using e1 rl by simp
    moreover have "runs_from (rl_vcn e) (e # rl)" using Run.hyps by (simp add: runs_cons)
    ultimately show ?thesis using False Run.hyps(1,6) Run.prems by auto
  qed
qed

lemma cut_runs:
  assumes "runs_from w rl" "w \<le> v" "v \<le> rl_vcn (last rl)" "lcns_fit rl"
  shows "runs_from v (cut_at rl v)" "rl_vcn (last (cut_at rl v)) = rl_vcn (last rl)" "length (cut_at rl v) \<le> length rl"
proof -
  obtain e r where s: "runs_from (rl_vcn e) (e # r)" "rl_vcn e \<le> v" "last (e # r) = last rl" "set (e # r) \<subseteq> set rl"
    "if r = [] then v = rl_vcn e else v < rl_vcn e + rl_length e" "cut_at rl v = cut_at (e # r) v" "length (e # r) \<le> length rl"
    using skip_cut [OF assms] by blast
  have f: "rl_lcn e + rl_length e < 2 ^ 63" using s(4) assms(4) by (auto simp: lcns_fit_def list_all_iff)
  show "runs_from v (cut_at rl v)" using s f by (auto simp: cut_run_def runs_cons LCN_HOLE_def add.commute split: if_splits)
  show "rl_vcn (last (cut_at rl v)) = rl_vcn (last rl)" using s(3) [symmetric] s by (auto simp: cut_run_def runs_cons split: if_splits)
  show "length (cut_at rl v) \<le> length rl" using s by (auto simp: runs_cons split: if_splits)
qed

lemma cut_first:
  assumes "rl_vcn e < v" "v < rl_vcn e + rl_length e" "0 < rl_length e" "rl_length e < 2 ^ 63"
    and "LCN_HOLE \<le> rl_lcn e" "rl_lcn e + rl_length e < 2 ^ 63"
  defines "c \<equiv> cut_run e v" and "prev \<equiv> (if rl_lcn e \<ge> 0 then wrap64 (rl_lcn e + (v - rl_vcn e)) else rl_lcn e)"
  shows "rl_length c = wrap64 (rl_length e - (v - rl_vcn e))" "0 < rl_length c" "\<not> bad_run e" "LCN_HOLE \<le> rl_lcn c"
    "run_delta ver c 0 = (if lcn_stored ver e then Some prev else None)"
    "lcn_after ver c 0 = (if lcn_stored ver e then prev else 0)"
proof -
  have w: "wrap64 (rl_length e - (v - rl_vcn e)) = rl_length e - (v - rl_vcn e)"
    "rl_lcn e \<ge> 0 \<Longrightarrow> wrap64 (rl_lcn e + (v - rl_vcn e)) = rl_lcn e + (v - rl_vcn e)"
    "rl_lcn e < 0 \<Longrightarrow> wrap64 (rl_lcn e) = rl_lcn e"
    using assms(1-6) by (simp_all add: wrap64_id LCN_HOLE_def)
  show "rl_length c = wrap64 (rl_length e - (v - rl_vcn e))" "0 < rl_length c" "\<not> bad_run e" "LCN_HOLE \<le> rl_lcn c"
    using assms w by (auto simp: bad_run_def LCN_HOLE_def cut_run_def)
  show "run_delta ver c 0 = (if lcn_stored ver e then Some prev else None)"
    "lcn_after ver c 0 = (if lcn_stored ver e then prev else 0)"
    using assms w by (auto simp: run_delta_def lcn_after_def lcn_stored_def cut_run_def)
qed

lemma build_cut:
  assumes "runs_from w rl" "0 \<le> w" "w \<le> v" "v \<le> rl_vcn (last rl)" "lcns_fit rl"
  shows "map_option (\<lambda>(e, m, r). (e, m)) (ntfs_mapping_pairs_build ver dst pos dst_len (Some rl) v) =
      map_option (\<lambda>(e, m, r). (e, m)) (build_loop ver dst pos (int pos + dst_len - 1) (cut_at rl v) 0)"
proof -
  obtain e r where s: "skip_to rl v = Some (e # r)" "runs_from (rl_vcn e) (e # r)" "rl_vcn e \<le> v" "set (e # r) \<subseteq> set rl"
    "if r = [] then v = rl_vcn e else v < rl_vcn e + rl_length e" "cut_at rl v = cut_at (e # r) v"
    using skip_cut [OF assms(1,3-5)] by blast
  have f: "rl_lcn e + rl_length e < 2 ^ 63" using s(4) assms(5) by (auto simp: lcns_fit_def list_all_iff)
  show ?thesis
  proof (cases "rl_vcn e = v")
    case True
    then have "cut_at rl v = e # r" using s by (cases e) (auto simp: cut_run_def runs_cons split: if_splits)
    then show ?thesis using assms s(1) True by (simp add: ntfs_mapping_pairs_build_def del: build_loop.simps)
  next
    case False
    then have e: "rl_vcn e < v" "v < rl_vcn e + rl_length e" "0 < rl_length e" "rl_length e < 2 ^ 63" "LCN_HOLE \<le> rl_lcn e"
      using s(2,3,5) by (auto simp: runs_cons split: if_splits)
    note c = cut_first [OF e f]
    have k: "cut_at rl v = cut_run e v # r" "rl_length e \<noteq> 0" using e s(6) by simp_all
    define p where "p = put_pair dst pos (int pos + dst_len - 1) (rl_length (cut_run e v)) (run_delta ver (cut_run e v) 0)"
    have "ntfs_mapping_pairs_build ver dst pos dst_len (Some rl) v =
       (case p of (Inl (), dst) \<Rightarrow> Some (Some ENOSPC, dst(pos := 0), Some (e # r))
        | (Inr next, dst) \<Rightarrow> build_loop ver dst next (int pos + dst_len - 1) r (lcn_after ver (cut_run e v) 0))"
      using assms s(1) e k(2) c(3) unfolding p_def c(1,5,6)
      by (cases "lcn_stored ver e"; cases "rl_lcn e \<ge> 0") (simp_all add: ntfs_mapping_pairs_build_def Let_def)
    then show ?thesis
      by (cases p; cases "fst p") (auto simp: k(1) build_loop_run [OF c(2,4)] p_def [symmetric] simp del: build_loop.simps)
  qed
qed

lemma size_cut:
  assumes "runs_from w rl" "0 \<le> w" "w \<le> v" "v \<le> rl_vcn (last rl)" "lcns_fit rl" "1 \<le> max_size"
  shows "ntfs_get_size_for_mapping_pairs ver (Some rl) v max_size = size_loop ver max_size (cut_at rl v) 0 1"
proof -
  obtain e r where s: "skip_to rl v = Some (e # r)" "runs_from (rl_vcn e) (e # r)" "rl_vcn e \<le> v" "set (e # r) \<subseteq> set rl"
    "if r = [] then v = rl_vcn e else v < rl_vcn e + rl_length e" "cut_at rl v = cut_at (e # r) v"
    using skip_cut [OF assms(1,3-5)] by blast
  have f: "rl_lcn e + rl_length e < 2 ^ 63" using s(4) assms(5) by (auto simp: lcns_fit_def list_all_iff)
  show ?thesis
  proof (cases "rl_vcn e = v")
    case True
    then have "cut_at rl v = e # r" using s by (cases e) (auto simp: cut_run_def runs_cons split: if_splits)
    then show ?thesis using assms s(1) True by (simp add: ntfs_get_size_for_mapping_pairs_def del: size_loop.simps)
  next
    case False
    then have e: "rl_vcn e < v" "v < rl_vcn e + rl_length e" "0 < rl_length e" "rl_length e < 2 ^ 63" "LCN_HOLE \<le> rl_lcn e"
      using s(2,3,5) by (auto simp: runs_cons split: if_splits)
    note c = cut_first [OF e f]
    have "\<not> bad_run (cut_run e v)" using c(2,4) by (simp add: bad_run_def)
    moreover have "cut_at rl v = cut_run e v # r" using e s(6) by simp
    moreover have "rl_length e \<noteq> 0" "rl_length (cut_run e v) \<noteq> 0" using e c(2) by simp_all
    moreover have "lcn_stored ver (cut_run e v) = lcn_stored ver e"
      using e by (auto simp: lcn_stored_def cut_run_def)
    ultimately show ?thesis
      using assms s(1) e c(3) c(5,6) [of ver]
      by (cases "lcn_stored ver e") (simp_all add: ntfs_get_size_for_mapping_pairs_def Let_def c(1) run_delta_def lcn_after_def)
  qed
qed

section \<open>Round trip and size\<close>

lemma size_loop_over:
  assumes "runs_from v rl" "max_size < rls + int (pairs_len ver rl prev)"
  shows "\<exists>n. size_loop ver max_size rl prev rls = Some (Inr n) \<and> max_size < n"
  using assms
proof (induction v rl arbitrary: rls prev rule: runs_induct)
  case (Run v e rl)
  have "\<not> bad_run e" using Run by (simp add: bad_run_def)
  moreover have "ntfs_get_nr_significant_bytes x = sig x" if "- (2 ^ 63) \<le> x" "x < 2 ^ 63" for x
    using that by (simp add: nr_significant_sig)
  ultimately show ?case
    using Run wrap64_range [of "rl_lcn e - prev"]
    by (cases "lcn_stored ver e") (simp_all add: run_delta_def lcn_after_def pair_len_def add.assoc)
qed simp

lemma size_is_len:
  assumes "runs_from w rl" "0 \<le> w" "w \<le> v" "v \<le> rl_vcn (last rl)" "lcns_fit rl" "1 \<le> mx"
    and "ntfs_get_size_for_mapping_pairs ver (Some rl) v mx = Some (Inr n)" "n \<le> mx"
  shows "n = 1 + int (pairs_len ver (cut_at rl v) 0)"
proof -
  note c = cut_runs(1) [OF assms(1,3-5)]
  have s: "size_loop ver mx (cut_at rl v) 0 1 = Some (Inr n)" using size_cut [OF assms(1-6), of ver] assms(7) by simp
  have "1 + int (pairs_len ver (cut_at rl v) 0) \<le> mx" using size_loop_over [OF c, of mx 1 ver 0] s assms(8) by fastforce
  then show ?thesis using size_loop_len [OF c, of 1 ver 0 mx] s by simp
qed

text \<open>
  C7. The size \<open>ntfs_get_size_for_mapping_pairs\<close> computes for a runlist from any cluster on, when it
  stays within the limit given, is exact: \<open>ntfs_mapping_pairs_build\<close> succeeds in every buffer of at least
  that size, fails with \<open>ENOSPC\<close> in every smaller one of at least one byte, and writes nothing outside
  the buffer. A buffer of no bytes is treated as one of one byte: there the terminator is written
  behind the buffer, and where the array is the terminator alone the result is success.
\<close>

theorem mapping_pairs_size_exact:
  assumes "runs_from w rl" "0 \<le> w" "w \<le> v" "v \<le> rl_vcn (last rl)" "lcns_fit rl"
    and "ntfs_get_size_for_mapping_pairs ver (Some rl) v mx = Some (Inr n)" "1 \<le> mx" "n \<le> mx"
  shows "\<exists>m r. ntfs_mapping_pairs_build ver dst pos dst_len (Some rl) v = Some (if n \<le> max 1 dst_len then None else Some ENOSPC, m, r) \<and>
     (\<forall>j. j < pos \<or> int pos + max 1 dst_len \<le> int j \<longrightarrow> m j = dst j) \<and> (dst_len < 1 \<longrightarrow> m = dst(pos := 0))"
proof -
  note c = cut_runs(1) [OF assms(1,3-5)] and n = size_is_len [OF assms(1-5,7,6,8)]
  note b = build_cut [OF assms(1-5), of ver dst pos dst_len]
  let ?n = "pairs_len ver (cut_at rl v) 0" and ?mx = "int pos + dst_len - 1"
  consider (none) "dst_len < 1" | (fits) "1 \<le> dst_len" "n \<le> dst_len" | (full) "1 \<le> dst_len" "\<not> n \<le> dst_len" by linarith
  then show ?thesis
  proof cases
    case none
    then obtain r where "build_loop ver dst pos ?mx (cut_at rl v) 0 = Some (if ?n = 0 then None else Some ENOSPC, dst(pos := 0), r)"
      using build_loop_empty [OF c, of ?mx pos ver dst 0] by auto
    then show ?thesis using b none n by (auto split: if_splits)
  next
    case fits
    then have "build_loop ver dst pos ?mx (cut_at rl v) 0 =
        Some (None, (pairs_mem ver dst pos (cut_at rl v) 0)(pos + ?n := 0), Some [last (cut_at rl v)])"
      using n by (intro build_loop_fits [OF c]) simp
    then show ?thesis using b fits n by (auto simp: pairs_mem_outside)
  next
    case full
    then have "\<exists>m r. build_loop ver dst pos ?mx (cut_at rl v) 0 = Some (Some ENOSPC, m, r) \<and> (\<forall>j. j < pos \<or> ?mx < int j \<longrightarrow> m j = dst j)"
      using n by (intro build_loop_full [OF c]) simp_all
    then show ?thesis using b full by auto
  qed
qed

lemma header_kept:
  assumes "\<And>j. j < 64 \<Longrightarrow> m j = (a :: mem) j"
  shows "attr_length m = attr_length a" "attr_non_resident m = attr_non_resident a" "attr_lowest_vcn m = attr_lowest_vcn a"
    "attr_highest_vcn m = attr_highest_vcn a" "attr_mapping_pairs_offset m = attr_mapping_pairs_offset a"
    "attr_allocated_size m = attr_allocated_size a"
  using assms by (simp_all add: attr_length_def attr_non_resident_def attr_lowest_vcn_def attr_highest_vcn_def
      attr_mapping_pairs_offset_def attr_allocated_size_def sle64_at_def ld_word_def ld_dword_def ld_qword_def)

text \<open>The header of an attribute record whose mapping pairs cover \<open>rl\<close> from cluster \<open>v\<close> on.\<close>

definition extent_header :: "nat \<Rightarrow> mem \<Rightarrow> nat \<Rightarrow> int \<Rightarrow> runlist_element list \<Rightarrow> VCN \<Rightarrow> bool" where
  "extent_header bits a off dst_len rl v \<longleftrightarrow>
     attr_non_resident a \<noteq> 0 \<and> attr_lowest_vcn a = v \<and> attr_highest_vcn a = rl_vcn (last rl) - 1 \<and>
     unat (attr_mapping_pairs_offset a) = off \<and> 64 \<le> off \<and> int off + dst_len \<le> int (unat (attr_length a)) \<and>
     (v = 0 \<longrightarrow> attr_allocated_size a = rl_vcn (last rl) * 2 ^ bits \<and> (rl_vcn (last rl) + 1) * 2 ^ bits < 2 ^ 63)"

text \<open>What such a record decompresses to.\<close>

definition extent_runs :: "runlist_element list \<Rightarrow> VCN \<Rightarrow> runlist_element list" where
  "extent_runs rl v =
     (if v = 0 then [] else [\<lparr>rl_vcn = 0, rl_lcn = LCN_RL_NOT_MAPPED, rl_length = v\<rparr>]) @ butlast (cut_at rl v) @
     [\<lparr>rl_vcn = rl_vcn (last rl), rl_lcn = if v = 0 then LCN_ENOENT else LCN_RL_NOT_MAPPED, rl_length = 0\<rparr>]"

lemma pairs_end_extent:
  assumes "extent_header bits a off dst_len rl v" "0 \<le> v" "v \<le> rl_vcn (last rl)" "rl_vcn (last rl) < 2 ^ 63" "length rs = unat rlpos"
  shows "pairs_end bits a (rl_vcn (last rl)) rs rlpos =
    Inr (rs @ [\<lparr>rl_vcn = rl_vcn (last rl), rl_lcn = if v = 0 then LCN_ENOENT else LCN_RL_NOT_MAPPED, rl_length = 0\<rparr>])"
proof -
  let ?e = "rl_vcn (last rl)"
  have w: "wrap64 (?e - 1) = ?e - 1" using assms(2-4) by (intro wrap64_id) simp_all
  have "(?e * 2 ^ bits + 2 ^ bits - 1) div 2 ^ bits = ?e"
    by (simp add: div_add1_eq [of "?e * 2 ^ bits"] flip: add_diff_eq)
  moreover have "wrap64 (?e * 2 ^ bits + 2 ^ bits - 1) = ?e * 2 ^ bits + 2 ^ bits - 1" if "v = 0"
  proof -
    have "0 \<le> ?e * 2 ^ bits" "(1 :: int) \<le> 2 ^ bits" using assms(2,3) by simp_all
    moreover have "?e * 2 ^ bits + 2 ^ bits < 2 ^ 63" using assms(1) that by (simp add: extent_header_def distrib_right)
    ultimately show ?thesis by (intro wrap64_id) linarith+
  qed
  ultimately show ?thesis
    using assms(1,5) w by (auto simp: pairs_end_def extent_header_def put_run_def Let_def)
qed

text \<open>
  C6. Writing the mapping pairs of a runlist from cluster \<open>v\<close> on into an attribute record and
  decompressing the record gives the runlist back: the runs from \<open>v\<close> on, the first one cut to begin
  there, behind one unmapped run for the clusters before \<open>v\<close>.
\<close>

theorem mapping_pairs_round_trip:
  assumes "runs_from w rl" "0 \<le> w" "w \<le> v" "v \<le> rl_vcn (last rl)" "lcns_fit rl" "length rl < 65534"
    and "extent_header bits a off dst_len rl v" "1 \<le> dst_len" "\<And>n. alloc n"
    and "ntfs_mapping_pairs_build ver a off dst_len (Some rl) v = Some (None, m, r)"
  shows "ntfs_mapping_pairs_decompress alloc u bits m None = Some (Inr (extent_runs rl v))"
proof -
  let ?c = "cut_at rl v" and ?e = "rl_vcn (last rl)"
  let ?n = "pairs_len ver ?c 0"
  note c = cut_runs [OF assms(1,3-5)]
  note b = build_cut [OF assms(1-5), of ver a off dst_len]
  have fit: "int (off + ?n) \<le> int off + dst_len - 1"
    using build_loop_full [OF c(1), of off "int off + dst_len - 1" ver 0 a] b assms(8,10) by fastforce
  have m: "m = (pairs_mem ver a off ?c 0)(off + ?n := 0)" using build_loop_fits [OF c(1) fit] b assms(10) by simp
  have eh: "64 \<le> off" "off + ?n < unat (attr_length a)" using assms(7) fit unfolding extent_header_def by linarith+
  have h: "attr_length m = attr_length a" "attr_non_resident m = attr_non_resident a" "attr_lowest_vcn m = attr_lowest_vcn a"
    "attr_highest_vcn m = attr_highest_vcn a" "attr_mapping_pairs_offset m = attr_mapping_pairs_offset a"
    "attr_allocated_size m = attr_allocated_size a"
    by (rule header_kept, use eh in \<open>simp add: m pairs_mem_outside\<close>)+
  have hm: "extent_header bits m off dst_len rl v" using assms(7) h by (simp add: extent_header_def)
  define rl0 :: "runlist_element list" where "rl0 = (if v = 0 then [] else [\<lparr>rl_vcn = 0, rl_lcn = LCN_RL_NOT_MAPPED, rl_length = v\<rparr>])"
  define p0 :: u16 where "p0 = (if v = 0 then 0 else 1)"
  have l: "length rl0 = unat p0" "length rl0 \<le> 1" by (simp_all add: rl0_def p0_def)
  have loop: "pairs_loop alloc m (unat (attr_length a)) off v 0 rl0 p0 0x1000 =
      Inr (off + ?n, ?e, rl0 @ butlast ?c, p0 + of_nat (length ?c - 1))"
    using pairs_loop_reads [OF c(1), of off ver 0 m a "unat (attr_length a)" alloc rl0 p0 "0x1000"] c assms(2,3,6,9) eh(2) l
    by (simp add: m)
  have "unat (p0 + of_nat (length ?c - 1)) = length (rl0 @ butlast ?c)"
    using l c(3) assms(6) by (simp add: unat_word_ariths unat_of_nat)
  then have e: "pairs_end bits m ?e (rl0 @ butlast ?c) (p0 + of_nat (length ?c - 1)) = Inr (extent_runs rl v)"
    using pairs_end_extent [OF hm] runs_end [OF assms(1)] assms(2-4) by (simp add: extent_runs_def rl0_def)
  have "decompress_new alloc bits m = Inr (extent_runs rl v)"
    using hm h(1) loop e assms(2,3,9) eh(2)
    by (simp add: decompress_new_def extent_header_def rl0_def p0_def Let_def split: if_splits)
  then show ?thesis by (simp add: ntfs_mapping_pairs_decompress_def)
qed

text \<open>A runlist with a hole, and an attribute record for its clusters from 4 on.\<close>

definition demo_rl :: "runlist_element list" where
  "demo_rl =
     [\<lparr>rl_vcn = 0, rl_lcn = 1000, rl_length = 10\<rparr>, \<lparr>rl_vcn = 10, rl_lcn = LCN_HOLE, rl_length = 5\<rparr>,
      \<lparr>rl_vcn = 15, rl_lcn = 50, rl_length = 300\<rparr>, \<lparr>rl_vcn = 315, rl_lcn = LCN_ENOENT, rl_length = 0\<rparr>]"

definition demo_attr :: mem where
  "demo_attr j =
     (if j = 4 then 80 else if j = 8 then 1 else if j = 16 then 4 else if j = 24 then 0x3a else if j = 25 then 1
      else if j = 32 then 64 else 0)"

lemma demo_rl_ok: "runs_from 0 demo_rl" "lcns_fit demo_rl" "rl_vcn (last demo_rl) = 315" "length demo_rl = 4"
  by (simp_all add: demo_rl_def lcns_fit_def lcn_consts)

lemma demo_header: "extent_header 12 demo_attr 64 12 demo_rl 4"
  unfolding extent_header_def demo_rl_ok by code_simp

lemma demo_size: "ntfs_get_size_for_mapping_pairs 3 (Some demo_rl) 4 100 = Some (Inr 12)"
  by code_simp

lemma demo_build: "map_option fst (ntfs_mapping_pairs_build 3 demo_attr 64 12 (Some demo_rl) 4) = Some None"
  by code_simp

theorem mapping_pairs_round_trip_witness:
  "case ntfs_mapping_pairs_build 3 demo_attr 64 12 (Some demo_rl) 4 of
     Some (None, m, r) \<Rightarrow> ntfs_mapping_pairs_decompress (\<lambda>_. True) (hd demo_rl) 12 m None =
       Some (Inr [\<lparr>rl_vcn = 0, rl_lcn = LCN_RL_NOT_MAPPED, rl_length = 4\<rparr>, \<lparr>rl_vcn = 4, rl_lcn = 1004, rl_length = 6\<rparr>,
         \<lparr>rl_vcn = 10, rl_lcn = LCN_HOLE, rl_length = 5\<rparr>, \<lparr>rl_vcn = 15, rl_lcn = 50, rl_length = 300\<rparr>,
         \<lparr>rl_vcn = 315, rl_lcn = LCN_RL_NOT_MAPPED, rl_length = 0\<rparr>])
   | _ \<Rightarrow> False"
proof -
  obtain m r where b: "ntfs_mapping_pairs_build 3 demo_attr 64 12 (Some demo_rl) 4 = Some (None, m, r)" using demo_build by auto
  have "ntfs_mapping_pairs_decompress (\<lambda>_. True) (hd demo_rl) 12 m None = Some (Inr (extent_runs demo_rl 4))"
    by (rule mapping_pairs_round_trip [of 0 demo_rl 4 12 demo_attr 64 12 "\<lambda>_. True" 3 m r])
      (simp_all add: demo_rl_ok demo_header b)
  then show ?thesis unfolding b by (simp add: extent_runs_def) (simp add: demo_rl_def cut_run_def)
qed

theorem mapping_pairs_size_exact_witness:
  "(\<exists>m r. ntfs_mapping_pairs_build 3 demo_attr 64 12 (Some demo_rl) 4 = Some (None, m, r)) \<and>
   (\<exists>m r. ntfs_mapping_pairs_build 3 demo_attr 64 11 (Some demo_rl) 4 = Some (Some ENOSPC, m, r) \<and> m 75 = demo_attr 75) \<and>
   (\<exists>r. ntfs_mapping_pairs_build 3 demo_attr 64 0 (Some demo_rl) 4 = Some (Some ENOSPC, demo_attr(64 := 0), r))"
  using mapping_pairs_size_exact [of 0 demo_rl 4 3 100 12 demo_attr 64 12] mapping_pairs_size_exact [of 0 demo_rl 4 3 100 12 demo_attr 64 11]
    mapping_pairs_size_exact [of 0 demo_rl 4 3 100 12 demo_attr 64 0]
  by (auto simp: demo_rl_ok demo_size)

end
