(* ===== verification/NtRlIo.thy ===== *)
theory NtRlIo
  imports NtDevice NtPairs
begin

text \<open>
  Input and output through a runlist, and the remaining operations on runlists of \<open>runlist.c\<close>:
  gathered reads, scattered writes, truncation, growth, and the queries for holes and for the
  allocated size. A retry after an interrupted transfer meets the same device again; as it never
  returns it has no result (\<open>None\<close>), as has a read past the end of the array.
\<close>

section \<open>Reads and writes\<close>

text \<open>A runlist is \<open>None\<close> where the code has a null pointer; the volume is always there.\<close>

fun rl_seek :: "nat \<Rightarrow> runlist_element list \<Rightarrow> s64 \<Rightarrow> s64 \<Rightarrow> (runlist_element list \<times> s64) option" where
  "rl_seek bits [] ofs pos = None"
| "rl_seek bits (e # rl) ofs pos =
     (if rl_length e \<noteq> 0 \<and> wrap64 (ofs + shl64 (rl_length e) bits) \<le> pos
      then rl_seek bits rl (wrap64 (ofs + shl64 (rl_length e) bits)) pos
      else Some (e # rl, ofs))"

definition rl_err_out :: "s64 \<Rightarrow> errno \<Rightarrow> errno + s64" where
  "rl_err_out tot err = (if tot \<noteq> 0 then Inr tot else Inl err)"

fun rl_pread_loop ::
  "nat \<Rightarrow> ntfs_device \<Rightarrow> runlist_element list \<Rightarrow> s64 \<Rightarrow> s64 \<Rightarrow> mem \<Rightarrow> nat \<Rightarrow> s64 \<Rightarrow>
     ((errno + s64) \<times> mem \<times> ntfs_device) option"
where
  "rl_pread_loop bits d [] ofs count b at tot = (if count = 0 then Some (Inr tot, b, d) else None)"
| "rl_pread_loop bits d (e # rl) ofs count b at tot =
     (if count = 0 then Some (Inr tot, b, d)
      else if rl_length e = 0 then Some (rl_err_out tot EIO, b, d)
      else
        let n = min count (wrap64 (shl64 (rl_length e) bits - ofs)) in
        if rl_lcn e < 0 then
          if rl_lcn e \<noteq> LCN_HOLE then Some (rl_err_out tot EIO, b, d)
          else if n < 0 then None
          else rl_pread_loop bits d rl 0 (count - n) (mem_set b at 0 (nat n)) (at + nat n) (tot + n)
        else
          case ntfs_pread d (wrap64 (shl64 (rl_lcn e) bits + ofs)) n b at of
            (Inr br, b, d) \<Rightarrow>
              if br > 0 then rl_pread_loop bits d rl 0 (count - int br) b (at + br) (tot + int br)
              else Some (rl_err_out tot EIO, b, d)
          | (Inl err, b, d) \<Rightarrow> if err = EINTR then None else Some (rl_err_out tot err, b, d))"

definition ntfs_rl_pread ::
  "ntfs_volume \<Rightarrow> runlist_element list option \<Rightarrow> s64 \<Rightarrow> s64 \<Rightarrow> mem \<Rightarrow> nat \<Rightarrow> ((errno + s64) \<times> mem \<times> ntfs_volume) option"
where
  "ntfs_rl_pread vol arl pos count b at =
     (case arl of
        None \<Rightarrow> Some (Inl EINVAL, b, vol)
      | Some rl \<Rightarrow>
          if pos < 0 \<or> count < 0 then Some (Inl EINVAL, b, vol)
          else if count = 0 then Some (Inr count, b, vol)
          else
            let bits = v_cluster_size_bits vol in
            case rl_seek bits rl 0 pos of
              None \<Rightarrow> None
            | Some (rl, ofs) \<Rightarrow>
                map_option (\<lambda>(r, b, d). (r, b, vol\<lparr>v_dev := d\<rparr>))
                  (rl_pread_loop bits (v_dev vol) rl (wrap64 (pos - ofs)) count b at 0))"

fun rl_pwrite_loop ::
  "bool \<Rightarrow> nat \<Rightarrow> ntfs_device \<Rightarrow> runlist_element list \<Rightarrow> s64 \<Rightarrow> s64 \<Rightarrow> mem \<Rightarrow> nat \<Rightarrow> s64 \<Rightarrow>
     ((errno + s64) \<times> ntfs_device) option"
where
  "rl_pwrite_loop ro bits d [] ofs count b at tot = (if count = 0 then Some (Inr tot, d) else None)"
| "rl_pwrite_loop ro bits d (e # rl) ofs count b at tot =
     (if count = 0 then Some (Inr tot, d)
      else if rl_length e = 0 then Some (rl_err_out tot EIO, d)
      else
        let n = min count (wrap64 (shl64 (rl_length e) bits - ofs)) in
        if rl_lcn e < 0 then
          if rl_lcn e \<noteq> LCN_HOLE then Some (rl_err_out tot EIO, d)
          else rl_pwrite_loop ro bits d rl 0 (count - n) b (nat (int at + n)) (tot + n)
        else
          case (if \<not> ro then ntfs_pwrite d (wrap64 (shl64 (rl_lcn e) bits + ofs)) n b at
                else (if n = -1 then Inl (nd_errno d) else Inr (nat n), d)) of
            (Inr written, d) \<Rightarrow>
              if written > 0 then rl_pwrite_loop ro bits d rl 0 (count - int written) b (at + written) (tot + int written)
              else Some (rl_err_out tot EIO, d)
          | (Inl err, d) \<Rightarrow> if err = EINTR then None else Some (rl_err_out tot err, d))"

definition ntfs_rl_pwrite ::
  "ntfs_volume \<Rightarrow> runlist_element list option \<Rightarrow> s64 \<Rightarrow> s64 \<Rightarrow> s64 \<Rightarrow> mem \<Rightarrow> nat \<Rightarrow> ((errno + s64) \<times> ntfs_volume) option"
where
  "ntfs_rl_pwrite vol arl ofs pos count b at =
     (case arl of
        None \<Rightarrow> Some (Inl EINVAL, vol)
      | Some rl \<Rightarrow>
          if pos < 0 \<or> count < 0 then Some (Inl EINVAL, vol)
          else if count = 0 then Some (Inr 0, vol)
          else
            let bits = v_cluster_size_bits vol in
            case rl_seek bits rl ofs pos of
              None \<Rightarrow> None
            | Some (rl, ofs) \<Rightarrow>
                map_option (\<lambda>(r, d). (r, vol\<lparr>v_dev := d\<rparr>))
                  (rl_pwrite_loop (v_read_only vol) bits (v_dev vol) rl (wrap64 (pos - ofs)) count b at 0))"

section \<open>Other operations\<close>

text \<open>The result of an extension is the array; the caller's element keeps its index.\<close>

definition ntfs_rl_extend ::
  "(nat \<Rightarrow> bool) \<Rightarrow> runlist_element \<Rightarrow> runlist_element list option \<Rightarrow> nat \<Rightarrow> nat \<Rightarrow> (errno + runlist_element list) option"
where
  "ntfs_rl_extend alloc u na_rl irl more_entries =
     (case na_rl of
        None \<Rightarrow> Some (Inl EIO)
      | Some rl \<Rightarrow>
          (case scan_from (\<lambda>e. rl_length e = 0) rl irl of
             None \<Rightarrow> None
           | Some lst \<Rightarrow>
               (case ntfs_rl_realloc alloc u rl (lst + 1) (lst + more_entries + 1) of
                  None \<Rightarrow> Some (Inl ENOMEM)
                | Some newrl \<Rightarrow> Some (Inr newrl))))"

fun truncate_loop :: "runlist_element list \<Rightarrow> VCN \<Rightarrow> (errno + runlist_element list) option" where
  "truncate_loop [] start_vcn = None"
| "truncate_loop [e] start_vcn = (if rl_length e = 0 then Some (Inl EIO) else None)"
| "truncate_loop (e # e1 # rl) start_vcn =
     (if rl_length e = 0 then Some (Inl EIO)
      else if start_vcn < rl_vcn e1 then
        let e = e\<lparr>rl_length := wrap64 (start_vcn - rl_vcn e)\<rparr> in
        Some (Inr (if rl_length e \<noteq> 0 then e # e1\<lparr>rl_vcn := start_vcn, rl_length := 0, rl_lcn := LCN_ENOENT\<rparr> # rl
                   else e\<lparr>rl_lcn := LCN_ENOENT\<rparr> # e1 # rl))
      else map_option (map_sum id (Cons e)) (truncate_loop (e1 # rl) start_vcn))"

definition ntfs_rl_truncate ::
  "runlist_element list option \<Rightarrow> VCN \<Rightarrow> (errno + runlist_element list) option"
where
  "ntfs_rl_truncate arl start_vcn =
     (case arl of
        None \<Rightarrow> Some (Inl EINVAL)
      | Some [] \<Rightarrow> None
      | Some (e # rl) \<Rightarrow> if start_vcn < rl_vcn e then Some (Inl EINVAL) else truncate_loop (e # rl) start_vcn)"

fun sparse_loop :: "runlist_element list \<Rightarrow> (errno + bool) option" where
  "sparse_loop [] = None"
| "sparse_loop (e # rl) =
     (if rl_length e = 0 then Some (Inr False)
      else if rl_lcn e < 0 then Some (if rl_lcn e \<noteq> LCN_HOLE then Inl EINVAL else Inr True)
      else sparse_loop rl)"

definition ntfs_rl_sparse :: "runlist_element list option \<Rightarrow> (errno + bool) option" where
  "ntfs_rl_sparse rl = (case rl of None \<Rightarrow> Some (Inl EINVAL) | Some rl \<Rightarrow> sparse_loop rl)"

fun allocated_loop :: "runlist_element list \<Rightarrow> s64 \<Rightarrow> (errno + s64) option" where
  "allocated_loop [] ret = None"
| "allocated_loop (e # rl) ret =
     (if rl_length e = 0 then Some (Inr ret)
      else if rl_lcn e < 0 then if rl_lcn e \<noteq> LCN_HOLE then Some (Inl EINVAL) else allocated_loop rl ret
      else allocated_loop rl (wrap64 (ret + rl_length e)))"

definition ntfs_rl_get_compressed_size :: "nat \<Rightarrow> runlist_element list option \<Rightarrow> (errno + s64) option" where
  "ntfs_rl_get_compressed_size bits rl =
     (case rl of
        None \<Rightarrow> Some (Inl EINVAL)
      | Some rl \<Rightarrow> map_option (map_sum id (\<lambda>ret. shl64 ret bits)) (allocated_loop rl 0))"

section \<open>The bytes of a runlist\<close>

text \<open>Where on the device byte \<open>x\<close> of the runlist is: nowhere in a hole or past the end.\<close>

definition run_bytes :: "nat \<Rightarrow> runlist_element \<Rightarrow> nat" where
  "run_bytes bits e = nat (rl_length e) * 2 ^ bits"

fun rl_addr :: "nat \<Rightarrow> runlist_element list \<Rightarrow> nat \<Rightarrow> nat option" where
  "rl_addr bits [] x = None"
| "rl_addr bits (e # rl) x =
     (if x < run_bytes bits e then if rl_lcn e < 0 then None else Some (nat (rl_lcn e) * 2 ^ bits + x)
      else rl_addr bits rl (x - run_bytes bits e))"

fun rl_bytes :: "nat \<Rightarrow> runlist_element list \<Rightarrow> nat" where
  "rl_bytes bits [] = 0"
| "rl_bytes bits (e # rl) = run_bytes bits e + rl_bytes bits rl"

definition rl_data :: "nat \<Rightarrow> runlist_element list \<Rightarrow> mem \<Rightarrow> nat \<Rightarrow> u8" where
  "rl_data bits rl m x = (case rl_addr bits rl x of None \<Rightarrow> 0 | Some a \<Rightarrow> m a)"

definition put_run_bytes :: "mem \<Rightarrow> nat \<Rightarrow> nat \<Rightarrow> (nat \<Rightarrow> u8) \<Rightarrow> mem" where
  "put_run_bytes b at k f = (\<lambda>i. if at \<le> i \<and> i < at + k then f (i - at) else b i)"

text \<open>The runs lie on the device, and byte positions fit 63 bits.\<close>

definition runs_fit :: "nat \<Rightarrow> nat \<Rightarrow> runlist_element list \<Rightarrow> bool" where
  "runs_fit bits n rl \<longleftrightarrow> int (rl_bytes bits rl) < 2 ^ 63 \<and> int n < 2 ^ 63 \<and>
     list_all (\<lambda>e. 0 \<le> rl_lcn e \<longrightarrow> nat (rl_lcn e) * 2 ^ bits + run_bytes bits e \<le> n) rl"

lemma runs_fit_Cons:
  "runs_fit bits n (e # rl) \<Longrightarrow> runs_fit bits n rl"
  "runs_fit bits n (e # rl) \<Longrightarrow> 0 \<le> rl_lcn e \<Longrightarrow> nat (rl_lcn e) * 2 ^ bits + run_bytes bits e \<le> n"
  by (auto simp: runs_fit_def)

lemma run_shl:
  assumes "runs_fit bits n (e # rl)" "0 \<le> rl_length e"
  shows "shl64 (rl_length e) bits = int (run_bytes bits e)" "0 \<le> rl_lcn e \<Longrightarrow> shl64 (rl_lcn e) bits = int (nat (rl_lcn e) * 2 ^ bits)"
proof -
  have "int (run_bytes bits e) < 2 ^ 63" using assms(1) by (simp add: runs_fit_def)
  moreover have "int (run_bytes bits e) = rl_length e * 2 ^ bits" using assms(2) by (simp add: run_bytes_def)
  ultimately show "shl64 (rl_length e) bits = int (run_bytes bits e)" by (simp add: shl64_def wrap64_id)
  assume l: "0 \<le> rl_lcn e"
  have "int (nat (rl_lcn e) * 2 ^ bits) < 2 ^ 63" using runs_fit_Cons(2) [OF assms(1) l] assms(1) unfolding runs_fit_def by linarith
  moreover have "int (nat (rl_lcn e) * 2 ^ bits) = rl_lcn e * 2 ^ bits" using l by simp
  moreover have "0 \<le> rl_lcn e * 2 ^ bits" using l by simp
  ultimately show "shl64 (rl_lcn e) bits = int (nat (rl_lcn e) * 2 ^ bits)" unfolding shl64_def by (simp only: wrap64_id)
qed

text \<open>No two runs share a cluster.\<close>

fun disjoint_runs :: "runlist_element list \<Rightarrow> bool" where
  "disjoint_runs [] \<longleftrightarrow> True"
| "disjoint_runs (e # rl) \<longleftrightarrow>
     list_all (\<lambda>f. rl_lcn e < 0 \<or> rl_lcn f < 0 \<or> rl_lcn e + rl_length e \<le> rl_lcn f \<or> rl_lcn f + rl_length f \<le> rl_lcn e) rl \<and>
     disjoint_runs rl"

text \<open>What a seek to byte \<open>x\<close> finds: the rest \<open>r\<close> of the runlist, beginning at byte \<open>o'\<close>.\<close>

definition seeks :: "nat \<Rightarrow> nat \<Rightarrow> runlist_element list \<Rightarrow> nat \<Rightarrow> runlist_element list \<Rightarrow> nat \<Rightarrow> bool" where
  "seeks bits n rl x r o' \<longleftrightarrow> (\<exists>w. runs_from w r) \<and> runs_fit bits n r \<and> o' \<le> x \<and>
     (x - o' < run_bytes bits (hd r) \<or> rl_length (hd r) = 0) \<and> (\<forall>y. x \<le> y \<longrightarrow> rl_addr bits rl y = rl_addr bits r (y - o')) \<and>
     rl_bytes bits rl = o' + rl_bytes bits r \<and> (disjoint_runs rl \<longrightarrow> disjoint_runs r)"

lemma seeks_Cons:
  assumes "seeks bits n rl (x - run_bytes bits e) r o'" "run_bytes bits e \<le> x"
  shows "seeks bits n (e # rl) x r (run_bytes bits e + o')"
proof -
  have "rl_addr bits (e # rl) y = rl_addr bits r (y - (run_bytes bits e + o'))" if "x \<le> y" for y
  proof -
    have "rl_addr bits rl (y - run_bytes bits e) = rl_addr bits r (y - run_bytes bits e - o')"
      using assms(1) that unfolding seeks_def by (simp add: diff_le_mono)
    then show ?thesis using assms(2) that by simp
  qed
  then show ?thesis using assms unfolding seeks_def by (simp add: le_diff_conv2 add.commute)
qed

lemma rl_seek_ok:
  assumes "runs_from v rl" "runs_fit bits n rl" "int ofs + int (rl_bytes bits rl) < 2 ^ 63"
  shows "\<exists>r o'. rl_seek bits rl (int ofs) (int (ofs + x)) = Some (r, int (ofs + o')) \<and> seeks bits n rl x r o'"
  using assms
proof (induction v rl arbitrary: ofs x rule: runs_induct)
  case (Stop v e)
  then show ?case by (intro exI [of _ "[e]"] exI [of _ 0]) (auto simp: seeks_def)
next
  case (Run v e rl)
  have w: "wrap64 (int ofs + shl64 (rl_length e) bits) = int (ofs + run_bytes bits e)"
    using Run.hyps Run.prems(2) run_shl(1) [OF Run.prems(1)] by (simp add: wrap64_id)
  show ?case
  proof (cases "run_bytes bits e \<le> x")
    case True
    have "\<exists>r o'. rl_seek bits rl (int (ofs + run_bytes bits e)) (int (ofs + run_bytes bits e + (x - run_bytes bits e))) =
        Some (r, int (ofs + run_bytes bits e + o')) \<and> seeks bits n rl (x - run_bytes bits e) r o'"
      using Run.prems runs_fit_Cons(1) [OF Run.prems(1)] by (intro Run.IH) simp_all
    then obtain r o' where r: "rl_seek bits rl (int (ofs + run_bytes bits e)) (int (ofs + x)) = Some (r, int (ofs + run_bytes bits e + o'))"
      "seeks bits n rl (x - run_bytes bits e) r o'"
      using True by auto
    have "rl_seek bits (e # rl) (int ofs) (int (ofs + x)) = Some (r, int (ofs + (run_bytes bits e + o')))"
      using r(1) w Run.hyps(2) True by (simp add: add.assoc)
    then show ?thesis using seeks_Cons [OF r(2) True] by blast
  next
    case False
    then have "rl_seek bits (e # rl) (int ofs) (int (ofs + x)) = Some (e # rl, int (ofs + 0))" using w by simp
    moreover have "runs_from v (e # rl)" using Run.hyps by (simp add: runs_cons)
    then have "seeks bits n (e # rl) x (e # rl) 0" using False Run.prems(1) by (auto simp: seeks_def)
    ultimately show ?thesis by blast
  qed
qed

lemma put_run_bytes_0 [simp]: "put_run_bytes b at 0 f = b"
  by (auto simp: put_run_bytes_def fun_eq_iff)

lemma wrap64_nat: "int x < 2 ^ 63 \<Longrightarrow> wrap64 (int x) = int x"
  by (rule wrap64_id) (rule order.trans [of _ 0], simp_all)

lemma put_run_bytes_append:
  assumes "\<And>i. i < k' \<Longrightarrow> g i = f (q + i)"
  shows "put_run_bytes (put_run_bytes b at q f) (at + q) k' g = put_run_bytes b at (q + k') f"
  using assms by (auto simp: put_run_bytes_def fun_eq_iff)

lemma put_run_bytes_cong: "(\<And>i. i < k \<Longrightarrow> f i = g i) \<Longrightarrow> put_run_bytes b at k f = put_run_bytes b at k g"
  by (auto simp: put_run_bytes_def fun_eq_iff)

text \<open>The first run of a list: how much of a request of \<open>c\<close> bytes it serves.\<close>

lemma first_run:
  assumes "runs_fit bits n (e # rl)" "0 < rl_length e" "ofs < run_bytes bits e"
    and q_def: "q = min c (run_bytes bits e - ofs)"
  shows "min (int c) (wrap64 (shl64 (rl_length e) bits - int ofs)) = int (q)" "0 < c \<Longrightarrow> 0 < q"
    "min c (rl_bytes bits (e # rl) - ofs) = q + min (c - q) (rl_bytes bits rl)"
    "0 \<le> rl_lcn e \<Longrightarrow> wrap64 (shl64 (rl_lcn e) bits + int ofs) = int (nat (rl_lcn e) * 2 ^ bits + ofs)"
    "0 \<le> rl_lcn e \<Longrightarrow> nat (rl_lcn e) * 2 ^ bits + ofs + q \<le> n"
    "i < min (c - q) (rl_bytes bits rl) \<Longrightarrow> rl_addr bits rl i = rl_addr bits (e # rl) (ofs + (q + i))"
proof -
  have R: "int (run_bytes bits e) < 2 ^ 63" using assms(1) by (simp add: runs_fit_def)
  note sh = run_shl [OF assms(1) less_imp_le [OF assms(2)]]
  have "wrap64 (int (run_bytes bits e) - int ofs) = int (run_bytes bits e - ofs)" using R assms(3) by (simp add: wrap64_id of_nat_diff)
  then show "min (int c) (wrap64 (shl64 (rl_length e) bits - int ofs)) = int (q)" by (simp add: sh(1) q_def)
  show "0 < c \<Longrightarrow> 0 < q" using assms(3) by (simp add: q_def)
  show "min c (rl_bytes bits (e # rl) - ofs) = q + min (c - q) (rl_bytes bits rl)" using assms(3) by (simp add: q_def)
  assume l: "0 \<le> rl_lcn e"
  note f = runs_fit_Cons(2) [OF assms(1) l]
  show "nat (rl_lcn e) * 2 ^ bits + ofs + q \<le> n" using f assms(3) by (simp add: q_def)
  have "int (nat (rl_lcn e) * 2 ^ bits + ofs) < 2 ^ 63" using f assms(1,3) unfolding runs_fit_def by linarith
  then show "wrap64 (shl64 (rl_lcn e) bits + int ofs) = int (nat (rl_lcn e) * 2 ^ bits + ofs)"
    unfolding sh(2) [OF l] of_nat_add [symmetric] by (rule wrap64_nat)
next
  show "i < min (c - q) (rl_bytes bits rl) \<Longrightarrow> rl_addr bits rl i = rl_addr bits (e # rl) (ofs + (q + i))"
    using assms(3) by (auto simp: q_def min_def split: if_splits)
qed

text \<open>A read of \<open>c\<close> bytes from byte \<open>ofs\<close> of the first run: all of them, or those there are.\<close>

definition read_result :: "nat \<Rightarrow> nat \<Rightarrow> nat \<Rightarrow> errno + s64" where
  "read_result c k tot = (if k = c then Inr (int (tot + k)) else rl_err_out (int (tot + k)) EIO)"

lemma rl_pread_loop_ok:
  assumes "runs_from v rl" "runs_fit bits n rl" "dev_good n d" "ofs < run_bytes bits (hd rl) \<or> rl_length (hd rl) = 0"
    and "k = min c (rl_bytes bits rl - ofs)"
  shows "\<exists>d'. rl_pread_loop bits d rl (int ofs) (int c) b at (int tot) =
      Some (read_result c k tot, put_run_bytes b at k (\<lambda>i. rl_data bits rl (nd_bytes d) (ofs + i)), d') \<and>
      dev_good n d' \<and> nd_bytes d' = nd_bytes d"
  using assms
proof (induction v rl arbitrary: d ofs c b at tot k rule: runs_induct)
  case (Stop v e)
  then show ?case by (auto simp: run_bytes_def read_result_def)
next
  case (Run v e rl)
  let ?m = "nd_bytes d"
  have o1: "ofs < run_bytes bits e" using Run.hyps(2) Run.prems(3) by simp
  define q where "q = min c (run_bytes bits e - ofs)"
  note fr = first_run [OF Run.prems(1) Run.hyps(2) o1 q_def]
  define k' where "k' = min (c - q) (rl_bytes bits rl)"
  have k: "k = q + k'" using Run.prems(4) fr(3) by (simp add: k'_def)
  have qc: "q \<le> c" by (simp add: q_def)
  have hd: "0 < run_bytes bits (hd rl) \<or> rl_length (hd rl) = 0"
    using Run.hyps(6,7) by (cases rl) (auto simp: runs_cons run_bytes_def split: if_splits)
  have rest: "\<exists>d''. rl_pread_loop bits d' rl 0 (int (c - q)) (put_run_bytes b at q f) (at + q) (int (tot + q)) =
      Some (read_result c k tot, put_run_bytes b at k f, d'') \<and> dev_good n d'' \<and> nd_bytes d'' = ?m"
    if g: "dev_good n d'" "nd_bytes d' = ?m" and f: "f = (\<lambda>i. rl_data bits (e # rl) ?m (ofs + i))" for d' f
  proof -
    have "\<exists>d''. rl_pread_loop bits d' rl (int 0) (int (c - q)) (put_run_bytes b at q f) (at + q) (int (tot + q)) =
        Some (read_result (c - q) k' (tot + q), put_run_bytes (put_run_bytes b at q f) (at + q) k' (\<lambda>i. rl_data bits rl (nd_bytes d') (0 + i)), d'')
        \<and> dev_good n d'' \<and> nd_bytes d'' = nd_bytes d'"
      using hd g by (intro Run.IH runs_fit_Cons(1) [OF Run.prems(1)]) (simp_all add: k'_def)
    moreover have "read_result (c - q) k' (tot + q) = read_result c k tot" using qc by (auto simp: read_result_def k add.assoc)
    moreover have "put_run_bytes (put_run_bytes b at q f) (at + q) k' (\<lambda>i. rl_data bits rl ?m (0 + i)) = put_run_bytes b at k f"
      unfolding k using fr(6) by (intro put_run_bytes_append) (simp add: f rl_data_def k'_def del: rl_addr.simps)
    ultimately show ?thesis using g(2) by simp
  qed
  show ?case
  proof (cases "c = 0 \<or> rl_lcn e < 0")
    case True
    have z: "put_run_bytes b at q (\<lambda>i. rl_data bits (e # rl) ?m (ofs + i)) = mem_set b at 0 q" if "rl_lcn e < 0"
      using that o1 by (auto simp: put_run_bytes_def mem_set_def rl_data_def q_def fun_eq_iff)
    show ?thesis
    proof (cases "c = 0")
      case True
      then show ?thesis using Run.prems(2) k by (auto simp: q_def k'_def read_result_def)
    next
      case False
      then have h: "rl_lcn e = LCN_HOLE" using True Run.hyps(4) by (simp add: LCN_HOLE_def)
      then show ?thesis
        using rest [OF Run.prems(2) refl refl] Run.hyps(2) False fr(1) z qc by (simp add: Let_def LCN_HOLE_def of_nat_diff)
    qed
  next
    case False
    then have l: "0 \<le> rl_lcn e" "0 < q" using fr(2) by simp_all
    obtain d' where d': "ntfs_pread d (int (nat (rl_lcn e) * 2 ^ bits + ofs)) (int q) b at =
        (Inr q, mem_cpy b at ?m (nat (rl_lcn e) * 2 ^ bits + ofs) q, d')" "dev_good n d'" "nd_bytes d' = ?m"
      using nd.pread_good [OF Run.prems(2) fr(5) [OF l(1)], of b at] by blast
    have m: "mem_cpy b at ?m (nat (rl_lcn e) * 2 ^ bits + ofs) q = put_run_bytes b at q (\<lambda>i. rl_data bits (e # rl) ?m (ofs + i))"
      using l o1 by (auto simp: put_run_bytes_def mem_cpy_def rl_data_def q_def fun_eq_iff add.assoc)
    show ?thesis
      using rest [OF d'(2,3) refl] d'(1) [unfolded m] False Run.hyps(2) fr(1,4) l qc by (simp add: Let_def of_nat_diff)
  qed
qed

lemma addr_range:
  "rl_addr bits rl x = Some a \<Longrightarrow>
     \<exists>f\<in>set rl. 0 \<le> rl_lcn f \<and> nat (rl_lcn f) * 2 ^ bits \<le> a \<and> a < nat (rl_lcn f) * 2 ^ bits + run_bytes bits f"
  by (induction bits rl x rule: rl_addr.induct) (auto split: if_splits)

lemma runs_apart:
  assumes "disjoint_runs (e # rl)" "0 \<le> rl_lcn e" "0 \<le> rl_length e" "\<forall>f\<in>set rl. 0 \<le> rl_length f" "rl_addr bits rl x = Some a"
  shows "a < nat (rl_lcn e) * 2 ^ bits \<or> nat (rl_lcn e) * 2 ^ bits + run_bytes bits e \<le> a"
proof -
  obtain f where f: "f \<in> set rl" "0 \<le> rl_lcn f" "nat (rl_lcn f) * 2 ^ bits \<le> a" "a < nat (rl_lcn f) * 2 ^ bits + run_bytes bits f"
    using addr_range [OF assms(5)] by blast
  have "rl_lcn e + rl_length e \<le> rl_lcn f \<or> rl_lcn f + rl_length f \<le> rl_lcn e"
    using assms(1,2) f(1,2) by (auto simp: list_all_iff)
  moreover have "0 \<le> rl_length f" using assms(4) f(1) by blast
  ultimately have "nat (rl_lcn e) + nat (rl_length e) \<le> nat (rl_lcn f) \<or> nat (rl_lcn f) + nat (rl_length f) \<le> nat (rl_lcn e)"
    using assms(2,3) f(2) by (auto simp: nat_add_distrib [symmetric])
  then have "(nat (rl_lcn e) + nat (rl_length e)) * 2 ^ bits \<le> nat (rl_lcn f) * 2 ^ bits \<or>
      (nat (rl_lcn f) + nat (rl_length f)) * 2 ^ bits \<le> nat (rl_lcn e) * 2 ^ bits"
    by (metis mult_le_mono1)
  then show ?thesis using f(3,4) by (auto simp: run_bytes_def distrib_right)
qed

lemma runs_lengths: "runs_from v rl \<Longrightarrow> f \<in> set rl \<Longrightarrow> 0 \<le> rl_length f"
  by (induction v rl rule: runs_induct) auto

text \<open>What writing \<open>k\<close> bytes from byte \<open>ofs\<close> of a runlist does to the device.\<close>

definition wrote_runs :: "nat \<Rightarrow> runlist_element list \<Rightarrow> nat \<Rightarrow> nat \<Rightarrow> mem \<Rightarrow> nat \<Rightarrow> mem \<Rightarrow> mem \<Rightarrow> bool" where
  "wrote_runs bits rl ofs k b at m m' \<longleftrightarrow>
     (\<forall>i a. i < k \<longrightarrow> rl_addr bits rl (ofs + i) = Some a \<longrightarrow> m' a = b (at + i)) \<and>
     (\<forall>a. (\<forall>i<k. rl_addr bits rl (ofs + i) \<noteq> Some a) \<longrightarrow> m' a = m a)"

lemma wrote_runs_step:
  assumes fr: "runs_fit bits n (e # rl)" "0 < rl_length e" "ofs < run_bytes bits e" "q = min c (run_bytes bits e - ofs)"
    and dis: "disjoint_runs (e # rl)" "runs_from w rl" and k': "k' = min (c - q) (rl_bytes bits rl)"
    and r: "wrote_runs bits rl 0 k' b (at + q) (if rl_lcn e < 0 then m else mem_cpy m (nat (rl_lcn e) * 2 ^ bits + ofs) b at q) m'"
  shows "wrote_runs bits (e # rl) ofs (q + k') b at m m'"
proof -
  let ?A = "nat (rl_lcn e) * 2 ^ bits + ofs"
  note f6 = first_run(6) [OF fr, folded k']
  have first: "rl_addr bits (e # rl) (ofs + i) = (if rl_lcn e < 0 then None else Some (?A + i))" if "i < q" for i
  proof -
    have "ofs + i < run_bytes bits e" using that fr(3,4) by linarith
    then show ?thesis by (simp add: add.assoc)
  qed
  have apart: "a < ?A \<or> ?A + q \<le> a" if "rl_addr bits rl j = Some a" "\<not> rl_lcn e < 0" for a j
    using runs_apart [OF dis(1) _ _ _ that(1)] that(2) fr(2,3,4) runs_lengths [OF dis(2)] by fastforce
  have r1: "m' a = b (at + q + i)" if "i < k'" "rl_addr bits rl i = Some a" for i a using r that unfolding wrote_runs_def by simp
  have r2: "m' a = (if rl_lcn e < 0 then m else mem_cpy m ?A b at q) a" if "\<forall>i<k'. rl_addr bits rl i \<noteq> Some a" for a
    using r that unfolding wrote_runs_def by simp
  show ?thesis
    unfolding wrote_runs_def
  proof (intro conjI allI impI)
    fix i a
    assume i: "i < q + k'" and a: "rl_addr bits (e # rl) (ofs + i) = Some a"
    show "m' a = b (at + i)"
    proof (cases "i < q")
      case True
      then have l: "\<not> rl_lcn e < 0" "a = ?A + i" using first a by (auto split: if_splits)
      then have "\<forall>j<k'. rl_addr bits rl j \<noteq> Some a" using apart True by fastforce
      then show ?thesis using r2 l True by (simp add: mem_cpy_def)
    next
      case False
      then have "rl_addr bits rl (i - q) = Some a" using f6 [of "i - q"] i a by simp
      then show ?thesis using r1 [of "i - q" a] i False by simp
    qed
  next
    fix a
    assume a: "\<forall>i<q + k'. rl_addr bits (e # rl) (ofs + i) \<noteq> Some a"
    then have "\<forall>i<k'. rl_addr bits rl i \<noteq> Some a" using f6 by (auto simp del: rl_addr.simps)
    moreover have "rl_lcn e < 0 \<or> a < ?A \<or> ?A + q \<le> a"
    proof (rule ccontr)
      assume "\<not> ?thesis"
      then show False using a first [of "a - ?A"] by (auto dest!: spec [of _ "a - ?A"] simp del: rl_addr.simps)
    qed
    ultimately show "m' a = m a" using r2 by (auto simp: mem_cpy_def)
  qed
qed

lemma rl_pwrite_loop_ok:
  assumes "runs_from v rl" "runs_fit bits n rl" "dev_good n d" "ofs < run_bytes bits (hd rl) \<or> rl_length (hd rl) = 0"
    and "disjoint_runs rl" "k = min c (rl_bytes bits rl - ofs)"
  shows "\<exists>d'. rl_pwrite_loop False bits d rl (int ofs) (int c) b at (int tot) = Some (read_result c k tot, d') \<and>
      dev_good n d' \<and> wrote_runs bits rl ofs k b at (nd_bytes d) (nd_bytes d')"
  using assms
proof (induction v rl arbitrary: d ofs c at tot k rule: runs_induct)
  case (Stop v e)
  then show ?case by (auto simp: run_bytes_def read_result_def wrote_runs_def)
next
  case (Run v e rl)
  have o1: "ofs < run_bytes bits e" using Run.hyps(2) Run.prems(3) by simp
  define q where "q = min c (run_bytes bits e - ofs)"
  note fr = first_run [OF Run.prems(1) Run.hyps(2) o1 q_def]
  define k' where "k' = min (c - q) (rl_bytes bits rl)"
  have k: "k = q + k'" using Run.prems(5) fr(3) by (simp add: k'_def)
  have qc: "q \<le> c" by (simp add: q_def)
  have hd: "0 < run_bytes bits (hd rl) \<or> rl_length (hd rl) = 0"
    using Run.hyps(6,7) by (cases rl) (auto simp: runs_cons run_bytes_def split: if_splits)
  note step = wrote_runs_step [OF Run.prems(1) Run.hyps(2) o1 q_def Run.prems(4) Run.hyps(7) k'_def]
  have rest: "\<exists>d''. rl_pwrite_loop False bits d' rl 0 (int (c - q)) b (at + q) (int (tot + q)) = Some (read_result c k tot, d'') \<and>
      dev_good n d'' \<and> wrote_runs bits (e # rl) ofs k b at (nd_bytes d) (nd_bytes d'')"
    if g: "dev_good n d'" "nd_bytes d' = (if rl_lcn e < 0 then nd_bytes d else mem_cpy (nd_bytes d) (nat (rl_lcn e) * 2 ^ bits + ofs) b at q)" for d'
  proof -
    have "\<exists>d''. rl_pwrite_loop False bits d' rl (int 0) (int (c - q)) b (at + q) (int (tot + q)) = Some (read_result (c - q) k' (tot + q), d'') \<and>
        dev_good n d'' \<and> wrote_runs bits rl 0 k' b (at + q) (nd_bytes d') (nd_bytes d'')"
      using hd g(1) Run.prems(4) by (intro Run.IH runs_fit_Cons(1) [OF Run.prems(1)]) (simp_all add: k'_def)
    moreover have "read_result (c - q) k' (tot + q) = read_result c k tot" using qc by (auto simp: read_result_def k add.assoc)
    ultimately show ?thesis using step g(2) unfolding k by (auto simp del: rl_pwrite_loop.simps)
  qed
  show ?case
  proof (cases "c = 0")
    case True
    then show ?thesis using Run.prems(2) k by (auto simp: q_def k'_def read_result_def wrote_runs_def)
  next
    case c: False
    show ?thesis
    proof (cases "rl_lcn e < 0")
      case True
      then have h: "rl_lcn e = LCN_HOLE" using Run.hyps(4) by (simp add: LCN_HOLE_def)
      show ?thesis using rest [OF Run.prems(2)] Run.hyps(2) h c fr(1) qc by (simp add: Let_def LCN_HOLE_def of_nat_diff nat_int_add)
    next
      case False
      then have l: "0 \<le> rl_lcn e" "0 < q" using fr(2) c by simp_all
      obtain d' where d': "ntfs_pwrite d (int (nat (rl_lcn e) * 2 ^ bits + ofs)) (int q) b at = (Inr q, d')" "dev_good n d'"
        "nd_bytes d' = mem_cpy (nd_bytes d) (nat (rl_lcn e) * 2 ^ bits + ofs) b at q"
        using nd.pwrite_good [OF Run.prems(2) fr(5) [OF l(1)], of b at] by blast
      show ?thesis using rest [OF d'(2)] d'(1,3) False c Run.hyps(2) fr(1,4) l qc by (simp add: Let_def of_nat_diff)
    qed
  qed
qed

section \<open>Properties\<close>

text \<open>A volume on a good device whose clusters are in use by the runlist.\<close>

definition rl_on_volume :: "nat \<Rightarrow> ntfs_volume \<Rightarrow> runlist_element list \<Rightarrow> bool" where
  "rl_on_volume n vol rl \<longleftrightarrow> (\<exists>v. runs_from v rl) \<and> runs_fit (v_cluster_size_bits vol) n rl \<and> dev_good n (v_dev vol)"

lemma rl_seek_start:
  assumes "rl_on_volume n vol rl" "int pos < 2 ^ 63"
  obtains r o' w where "rl_seek (v_cluster_size_bits vol) rl 0 (int pos) = Some (r, int o')" "seeks (v_cluster_size_bits vol) n rl pos r o'"
    "runs_from w r" "wrap64 (int pos - int o') = int (pos - o')"
proof -
  let ?bits = "v_cluster_size_bits vol"
  obtain v where v: "runs_from v rl" "runs_fit ?bits n rl" using assms(1) by (auto simp: rl_on_volume_def)
  obtain r o' where r: "rl_seek ?bits rl 0 (int pos) = Some (r, int o')" and s: "seeks ?bits n rl pos r o'"
    using rl_seek_ok [OF v(1,2), of 0 pos] v(2) by (auto simp: runs_fit_def)
  have "int pos - int o' = int (pos - o')" using s by (simp add: seeks_def of_nat_diff)
  moreover have "wrap64 (int (pos - o')) = int (pos - o')" using assms(2) by (intro wrap64_nat) simp
  ultimately show ?thesis using that r s unfolding seeks_def by force
qed

lemma rl_pread_ok:
  assumes "rl_on_volume n vol rl" "0 < c" "int pos < 2 ^ 63" "k = min c (rl_bytes (v_cluster_size_bits vol) rl - pos)"
  shows "\<exists>vol'. ntfs_rl_pread vol (Some rl) (int pos) (int c) b at =
      Some (read_result c k 0, put_run_bytes b at k (\<lambda>i. rl_data (v_cluster_size_bits vol) rl (nd_bytes (v_dev vol)) (pos + i)), vol') \<and>
      rl_on_volume n vol' rl \<and> nd_bytes (v_dev vol') = nd_bytes (v_dev vol)"
proof -
  let ?bits = "v_cluster_size_bits vol" and ?m = "nd_bytes (v_dev vol)"
  obtain r o' w where r: "rl_seek ?bits rl 0 (int pos) = Some (r, int o')" and s: "seeks ?bits n rl pos r o'"
    and w: "runs_from w r" "wrap64 (int pos - int o') = int (pos - o')" using rl_seek_start [OF assms(1,3)] .
  have k: "k = min c (rl_bytes ?bits r - (pos - o'))" using assms(4) s by (simp add: seeks_def)
  obtain d' where d': "rl_pread_loop ?bits (v_dev vol) r (int (pos - o')) (int c) b at 0 =
      Some (read_result c k 0, put_run_bytes b at k (\<lambda>i. rl_data ?bits r ?m (pos - o' + i)), d')" "dev_good n d'" "nd_bytes d' = ?m"
    using rl_pread_loop_ok [OF w(1) _ _ _ k, of n "v_dev vol" b at 0] s assms(1) by (auto simp: seeks_def rl_on_volume_def)
  have "rl_data ?bits r ?m (pos - o' + i) = rl_data ?bits rl ?m (pos + i)" for i using s by (simp add: seeks_def rl_data_def)
  then show ?thesis
    using r w(2) d' assms(1,2) by (simp add: ntfs_rl_pread_def rl_on_volume_def)
qed

lemma rl_pwrite_ok:
  assumes "rl_on_volume n vol rl" "0 < c" "int pos < 2 ^ 63" "disjoint_runs rl" "\<not> v_read_only vol"
    and "k = min c (rl_bytes (v_cluster_size_bits vol) rl - pos)"
  shows "\<exists>vol'. ntfs_rl_pwrite vol (Some rl) 0 (int pos) (int c) b at = Some (read_result c k 0, vol') \<and> rl_on_volume n vol' rl \<and>
      v_cluster_size_bits vol' = v_cluster_size_bits vol \<and>
      wrote_runs (v_cluster_size_bits vol) rl pos k b at (nd_bytes (v_dev vol)) (nd_bytes (v_dev vol'))"
proof -
  let ?bits = "v_cluster_size_bits vol" and ?m = "nd_bytes (v_dev vol)"
  obtain r o' w where r: "rl_seek ?bits rl 0 (int pos) = Some (r, int o')" and s: "seeks ?bits n rl pos r o'"
    and w: "runs_from w r" "wrap64 (int pos - int o') = int (pos - o')" using rl_seek_start [OF assms(1,3)] .
  have k: "k = min c (rl_bytes ?bits r - (pos - o'))" using assms(6) s by (simp add: seeks_def)
  have dr: "disjoint_runs r" using s assms(4) by (simp add: seeks_def)
  obtain d' where d': "rl_pwrite_loop False ?bits (v_dev vol) r (int (pos - o')) (int c) b at 0 = Some (read_result c k 0, d')" "dev_good n d'"
    "wrote_runs ?bits r (pos - o') k b at ?m (nd_bytes d')"
    using rl_pwrite_loop_ok [OF w(1) _ _ _ dr k, of n "v_dev vol" b at 0] s assms(1) by (auto simp: seeks_def rl_on_volume_def)
  have "rl_addr ?bits rl (pos + i) = rl_addr ?bits r (pos - o' + i)" for i using s by (simp add: seeks_def)
  then have "wrote_runs ?bits rl pos k b at ?m (nd_bytes d')" using d'(3) by (simp add: wrote_runs_def)
  then show ?thesis
    using r w(2) d' assms(1,2,5) by (simp add: ntfs_rl_pwrite_def rl_on_volume_def)
qed

text \<open>
  C11. A read through a runlist returns the bytes the runlist maps: from the device for runs on
  clusters, zeroes for holes. Past the end of the runlist the read is short, and \<open>EIO\<close> when there
  is nothing to read. The device keeps its contents.
\<close>

theorem rl_pread_gathers:
  assumes "rl_on_volume n vol rl" "0 < c" "int pos < 2 ^ 63"
    and k_def: "k = min c (rl_bytes (v_cluster_size_bits vol) rl - pos)"
  shows "\<exists>b' vol'. ntfs_rl_pread vol (Some rl) (int pos) (int c) b at = Some (if k = 0 then Inl EIO else Inr (int k), b', vol') \<and>
    (\<forall>i<k. b' (at + i) = rl_data (v_cluster_size_bits vol) rl (nd_bytes (v_dev vol)) (pos + i)) \<and>
    (\<forall>j. j < at \<or> at + k \<le> j \<longrightarrow> b' j = b j) \<and> nd_bytes (v_dev vol') = nd_bytes (v_dev vol)"
  using rl_pread_ok [OF assms(1-3) k_def, of b at] assms(2)
  by (auto simp: read_result_def rl_err_out_def put_run_bytes_def split: if_splits)

text \<open>
  C12. What is written through a runlist whose runs share no cluster is read back through it: every
  byte on a cluster holds what was written, a hole still reads as zeroes, bytes of the runlist
  outside the range keep their values, and so does every byte of the device outside the runlist.
\<close>

theorem rl_write_read:
  assumes "rl_on_volume n vol rl" "0 < c" "int pos < 2 ^ 63" "disjoint_runs rl" "\<not> v_read_only vol"
    and "pos + c \<le> rl_bytes (v_cluster_size_bits vol) rl"
  shows "\<exists>vol1 b1 vol2. ntfs_rl_pwrite vol (Some rl) 0 (int pos) (int c) b at = Some (Inr (int c), vol1) \<and>
    ntfs_rl_pread vol1 (Some rl) (int pos) (int c) b0 0 = Some (Inr (int c), b1, vol2) \<and>
    (\<forall>i<c. b1 i = (if rl_addr (v_cluster_size_bits vol) rl (pos + i) = None then 0 else b (at + i))) \<and>
    (\<forall>a. (\<forall>i<c. rl_addr (v_cluster_size_bits vol) rl (pos + i) \<noteq> Some a) \<longrightarrow> nd_bytes (v_dev vol1) a = nd_bytes (v_dev vol) a)"
proof -
  let ?bits = "v_cluster_size_bits vol"
  have k: "c = min c (rl_bytes ?bits rl - pos)" using assms(6) by simp
  obtain vol1 where w: "ntfs_rl_pwrite vol (Some rl) 0 (int pos) (int c) b at = Some (read_result c c 0, vol1)" "rl_on_volume n vol1 rl"
    "v_cluster_size_bits vol1 = ?bits" "wrote_runs ?bits rl pos c b at (nd_bytes (v_dev vol)) (nd_bytes (v_dev vol1))"
    using rl_pwrite_ok [OF assms(1-5) k, of b at] by blast
  have "c = min c (rl_bytes (v_cluster_size_bits vol1) rl - pos)" using k w(3) by simp
  then obtain vol2 where p: "ntfs_rl_pread vol1 (Some rl) (int pos) (int c) b0 0 =
      Some (read_result c c 0, put_run_bytes b0 0 c (\<lambda>i. rl_data ?bits rl (nd_bytes (v_dev vol1)) (pos + i)), vol2)"
    using rl_pread_ok [OF w(2) assms(2,3), of c b0 0] w(3) by auto
  have "rl_data ?bits rl (nd_bytes (v_dev vol1)) (pos + i) = (if rl_addr ?bits rl (pos + i) = None then 0 else b (at + i))" if "i < c" for i
    using w(4) that by (auto simp: wrote_runs_def rl_data_def split: option.splits)
  then show ?thesis using w p by (auto simp: read_result_def put_run_bytes_def wrote_runs_def)
qed

lemma truncate_loop_ok:
  assumes "runs_from w rl" "0 \<le> w" "w \<le> v" "v < rl_vcn (last rl)"
  shows "\<exists>e r. truncate_loop rl v = Some (Inr (e # r)) \<and> rl_vcn e = w \<and>
    (\<forall>x\<ge>w. vcn_to_lcn_loop (e # r) x = (if x < v then vcn_to_lcn_loop rl x else Some LCN_ENOENT))"
  using assms
proof (induction w rl rule: runs_induct)
  case (Stop w e)
  then show ?case by simp
next
  case (Run w e rl)
  then obtain e1 r1 where rl: "rl = e1 # r1" by (cases rl) auto
  have e1: "rl_vcn e1 = w + rl_length e" using Run.hyps(7) rl by (simp add: runs_cons)
  show ?case
  proof (cases "v < w + rl_length e")
    case True
    have "wrap64 (v - w) = v - w" using True Run.prems Run.hyps(3) by (intro wrap64_id) simp_all
    then show ?thesis
      using True Run.hyps(1,2) Run.prems rl e1 by (cases "v = w"; cases r1) (simp_all add: Let_def LCN_ENOENT_def)
  next
    case False
    then obtain e' r where r: "truncate_loop rl v = Some (Inr (e' # r))" "rl_vcn e' = w + rl_length e"
      "\<forall>x\<ge>w + rl_length e. vcn_to_lcn_loop (e' # r) x = (if x < v then vcn_to_lcn_loop rl x else Some LCN_ENOENT)"
      using Run.IH Run.prems Run.hyps(2,6) by force
    have "truncate_loop (e # rl) v = Some (Inr (e # e' # r))" using False Run.hyps(2) r(1) rl e1 by simp
    moreover have "vcn_to_lcn_loop (e # e' # r) x = (if x < v then vcn_to_lcn_loop (e # rl) x else Some LCN_ENOENT)" if "w \<le> x" for x
      using r(2,3) rl e1 that False Run.hyps(2) by simp
    ultimately show ?thesis using Run.hyps(1) by blast
  qed
qed

text \<open>
  C13. Truncating a runlist at cluster \<open>v\<close> keeps every lookup below \<open>v\<close> and makes every lookup from
  \<open>v\<close> on find the end of the runlist.
\<close>

theorem rl_truncate_lookup:
  assumes "runs_from w rl" "0 \<le> w" "w \<le> v" "v < rl_vcn (last rl)"
  shows "\<exists>rl'. ntfs_rl_truncate (Some rl) v = Some (Inr rl') \<and>
    (\<forall>x. ntfs_rl_vcn_to_lcn (Some rl') x = (if x < v then ntfs_rl_vcn_to_lcn (Some rl) x else Some LCN_ENOENT))"
proof -
  obtain e r where r: "truncate_loop rl v = Some (Inr (e # r))" "rl_vcn e = w"
    "\<forall>x\<ge>w. vcn_to_lcn_loop (e # r) x = (if x < v then vcn_to_lcn_loop rl x else Some LCN_ENOENT)"
    using truncate_loop_ok [OF assms] by blast
  obtain e0 r0 where rl: "rl = e0 # r0" "rl_vcn e0 = w" using assms(1) by (cases rl) (auto simp: runs_cons)
  then have "ntfs_rl_truncate (Some rl) v = Some (Inr (e # r))" using r(1) assms(3) by (simp add: ntfs_rl_truncate_def del: truncate_loop.simps)
  moreover have "ntfs_rl_vcn_to_lcn (Some (e # r)) x = (if x < v then ntfs_rl_vcn_to_lcn (Some rl) x else Some LCN_ENOENT)" for x
    using r(2,3) rl assms(2,3) by (auto simp: ntfs_rl_vcn_to_lcn_def simp del: vcn_to_lcn_loop.simps)
  ultimately show ?thesis by blast
qed

text \<open>A small volume: clusters of 512 bytes, three of them in use by a runlist with a hole.\<close>

definition demo_device :: ntfs_device where
  "demo_device = \<lparr>nd_read_only = False, nd_dirty = False, nd_sync = False, nd_pos = 0, nd_bytes = (\<lambda>i. of_nat i), nd_errno = EIO,
     nd_seek = Some, nd_read = (\<lambda>_ _. True), nd_write = (\<lambda>_ n. n)\<rparr>"

definition demo_volume :: ntfs_volume where
  "demo_volume = \<lparr>v_dev = demo_device, v_read_only = False, v_cluster_size_bits = 9, v_nr_clusters = 16\<rparr>"

definition demo_runs :: "runlist_element list" where
  "demo_runs =
     [\<lparr>rl_vcn = 0, rl_lcn = 2, rl_length = 1\<rparr>, \<lparr>rl_vcn = 1, rl_lcn = LCN_HOLE, rl_length = 1\<rparr>,
      \<lparr>rl_vcn = 2, rl_lcn = 5, rl_length = 2\<rparr>, \<lparr>rl_vcn = 4, rl_lcn = LCN_ENOENT, rl_length = 0\<rparr>]"

lemma demo_on_volume: "rl_on_volume 8192 demo_volume demo_runs"
proof -
  have "runs_from 0 demo_runs" "runs_fit 9 8192 demo_runs" "dev_good 8192 demo_device"
    by (simp_all add: demo_runs_def demo_device_def dev_good_def runs_fit_def run_bytes_def lcn_consts)
  then show ?thesis by (auto simp: rl_on_volume_def demo_volume_def)
qed

lemma demo_fields: "v_cluster_size_bits demo_volume = 9" "\<not> v_read_only demo_volume" "nd_bytes (v_dev demo_volume) = (\<lambda>i. of_nat i)"
  by (simp_all add: demo_volume_def demo_device_def)

lemma demo_addr:
  "rl_bytes 9 demo_runs = 2048" "rl_addr 9 demo_runs 511 = Some 1535" "rl_addr 9 demo_runs 512 = None" "rl_addr 9 demo_runs 1024 = Some 2560"
  "rl_addr 9 demo_runs 2047 = Some 3583" "disjoint_runs demo_runs" "runs_from 0 demo_runs" "rl_vcn (last demo_runs) = 4"
  by (simp_all add: demo_runs_def run_bytes_def lcn_consts)

theorem rl_pread_gathers_witness:
  "\<exists>b' vol'. ntfs_rl_pread demo_volume (Some demo_runs) 511 2000 (\<lambda>_. 7) 0 = Some (Inr 1537, b', vol') \<and>
     b' 0 = 255 \<and> b' 1 = 0 \<and> b' 1536 = 255 \<and> b' 1537 = 7"
proof -
  have "\<exists>b' vol'. ntfs_rl_pread demo_volume (Some demo_runs) (int 511) (int 2000) (\<lambda>_. 7) 0 =
      Some (if (1537 :: nat) = 0 then Inl EIO else Inr (int 1537), b', vol') \<and>
      (\<forall>i<1537. b' (0 + i) = rl_data 9 demo_runs (\<lambda>i. of_nat i) (511 + i)) \<and>
      (\<forall>j. j < 0 \<or> 0 + 1537 \<le> j \<longrightarrow> b' j = 7) \<and> nd_bytes (v_dev vol') = (\<lambda>i. of_nat i)"
    using rl_pread_gathers [OF demo_on_volume, of 2000 511 1537 "\<lambda>_. 7" 0] by (simp add: demo_fields demo_addr)
  then obtain b' vol' where b: "ntfs_rl_pread demo_volume (Some demo_runs) 511 2000 (\<lambda>_. 7) 0 = Some (Inr 1537, b', vol')"
    "\<And>i. i < 1537 \<Longrightarrow> b' i = rl_data 9 demo_runs (\<lambda>i. of_nat i) (511 + i)" "\<And>j. 1537 \<le> j \<Longrightarrow> b' j = 7" by auto
  have "b' 0 = 255 \<and> b' 1 = 0 \<and> b' 1536 = 255 \<and> b' 1537 = 7"
    using b(2) [of 0] b(2) [of 1] b(2) [of 1536] b(3) by (simp add: rl_data_def demo_addr)
  then show ?thesis using b(1) by blast
qed

theorem rl_write_read_witness:
  "\<exists>vol1 b1 vol2. ntfs_rl_pwrite demo_volume (Some demo_runs) 0 511 514 (\<lambda>_. 7) 0 = Some (Inr 514, vol1) \<and>
     ntfs_rl_pread vol1 (Some demo_runs) 511 514 (\<lambda>_. 1) 0 = Some (Inr 514, b1, vol2) \<and> b1 0 = 7 \<and> b1 1 = 0 \<and> b1 513 = 7"
proof -
  have "\<exists>vol1 b1 vol2. ntfs_rl_pwrite demo_volume (Some demo_runs) 0 (int 511) (int 514) (\<lambda>_. 7) 0 = Some (Inr (int 514), vol1) \<and>
     ntfs_rl_pread vol1 (Some demo_runs) (int 511) (int 514) (\<lambda>_. 1) 0 = Some (Inr (int 514), b1, vol2) \<and>
     (\<forall>i<514. b1 i = (if rl_addr 9 demo_runs (511 + i) = None then 0 else 7))"
    using rl_write_read [OF demo_on_volume, of 514 511 "\<lambda>_. 7" 0 "\<lambda>_. 1"] unfolding demo_fields by (auto simp: demo_fields demo_addr)
  then obtain vol1 b1 vol2 where w: "ntfs_rl_pwrite demo_volume (Some demo_runs) 0 511 514 (\<lambda>_. 7) 0 = Some (Inr 514, vol1)"
    "ntfs_rl_pread vol1 (Some demo_runs) 511 514 (\<lambda>_. 1) 0 = Some (Inr 514, b1, vol2)"
    "\<And>i. i < 514 \<Longrightarrow> b1 i = (if rl_addr 9 demo_runs (511 + i) = None then 0 else 7)" by auto
  have "b1 0 = 7 \<and> b1 1 = 0 \<and> b1 513 = 7" using w(3) [of 0] w(3) [of 1] w(3) [of 513] by (simp add: demo_addr)
  then show ?thesis using w(1,2) by blast
qed

theorem rl_truncate_lookup_witness:
  "\<exists>rl'. ntfs_rl_truncate (Some demo_runs) 3 = Some (Inr rl') \<and> ntfs_rl_vcn_to_lcn (Some rl') 2 = Some 5 \<and>
     ntfs_rl_vcn_to_lcn (Some rl') 3 = Some LCN_ENOENT"
proof -
  obtain rl' where r: "ntfs_rl_truncate (Some demo_runs) 3 = Some (Inr rl')"
    "\<forall>x. ntfs_rl_vcn_to_lcn (Some rl') x = (if x < 3 then ntfs_rl_vcn_to_lcn (Some demo_runs) x else Some LCN_ENOENT)"
    using rl_truncate_lookup [of 0 demo_runs 3] demo_addr(7,8) by auto
  moreover have "ntfs_rl_vcn_to_lcn (Some demo_runs) 2 = Some 5" by code_simp
  ultimately show ?thesis by auto
qed

end
