(* ===== verification/NtCompress.thy ===== *)
theory NtCompress
  imports NtTypes
begin

text \<open>
  Compression and decompression of the sub-blocks of a compressed attribute, \<open>compress.c\<close>. The
  compressor looks for earlier occurrences through hash chains and writes groups of a tag byte and
  up to eight tokens, literal bytes or references back; the decompressor reads them. Buffers are
  byte memories, pointers offsets into them; C's \<open>int\<close> variables hold small values and are \<open>nat\<close>,
  or \<open>int\<close> where a negative number occurs.
\<close>

section \<open>Constants\<close>

definition NTFS_SB_SIZE :: nat where
  "NTFS_SB_SIZE = 0x1000"

definition NTFS_SB_SIZE_MASK :: u16 where
  "NTFS_SB_SIZE_MASK = 0x0fff"

definition NTFS_SB_IS_COMPRESSED :: u16 where
  "NTFS_SB_IS_COMPRESSED = 0x8000"

definition NICE_MATCH_LEN :: nat where
  "NICE_MATCH_LEN = 18"

definition MAX_SEARCH_DEPTH :: nat where
  "MAX_SEARCH_DEPTH = 24"

definition HASH_SHIFT :: nat where
  "HASH_SHIFT = 14"

definition HASH_MULTIPLIER :: u32 where
  "HASH_MULTIPLIER = 0x1E35A7BD"

section \<open>Finding matches\<close>

record COMPRESS_CONTEXT =
  cx_size :: nat
  cx_rel :: int
  cx_mxsz :: nat
  cx_head :: "nat \<Rightarrow> int"
  cx_prev :: "nat \<Rightarrow> int"

definition ntfs_hash :: "mem \<Rightarrow> nat \<Rightarrow> nat" where
  "ntfs_hash p i =
     (let str = ucast (p i) OR push_bit 8 (ucast (p (i + 1))) OR push_bit 16 (ucast (p (i + 2)));
          hash = str * HASH_MULTIPLIER in
      unat (drop_bit (32 - HASH_SHIFT) hash))"

text \<open>A position enters its hash chain; the result has the previous head of the chain.\<close>

definition chain_insert :: "mem \<Rightarrow> COMPRESS_CONTEXT \<Rightarrow> nat \<Rightarrow> int \<times> COMPRESS_CONTEXT" where
  "chain_insert inbuf cx i =
     (let hash = ntfs_hash inbuf i; cur_match = cx_head cx hash in
      (cur_match, cx\<lparr>cx_prev := (cx_prev cx)(i := cur_match), cx_head := (cx_head cx)(hash := int i)\<rparr>))"

text \<open>Extension of a match: up to \<open>nice_len\<close>, and when that is reached as far as possible.\<close>

function extend_far :: "mem \<Rightarrow> nat \<Rightarrow> nat \<Rightarrow> nat \<Rightarrow> nat \<Rightarrow> nat" where
  "extend_far inbuf m i max_len best_len =
     (if best_len < max_len \<and> inbuf (m + best_len) = inbuf (i + best_len)
      then extend_far inbuf m i max_len (best_len + 1) else best_len)"
  by pat_completeness auto
termination by (relation "measure (\<lambda>(inbuf, m, i, max_len, best_len). max_len - best_len)") auto

function extend_match :: "mem \<Rightarrow> nat \<Rightarrow> nat \<Rightarrow> nat \<Rightarrow> nat \<Rightarrow> nat \<Rightarrow> bool \<times> nat" where
  "extend_match inbuf m i nice_len max_len best_len =
     (let best_len = best_len + 1 in
      if best_len \<ge> nice_len then (True, extend_far inbuf m i max_len best_len)
      else if inbuf (m + best_len) = inbuf (i + best_len) then extend_match inbuf m i nice_len max_len best_len
      else (False, best_len))"
  by pat_completeness auto
termination by (relation "measure (\<lambda>(inbuf, m, i, nice_len, max_len, best_len). nice_len - best_len)") auto

declare extend_far.simps [simp del] extend_match.simps [simp del]

definition worse_match :: "mem \<Rightarrow> nat \<Rightarrow> nat \<Rightarrow> nat \<Rightarrow> bool" where
  "worse_match inbuf m i best_len \<longleftrightarrow>
     inbuf (m + best_len) \<noteq> inbuf (i + best_len) \<or> inbuf (m + (best_len - 1)) \<noteq> inbuf (i + (best_len - 1)) \<or> inbuf m \<noteq> inbuf i \<or>
     list_ex (\<lambda>len. inbuf (m + len) \<noteq> inbuf (i + len)) [1..<best_len - 1]"

fun match_loop ::
  "mem \<Rightarrow> (nat \<Rightarrow> int) \<Rightarrow> nat \<Rightarrow> nat \<Rightarrow> nat \<Rightarrow> nat \<Rightarrow> int \<Rightarrow> nat \<Rightarrow> nat \<Rightarrow> nat \<times> nat"
where
  "match_loop inbuf prev i nice_len max_len 0 cur_match best_len best_match = (best_len, best_match)"
| "match_loop inbuf prev i nice_len max_len (Suc depth) cur_match best_len best_match =
     (if cur_match < 0 then (best_len, best_match)
      else
        let m = nat cur_match in
        if worse_match inbuf m i best_len then match_loop inbuf prev i nice_len max_len depth (prev m) best_len best_match
        else
          case extend_match inbuf m i nice_len max_len best_len of
            (True, best_len) \<Rightarrow> (best_len, m)
          | (False, best_len) \<Rightarrow> match_loop inbuf prev i nice_len max_len depth (prev m) best_len m)"

definition ntfs_best_match :: "mem \<Rightarrow> nat \<Rightarrow> COMPRESS_CONTEXT \<Rightarrow> nat \<Rightarrow> nat \<Rightarrow> COMPRESS_CONTEXT" where
  "ntfs_best_match inbuf bufsize cx i best_len =
     (let max_len = min (bufsize - i) (cx_mxsz cx); nice_len = min NICE_MATCH_LEN max_len in
      if max_len < 4 then cx\<lparr>cx_size := best_len, cx_rel := 0\<rparr>
      else
        case chain_insert inbuf cx i of
          (cur_match, cx) \<Rightarrow>
            if best_len \<ge> max_len then cx\<lparr>cx_size := best_len, cx_rel := 0\<rparr>
            else
              case match_loop inbuf (cx_prev cx) i nice_len max_len MAX_SEARCH_DEPTH cur_match best_len i of
                (best_len, best_match) \<Rightarrow> cx\<lparr>cx_size := best_len, cx_rel := int best_match - int i\<rparr>)"

definition ntfs_skip_position :: "mem \<Rightarrow> nat \<Rightarrow> COMPRESS_CONTEXT \<Rightarrow> nat \<Rightarrow> COMPRESS_CONTEXT" where
  "ntfs_skip_position inbuf bufsize cx i = (if bufsize - i < 4 then cx else snd (chain_insert inbuf cx i))"

section \<open>Compression\<close>

text \<open>
  The state of the loop. The code's \<open>mxoff\<close> is \<open>1 << bp\<close> throughout and has no variable of its own.
\<close>

record compress_state =
  cs_i :: nat
  cs_bp :: nat
  cs_xout :: nat
  cs_have_match :: bool
  cs_ptag :: nat
  cs_tag :: u8
  cs_ntag :: nat
  cs_out :: mem
  cs_cx :: COMPRESS_CONTEXT

definition cs_grow :: "compress_state \<Rightarrow> compress_state" where
  "cs_grow s = s\<lparr>cs_bp := cs_bp s + 1, cs_cx := (cs_cx s)\<lparr>cx_mxsz := (cx_mxsz (cs_cx s) + 2) div 2\<rparr>\<rparr>"

function grow_loop :: "compress_state \<Rightarrow> compress_state" where
  "grow_loop s = (if 2 ^ cs_bp s < cs_i s then grow_loop (cs_grow s) else s)"
  by pat_completeness auto
termination
proof (relation "measure (\<lambda>s. cs_i s - 2 ^ cs_bp s)")
  fix s :: compress_state
  assume "2 ^ cs_bp s < cs_i s"
  moreover have "(2 :: nat) ^ cs_bp s < 2 ^ (cs_bp s + 1)" by simp
  ultimately show "(cs_grow s, s) \<in> measure (\<lambda>s. cs_i s - 2 ^ cs_bp s)" unfolding cs_grow_def by (simp add: diff_less_mono2)
qed simp

declare grow_loop.simps [simp del]

definition put_literal :: "mem \<Rightarrow> compress_state \<Rightarrow> bool \<Rightarrow> compress_state" where
  "put_literal inbuf s have_match =
     s\<lparr>cs_out := (cs_out s)(cs_xout s := inbuf (cs_i s)), cs_xout := cs_xout s + 1, cs_i := cs_i s + 1, cs_have_match := have_match\<rparr>"

definition phrase_token :: "int \<Rightarrow> nat \<Rightarrow> nat \<Rightarrow> u32" where
  "phrase_token offs bp len = of_int (push_bit (16 - bp) (NOT offs) + (int len - 3))"

definition put_phrase :: "compress_state \<Rightarrow> u32 \<Rightarrow> compress_state" where
  "put_phrase s q =
     s\<lparr>cs_out := (cs_out s)(cs_xout s := ucast q, cs_xout s + 1 := ucast (drop_bit 8 q)), cs_xout := cs_xout s + 2,
       cs_tag := cs_tag s OR push_bit (8 - cs_ntag s) 1\<rparr>"

text \<open>The positions from \<open>i\<close> up to \<open>j\<close>, of which there is at least one, are passed without a search.\<close>

definition skip_positions :: "mem \<Rightarrow> nat \<Rightarrow> compress_state \<Rightarrow> nat \<Rightarrow> nat \<Rightarrow> compress_state" where
  "skip_positions inbuf bufsize s i j =
     s\<lparr>cs_cx := fold (\<lambda>i cx. ntfs_skip_position inbuf bufsize cx i) [i..<j] (cs_cx s), cs_i := j, cs_have_match := False\<rparr>"

text \<open>
  One iteration up to the tag: the search at the current position, a match of length \<open>len\<close> chosen
  at once or compared with the one at the next position, and the choice between them; the result
  is the new state and whether the loop is left.
\<close>

definition find_here :: "mem \<Rightarrow> nat \<Rightarrow> compress_state \<Rightarrow> compress_state" where
  "find_here inbuf bufsize s =
     (if \<not> cs_have_match s then
        let s = grow_loop s in s\<lparr>cs_cx := ntfs_best_match inbuf bufsize (cs_cx s) (cs_i s) 2\<rparr>
      else s)"

definition long_match :: "mem \<Rightarrow> nat \<Rightarrow> compress_state \<Rightarrow> nat \<Rightarrow> u32 \<Rightarrow> bool \<times> compress_state" where
  "long_match inbuf bufsize s len q =
     (let i = cs_i s; j = i + len; s = put_phrase s q in
      if j = bufsize then (True, s\<lparr>cs_i := j, cs_ntag := cs_ntag s - 1\<rparr>)
      else (False, skip_positions inbuf bufsize s (i + 1) j))"

definition look_ahead :: "mem \<Rightarrow> nat \<Rightarrow> compress_state \<Rightarrow> nat \<Rightarrow> compress_state" where
  "look_ahead inbuf bufsize s len =
     (let i = cs_i s; s = (if 2 ^ cs_bp s < i + 1 then cs_grow s else s) in
      s\<lparr>cs_cx := ntfs_best_match inbuf bufsize (cs_cx s) (i + 1) len\<rparr>)"

definition lazy_match :: "mem \<Rightarrow> nat \<Rightarrow> compress_state \<Rightarrow> nat \<Rightarrow> u32 \<Rightarrow> compress_state" where
  "lazy_match inbuf bufsize s len q =
     (let i = cs_i s; j = i + len; s = look_ahead inbuf bufsize s len; k = i + 1 + cx_size (cs_cx s) in
      if k > j + 1 then put_literal inbuf s True
      else skip_positions inbuf bufsize (put_phrase s q) (i + 2) j)"

definition compress_step :: "mem \<Rightarrow> nat \<Rightarrow> compress_state \<Rightarrow> bool \<times> compress_state" where
  "compress_step inbuf bufsize s =
     (let s = find_here inbuf bufsize s; len = cx_size (cs_cx s) in
      if len \<ge> 3 then
        let q = phrase_token (cx_rel (cs_cx s)) (cs_bp s) len in
        if len \<ge> NICE_MATCH_LEN then long_match inbuf bufsize s len q
        else (False, lazy_match inbuf bufsize s len q)
      else (False, put_literal inbuf s False))"

definition store_tag :: "compress_state \<Rightarrow> compress_state" where
  "store_tag s =
     (let s = s\<lparr>cs_ntag := cs_ntag s - 1\<rparr> in
      if cs_ntag s = 0
      then s\<lparr>cs_out := (cs_out s)(cs_ptag s := cs_tag s), cs_ntag := 8, cs_ptag := cs_xout s, cs_xout := cs_xout s + 1, cs_tag := 0\<rparr>
      else s)"

lemma grow_loop_i [simp]: "cs_i (grow_loop s) = cs_i s"
  by (induction s rule: grow_loop.induct) (subst grow_loop.simps, simp add: cs_grow_def)

lemma store_tag_i [simp]: "cs_i (store_tag s) = cs_i s"
  by (simp add: store_tag_def Let_def)

lemma find_here_i [simp]: "cs_i (find_here inbuf bufsize s) = cs_i s"
  by (simp add: find_here_def Let_def)

lemma look_ahead_i [simp]: "cs_i (look_ahead inbuf bufsize s len) = cs_i s"
  by (simp add: look_ahead_def Let_def cs_grow_def)

lemma compress_step_less:
  assumes "compress_step inbuf bufsize s = (b, s')"
  shows "cs_i s < cs_i s'"
proof -
  have "cs_i s < cs_i (snd (long_match inbuf bufsize s len q))" "cs_i s < cs_i (lazy_match inbuf bufsize s len q)"
    if "3 \<le> len" for s len q
    using that by (simp_all add: long_match_def lazy_match_def put_literal_def skip_positions_def Let_def)
  from this [of _ "find_here inbuf bufsize s"] have "cs_i s < cs_i (snd (compress_step inbuf bufsize s))"
    by (simp add: compress_step_def Let_def put_literal_def)
  then show ?thesis using assms by simp
qed

function compress_loop :: "mem \<Rightarrow> nat \<Rightarrow> compress_state \<Rightarrow> compress_state" where
  "compress_loop inbuf bufsize s =
     (if cs_i s < bufsize \<and> cs_xout s < NTFS_SB_SIZE + 2 then
        case compress_step inbuf bufsize s of
          (True, s) \<Rightarrow> s
        | (False, s) \<Rightarrow> compress_loop inbuf bufsize (store_tag s)
      else s)"
  by pat_completeness auto
termination
  by (relation "measure (\<lambda>(inbuf, bufsize, s). bufsize - cs_i s)") (auto dest: compress_step_less [OF sym] intro: diff_less_mono2)

declare compress_loop.simps [simp del]

definition compress_start :: "mem \<Rightarrow> (nat \<Rightarrow> int) \<Rightarrow> compress_state" where
  "compress_start outbuf prev =
     \<lparr>cs_i = 0, cs_bp = 4, cs_xout = 3, cs_have_match = False, cs_ptag = 2, cs_tag = 0, cs_ntag = 8, cs_out = outbuf,
      cs_cx = \<lparr>cx_size = 0, cx_rel = 0, cx_mxsz = 2 ^ (16 - 4) + 2, cx_head = (\<lambda>_. -1), cx_prev = prev\<rparr>\<rparr>"

text \<open>
  \<open>alloc\<close> tells whether the context can be allocated; its array \<open>prev\<close> is not initialised. The result
  is the size of the output, 0 on an error, and the output buffer.
\<close>

definition ntfs_compress_block :: "bool \<Rightarrow> (nat \<Rightarrow> int) \<Rightarrow> mem \<Rightarrow> nat \<Rightarrow> mem \<Rightarrow> nat \<times> mem" where
  "ntfs_compress_block alloc prev inbuf bufsize outbuf =
     (if \<not> alloc then (0, outbuf)
      else
        let s = compress_loop inbuf bufsize (compress_start outbuf prev);
            (xout, out) = (if cs_ntag s = 8 then (cs_xout s - 1, cs_out s) else (cs_xout s, (cs_out s)(cs_ptag s := cs_tag s))) in
        if cs_i s \<ge> bufsize \<and> xout < NTFS_SB_SIZE + 2 then
          let size3 = of_nat xout - 3 :: u32 in
          (xout, out(0 := ucast size3, 1 := 0xb0 + (ucast (drop_bit 8 size3) AND 15)))
        else
          let out = mem_cpy out 2 inbuf 0 bufsize;
              out = (if bufsize < NTFS_SB_SIZE then mem_set out (bufsize + 2) 0 (NTFS_SB_SIZE - bufsize) else out) in
          (NTFS_SB_SIZE + 2, out(0 := 0xff, 1 := 0x3f)))"

section \<open>Decompression\<close>

text \<open>The base 2 logarithm that tells how a phrase is split into a distance and a length.\<close>

function lg_loop :: "nat \<Rightarrow> nat \<Rightarrow> nat" where
  "lg_loop i lg = (if i \<ge> 0x10 then lg_loop (i div 2) (lg + 1) else lg)"
  by pat_completeness auto
termination by (relation "measure fst") auto

declare lg_loop.simps [simp del]

fun copy_bytes :: "nat \<Rightarrow> mem \<Rightarrow> nat \<Rightarrow> nat \<Rightarrow> mem" where
  "copy_bytes 0 dst d bk = dst"
| "copy_bytes (Suc n) dst d bk = copy_bytes n (dst(d := dst bk)) (d + 1) (bk + 1)"

definition copy_phrase :: "mem \<Rightarrow> nat \<Rightarrow> nat \<Rightarrow> nat \<Rightarrow> mem" where
  "copy_phrase dst d bk len =
     (let max_non_overlap = d - bk in
      if len \<le> max_non_overlap then mem_cpy dst d dst bk len
      else copy_bytes (len - max_non_overlap) (mem_cpy dst d dst bk max_non_overlap) (d + max_non_overlap) (bk + max_non_overlap))"

text \<open>
  The tokens of a tag: whether they are valid, and the positions in the source and in the
  destination after them.
\<close>

primrec token_loop :: "mem \<Rightarrow> nat \<Rightarrow> nat \<Rightarrow> nat \<Rightarrow> u8 \<Rightarrow> nat \<Rightarrow> mem \<Rightarrow> nat \<Rightarrow> bool \<times> nat \<times> mem \<times> nat" where
  "token_loop cbuf cb_sb_end sb_start 0 tag cb dst d = (True, cb, dst, d)"
| "token_loop cbuf cb_sb_end sb_start (Suc n) tag cb dst d =
     (if cb \<ge> cb_sb_end \<or> d > sb_start + NTFS_SB_SIZE then (True, cb, dst, d)
      else if tag AND 1 = 0 then
        token_loop cbuf cb_sb_end sb_start n (drop_bit 1 tag) (cb + 1) (dst(d := cbuf cb)) (d + 1)
      else if d = sb_start then (False, cb, dst, d)
      else
        let lg = lg_loop (d - sb_start - 1) 0; pt = le16_at cbuf cb; bk = unat (drop_bit (12 - lg) pt) + 1 in
        if d < sb_start + bk then (False, cb, dst, d)
        else
          let len = unat (pt AND drop_bit lg 0xfff) + 3 in
          if d + len > sb_start + NTFS_SB_SIZE then (False, cb, dst, d)
          else token_loop cbuf cb_sb_end sb_start n (drop_bit 1 tag) (cb + 2) (copy_phrase dst d (d - bk) len) (d + len))"

lemma token_loop_cb: "token_loop cbuf e s n tag cb dst d = (r, cb', dst', d') \<Longrightarrow> cb \<le> cb'"
  by (induction n arbitrary: tag cb dst d) (auto simp: Let_def split: if_splits, fastforce+)

function tag_loop :: "mem \<Rightarrow> nat \<Rightarrow> nat \<Rightarrow> nat \<Rightarrow> mem \<Rightarrow> nat \<Rightarrow> bool \<times> mem \<times> nat" where
  "tag_loop cbuf cb_sb_end sb_start cb dst d =
     (if cb = cb_sb_end then
        if d < sb_start + NTFS_SB_SIZE then (True, mem_set dst d 0 (sb_start + NTFS_SB_SIZE - d), sb_start + NTFS_SB_SIZE)
        else (True, dst, d)
      else if cb > cb_sb_end \<or> d > sb_start + NTFS_SB_SIZE then (False, dst, d)
      else
        case token_loop cbuf cb_sb_end sb_start 8 (cbuf cb) (cb + 1) dst d of
          (ok, cb, dst, d) \<Rightarrow> if ok then tag_loop cbuf cb_sb_end sb_start cb dst d else (False, dst, d))"
  by pat_completeness auto
termination
  by (relation "measure (\<lambda>(cbuf, cb_sb_end, sb_start, cb, dst, d). cb_sb_end - cb)")
    (auto dest!: token_loop_cb [OF sym] simp del: token_loop.simps)

function sb_loop :: "mem \<Rightarrow> nat \<Rightarrow> nat \<Rightarrow> nat \<Rightarrow> mem \<Rightarrow> nat \<Rightarrow> bool \<times> mem" where
  "sb_loop cbuf cb_end dest_end cb dst d =
     (if cb = cb_end \<or> le16_at cbuf cb = 0 \<or> d = dest_end then (True, if dest_end > d then mem_set dst d 0 (dest_end - d) else dst)
      else if d + NTFS_SB_SIZE > dest_end then (False, dst)
      else if cb + 6 > cb_end then (False, dst)
      else
        let hdr = le16_at cbuf cb; cb_sb_end = cb + unat (hdr AND NTFS_SB_SIZE_MASK) + 3 in
        if cb_sb_end > cb_end then (False, dst)
        else if hdr AND NTFS_SB_IS_COMPRESSED = 0 then
          if cb_sb_end - (cb + 2) \<noteq> NTFS_SB_SIZE then (False, dst)
          else sb_loop cbuf cb_end dest_end cb_sb_end (mem_cpy dst d cbuf (cb + 2) NTFS_SB_SIZE) (d + NTFS_SB_SIZE)
        else
          case tag_loop cbuf cb_sb_end d (cb + 2) dst d of
            (ok, dst, d) \<Rightarrow> if ok then sb_loop cbuf cb_end dest_end cb_sb_end dst d else (False, dst))"
  by pat_completeness auto
termination by (relation "measure (\<lambda>(cbuf, cb_end, dest_end, cb, dst, d). cb_end - cb)") auto

declare tag_loop.simps [simp del] sb_loop.simps [simp del]

definition ntfs_decompress :: "mem \<Rightarrow> nat \<Rightarrow> mem \<Rightarrow> nat \<Rightarrow> errno option \<times> mem" where
  "ntfs_decompress dest dest_size cb_start cb_size =
     (case sb_loop cb_start cb_size dest_size 0 dest 0 of
        (ok, dest) \<Rightarrow> (if ok then None else Some EOVERFLOW, dest))"

end
