(* ===== verification/NtCompressOk.thy ===== *)
theory NtCompressOk
  imports NtCompress "HOL-Library.Code_Target_Nat"
begin

text \<open>
  Correctness of the compression of sub-blocks: what the compressor writes is a sequence of groups
  of valid tokens for its input, and the decompressor turns such a sequence back into the input;
  and the bounds of the decompressor's writes on any input.
\<close>

section \<open>Where the decompressor writes\<close>

lemma copy_bytes_outside: "i < d \<or> d + n \<le> i \<Longrightarrow> copy_bytes n dst d bk i = dst i"
  by (induction n arbitrary: dst d bk) auto

lemma copy_phrase_outside: "i < d \<or> d + len \<le> i \<Longrightarrow> copy_phrase dst d bk len i = dst i"
  by (auto simp: copy_phrase_def Let_def copy_bytes_outside mem_cpy_def)

text \<open>The distance and the length of the phrase at \<open>cb\<close>, for the destination at \<open>d\<close>.\<close>

definition phrase_back :: "mem \<Rightarrow> nat \<Rightarrow> nat \<Rightarrow> nat" where
  "phrase_back cbuf cb x = unat (drop_bit (12 - lg_loop (x - 1) 0) (le16_at cbuf cb)) + 1"

definition phrase_len :: "mem \<Rightarrow> nat \<Rightarrow> nat \<Rightarrow> nat" where
  "phrase_len cbuf cb x = unat (le16_at cbuf cb AND drop_bit (lg_loop (x - 1) 0) 0xfff) + 3"

lemma token_loop_stop: "cb \<ge> e \<or> d > sb + NTFS_SB_SIZE \<Longrightarrow> token_loop cbuf e sb n tag cb dst d = (True, cb, dst, d)"
  by (cases n) simp_all

lemma token_loop_sym:
  "\<not> cb \<ge> e \<Longrightarrow> \<not> d > sb + NTFS_SB_SIZE \<Longrightarrow> tag AND 1 = 0 \<Longrightarrow> token_loop cbuf e sb (Suc n) tag cb dst d =
     token_loop cbuf e sb n (drop_bit 1 tag) (cb + 1) (dst(d := cbuf cb)) (d + 1)"
  by (simp only: token_loop.simps if_True if_False HOL.simp_thms)

lemma token_loop_phrase:
  "\<not> cb \<ge> e \<Longrightarrow> \<not> d > sb + NTFS_SB_SIZE \<Longrightarrow> tag AND 1 \<noteq> 0 \<Longrightarrow> token_loop cbuf e sb (Suc n) tag cb dst d =
     (if d = sb \<or> d < sb + phrase_back cbuf cb (d - sb) \<or> d + phrase_len cbuf cb (d - sb) > sb + NTFS_SB_SIZE then (False, cb, dst, d)
      else token_loop cbuf e sb n (drop_bit 1 tag) (cb + 2) (copy_phrase dst d (d - phrase_back cbuf cb (d - sb)) (phrase_len cbuf cb (d - sb)))
        (d + phrase_len cbuf cb (d - sb)))"
  unfolding phrase_back_def phrase_len_def
  by (cases "d = sb"; cases "d < sb + phrase_back cbuf cb (d - sb)"; cases "d + phrase_len cbuf cb (d - sb) > sb + NTFS_SB_SIZE")
    (simp_all only: token_loop.simps Let_def phrase_back_def phrase_len_def if_True if_False HOL.simp_thms)

lemma token_loop_bounds:
  assumes "token_loop cbuf e sb n tag cb dst d = (ok, cb', dst', d')" "sb \<le> d" "d \<le> sb + NTFS_SB_SIZE + 1"
  shows "d \<le> d' \<and> d' \<le> sb + NTFS_SB_SIZE + 1 \<and> (\<forall>i. i < d \<or> sb + NTFS_SB_SIZE < i \<longrightarrow> dst' i = dst i)"
  using assms
proof (induction n arbitrary: tag cb dst d)
  case (Suc n)
  let ?bk = "phrase_back cbuf cb (d - sb)" and ?len = "phrase_len cbuf cb (d - sb)"
  consider (stop) "cb \<ge> e \<or> d > sb + NTFS_SB_SIZE" | (sym) "\<not> cb \<ge> e" "\<not> d > sb + NTFS_SB_SIZE" "tag AND 1 = 0"
    | (bad) "\<not> cb \<ge> e" "\<not> d > sb + NTFS_SB_SIZE" "tag AND 1 \<noteq> 0" "d = sb \<or> d < sb + ?bk \<or> d + ?len > sb + NTFS_SB_SIZE"
    | (phrase) "\<not> cb \<ge> e" "\<not> d > sb + NTFS_SB_SIZE" "tag AND 1 \<noteq> 0" "\<not> (d = sb \<or> d < sb + ?bk \<or> d + ?len > sb + NTFS_SB_SIZE)" by blast
  then show ?case
  proof cases
    case stop
    then show ?thesis using Suc.prems by (simp only: token_loop_stop) simp
  next
    case sym
    from Suc.prems(1) [unfolded token_loop_sym [OF sym]] Suc.prems(2) sym(2) show ?thesis by (fastforce dest: Suc.IH)
  next
    case bad
    from Suc.prems [unfolded token_loop_phrase [OF bad(1-3)] if_P [OF bad(4)]] show ?thesis by simp
  next
    case phrase
    from Suc.IH [OF Suc.prems(1) [unfolded token_loop_phrase [OF phrase(1-3)] if_not_P [OF phrase(4)]]] Suc.prems phrase(4) show ?thesis by (auto simp: copy_phrase_outside)
  qed
qed simp

lemma tag_loop_bounds:
  assumes "tag_loop cbuf e sb cb dst d = (ok, dst', d')" "sb \<le> d" "d \<le> sb + NTFS_SB_SIZE + 1"
  shows "(ok \<longrightarrow> sb + NTFS_SB_SIZE \<le> d' \<and> d' \<le> sb + NTFS_SB_SIZE + 1) \<and> (\<forall>i. i < d \<or> sb + NTFS_SB_SIZE < i \<longrightarrow> dst' i = dst i)"
  using assms
proof (induction cbuf e sb cb dst d rule: tag_loop.induct)
  case (1 cbuf e sb cb dst d)
  show ?case
  proof (cases "cb = e \<or> cb > e \<or> d > sb + NTFS_SB_SIZE")
    case True
    then show ?thesis using 1(2-) by (subst (asm) tag_loop.simps) (auto simp: mem_set_def split: if_splits)
  next
    case go: False
    obtain ok1 cb1 dst1 d1 where t: "token_loop cbuf e sb 8 (cbuf cb) (cb + 1) dst d = (ok1, cb1, dst1, d1)" by (metis prod_cases4)
    have b: "d \<le> d1" "d1 \<le> sb + NTFS_SB_SIZE + 1" "\<forall>i. i < d \<or> sb + NTFS_SB_SIZE < i \<longrightarrow> dst1 i = dst i"
      using token_loop_bounds [OF t 1(3,4)] by auto
    show ?thesis
    proof (cases ok1)
      case True
      then have "tag_loop cbuf e sb cb1 dst1 d1 = (ok, dst', d')" using 1(2) go t by (subst (asm) tag_loop.simps) simp
      moreover have "sb \<le> d1" using b(1) 1(3) by simp
      ultimately show ?thesis using 1(1) [of ok1 "(cb1, dst1, d1)" cb1 "(dst1, d1)" dst1 d1] t True go b by auto
    next
      case False
      then show ?thesis using 1(2) go t b by (subst (asm) tag_loop.simps) auto
    qed
  qed
qed

lemma sb_loop_bounds:
  assumes "sb_loop cbuf cb_end dest_end cb dst d = (ok, dst')" "dest_end < i"
  shows "dst' i = dst i"
  using assms
proof (induction cbuf cb_end dest_end cb dst d rule: sb_loop.induct)
  case (1 cbuf cb_end dest_end cb dst d)
  let ?hdr = "le16_at cbuf cb" and ?e = "cb + unat (le16_at cbuf cb AND NTFS_SB_SIZE_MASK) + 3"
  show ?case
  proof (cases "cb = cb_end \<or> ?hdr = 0 \<or> d = dest_end \<or> d + NTFS_SB_SIZE > dest_end \<or> cb + 6 > cb_end \<or> ?e > cb_end")
    case True
    then show ?thesis using 1(3-) by (subst (asm) sb_loop.simps) (auto simp: Let_def mem_set_def split: if_splits)
  next
    case go: False
    show ?thesis
    proof (cases "?hdr AND NTFS_SB_IS_COMPRESSED = 0")
      case True
      show ?thesis
      proof (cases "?e - (cb + 2) = NTFS_SB_SIZE")
        case size: True
        then have "sb_loop cbuf cb_end dest_end ?e (mem_cpy dst d cbuf (cb + 2) NTFS_SB_SIZE) (d + NTFS_SB_SIZE) = (ok, dst')"
          using 1(3) go True by (subst (asm) sb_loop.simps) (simp add: Let_def)
        then show ?thesis using 1(1) [of ?hdr ?e] go True size 1(4) by (auto simp: mem_cpy_def)
      next
        case False
        then show ?thesis using 1(3) go True by (subst (asm) sb_loop.simps) (simp add: Let_def)
      qed
    next
      case comp: False
      obtain ok1 dst1 d1 where t: "tag_loop cbuf ?e d (cb + 2) dst d = (ok1, dst1, d1)" by (metis prod_cases3)
      have b: "dst1 i = dst i" using tag_loop_bounds [OF t] go 1(4) by auto
      show ?thesis
      proof (cases ok1)
        case True
        then have "sb_loop cbuf cb_end dest_end ?e dst1 d1 = (ok, dst')" using 1(3) go comp t by (subst (asm) sb_loop.simps) (simp add: Let_def)
        then show ?thesis using 1(2) [of ?hdr ?e ok1 "(dst1, d1)" dst1 d1] t True go comp 1(4) b by auto
      next
        case False
        then show ?thesis using 1(3) go comp t b by (subst (asm) sb_loop.simps) (simp add: Let_def)
      qed
    qed
  qed
qed

text \<open>
  C9. Decompression of any data, valid or not, ends and changes no byte behind the destination
  buffer but the first one after it.
\<close>

theorem decompress_bounds:
  assumes "dest_size < i"
  shows "snd (ntfs_decompress dest dest_size cb cb_size) i = dest i"
proof -
  define r where "r = sb_loop cb cb_size dest_size 0 dest 0"
  have "snd r i = dest i" by (rule sb_loop_bounds [of cb cb_size dest_size 0 dest 0 "fst r"]) (use assms in \<open>simp_all add: r_def\<close>)
  then show ?thesis unfolding ntfs_decompress_def r_def [symmetric] by (cases r) simp
qed

section \<open>Tokens\<close>

text \<open>The destination holds the first \<open>i\<close> bytes of the input from \<open>sb\<close> on.\<close>

definition holds :: "mem \<Rightarrow> mem \<Rightarrow> nat \<Rightarrow> nat \<Rightarrow> bool" where
  "holds inbuf dst sb i \<longleftrightarrow> (\<forall>k<i. dst (sb + k) = inbuf k)"

lemma holds_upd: "holds inbuf dst sb i \<Longrightarrow> holds inbuf (dst(sb + i := inbuf i)) sb (Suc i)"
  by (auto simp: holds_def less_Suc_eq)

lemma copy_bytes_holds:
  assumes "holds inbuf dst sb i" "m < i" "\<And>k. k < n \<Longrightarrow> inbuf (m + k) = inbuf (i + k)"
  shows "holds inbuf (copy_bytes n dst (sb + i) (sb + m)) sb (i + n)"
  using assms
proof (induction n arbitrary: dst i m)
  case (Suc n)
  have "dst (sb + m) = inbuf i" using Suc.prems(1,2) Suc.prems(3) [of 0] by (simp add: holds_def)
  then have "holds inbuf (dst(sb + i := dst (sb + m))) sb (Suc i)" using holds_upd [OF Suc.prems(1)] by simp
  from Suc.IH [OF this, of "Suc m"] Suc.prems(2) Suc.prems(3) [of "Suc _"] show ?case by (simp del: fun_upd_apply)
qed simp

lemma copy_phrase_holds:
  assumes "holds inbuf dst sb i" "m < i" "\<And>k. k < len \<Longrightarrow> inbuf (m + k) = inbuf (i + k)"
  shows "holds inbuf (copy_phrase dst (sb + i) (sb + m) len) sb (i + len)"
proof -
  have cpy: "holds inbuf (mem_cpy dst (sb + i) dst (sb + m) n) sb (i + n)" if "n \<le> i - m" "n \<le> len" for n
    unfolding holds_def
  proof (intro allI impI)
    fix k
    assume k: "k < i + n"
    show "mem_cpy dst (sb + i) dst (sb + m) n (sb + k) = inbuf k"
    proof (cases "k < i")
      case True
      then show ?thesis using assms(1) by (simp add: mem_cpy_def holds_def)
    next
      case False
      then obtain j where j: "k = i + j" by (metis le_Suc_ex not_less)
      then have "m + j < i" "j < len" using k that by simp_all
      then show ?thesis using j k assms(1) assms(3) [of j] by (simp add: mem_cpy_def holds_def add.assoc)
    qed
  qed
  show ?thesis
  proof (cases "len \<le> i - m")
    case True
    then show ?thesis using cpy [of len] assms(2) by (simp add: copy_phrase_def)
  next
    case False
    have "inbuf (i + k) = inbuf (i + (i - m) + k)" if "k < len - (i - m)" for k
      using assms(3) [of "i - m + k"] assms(2) that by (simp add: algebra_simps)
    then have "holds inbuf (copy_bytes (len - (i - m)) (mem_cpy dst (sb + i) dst (sb + m) (i - m)) (sb + (i + (i - m))) (sb + i)) sb (i + (i - m) + (len - (i - m)))"
      using cpy [of "i - m"] False assms(2) by (intro copy_bytes_holds) simp_all
    then show ?thesis using False assms(2) by (simp add: copy_phrase_def Let_def add.assoc)
  qed
qed

datatype token = Sym u8 | Phr u16

fun tok_len :: "token \<Rightarrow> nat" where
  "tok_len (Sym c) = 1"
| "tok_len (Phr w) = 2"

definition toks_len :: "token list \<Rightarrow> nat" where
  "toks_len ts = sum_list (map tok_len ts)"

text \<open>Distance and length of a phrase at position \<open>i\<close> of the sub-block.\<close>

definition phr_back :: "u16 \<Rightarrow> nat \<Rightarrow> nat" where
  "phr_back w i = unat (drop_bit (12 - lg_loop (i - 1) 0) w) + 1"

definition phr_len :: "u16 \<Rightarrow> nat \<Rightarrow> nat" where
  "phr_len w i = unat (w AND drop_bit (lg_loop (i - 1) 0) 0xfff) + 3"

fun tok_next :: "token \<Rightarrow> nat \<Rightarrow> nat" where
  "tok_next (Sym c) i = i + 1"
| "tok_next (Phr w) i = i + phr_len w i"

text \<open>The token at position \<open>i\<close> stands for the next bytes of an input of \<open>n\<close> bytes.\<close>

fun tok_ok :: "mem \<Rightarrow> nat \<Rightarrow> nat \<Rightarrow> token \<Rightarrow> bool" where
  "tok_ok inbuf n i (Sym c) \<longleftrightarrow> i < n \<and> c = inbuf i"
| "tok_ok inbuf n i (Phr w) \<longleftrightarrow> phr_back w i \<le> i \<and> i + phr_len w i \<le> n \<and>
     (\<forall>k<phr_len w i. inbuf (i - phr_back w i + k) = inbuf (i + k))"

fun toks_end :: "token list \<Rightarrow> nat \<Rightarrow> nat" where
  "toks_end [] i = i"
| "toks_end (t # ts) i = toks_end ts (tok_next t i)"

fun toks_ok :: "mem \<Rightarrow> nat \<Rightarrow> nat \<Rightarrow> token list \<Rightarrow> bool" where
  "toks_ok inbuf n i [] \<longleftrightarrow> i \<le> n"
| "toks_ok inbuf n i (t # ts) \<longleftrightarrow> tok_ok inbuf n i t \<and> toks_ok inbuf n (tok_next t i) ts"

text \<open>Tokens as bytes, and the tag byte that tells phrases from symbols.\<close>

fun toks_at :: "mem \<Rightarrow> nat \<Rightarrow> token list \<Rightarrow> bool" where
  "toks_at cbuf c [] \<longleftrightarrow> True"
| "toks_at cbuf c (Sym s # ts) \<longleftrightarrow> cbuf c = s \<and> toks_at cbuf (c + 1) ts"
| "toks_at cbuf c (Phr w # ts) \<longleftrightarrow> le16_at cbuf c = w \<and> toks_at cbuf (c + 2) ts"

fun is_phr :: "token \<Rightarrow> bool" where
  "is_phr (Sym c) = False"
| "is_phr (Phr w) = True"

definition tag_ok :: "u8 \<Rightarrow> token list \<Rightarrow> bool" where
  "tag_ok tag ts \<longleftrightarrow> (\<forall>k<length ts. bit tag k = is_phr (ts ! k))"

lemma tag_ok_Cons: "tag_ok tag (t # ts) \<longleftrightarrow> (tag AND 1 \<noteq> 0 \<longleftrightarrow> is_phr t) \<and> tag_ok (drop_bit 1 tag) ts"
proof -
  have "tag AND 1 \<noteq> 0 \<longleftrightarrow> bit tag 0" by (simp add: bit_0 and_one_eq odd_iff_mod_2_eq_one)
  then show ?thesis unfolding tag_ok_def by (simp add: All_less_Suc2 bit_drop_bit_eq)
qed

section \<open>Decoding\<close>

lemma tok_next_less: "i < tok_next t i"
  by (cases t) (simp_all add: phr_len_def)

lemma toks_end_le: "toks_ok inbuf n i ts \<Longrightarrow> i \<le> toks_end ts i \<and> toks_end ts i \<le> n"
proof (induction ts arbitrary: i)
  case (Cons t ts)
  then show ?case using tok_next_less [of i t] by fastforce
qed simp

lemma token_step:
  assumes "tok_ok inbuf n i t" "n \<le> NTFS_SB_SIZE" "toks_at cbuf c (t # ts)" "c < e" "holds inbuf dst sb i" "tag AND 1 \<noteq> 0 \<longleftrightarrow> is_phr t"
  shows "\<exists>dst'. token_loop cbuf e sb (Suc m) tag c dst (sb + i) = token_loop cbuf e sb m (drop_bit 1 tag) (c + tok_len t) dst' (sb + tok_next t i) \<and>
      holds inbuf dst' sb (tok_next t i)"
proof -
  have go: "\<not> e \<le> c" "\<not> sb + NTFS_SB_SIZE < sb + i"
    using assms(1,2,4) by (cases t; simp)+
  show ?thesis
  proof (cases t)
    case (Sym x)
    then have "tag AND 1 = 0" "cbuf c = inbuf i" using assms by simp_all
    then show ?thesis using token_loop_sym [OF go, of tag cbuf m dst] holds_upd [OF assms(5)] Sym by auto
  next
    case (Phr w)
    then have w: "tag AND 1 \<noteq> 0" "le16_at cbuf c = w" using assms by simp_all
    have b: "phrase_back cbuf c (sb + i - sb) = phr_back w i" "phrase_len cbuf c (sb + i - sb) = phr_len w i"
      by (simp_all add: phrase_back_def phrase_len_def phr_back_def phr_len_def w)
    have k: "phr_back w i \<le> i" "i + phr_len w i \<le> n" "0 < phr_back w i" using assms(1) Phr by (simp_all add: phr_back_def)
    have "holds inbuf (copy_phrase dst (sb + i) (sb + (i - phr_back w i)) (phr_len w i)) sb (i + phr_len w i)"
      using assms(1,5) k Phr by (intro copy_phrase_holds) auto
    moreover have "\<not> (sb + i = sb \<or> sb + i < sb + phr_back w i \<or> sb + NTFS_SB_SIZE < sb + i + phr_len w i)" using k assms(2) by simp
    ultimately show ?thesis
      using token_loop_phrase [OF go w(1), of cbuf m dst, unfolded b] k Phr by (auto simp: add.assoc)
  qed
qed

lemma tok_len_pos: "0 < tok_len t"
  by (cases t) simp_all

lemma toks_at_Cons: "toks_at cbuf c (t # ts) \<Longrightarrow> toks_at cbuf (c + tok_len t) ts"
  by (cases t) simp_all

lemma token_group:
  assumes "toks_ok inbuf n i ts" "n \<le> NTFS_SB_SIZE" "toks_at cbuf c ts" "c + toks_len ts \<le> e" "holds inbuf dst sb i" "tag_ok tag ts"
    and "length ts = m \<or> length ts < m \<and> c + toks_len ts = e"
  shows "\<exists>dst'. token_loop cbuf e sb m tag c dst (sb + i) = (True, c + toks_len ts, dst', sb + toks_end ts i) \<and>
      holds inbuf dst' sb (toks_end ts i)"
  using assms
proof (induction ts arbitrary: m tag c dst i)
  case Nil
  then show ?case by (cases m) (auto simp: toks_len_def)
next
  case (Cons t ts)
  obtain m' where m': "m = Suc m'" using Cons.prems(7) by (cases m) auto
  have len: "toks_len (t # ts) = tok_len t + toks_len ts" by (simp add: toks_len_def)
  obtain dst1 where d1: "token_loop cbuf e sb (Suc m') tag c dst (sb + i) =
      token_loop cbuf e sb m' (drop_bit 1 tag) (c + tok_len t) dst1 (sb + tok_next t i)" "holds inbuf dst1 sb (tok_next t i)"
    using token_step [of inbuf n i t cbuf c ts e dst sb tag m'] Cons.prems len tok_len_pos [of t] by (auto simp: tag_ok_Cons)
  have "\<exists>dst'. token_loop cbuf e sb m' (drop_bit 1 tag) (c + tok_len t) dst1 (sb + tok_next t i) =
      (True, c + tok_len t + toks_len ts, dst', sb + toks_end ts (tok_next t i)) \<and> holds inbuf dst' sb (toks_end ts (tok_next t i))"
    using Cons.prems m' len by (intro Cons.IH [OF _ _ _ _ d1(2)] toks_at_Cons) (auto simp: tag_ok_Cons)
  then show ?case using d1(1) m' len by (simp add: add.assoc)
qed

text \<open>Groups of a tag and its tokens; all groups but the last are full.\<close>

fun groups_len :: "token list list \<Rightarrow> nat" where
  "groups_len [] = 0"
| "groups_len (g # gs) = 1 + toks_len g + groups_len gs"

fun groups_at :: "mem \<Rightarrow> nat \<Rightarrow> token list list \<Rightarrow> bool" where
  "groups_at cbuf c [] \<longleftrightarrow> True"
| "groups_at cbuf c (g # gs) \<longleftrightarrow> tag_ok (cbuf c) g \<and> toks_at cbuf (c + 1) g \<and> groups_at cbuf (c + 1 + toks_len g) gs"

fun full_groups :: "token list list \<Rightarrow> bool" where
  "full_groups [] \<longleftrightarrow> True"
| "full_groups [g] \<longleftrightarrow> length g \<le> 8"
| "full_groups (g # gs) \<longleftrightarrow> length g = 8 \<and> full_groups gs"

lemma toks_ok_append: "toks_ok inbuf n i (ts @ us) \<Longrightarrow> toks_ok inbuf n i ts \<and> toks_ok inbuf n (toks_end ts i) us"
proof (induction ts arbitrary: i)
  case Nil
  then show ?case using toks_end_le by fastforce
qed simp

lemma toks_end_append [simp]: "toks_end (ts @ us) i = toks_end us (toks_end ts i)"
  by (induction ts arbitrary: i) simp_all

lemma tag_loop_groups:
  assumes "toks_ok inbuf n i (concat gs)" "n \<le> NTFS_SB_SIZE" "groups_at cbuf c gs" "full_groups gs" "c + groups_len gs = e" "holds inbuf dst sb i"
  shows "\<exists>dst'. tag_loop cbuf e sb c dst (sb + i) = (True, dst', sb + NTFS_SB_SIZE) \<and>
     holds (\<lambda>k. if k < toks_end (concat gs) i then inbuf k else 0) dst' sb NTFS_SB_SIZE"
  using assms
proof (induction gs arbitrary: c dst i)
  case Nil
  then have "i \<le> NTFS_SB_SIZE" by simp
  then show ?case using Nil.prems by (subst tag_loop.simps) (auto simp: holds_def mem_set_def)
next
  case (Cons g gs)
  have ok: "toks_ok inbuf n i g" "toks_ok inbuf n (toks_end g i) (concat gs)" using Cons.prems(1) toks_ok_append by auto
  have last: "length g = 8 \<or> length g < 8 \<and> c + 1 + toks_len g = e" using Cons.prems(4,5) by (cases gs) auto
  obtain dst1 where d1: "token_loop cbuf e sb 8 (cbuf c) (c + 1) dst (sb + i) = (True, c + 1 + toks_len g, dst1, sb + toks_end g i)"
    "holds inbuf dst1 sb (toks_end g i)"
    using token_group [OF ok(1) Cons.prems(2) _ _ Cons.prems(6) _ last] Cons.prems(3,5) by auto
  have "tag_loop cbuf e sb c dst (sb + i) = tag_loop cbuf e sb (c + 1 + toks_len g) dst1 (sb + toks_end g i)"
    using d1(1) toks_end_le [OF ok(1)] Cons.prems(2,5) by (subst tag_loop.simps) simp
  moreover have "full_groups gs" using Cons.prems(4) by (cases gs) auto
  ultimately show ?case
    using Cons.IH [OF ok(2) Cons.prems(2) _ _ _ d1(2), of "c + 1 + toks_len g"] Cons.prems(3,5) by (auto simp: add.assoc)
qed

section \<open>Finding matches\<close>

text \<open>The input agrees at \<open>m\<close> and at \<open>i\<close> for \<open>len\<close> bytes.\<close>

definition agrees :: "mem \<Rightarrow> nat \<Rightarrow> nat \<Rightarrow> nat \<Rightarrow> bool" where
  "agrees inbuf m i len \<longleftrightarrow> (\<forall>k<len. inbuf (m + k) = inbuf (i + k))"

lemma agrees_Suc: "agrees inbuf m i (Suc len) \<longleftrightarrow> agrees inbuf m i len \<and> inbuf (m + len) = inbuf (i + len)"
  by (auto simp: agrees_def less_Suc_eq)

lemma extend_far_ok:
  "agrees inbuf m i bl \<Longrightarrow> bl \<le> max_len \<Longrightarrow>
     bl \<le> extend_far inbuf m i max_len bl \<and> extend_far inbuf m i max_len bl \<le> max_len \<and> agrees inbuf m i (extend_far inbuf m i max_len bl)"
proof (induction inbuf m i max_len bl rule: extend_far.induct)
  case (1 inbuf m i max_len bl)
  show ?case
  proof (cases "bl < max_len \<and> inbuf (m + bl) = inbuf (i + bl)")
    case True
    then show ?thesis using 1 by (subst (1 2 3) extend_far.simps) (auto simp: agrees_Suc)
  next
    case False
    then show ?thesis using 1(2,3) by (subst (1 2 3) extend_far.simps) auto
  qed
qed

lemma extend_match_ok:
  "extend_match inbuf m i nice_len max_len bl = (b, r) \<Longrightarrow> agrees inbuf m i (Suc bl) \<Longrightarrow> bl < max_len \<Longrightarrow> nice_len \<le> max_len \<Longrightarrow>
     bl < r \<and> r \<le> max_len \<and> agrees inbuf m i r \<and> (\<not> b \<longrightarrow> r < nice_len)"
proof (induction inbuf m i nice_len max_len bl rule: extend_match.induct)
  case (1 inbuf m i nice_len max_len bl)
  show ?case
  proof (cases "Suc bl \<ge> nice_len \<or> inbuf (m + Suc bl) \<noteq> inbuf (i + Suc bl)")
    case True
    then show ?thesis
      using 1(2-) extend_far_ok [OF 1(3), of max_len] by (subst (asm) extend_match.simps) (auto simp: Let_def split: if_splits)
  next
    case False
    then have "extend_match inbuf m i nice_len max_len (Suc bl) = (b, r)"
      using 1(2) by (subst (asm) extend_match.simps) (simp add: Let_def)
    moreover have "agrees inbuf m i (Suc (Suc bl))" "Suc bl < max_len" using False 1(3,5) by (simp_all add: agrees_Suc)
    ultimately show ?thesis using 1(1) [of "Suc bl"] 1(5) False by simp
  qed
qed

lemma worse_match_agrees: "\<not> worse_match inbuf m i bl \<Longrightarrow> 0 < bl \<Longrightarrow> agrees inbuf m i (Suc bl)"
  unfolding agrees_def
proof (intro allI impI)
  fix k
  assume w: "\<not> worse_match inbuf m i bl" and bl: "0 < bl" and k: "k < Suc bl"
  consider "k = bl" | "k = bl - 1" | "k = 0" | "k \<in> {1..<bl - 1}" using k bl by fastforce
  then show "inbuf (m + k) = inbuf (i + k)" using w by cases (auto simp: worse_match_def list_ex_iff)
qed

definition hash_chains :: "nat set \<Rightarrow> (nat \<Rightarrow> int) \<Rightarrow> (nat \<Rightarrow> int) \<Rightarrow> bool" where
  "hash_chains S heads prev \<longleftrightarrow> (\<forall>h. heads h < 0 \<or> nat (heads h) \<in> S) \<and> (\<forall>c\<in>S. prev c < 0 \<or> nat (prev c) \<in> S)"

lemma match_loop_ok:
  assumes "match_loop inbuf prev i nice_len max_len depth cur bl bm = (r, m)" "\<forall>c\<in>S. prev c < 0 \<or> nat (prev c) \<in> S" "cur < 0 \<or> nat cur \<in> S"
    and "S \<subseteq> {..<i}" "0 < bl" "bl < max_len" "nice_len \<le> max_len" "bm \<noteq> i \<longrightarrow> bm < i \<and> agrees inbuf bm i bl"
  shows "bl \<le> r \<and> r \<le> max_len \<and> (r = bl \<and> m = bm \<or> m < i \<and> agrees inbuf m i r)"
  using assms
proof (induction depth arbitrary: cur bl bm)
  case (Suc depth)
  show ?case
  proof (cases "cur < 0")
    case True
    then show ?thesis using Suc.prems by simp
  next
    case False
    define c where "c = nat cur"
    have c: "c \<in> S" "c < i" "prev c < 0 \<or> nat (prev c) \<in> S" using False Suc.prems(2-4) by (auto simp: c_def)
    show ?thesis
    proof (cases "worse_match inbuf c i bl")
      case True
      then have "match_loop inbuf prev i nice_len max_len depth (prev c) bl bm = (r, m)"
        using Suc.prems(1) False by (simp add: Let_def c_def)
      then show ?thesis using Suc.IH [OF _ Suc.prems(2) c(3) Suc.prems(4-8)] by blast
    next
      case better: False
      obtain b bl' where x: "extend_match inbuf c i nice_len max_len bl = (b, bl')" by (meson surj_pair)
      have l: "bl < bl'" "bl' \<le> max_len" "agrees inbuf c i bl'" "\<not> b \<longrightarrow> bl' < nice_len"
        using extend_match_ok [OF x worse_match_agrees [OF better Suc.prems(5)] Suc.prems(6,7)] by simp_all
      show ?thesis
      proof (cases b)
        case True
        then show ?thesis using Suc.prems(1) False better x l c(2) by (simp add: Let_def c_def)
      next
        case nb: False
        then have "match_loop inbuf prev i nice_len max_len depth (prev c) bl' c = (r, m)"
          using Suc.prems(1) False better x by (simp add: Let_def c_def)
        from Suc.IH [OF this Suc.prems(2) c(3) Suc.prems(4) _ _ Suc.prems(7)] show ?thesis
          using nb l c(2) Suc.prems(7) by auto
      qed
    qed
  qed
qed simp

text \<open>A match for position \<open>i\<close> as the compressor uses it.\<close>

definition found :: "mem \<Rightarrow> nat \<Rightarrow> nat \<Rightarrow> nat \<Rightarrow> nat \<Rightarrow> int \<Rightarrow> bool" where
  "found inbuf n mxsz i len rel \<longleftrightarrow> (\<exists>m<i. rel = int m - int i \<and> i + len \<le> n \<and> len \<le> mxsz \<and> agrees inbuf m i len)"

definition cx_chains :: "nat \<Rightarrow> COMPRESS_CONTEXT \<Rightarrow> bool" where
  "cx_chains p cx \<longleftrightarrow> (\<exists>S\<subseteq>{..<p}. hash_chains S (cx_head cx) (cx_prev cx))"

lemma cx_chains_upd [simp]: "cx_chains p (cx\<lparr>cx_size := a, cx_rel := b\<rparr>) = cx_chains p cx" "cx_chains p (cx\<lparr>cx_mxsz := c\<rparr>) = cx_chains p cx"
  by (simp_all add: cx_chains_def)

lemma chain_insert_ok:
  assumes "hash_chains S (cx_head cx) (cx_prev cx)" "chain_insert inbuf cx i = (cur, cx')"
  shows "hash_chains (insert i S) (cx_head cx') (cx_prev cx')" "cur < 0 \<or> nat cur \<in> S" "cx_mxsz cx' = cx_mxsz cx"
    "c \<noteq> i \<Longrightarrow> cx_prev cx' c = cx_prev cx c"
proof -
  have h: "\<not> cx_head cx h < 0 \<Longrightarrow> nat (cx_head cx h) \<in> S" "c \<in> S \<Longrightarrow> \<not> cx_prev cx c < 0 \<Longrightarrow> nat (cx_prev cx c) \<in> S" for h c
    using assms(1) by (auto simp: hash_chains_def)
  have x: "cur = cx_head cx (ntfs_hash inbuf i)" "cx_head cx' = (cx_head cx)(ntfs_hash inbuf i := int i)" "cx_prev cx' = (cx_prev cx)(i := cur)"
    "cx_mxsz cx' = cx_mxsz cx" using assms(2) by (auto simp: chain_insert_def Let_def)
  show c: "cur < 0 \<or> nat cur \<in> S" using h(1) x(1) by blast
  then show "hash_chains (insert i S) (cx_head cx') (cx_prev cx')" unfolding hash_chains_def x(2,3) using h by auto
  show "cx_mxsz cx' = cx_mxsz cx" "c \<noteq> i \<Longrightarrow> cx_prev cx' c = cx_prev cx c" using x(3,4) by simp_all
qed

lemma skip_position_ok:
  assumes "cx_chains p cx" "p \<le> i"
  shows "cx_chains (Suc i) (ntfs_skip_position inbuf n cx i)" "cx_mxsz (ntfs_skip_position inbuf n cx i) = cx_mxsz cx"
proof -
  obtain S where S: "S \<subseteq> {..<p}" "hash_chains S (cx_head cx) (cx_prev cx)" using assms(1) by (auto simp: cx_chains_def)
  obtain cur cx' where c: "chain_insert inbuf cx i = (cur, cx')" by (meson surj_pair)
  have sub: "insert i S \<subseteq> {..<Suc i}" "S \<subseteq> {..<Suc i}" using S(1) assms(2) by auto
  then have "cx_chains (Suc i) cx" "cx_chains (Suc i) cx'" using chain_insert_ok(1) [OF S(2) c] S(2) unfolding cx_chains_def by blast+
  then show "cx_chains (Suc i) (ntfs_skip_position inbuf n cx i)" "cx_mxsz (ntfs_skip_position inbuf n cx i) = cx_mxsz cx"
    using chain_insert_ok(3) [OF S(2) c] c by (simp_all add: ntfs_skip_position_def)
qed

lemma best_match_ok:
  assumes "cx_chains p cx" "p \<le> i" "0 < bl"
    and cx'_def: "cx' = ntfs_best_match inbuf n cx i bl"
  shows "cx_chains (Suc i) cx' \<and> cx_mxsz cx' = cx_mxsz cx \<and> bl \<le> cx_size cx' \<and>
    (cx_size cx' = bl \<or> found inbuf n (cx_mxsz cx) i (cx_size cx') (cx_rel cx'))"
proof -
  obtain S where S: "S \<subseteq> {..<p}" "hash_chains S (cx_head cx) (cx_prev cx)" using assms(1) by (auto simp: cx_chains_def)
  obtain cur cx1 where c: "chain_insert inbuf cx i = (cur, cx1)" by (meson surj_pair)
  note ci = chain_insert_ok [OF S(2) c]
  have sub: "insert i S \<subseteq> {..<Suc i}" "S \<subseteq> {..<Suc i}" "S \<subseteq> {..<i}" using S(1) assms(2) by auto
  let ?max = "min (n - i) (cx_mxsz cx)"
  have "cx_prev cx1 c = cx_prev cx c" if "c \<in> S" for c using ci(4) [of c] sub(3) that by auto
  then have "\<forall>c\<in>S. cx_prev cx1 c < 0 \<or> nat (cx_prev cx1 c) \<in> S" using S(2) by (simp add: hash_chains_def)
  note ml = match_loop_ok [OF _ this ci(2) sub(3) assms(3)]
  show ?thesis
  proof (cases "?max < 4 \<or> bl \<ge> ?max")
    case True
    have "cx_chains (Suc i) cx" "cx_chains (Suc i) cx1" using ci(1) S(2) sub unfolding cx_chains_def by blast+
    moreover have "cx' = cx\<lparr>cx_size := bl, cx_rel := 0\<rparr> \<or> cx' = cx1\<lparr>cx_size := bl, cx_rel := 0\<rparr>"
      using True c unfolding cx'_def ntfs_best_match_def Let_def by (cases "?max < 4") simp_all
    ultimately show ?thesis using ci(3) by auto
  next
    case False
    obtain r m where r: "match_loop inbuf (cx_prev cx1) i (min NICE_MATCH_LEN ?max) ?max MAX_SEARCH_DEPTH cur bl i = (r, m)" by (meson surj_pair)
    have x: "cx' = cx1\<lparr>cx_size := r, cx_rel := int m - int i\<rparr>" using False c r ci(3) by (simp add: cx'_def ntfs_best_match_def Let_def)
    have "bl \<le> r \<and> r \<le> ?max \<and> (r = bl \<and> m = i \<or> m < i \<and> agrees inbuf m i r)" by (rule ml [OF r]) (use False in \<open>simp_all only: de_Morgan_disj not_le min.cobounded2 HOL.simp_thms\<close>)
    moreover have "cx_chains (Suc i) cx1" using ci(1) sub(1) unfolding cx_chains_def by blast
    then have "cx_chains (Suc i) cx'" using x by simp
    ultimately show ?thesis using x ci(3) assms(3) by (auto simp: found_def)
  qed
qed

section \<open>Phrases\<close>

lemma lg_loop_eq: "x < 2 ^ (4 + l) \<Longrightarrow> l = 0 \<or> 2 ^ (3 + l) \<le> x \<Longrightarrow> lg_loop x a = a + l"
proof (induction l arbitrary: x a)
  case 0
  then show ?case by (subst lg_loop.simps) simp
next
  case (Suc l)
  have "(2 :: nat) ^ (4 + l) \<le> x" "x div 2 < 2 ^ (4 + l)" "2 ^ (3 + l) \<le> x div 2" using Suc.prems by (simp_all add: power_add)
  moreover have "(16 :: nat) \<le> 2 ^ (4 + l)" by (simp add: power_add)
  ultimately show ?case using Suc.IH [of "x div 2" "a + 1"] by (subst lg_loop.simps) simp
qed

lemma phrase_token_nat:
  assumes "m < i" "i - m - 1 < 2 ^ bp" "bp \<le> 16" "3 \<le> len" "len - 3 < 2 ^ (16 - bp)"
  shows "unat (ucast (phrase_token (int m - int i) bp len) :: u16) = (i - m - 1) * 2 ^ (16 - bp) + (len - 3)"
proof -
  let ?t = "(i - m - 1) * 2 ^ (16 - bp) + (len - 3)"
  have "Suc (i - m - 1) \<le> 2 ^ bp" using assms(2) by simp
  then have "Suc (i - m - 1) * 2 ^ (16 - bp) \<le> 2 ^ bp * 2 ^ (16 - bp)" by (rule mult_le_mono1)
  also have "\<dots> = (2 :: nat) ^ 16" using assms(3) by (simp flip: power_add)
  finally have t: "?t < 2 ^ 16" using assms(5) by simp
  have n: "NOT (int m - int i) = int (i - m - 1)" using assms(1) by (simp add: not_int_def)
  define t where "t = ?t"
  have "push_bit (16 - bp) (int (i - m - 1)) + (int len - 3) = int t" using assms(4) by (simp add: t_def push_bit_eq_mult of_nat_diff)
  then have "phrase_token (int m - int i) bp len = of_nat t" unfolding phrase_token_def n by simp
  moreover have "unat (ucast (of_nat t :: u32) :: u16) = t" using t unfolding t_def [symmetric] by (simp add: unsigned_ucast_eq unsigned_of_nat take_bit_eq_mod)
  ultimately show ?thesis by (simp add: t_def)
qed

lemma phrase_ok:
  assumes "found inbuf n (2 ^ (16 - bp) + 2) i len rel" "3 \<le> len" "i \<le> 2 ^ bp" "4 \<le> bp" "bp \<le> 12" "bp = 4 \<or> 2 ^ (bp - 1) < i"
  defines "w \<equiv> ucast (phrase_token rel bp len)"
  shows "tok_ok inbuf n i (Phr w)" "tok_next (Phr w) i = i + len"
proof -
  obtain m where m: "m < i" "rel = int m - int i" "i + len \<le> n" "len \<le> 2 ^ (16 - bp) + 2" "agrees inbuf m i len"
    using assms(1) by (auto simp: found_def)
  have w: "unat w = (i - m - 1) * 2 ^ (16 - bp) + (len - 3)" unfolding w_def m(2)
    using assms(2-5) m by (intro phrase_token_nat) auto
  have "lg_loop (i - 1) 0 = 0 + (bp - 4)" using assms(3-6) m(1) by (intro lg_loop_eq) auto
  then have lg: "lg_loop (i - Suc 0) 0 = bp - 4" by simp
  have k: "12 - (bp - 4) = 16 - bp" using assms(4) by simp
  have l3: "len - 3 < 2 ^ (16 - bp)" using m(4) assms(2) by linarith
  have "unat (drop_bit (16 - bp) w) = drop_bit (16 - bp) (unat w)" by (rule unat_drop_bit_eq)
  also have "\<dots> = i - m - 1" unfolding w using l3 by (simp add: drop_bit_eq_div)
  finally have b: "phr_back w i = i - m" using m(1) by (simp add: phr_back_def lg k)
  have "mask 12 = (0xfff :: u16)" by (simp add: mask_eq_exp_minus_1)
  moreover have "drop_bit (bp - 4) (mask 12) = (mask (16 - bp) :: u16)" using assms(4,5) by (intro bit_word_eqI) (auto simp: bit_simps)
  ultimately have "drop_bit (bp - 4) 0xfff = (mask (16 - bp) :: u16)" by simp
  then have "w AND drop_bit (bp - 4) 0xfff = take_bit (16 - bp) w" by (simp add: take_bit_eq_mask)
  moreover have "unat (take_bit (16 - bp) w) = take_bit (16 - bp) (unat w)" by (rule unsigned_take_bit_eq)
  moreover have "take_bit (16 - bp) (unat w) = len - 3" unfolding w using l3 by (simp add: take_bit_eq_mod)
  ultimately have l: "phr_len w i = len" using assms(2) by (simp add: phr_len_def lg)
  show "tok_next (Phr w) i = i + len" by (simp add: l)
  show "tok_ok inbuf n i (Phr w)" using m b l by (simp add: agrees_def)
qed

section \<open>The output of the compressor\<close>

lemma toks_len_simps [simp]: "toks_len [] = 0" "toks_len (t # ts) = tok_len t + toks_len ts" "toks_len (ts @ us) = toks_len ts + toks_len us"
  by (simp_all add: toks_len_def)

lemma toks_at_cong: "(\<And>j. c \<le> j \<Longrightarrow> j < c + toks_len ts \<Longrightarrow> m j = m' j) \<Longrightarrow> toks_at m c ts = toks_at m' c ts"
proof (induction ts arbitrary: c)
  case (Cons t ts)
  have "toks_at m (c + tok_len t) ts = toks_at m' (c + tok_len t) ts" using Cons.prems by (intro Cons.IH) simp
  moreover have "m c = m' c" using Cons.prems [of c] tok_len_pos [of t] by simp
  moreover have "m (c + 1) = m' (c + 1)" if "is_phr t" using Cons.prems [of "c + 1"] that by (cases t) simp_all
  ultimately show ?case by (cases t) (simp_all add: ld_word_def)
qed simp

lemma groups_at_cong: "(\<And>j. c \<le> j \<Longrightarrow> j < c + groups_len gs \<Longrightarrow> m j = m' j) \<Longrightarrow> groups_at m c gs = groups_at m' c gs"
proof (induction gs arbitrary: c)
  case (Cons g gs)
  have "groups_at m (c + 1 + toks_len g) gs = groups_at m' (c + 1 + toks_len g) gs" using Cons.prems by (intro Cons.IH) simp
  moreover have "toks_at m (c + 1) g = toks_at m' (c + 1) g" using Cons.prems by (intro toks_at_cong) simp
  moreover have "m c = m' c" using Cons.prems [of c] by simp
  ultimately show ?case by simp
qed simp

lemma toks_at_snoc: "toks_at m c (ts @ [t]) \<longleftrightarrow> toks_at m c ts \<and> toks_at m (c + toks_len ts) [t]"
proof (induction ts arbitrary: c)
  case (Cons u ts)
  then show ?case by (cases u) (simp_all add: add.assoc)
qed simp

lemma groups_len_snoc [simp]: "groups_len (gs @ [g]) = groups_len gs + 1 + toks_len g"
  by (induction gs) simp_all

lemma groups_at_snoc:
  "groups_at m c (gs @ [g]) \<longleftrightarrow> groups_at m c gs \<and> tag_ok (m (c + groups_len gs)) g \<and> toks_at m (c + groups_len gs + 1) g"
  by (induction gs arbitrary: c) (simp_all add: add.assoc)

text \<open>
  The output holds full groups \<open>gs\<close> and the tokens \<open>g\<close> of a group whose tag is still kept in the
  state; \<open>e\<close> counts the token of the current iteration.
\<close>

definition out_ok :: "nat \<Rightarrow> compress_state \<Rightarrow> token list list \<Rightarrow> token list \<Rightarrow> bool" where
  "out_ok e s gs g \<longleftrightarrow> groups_at (cs_out s) 2 gs \<and> (\<forall>x\<in>set gs. length x = 8) \<and> cs_ptag s = 2 + groups_len gs \<and>
     toks_at (cs_out s) (cs_ptag s + 1) g \<and> cs_xout s = cs_ptag s + 1 + toks_len g \<and> length g + cs_ntag s = 8 + e \<and>
     tag_ok (cs_tag s) g \<and> (\<forall>k\<ge>length g. \<not> bit (cs_tag s) k)"

lemma out_ok_cong:
  "cs_out s' = cs_out s \<Longrightarrow> cs_ptag s' = cs_ptag s \<Longrightarrow> cs_xout s' = cs_xout s \<Longrightarrow> cs_ntag s' = cs_ntag s \<Longrightarrow> cs_tag s' = cs_tag s \<Longrightarrow>
     out_ok e s' gs g = out_ok e s gs g"
  by (simp add: out_ok_def)

lemma out_ok_snoc:
  assumes "out_ok 0 s gs g" "toks_at out' (cs_xout s) [t]" "\<And>j. j < cs_xout s \<Longrightarrow> out' j = cs_out s j"
    and "cs_out s' = out'" "cs_ptag s' = cs_ptag s" "cs_xout s' = cs_xout s + tok_len t" "cs_ntag s' = cs_ntag s"
    and "\<And>k. bit (cs_tag s') k \<longleftrightarrow> (if k = length g then is_phr t else bit (cs_tag s) k)"
  shows "out_ok 1 s' gs (g @ [t])"
proof -
  have x: "cs_ptag s = 2 + groups_len gs" "cs_xout s = cs_ptag s + 1 + toks_len g" using assms(1) by (simp_all add: out_ok_def)
  have "groups_at out' 2 gs" "toks_at out' (cs_ptag s + 1) g"
    using groups_at_cong [of 2 gs out' "cs_out s"] toks_at_cong [of "cs_ptag s + 1" g out' "cs_out s"] assms(1,3) x
    by (simp_all add: out_ok_def)
  then show ?thesis
    using assms x by (auto simp: out_ok_def toks_at_snoc tag_ok_def nth_append less_Suc_eq add.assoc)
qed

lemma put_literal_ok:
  assumes "out_ok 0 s gs g"
  shows "out_ok 1 (put_literal inbuf s b) gs (g @ [Sym (inbuf (cs_i s))])"
  using assms by (intro out_ok_snoc [OF assms]) (auto simp: put_literal_def out_ok_def)

lemma put_phrase_ok:
  assumes "out_ok 0 s gs g" "0 < cs_ntag s"
  shows "out_ok 1 (put_phrase s q) gs (g @ [Phr (ucast q)])"
proof (rule out_ok_snoc [OF assms(1)])
  have "8 + k mod 8 = k" if "k div 8 = Suc 0" for k :: nat using that div_mult_mod_eq [of k 8] by simp
  then have "le16_at ((cs_out s)(cs_xout s := ucast q, cs_xout s + 1 := ucast (drop_bit 8 q))) (cs_xout s) = ucast q"
    by (intro bit_word_eqI) (auto simp: bit_ld_word bit_simps)
  then show "toks_at ((cs_out s)(cs_xout s := ucast q, cs_xout s + 1 := ucast (drop_bit 8 q))) (cs_xout s) [Phr (ucast q)]" by simp
  have "8 - cs_ntag s = length g" "length g < 8" "\<not> bit (cs_tag s) (length g)" using assms by (auto simp: out_ok_def)
  then show "bit (cs_tag (put_phrase s q)) k \<longleftrightarrow> (if k = length g then is_phr (Phr (ucast q)) else bit (cs_tag s) k)" for k
    by (auto simp: put_phrase_def bit_simps)
qed (simp_all add: put_phrase_def)

lemma store_tag_ok:
  assumes "out_ok 1 s gs g" "0 < cs_ntag s"
  shows "\<exists>gs' g'. out_ok 0 (store_tag s) gs' g' \<and> 0 < cs_ntag (store_tag s) \<and> concat gs' @ g' = concat gs @ g"
proof (cases "cs_ntag s - 1 = 0")
  case True
  let ?out = "(cs_out s)(cs_ptag s := cs_tag s)"
  have x: "cs_ptag s = 2 + groups_len gs" "cs_xout s = cs_ptag s + 1 + toks_len g" using assms by (simp_all add: out_ok_def)
  have "groups_at ?out 2 gs" "toks_at ?out (cs_ptag s + 1) g"
    using groups_at_cong [of 2 gs ?out "cs_out s"] toks_at_cong [of "cs_ptag s + 1" g ?out "cs_out s"] assms x by (simp_all add: out_ok_def)
  moreover have "length g = 8" using assms True by (simp add: out_ok_def)
  ultimately have "out_ok 0 (store_tag s) (gs @ [g]) []"
    using assms x True by (auto simp: out_ok_def store_tag_def Let_def groups_at_snoc tag_ok_def)
  then show ?thesis by (intro exI [of _ "gs @ [g]"] exI [of _ "[]"]) (simp add: store_tag_def Let_def True)
next
  case False
  then have "out_ok 0 (store_tag s) gs g" using assms by (auto simp: out_ok_def store_tag_def Let_def)
  then show ?thesis using False by (intro exI [of _ gs] exI [of _ g]) (simp add: store_tag_def Let_def)
qed

section \<open>The search for the next token\<close>

definition bp_ok :: "nat \<Rightarrow> nat \<Rightarrow> bool" where
  "bp_ok bp i \<longleftrightarrow> 4 \<le> bp \<and> (bp = 4 \<or> 2 ^ (bp - 1) < i)"

lemma bp_ok_le: "bp_ok bp i \<Longrightarrow> i \<le> 4096 \<Longrightarrow> bp \<le> 12"
proof (rule ccontr)
  assume b: "bp_ok bp i" "i \<le> 4096" "\<not> bp \<le> 12"
  then have "(2 :: nat) ^ 12 \<le> 2 ^ (bp - 1)" by (intro power_increasing) simp_all
  then show False using b by (auto simp: bp_ok_def)
qed

lemma bp_ok_mono: "bp_ok bp i \<Longrightarrow> i \<le> j \<Longrightarrow> bp_ok bp j"
  by (auto simp: bp_ok_def)

text \<open>
  The state of the search for position \<open>i\<close>: \<open>p\<close> bounds the positions in the hash chains.
\<close>

definition search_ok :: "nat \<Rightarrow> nat \<Rightarrow> compress_state \<Rightarrow> bool" where
  "search_ok i p s \<longleftrightarrow> bp_ok (cs_bp s) i \<and> cx_mxsz (cs_cx s) = 2 ^ (16 - cs_bp s) + 2 \<and> cx_chains p (cs_cx s)"

lemma cs_grow_ok:
  assumes "search_ok i p s" "2 ^ cs_bp s < j" "i \<le> j" "j \<le> 4096"
  shows "search_ok j p (cs_grow s)"
proof -
  have "bp_ok (cs_bp s) j" using assms bp_ok_mono by (auto simp: search_ok_def)
  then have "cs_bp s \<le> 12" using bp_ok_le assms(4) by blast
  then have "(2 :: nat) ^ (16 - cs_bp s) = 2 * 2 ^ (15 - cs_bp s)" by (simp add: Suc_diff_le flip: power_Suc)
  then show ?thesis using assms by (auto simp: search_ok_def bp_ok_def cs_grow_def)
qed

text \<open>Only the search has moved on.\<close>

definition same_out :: "compress_state \<Rightarrow> compress_state \<Rightarrow> bool" where
  "same_out s' s \<longleftrightarrow> cs_out s' = cs_out s \<and> cs_ptag s' = cs_ptag s \<and> cs_xout s' = cs_xout s \<and> cs_ntag s' = cs_ntag s \<and>
     cs_tag s' = cs_tag s \<and> cs_i s' = cs_i s \<and> cs_have_match s' = cs_have_match s"

lemma grow_loop_ok:
  "search_ok (cs_i s) p s \<Longrightarrow> cs_i s \<le> 4096 \<Longrightarrow> search_ok (cs_i s) p (grow_loop s) \<and> cs_i s \<le> 2 ^ cs_bp (grow_loop s) \<and>
     same_out (grow_loop s) s"
proof (induction s rule: grow_loop.induct)
  case (1 s)
  show ?case
  proof (cases "2 ^ cs_bp s < cs_i s")
    case True
    have i: "cs_i (cs_grow s) = cs_i s" by (simp add: cs_grow_def)
    have "search_ok (cs_i s) p (cs_grow s)" using cs_grow_ok [OF 1(2) True] 1(3) by simp
    then have "search_ok (cs_i s) p (grow_loop (cs_grow s)) \<and> cs_i s \<le> 2 ^ cs_bp (grow_loop (cs_grow s)) \<and>
       same_out (grow_loop (cs_grow s)) (cs_grow s)"
      using 1(1) [OF True] 1(3) i by simp
    moreover have "grow_loop s = grow_loop (cs_grow s)" using True by (subst grow_loop.simps) simp
    ultimately show ?thesis by (simp add: same_out_def cs_grow_def)
  next
    case False
    then have "grow_loop s = s" by (subst grow_loop.simps) simp
    then show ?thesis using False 1(2) by (simp add: same_out_def)
  qed
qed

text \<open>Between two iterations: a match that was found ahead is one for the current position.\<close>

definition ahead_ok :: "mem \<Rightarrow> nat \<Rightarrow> compress_state \<Rightarrow> bool" where
  "ahead_ok inbuf n s \<longleftrightarrow>
     (if cs_have_match s
      then search_ok (cs_i s) (Suc (cs_i s)) s \<and> cs_i s \<le> 2 ^ cs_bp s \<and> found inbuf n (cx_mxsz (cs_cx s)) (cs_i s) (cx_size (cs_cx s)) (cx_rel (cs_cx s))
      else search_ok (cs_i s) (cs_i s) s)"

lemma find_here_ok:
  assumes "ahead_ok inbuf n s" "cs_i s < n" "n \<le> 4096" "s1 = find_here inbuf n s"
  shows "search_ok (cs_i s) (Suc (cs_i s)) s1 \<and> cs_i s \<le> 2 ^ cs_bp s1 \<and> same_out s1 s \<and>
     (3 \<le> cx_size (cs_cx s1) \<longrightarrow> found inbuf n (cx_mxsz (cs_cx s1)) (cs_i s) (cx_size (cs_cx s1)) (cx_rel (cs_cx s1)))"
proof (cases "cs_have_match s")
  case True
  then show ?thesis using assms by (simp add: ahead_ok_def find_here_def same_out_def)
next
  case False
  define g where "g = grow_loop s"
  have so: "search_ok (cs_i s) (cs_i s) s" using assms(1) False by (simp add: ahead_ok_def)
  have g: "search_ok (cs_i s) (cs_i s) g" "cs_i s \<le> 2 ^ cs_bp g" "same_out g s"
    using grow_loop_ok [OF so] assms(2,3) by (simp_all add: g_def)
  define cx' where "cx' = ntfs_best_match inbuf n (cs_cx g) (cs_i s) 2"
  have s1: "s1 = g\<lparr>cs_cx := cx'\<rparr>" using assms(4) False g(3) by (simp add: find_here_def g_def [symmetric] cx'_def same_out_def)
  have "cx_chains (Suc (cs_i s)) cx' \<and> cx_mxsz cx' = cx_mxsz (cs_cx g) \<and> 2 \<le> cx_size cx' \<and>
      (cx_size cx' = 2 \<or> found inbuf n (cx_mxsz (cs_cx g)) (cs_i s) (cx_size cx') (cx_rel cx'))"
    using best_match_ok [OF _ le_refl _ cx'_def] g(1) by (simp add: search_ok_def)
  then show ?thesis using g s1 by (auto simp: search_ok_def same_out_def)
qed

lemma look_ahead_ok:
  assumes "search_ok i (Suc i) s" "i = cs_i s" "i \<le> 2 ^ cs_bp s" "i < n" "n \<le> 4096" "3 \<le> len" "s2 = look_ahead inbuf n s len"
  shows "search_ok (Suc i) (Suc (Suc i)) s2 \<and> Suc i \<le> 2 ^ cs_bp s2 \<and> same_out s2 s \<and>
     (len < cx_size (cs_cx s2) \<longrightarrow> found inbuf n (cx_mxsz (cs_cx s2)) (Suc i) (cx_size (cs_cx s2)) (cx_rel (cs_cx s2)))"
proof -
  define g where "g = (if 2 ^ cs_bp s < i + 1 then cs_grow s else s)"
  have "search_ok (Suc i) (Suc i) g"
    using cs_grow_ok [OF assms(1), of "Suc i"] assms(1,4,5) bp_ok_mono by (auto simp: g_def search_ok_def)
  moreover have "(1 :: nat) \<le> 2 ^ cs_bp s" by simp
  then have "Suc i \<le> 2 * 2 ^ cs_bp s" using assms(3) by linarith
  then have "Suc i \<le> 2 ^ cs_bp g" by (cases "2 ^ cs_bp s < i + 1") (simp_all add: g_def cs_grow_def)
  moreover have "same_out g s" by (simp add: g_def cs_grow_def same_out_def)
  ultimately have g: "search_ok (Suc i) (Suc i) g" "Suc i \<le> 2 ^ cs_bp g" "same_out g s" by blast+
  define cx' where "cx' = ntfs_best_match inbuf n (cs_cx g) (Suc i) len"
  have s2: "s2 = g\<lparr>cs_cx := cx'\<rparr>" using assms(2,7) by (simp add: look_ahead_def Let_def g_def cx'_def)
  have "cx_chains (Suc (Suc i)) cx' \<and> cx_mxsz cx' = cx_mxsz (cs_cx g) \<and> len \<le> cx_size cx' \<and>
      (cx_size cx' = len \<or> found inbuf n (cx_mxsz (cs_cx g)) (Suc i) (cx_size cx') (cx_rel cx'))"
    using best_match_ok [OF _ le_refl _ cx'_def] g(1) assms(6) by (simp add: search_ok_def)
  then show ?thesis using g s2 by (auto simp: search_ok_def same_out_def)
qed

lemma skip_positions_ok:
  assumes "search_ok i p s" "i \<le> j" "p \<le> a" "a \<le> j"
  shows "search_ok j j (skip_positions inbuf n s a j)"
proof -
  have "cx_chains b (fold (\<lambda>i cx. ntfs_skip_position inbuf n cx i) [a..<b] cx) \<and>
      cx_mxsz (fold (\<lambda>i cx. ntfs_skip_position inbuf n cx i) [a..<b] cx) = cx_mxsz cx" if "a \<le> b" "cx_chains a cx" for b cx
    using that by (induction b rule: dec_induct) (simp_all add: skip_position_ok [OF _ le_refl])
  moreover have "cx_chains a (cs_cx s)" using assms(1,3) unfolding search_ok_def cx_chains_def by (meson lessThan_subset_iff subset_trans)
  ultimately show ?thesis using assms bp_ok_mono by (auto simp: search_ok_def skip_positions_def)
qed

declare tok_ok.simps [simp del] tok_next.simps [simp del]

lemma search_ok_cong: "cs_bp s' = cs_bp s \<Longrightarrow> cs_cx s' = cs_cx s \<Longrightarrow> search_ok i p s' = search_ok i p s"
  by (simp add: search_ok_def)

text \<open>A state between iterations, with the tokens written so far.\<close>

definition comp_ok :: "mem \<Rightarrow> nat \<Rightarrow> compress_state \<Rightarrow> token list list \<Rightarrow> token list \<Rightarrow> bool" where
  "comp_ok inbuf n s gs g \<longleftrightarrow> out_ok 0 s gs g \<and> 0 < cs_ntag s \<and> ahead_ok inbuf n s"

lemma same_out_ok: "same_out s' s \<Longrightarrow> out_ok e s' gs g = out_ok e s gs g"
  by (rule out_ok_cong) (simp_all add: same_out_def)

lemma found_phrase:
  assumes "found inbuf n (cx_mxsz (cs_cx s)) i len rel" "3 \<le> len" "search_ok i p s" "i \<le> 2 ^ cs_bp s" "i < n" "n \<le> 4096"
  shows "tok_ok inbuf n i (Phr (ucast (phrase_token rel (cs_bp s) len)))" "tok_next (Phr (ucast (phrase_token rel (cs_bp s) len))) i = i + len"
  using phrase_ok [of inbuf n "cs_bp s" i len rel] assms bp_ok_le [of "cs_bp s" i] by (simp_all add: search_ok_def bp_ok_def)

lemma skip_positions_out: "out_ok e (skip_positions inbuf n s a j) gs g = out_ok e s gs g"
  by (simp add: out_ok_def skip_positions_def)

lemma long_match_ok:
  assumes "out_ok 0 s gs g" "0 < cs_ntag s" "search_ok (cs_i s) (Suc (cs_i s)) s" "3 \<le> len" "long_match inbuf n s len q = (b, s')"
  shows "if b then out_ok 0 s' gs (g @ [Phr (ucast q)]) \<and> cs_i s' = n \<and> cs_i s' = cs_i s + len
    else out_ok 1 s' gs (g @ [Phr (ucast q)]) \<and> 0 < cs_ntag s' \<and> ahead_ok inbuf n s' \<and> cs_i s' = cs_i s + len"
proof (cases "cs_i s + len = n")
  case True
  then have "b" "s' = (put_phrase s q)\<lparr>cs_i := n, cs_ntag := cs_ntag s - 1\<rparr>"
    using assms(5) by (auto simp: long_match_def Let_def put_phrase_def)
  then show ?thesis using put_phrase_ok [OF assms(1,2), of q] True assms(2) by (auto simp: out_ok_def put_phrase_def)
next
  case False
  then have s': "\<not> b" "s' = skip_positions inbuf n (put_phrase s q) (cs_i s + 1) (cs_i s + len)"
    using assms(5) by (auto simp: long_match_def Let_def)
  have "search_ok (cs_i s) (Suc (cs_i s)) (put_phrase s q)" using assms(3) by (simp add: search_ok_def put_phrase_def)
  then have "search_ok (cs_i s + len) (cs_i s + len) s'" using skip_positions_ok assms(4) s'(2) by simp
  then show ?thesis using put_phrase_ok [OF assms(1,2), of q] s' assms(2)
    by (simp add: skip_positions_out ahead_ok_def) (simp add: skip_positions_def put_phrase_def)
qed

lemma lazy_match_ok:
  assumes "out_ok 0 s gs g" "0 < cs_ntag s" "search_ok i (Suc i) s" "i = cs_i s" "i \<le> 2 ^ cs_bp s" "i < n" "n \<le> 4096" "3 \<le> len"
    and "s' = lazy_match inbuf n s len q"
  shows "(\<exists>t\<in>{Sym (inbuf i), Phr (ucast q)}. out_ok 1 s' gs (g @ [t]) \<and> cs_i s' = (if is_phr t then i + len else Suc i)) \<and>
    0 < cs_ntag s' \<and> ahead_ok inbuf n s'"
proof -
  define s2 where "s2 = look_ahead inbuf n s len"
  note la = look_ahead_ok [OF assms(3-8) s2_def]
  then have so: "same_out s2 s" by simp
  have o2: "out_ok 0 s2 gs g" "0 < cs_ntag s2" "cs_i s2 = i" using assms(1,2,4) same_out_ok [OF so] so by (simp_all add: same_out_def)
  show ?thesis
  proof (cases "len < cx_size (cs_cx s2)")
    case True
    then have s': "s' = put_literal inbuf s2 True" using assms(4,9) by (simp add: lazy_match_def Let_def s2_def [symmetric])
    then have f: "cs_bp s' = cs_bp s2" "cs_cx s' = cs_cx s2" "cs_i s' = Suc i" "cs_have_match s'" using o2(3) by (simp_all add: put_literal_def)
    then have "ahead_ok inbuf n s'" using la True search_ok_cong [OF f(1,2)] by (simp add: ahead_ok_def)
    then show ?thesis using put_literal_ok [OF o2(1), of inbuf True] s' o2 by (simp add: put_literal_def)
  next
    case False
    then have s': "s' = skip_positions inbuf n (put_phrase s2 q) (i + 2) (i + len)" using assms(4,9) by (simp add: lazy_match_def Let_def s2_def [symmetric])
    have "search_ok (Suc i) (Suc (Suc i)) (put_phrase s2 q)" using la by (simp add: search_ok_def put_phrase_def)
    then have "search_ok (i + len) (i + len) s'" using skip_positions_ok assms(8) s' by simp
    then show ?thesis using put_phrase_ok [OF o2(1,2), of q] s' o2(2)
      by (simp add: skip_positions_out ahead_ok_def) (simp add: skip_positions_def put_phrase_def)
  qed
qed

lemma compress_step_ok:
  assumes "comp_ok inbuf n s gs g" "cs_i s < n" "n \<le> 4096" "compress_step inbuf n s = (b, s')"
  shows "\<exists>t. tok_ok inbuf n (cs_i s) t \<and> cs_i s' = tok_next t (cs_i s) \<and>
     (if b then out_ok 0 s' gs (g @ [t]) \<and> cs_i s' = n else out_ok 1 s' gs (g @ [t]) \<and> 0 < cs_ntag s' \<and> ahead_ok inbuf n s')"
proof -
  define i s1 where "i = cs_i s" and "s1 = find_here inbuf n s"
  have co: "out_ok 0 s gs g" "0 < cs_ntag s" "ahead_ok inbuf n s" using assms(1) by (simp_all add: comp_ok_def)
  note fh = find_here_ok [OF co(3) assms(2,3) s1_def, folded i_def]
  then have so: "same_out s1 s" by simp
  have o1: "out_ok 0 s1 gs g" "0 < cs_ntag s1" "cs_i s1 = i" using co same_out_ok [OF so] so by (simp_all add: same_out_def i_def)
  define len q where "len = cx_size (cs_cx s1)" and "q = phrase_token (cx_rel (cs_cx s1)) (cs_bp s1) len"
  show ?thesis
  proof (cases "3 \<le> len")
    case True
    then have ph: "tok_ok inbuf n i (Phr (ucast q))" "tok_next (Phr (ucast q)) i = i + len"
      using found_phrase [of inbuf n s1 i len "cx_rel (cs_cx s1)" "Suc i"] fh assms(2,3) by (simp_all add: len_def q_def i_def)
    show ?thesis
    proof (cases "len \<ge> NICE_MATCH_LEN")
      case nice: True
      then have "long_match inbuf n s1 len q = (b, s')" using True assms(4) by (simp add: compress_step_def Let_def s1_def [symmetric] len_def q_def)
      from long_match_ok [OF o1(1,2) _ True this] fh o1(3) ph show ?thesis unfolding i_def [symmetric] by (intro exI [of _ "Phr (ucast q)"]) (auto split: if_splits)
    next
      case False
      then have "\<not> b" "s' = lazy_match inbuf n s1 len q" using True assms(4) by (auto simp: compress_step_def Let_def s1_def [symmetric] len_def q_def)
      moreover have "tok_ok inbuf n i (Sym (inbuf i))" "tok_next (Sym (inbuf i)) i = Suc i"
        using assms(2) by (simp_all add: tok_ok.simps tok_next.simps i_def)
      ultimately show ?thesis
        using lazy_match_ok [OF o1(1,2) _ o1(3) [symmetric] _ _ assms(3) True, of s' inbuf q] fh ph assms(2)
        unfolding i_def [symmetric] by fastforce
    qed
  next
    case False
    then have s': "\<not> b" "s' = put_literal inbuf s1 False" using assms(4) by (auto simp: compress_step_def Let_def s1_def [symmetric] len_def)
    have "ahead_ok inbuf n s'" using fh s'(2) o1(3) bp_ok_mono [of _ i "Suc i"] by (simp add: ahead_ok_def search_ok_def put_literal_def)
    moreover have "tok_ok inbuf n i (Sym (inbuf i))" using assms(2) by (simp add: i_def tok_ok.simps)
    ultimately show ?thesis
      using put_literal_ok [OF o1(1), of inbuf False] s' o1 by (intro exI [of _ "Sym (inbuf i)"]) (simp add: put_literal_def i_def tok_next.simps)
  qed
qed

section \<open>Round trip\<close>

lemma tok_next_le: "tok_ok inbuf n i t \<Longrightarrow> tok_next t i \<le> n"
  by (cases t) (simp_all add: tok_ok.simps tok_next.simps)

lemma toks_ok_snoc: "toks_ok inbuf n i ts \<Longrightarrow> tok_ok inbuf n (toks_end ts i) t \<Longrightarrow> toks_ok inbuf n i (ts @ [t])"
  by (induction ts arbitrary: i) (simp_all add: tok_next_le)

text \<open>What the loop has written when it ends.\<close>

definition written_ok :: "mem \<Rightarrow> nat \<Rightarrow> compress_state \<Rightarrow> bool" where
  "written_ok inbuf n s \<longleftrightarrow>
     (\<exists>gs g. out_ok 0 s gs g \<and> toks_ok inbuf n 0 (concat gs @ g) \<and> toks_end (concat gs @ g) 0 = cs_i s)"

lemma ahead_ok_store: "ahead_ok inbuf n (store_tag s) = ahead_ok inbuf n s"
  by (simp add: ahead_ok_def search_ok_def store_tag_def Let_def)

lemma compress_loop_ok:
  assumes "comp_ok inbuf n s gs g" "toks_ok inbuf n 0 (concat gs @ g)" "toks_end (concat gs @ g) 0 = cs_i s" "n \<le> 4096"
  shows "written_ok inbuf n (compress_loop inbuf n s)"
  using assms
proof (induction inbuf n s arbitrary: gs g rule: compress_loop.induct)
  case (1 inbuf n s)
  show ?case
  proof (cases "cs_i s < n \<and> cs_xout s < NTFS_SB_SIZE + 2")
    case True
    obtain b s' where st: "compress_step inbuf n s = (b, s')" by (meson surj_pair)
    obtain t where t: "tok_ok inbuf n (cs_i s) t" "cs_i s' = tok_next t (cs_i s)"
      "if b then out_ok 0 s' gs (g @ [t]) \<and> cs_i s' = n else out_ok 1 s' gs (g @ [t]) \<and> 0 < cs_ntag s' \<and> ahead_ok inbuf n s'"
      using compress_step_ok [OF 1(2) _ 1(5) st] True by blast
    have w: "toks_ok inbuf n 0 (concat gs @ g @ [t])" "toks_end (concat gs @ g @ [t]) 0 = cs_i s'"
      using toks_ok_snoc [OF 1(3)] 1(4) t(1,2) by simp_all
    show ?thesis
    proof (cases b)
      case b: True
      then have "compress_loop inbuf n s = s'" using True st by (subst compress_loop.simps) simp
      then show ?thesis using t(3) w b unfolding written_ok_def by (intro exI [of _ gs] exI [of _ "g @ [t]"]) simp
    next
      case False
      obtain gs' g' where g': "out_ok 0 (store_tag s') gs' g'" "0 < cs_ntag (store_tag s')" "concat gs' @ g' = concat gs @ g @ [t]"
        using store_tag_ok [of s' gs "g @ [t]"] t(3) False by auto
      have "comp_ok inbuf n (store_tag s') gs' g'" using g' t(3) False by (simp add: comp_ok_def ahead_ok_store)
      moreover have "compress_loop inbuf n s = compress_loop inbuf n (store_tag s')" using True False st by (subst compress_loop.simps) simp
      ultimately show ?thesis using 1(1) [of False s' gs' g'] True False st w g'(3) 1(5) by simp
    qed
  next
    case False
    then have "compress_loop inbuf n s = s" by (subst compress_loop.simps) (simp only: if_False)
    then show ?thesis using 1(2-4) unfolding written_ok_def comp_ok_def by auto
  qed
qed

lemma compress_start_ok: "comp_ok inbuf n (compress_start out prev) [] []"
  by (simp add: comp_ok_def compress_start_def out_ok_def ahead_ok_def search_ok_def bp_ok_def cx_chains_def hash_chains_def tag_ok_def)

text \<open>A compressed sub-block: a header, and groups for the whole input.\<close>

lemma full_groups_8: "\<forall>x\<in>set gs. length x = 8 \<Longrightarrow> full_groups gs" "\<forall>x\<in>set gs. length x = 8 \<Longrightarrow> length g \<le> 8 \<Longrightarrow> full_groups (gs @ [g])"
proof -
  show "\<forall>x\<in>set gs. length x = 8 \<Longrightarrow> length g \<le> 8 \<Longrightarrow> full_groups (gs @ [g])"
  proof (induction gs)
    case (Cons h gs)
    then show ?case by (cases gs) simp_all
  qed simp
  show "\<forall>x\<in>set gs. length x = 8 \<Longrightarrow> full_groups gs" by (induction gs rule: full_groups.induct) simp_all
qed

definition block_groups :: "mem \<Rightarrow> nat \<Rightarrow> mem \<Rightarrow> nat \<Rightarrow> token list list \<Rightarrow> bool" where
  "block_groups inbuf i out xout gs \<longleftrightarrow> groups_at out 2 gs \<and> full_groups gs \<and> xout = 2 + groups_len gs \<and> toks_end (concat gs) 0 = i"

text \<open>The last tag is stored if it is in use.\<close>

lemma last_tag_ok:
  assumes "out_ok 0 s gs g"
    and "(xout, out) = (if cs_ntag s = 8 then (cs_xout s - 1, cs_out s) else (cs_xout s, (cs_out s)(cs_ptag s := cs_tag s)))"
  shows "\<exists>gs'. concat gs' = concat gs @ g \<and> block_groups inbuf (toks_end (concat gs @ g) 0) out xout gs'"
proof (cases "cs_ntag s = 8")
  case True
  then show ?thesis
    using assms full_groups_8(1) [of gs] by (intro exI [of _ gs]) (auto simp: out_ok_def block_groups_def)
next
  case False
  let ?out = "(cs_out s)(cs_ptag s := cs_tag s)"
  have x: "cs_ptag s = 2 + groups_len gs" "cs_xout s = cs_ptag s + 1 + toks_len g" using assms(1) by (simp_all add: out_ok_def)
  have "groups_at ?out 2 gs" "toks_at ?out (cs_ptag s + 1) g"
    using groups_at_cong [of 2 gs ?out "cs_out s"] toks_at_cong [of "cs_ptag s + 1" g ?out "cs_out s"] assms(1) x by (simp_all add: out_ok_def)
  then have "groups_at ?out 2 (gs @ [g])" using assms(1) x by (simp add: groups_at_snoc out_ok_def)
  moreover have "full_groups (gs @ [g])" using assms(1) by (intro full_groups_8(2)) (auto simp: out_ok_def)
  ultimately show ?thesis using assms(2) False x by (intro exI [of _ "gs @ [g]"]) (simp add: block_groups_def)
qed

lemma header_bytes:
  assumes k: "k < 4096" and m: "m 0 = ucast (of_nat k :: u32)" "m 1 = 0xb0 + (ucast (drop_bit 8 (of_nat k :: u32)) AND 15)"
  shows "unat (le16_at m 0) = 0xb000 + k"
proof -
  have u: "unat (of_nat k :: u32) = k" using k by (simp add: unsigned_of_nat take_bit_eq_mod)
  have "unat (m 0) = k mod 256" unfolding m(1) using u by (simp add: unsigned_ucast_eq take_bit_eq_mod)
  moreover have "unat (m 1) = 176 + k div 256"
  proof -
    let ?w = "ucast (drop_bit 8 (of_nat k :: u32)) :: u8"
    have "unat ?w = k div 256 mod 256"
      by (simp add: unsigned_ucast_eq drop_bit_eq_div take_bit_eq_mod unat_div_distrib u)
    then have w: "unat ?w = k div 256" "k div 256 < 16" using k by simp_all
    have "?w AND 15 = take_bit 4 ?w" by (simp add: take_bit_eq_mask mask_eq_exp_minus_1)
    then have "unat (?w AND 15) = k div 256" using w by (simp add: take_bit_eq_mod unat_mod_distrib)
    then show ?thesis unfolding m(2) using w(2) by (simp add: unat_word_ariths)
  qed
  ultimately show ?thesis by (simp add: unat_ld_word)
qed

text \<open>The writer either compresses, and the groups of the block stand for the whole input, or copies.\<close>

lemma block_groups_cong:
  assumes "block_groups inbuf i out xout gs" "\<And>j. 2 \<le> j \<Longrightarrow> out' j = out j"
  shows "block_groups inbuf i out' xout gs"
  using assms groups_at_cong [of 2 gs out' out] by (simp add: block_groups_def)

lemma compress_block_groups:
  assumes "ntfs_compress_block True prev inbuf n outbuf = (xout, out)" "0 < n" "n \<le> 4096"
  shows "(\<exists>gs. block_groups inbuf n out xout gs \<and> toks_ok inbuf n 0 (concat gs) \<and> xout < 4098 \<and> unat (le16_at out 0) = 0xb000 + (xout - 3)) \<or>
     xout = 4098 \<and> out 0 = 0xff \<and> out 1 = 0x3f \<and> (\<forall>i<4096. out (i + 2) = (if i < n then inbuf i else 0))"
proof -
  define s where "s = compress_loop inbuf n (compress_start outbuf prev)"
  obtain x o' where xo: "(if cs_ntag s = 8 then (cs_xout s - 1, cs_out s) else (cs_xout s, (cs_out s)(cs_ptag s := cs_tag s))) = (x, o')"
    by (meson surj_pair)
  have e: "ntfs_compress_block True prev inbuf n outbuf = (if cs_i s \<ge> n \<and> x < NTFS_SB_SIZE + 2 then
          let size3 = of_nat x - 3 :: u32 in (x, o'(0 := ucast size3, 1 := 0xb0 + (ucast (drop_bit 8 size3) AND 15)))
        else
          let out = mem_cpy o' 2 inbuf 0 n;
              out = (if n < NTFS_SB_SIZE then mem_set out (n + 2) 0 (NTFS_SB_SIZE - n) else out) in
          (NTFS_SB_SIZE + 2, out(0 := 0xff, 1 := 0x3f)))"
    unfolding ntfs_compress_block_def Let_def s_def [symmetric] xo by simp
  have "written_ok inbuf n s"
    unfolding s_def using compress_loop_ok [OF compress_start_ok, of inbuf n outbuf prev] assms(3) by (simp add: compress_start_def)
  then obtain gs0 g where w: "out_ok 0 s gs0 g" "toks_ok inbuf n 0 (concat gs0 @ g)" "toks_end (concat gs0 @ g) 0 = cs_i s"
    by (auto simp: written_ok_def)
  obtain gs where gs: "concat gs = concat gs0 @ g" "block_groups inbuf (cs_i s) o' x gs" using last_tag_ok [OF w(1) xo [symmetric]] w(3) by auto
  show ?thesis
  proof (cases "cs_i s \<ge> n \<and> x < NTFS_SB_SIZE + 2")
    case True
    then have i: "cs_i s = n" using toks_end_le [OF w(2)] w(3) by simp
    then have "gs \<noteq> []" using gs(2) assms(2) by (auto simp: block_groups_def)
    then have "3 \<le> x" using gs(2) by (cases gs) (simp_all add: block_groups_def)
    then have k: "of_nat x - 3 = (of_nat (x - 3) :: u32)" by (simp add: of_nat_diff)
    have o: "xout = x" "out = o'(0 := ucast (of_nat (x - 3) :: u32), 1 := 0xb0 + (ucast (drop_bit 8 (of_nat (x - 3) :: u32)) AND 15))"
      using assms(1) unfolding e k [symmetric] by (auto simp only: if_P [OF True] Let_def prod.inject)
    have "x - 3 < 4096" using True by (auto simp: NTFS_SB_SIZE_def)
    then have "unat (le16_at out 0) = 0xb000 + (xout - 3)" unfolding o(1) by (rule header_bytes) (simp_all add: o(2))
    moreover have "block_groups inbuf n out xout gs" unfolding o(1) by (rule block_groups_cong [OF gs(2) [unfolded i]]) (simp add: o(2))
    ultimately show ?thesis using w(2) gs(1) True o(1) by (auto simp: NTFS_SB_SIZE_def)
  next
    case False
    then have "xout = 4098" "out = (if n < NTFS_SB_SIZE then mem_set (mem_cpy o' 2 inbuf 0 n) (n + 2) 0 (NTFS_SB_SIZE - n) else mem_cpy o' 2 inbuf 0 n)(0 := 0xff, 1 := 0x3f)"
      using assms(1) unfolding e by (simp_all only: if_not_P [OF False] Let_def prod.inject) (simp_all add: NTFS_SB_SIZE_def)
    then show ?thesis using assms(3) by (auto simp: mem_cpy_def mem_set_def NTFS_SB_SIZE_def)
  qed
qed

text \<open>What the reader sees of the two headers.\<close>

lemma header_compressed:
  fixes h :: u16
  assumes "unat h = 0xb000 + k" "k < 4096"
  shows "h \<noteq> 0" "unat (h AND NTFS_SB_SIZE_MASK) = k" "h AND NTFS_SB_IS_COMPRESSED \<noteq> 0"
proof -
  show "h \<noteq> 0" using assms by auto
  have "h AND NTFS_SB_SIZE_MASK = take_bit 12 h" by (simp add: NTFS_SB_SIZE_MASK_def take_bit_eq_mask mask_eq_exp_minus_1)
  moreover have "(0xb000 + k) mod 4096 = k" using mod_mult_self4 [of 4096 11 k] assms(2) by simp
  ultimately show "unat (h AND NTFS_SB_SIZE_MASK) = k" using assms by (simp add: take_bit_eq_mod unat_mod_distrib)
  have "(0xb000 + k) div 32768 = Suc 0" using assms(2) by (intro div_nat_eqI) simp_all
  then have "bit (unat h) 15" using assms(1) by (simp add: bit_iff_odd)
  then have "bit h 15" by (simp add: bit_unsigned_iff)
  then have "bit (h AND NTFS_SB_IS_COMPRESSED) 15" by (simp add: NTFS_SB_IS_COMPRESSED_def bit_simps)
  then show "h AND NTFS_SB_IS_COMPRESSED \<noteq> 0" by auto
qed

lemma sb_loop_last: "sb_loop cbuf cb_end d c dst d = (True, dst)"
  by (subst sb_loop.simps) simp

lemma sb_loop_copied:
  assumes "cbuf 0 = 0xff" "cbuf 1 = 0x3f" "4098 \<le> cb_end"
  shows "sb_loop cbuf cb_end 4096 0 dst 0 = (True, mem_cpy dst 0 cbuf 2 4096)"
proof -
  have "le16_at cbuf 0 = 0x3fff" using assms by (simp add: ld_word_def)
  then show ?thesis
    using assms(3) by (subst sb_loop.simps) (simp add: NTFS_SB_SIZE_MASK_def NTFS_SB_IS_COMPRESSED_def NTFS_SB_SIZE_def sb_loop_last flip: numeral_2_eq_2)
qed

lemma sb_loop_compressed:
  assumes "unat (le16_at cbuf 0) = 0xb000 + (xout - 3)" "3 \<le> xout" "xout < 4098" "max 6 xout \<le> cb_end" "tag_loop cbuf xout 0 2 dst 0 = (True, dst', 4096)"
  shows "sb_loop cbuf cb_end 4096 0 dst 0 = (True, dst')"
proof -
  have "xout - 3 < 4096" using assms(2,3) by simp
  note h = header_compressed [OF assms(1) this]
  have x: "xout - 3 + 3 = xout" using assms(2) by simp
  show ?thesis
    using assms(4,5) h x by (subst sb_loop.simps) (simp add: NTFS_SB_SIZE_def sb_loop_last flip: numeral_2_eq_2)
qed

lemma compress_decompress:
  assumes c: "ntfs_compress_block True prev inbuf n outbuf = (xout, out)" and n: "0 < n" "n \<le> 4096"
    and cb: "\<And>i. i < xout \<Longrightarrow> cbuf i = out i" "max 6 xout \<le> cb_size"
  shows "\<exists>dst'. sb_loop cbuf cb_size 4096 0 dst 0 = (True, dst') \<and> (\<forall>i<4096. dst' i = (if i < n then inbuf i else 0))"
  using compress_block_groups [OF c n]
proof (elim disjE exE conjE)
  fix gs
  assume g: "block_groups inbuf n out xout gs" "toks_ok inbuf n 0 (concat gs)" "xout < 4098" "unat (le16_at out 0) = 0xb000 + (xout - 3)"
  have "gs \<noteq> []" using g(1) n by (auto simp: block_groups_def)
  then have x: "3 \<le> xout" using g(1) by (cases gs) (simp_all add: block_groups_def)
  have "groups_at cbuf 2 gs" using g(1) cb(1) groups_at_cong [of 2 gs cbuf out] by (simp add: block_groups_def)
  then obtain dst' where d: "tag_loop cbuf xout 0 2 dst (0 + 0) = (True, dst', 0 + NTFS_SB_SIZE)"
    "holds (\<lambda>k. if k < toks_end (concat gs) 0 then inbuf k else 0) dst' 0 NTFS_SB_SIZE"
    using tag_loop_groups [OF g(2), of cbuf 2 xout dst 0] g(1) n by (auto simp: block_groups_def holds_def NTFS_SB_SIZE_def)
  have "le16_at cbuf 0 = le16_at out 0" using cb(1) x by (simp add: ld_word_def)
  then have "sb_loop cbuf cb_size 4096 0 dst 0 = (True, dst')"
    using d(1) g(3,4) x cb(2) by (intro sb_loop_compressed [of _ xout]) (simp_all add: NTFS_SB_SIZE_def)
  moreover have "toks_end (concat gs) 0 = n" using g(1) by (simp add: block_groups_def)
  ultimately show ?thesis using d(2) by (auto simp: holds_def NTFS_SB_SIZE_def)
next
  assume g: "xout = 4098" "out 0 = 0xff" "out 1 = 0x3f" "\<forall>i<4096. out (i + 2) = (if i < n then inbuf i else 0)"
  then show ?thesis
    using cb sb_loop_copied [of cbuf cb_size dst] by (auto simp: mem_cpy_def)
qed

text \<open>
  C8. A sub-block that \<open>ntfs_compress_block\<close> writes, compressed or copied, is read back by
  \<open>ntfs_decompress\<close> as the bytes it was given, up to 4096 of them, and zeroes after them, whatever
  the uninitialised hash chains and the destination held, and whatever follows in the compression block.
\<close>

theorem compress_round_trip:
  assumes "ntfs_compress_block True prev inbuf n outbuf = (xout, out)" "0 < n" "n \<le> 4096"
    and "\<And>i. i < xout \<Longrightarrow> cb i = out i" "max 6 xout \<le> cb_size"
  shows "\<exists>dest'. ntfs_decompress dest 4096 cb cb_size = (None, dest') \<and>
     (\<forall>i<4096. dest' i = (if i < n then inbuf i else 0))"
  using compress_decompress [OF assms, of dest] by (auto simp: ntfs_decompress_def)

definition text_bytes :: mem where
  "text_bytes i = (if i < 8 then [0x61, 0x62, 0x61, 0x62, 0x61, 0x62, 0x61, 0x62] ! i else 0)"

theorem compress_round_trip_witness:
  "fst (ntfs_compress_block True (\<lambda>_. -1) text_bytes 8 (\<lambda>_. 0)) = 7 \<and>
   (\<exists>dest'. ntfs_decompress (\<lambda>_. 0xff) 4096 (snd (ntfs_compress_block True (\<lambda>_. -1) text_bytes 8 (\<lambda>_. 0))) 4096 = (None, dest') \<and>
     (\<forall>i<4096. dest' i = (if i < 8 then text_bytes i else 0)))"
proof -
  let ?r = "ntfs_compress_block True (\<lambda>_. -1) text_bytes 8 (\<lambda>_. 0)"
  have f: "fst ?r = 7" by code_simp
  then have "?r = (7, snd ?r)" by (metis prod.collapse)
  from compress_round_trip [OF this, of "snd ?r" 4096 "\<lambda>_. 0xff"] f show ?thesis by simp
qed

text \<open>
  A block of seven bytes: the literal a, a phrase that repeats it up to the end of the sub-block,
  and one more literal X.
\<close>

definition overrun_block :: mem where
  "overrun_block i = (if i < 7 then [0x04, 0xb0, 0x02, 0x61, 0xfc, 0x0f, 0x58] ! i else 0)"

lemma overrun_bytes:
  "overrun_block 2 = 2" "overrun_block 3 = 0x61" "overrun_block 6 = 0x58" "le16_at overrun_block 0 = 0xb004" "le16_at overrun_block 4 = 0x0ffc"
  by code_simp+

lemma overrun_tokens:
  "token_loop overrun_block 7 0 8 2 3 dst 0 = (True, 7, (copy_phrase (dst(0 := 0x61)) 1 0 4095)(4096 := 0x58), 4097)"
proof -
  have "lg_loop 0 0 = 0" by (subst lg_loop.simps) simp
  then show ?thesis
    using token_loop.simps(2) [of overrun_block 7 0 7 2 3 dst 0] token_loop.simps(2) [of overrun_block 7 0 6 1 4 "dst(0 := 0x61)" 1]
      token_loop.simps(2) [of overrun_block 7 0 5 0 6 "copy_phrase (dst(0 := 0x61)) 1 0 4095" 4096]
      token_loop.simps(2) [of overrun_block 7 0 4 0 7 "(copy_phrase (dst(0 := 0x61)) 1 0 4095)(4096 := 0x58)" 4097]
    by (simp add: NTFS_SB_SIZE_def overrun_bytes drop_bit_eq_div del: token_loop.simps)
qed

text \<open>
  C10. The bound on every write of \<open>ntfs_decompress\<close> is one byte too large: for this block it returns
  success with a destination of 4096 bytes, and has written the byte after the destination.
\<close>

theorem decompress_overruns:
  "ntfs_decompress dest 4096 overrun_block 7 = (None, (copy_phrase (dest(0 := 0x61)) 1 0 4095)(4096 := 0x58))"
proof -
  have "tag_loop overrun_block 7 0 2 dest 0 = tag_loop overrun_block 7 0 7 ((copy_phrase (dest(0 := 0x61)) 1 0 4095)(4096 := 0x58)) 4097"
    by (subst tag_loop.simps) (simp add: overrun_bytes overrun_tokens del: token_loop.simps)
  also have "\<dots> = (True, (copy_phrase (dest(0 := 0x61)) 1 0 4095)(4096 := 0x58), 4097)"
    by (subst tag_loop.simps) (simp add: NTFS_SB_SIZE_def)
  finally show ?thesis
    unfolding ntfs_decompress_def
    by (subst sb_loop.simps, subst sb_loop.simps)
      (simp add: overrun_bytes NTFS_SB_SIZE_MASK_def NTFS_SB_IS_COMPRESSED_def NTFS_SB_SIZE_def flip: numeral_2_eq_2)
qed

theorem decompress_bounds_witness:
  "snd (ntfs_decompress (\<lambda>_. 0xee) 4096 overrun_block 7) 4097 = 0xee"
  using decompress_bounds [of 4096 4097 "\<lambda>_. 0xee" overrun_block 7] by simp

end
