(* ===== verification/NtUnistr.thy ===== *)
theory NtUnistr
  imports NtTypes "HOL-Library.List_Lexorder" "HOL-Library.Product_Lexorder"
begin

text \<open>
  Unicode names of \<open>unistr.c\<close>: comparison, collation, case mapping and the names that are not
  allowed. A string is an array of 16-bit units, read through a function, with its length beside
  it, as in the code. The upper case table of a volume is such an array too.
\<close>

type_synonym uchars = "nat \<Rightarrow> ntfschar"

text \<open>The unit after mapping through a table of \<open>n\<close> entries.\<close>

definition upcased :: "uchars \<Rightarrow> nat \<Rightarrow> ntfschar \<Rightarrow> ntfschar" where
  "upcased upcase n c = (if unat c < n then upcase (unat c) else c)"

section \<open>Comparison\<close>

primrec ucsncmp_loop :: "nat \<Rightarrow> uchars \<Rightarrow> uchars \<Rightarrow> nat \<Rightarrow> int" where
  "ucsncmp_loop 0 s1 s2 i = 0"
| "ucsncmp_loop (Suc n) s1 s2 i =
     (if s1 i < s2 i then -1
      else if s1 i > s2 i then 1
      else if s1 i = 0 then 0
      else ucsncmp_loop n s1 s2 (i + 1))"

definition ntfs_ucsncmp :: "uchars \<Rightarrow> uchars \<Rightarrow> nat \<Rightarrow> int" where
  "ntfs_ucsncmp s1 s2 n = ucsncmp_loop n s1 s2 0"

primrec ucsncasecmp_loop :: "nat \<Rightarrow> uchars \<Rightarrow> uchars \<Rightarrow> nat \<Rightarrow> uchars \<Rightarrow> nat \<Rightarrow> int" where
  "ucsncasecmp_loop 0 s1 s2 i upcase upcase_size = 0"
| "ucsncasecmp_loop (Suc n) s1 s2 i upcase upcase_size =
     (let c1 = upcased upcase upcase_size (s1 i); c2 = upcased upcase upcase_size (s2 i) in
      if c1 < c2 then -1
      else if c1 > c2 then 1
      else if c1 = 0 then 0
      else ucsncasecmp_loop n s1 s2 (i + 1) upcase upcase_size)"

definition ntfs_ucsncasecmp :: "uchars \<Rightarrow> uchars \<Rightarrow> nat \<Rightarrow> uchars \<Rightarrow> nat \<Rightarrow> int" where
  "ntfs_ucsncasecmp s1 s2 n upcase upcase_size = ucsncasecmp_loop n s1 s2 0 upcase upcase_size"

definition ntfs_names_are_equal ::
  "uchars \<Rightarrow> nat \<Rightarrow> uchars \<Rightarrow> nat \<Rightarrow> IGNORE_CASE_BOOL \<Rightarrow> uchars \<Rightarrow> nat \<Rightarrow> bool"
where
  "ntfs_names_are_equal s1 s1_len s2 s2_len ic upcase upcase_size =
     (if s1_len \<noteq> s2_len then False
      else if s1_len = 0 then True
      else if ic = CASE_SENSITIVE then ntfs_ucsncmp s1 s2 s1_len = 0
      else ntfs_ucsncasecmp s1 s2 s1_len upcase upcase_size = 0)"

text \<open>
  The first loop of the collation goes to the first units that differ, or to the last ones, and
  also gives how many units are left after them; the other one does the same with mapped units,
  which it returns.
\<close>

primrec skip_equal :: "nat \<Rightarrow> uchars \<Rightarrow> uchars \<Rightarrow> nat \<Rightarrow> nat \<times> nat" where
  "skip_equal 0 name1 name2 i = (0, i)"
| "skip_equal (Suc cnt) name1 name2 i =
     (if cnt \<noteq> 0 \<and> name1 i = name2 i then skip_equal cnt name1 name2 (i + 1) else (cnt, i))"

primrec collate_loop :: "nat \<Rightarrow> uchars \<Rightarrow> uchars \<Rightarrow> nat \<Rightarrow> uchars \<Rightarrow> nat \<Rightarrow> ntfschar \<times> ntfschar" where
  "collate_loop 0 name1 name2 i upcase upcase_len = (0, 0)"
| "collate_loop (Suc cnt) name1 name2 i upcase upcase_len =
     (let u1 = upcased upcase upcase_len (name1 i); u2 = upcased upcase upcase_len (name2 i) in
      if u1 = u2 \<and> cnt \<noteq> 0 then collate_loop cnt name1 name2 (i + 1) upcase upcase_len else (u1, u2))"

definition three_way :: "'a::linorder \<Rightarrow> 'a \<Rightarrow> int \<Rightarrow> int" where
  "three_way x y r = (if x < y then -1 else if x > y then 1 else r)"

definition ntfs_names_full_collate ::
  "uchars \<Rightarrow> nat \<Rightarrow> uchars \<Rightarrow> nat \<Rightarrow> IGNORE_CASE_BOOL \<Rightarrow> uchars \<Rightarrow> nat \<Rightarrow> int"
where
  "ntfs_names_full_collate name1 name1_len name2 name2_len ic upcase upcase_len =
     (let cnt = min name1_len name2_len in
      if cnt > 0 then
        if ic = CASE_SENSITIVE then
          let (cnt, i) = skip_equal cnt name1 name2 0;
              c1 = name1 i; c2 = name2 i;
              u1 = upcased upcase upcase_len c1; u2 = upcased upcase upcase_len c2;
              (u1, u2) = (if u1 = u2 \<and> cnt \<noteq> 0 then collate_loop cnt name1 name2 (i + 1) upcase upcase_len else (u1, u2)) in
          three_way u1 u2 (three_way name1_len name2_len (three_way c1 c2 0))
        else
          let (u1, u2) = collate_loop cnt name1 name2 0 upcase upcase_len in
          three_way u1 u2 (three_way name1_len name2_len 0)
      else three_way name1_len name2_len 0)"

section \<open>Length and case\<close>

primrec ucsnlen_loop :: "nat \<Rightarrow> uchars \<Rightarrow> nat \<Rightarrow> nat" where
  "ucsnlen_loop 0 s i = i"
| "ucsnlen_loop (Suc n) s i = (if s i = 0 then i else ucsnlen_loop n s (i + 1))"

definition ntfs_ucsnlen :: "uchars \<Rightarrow> nat \<Rightarrow> nat" where
  "ntfs_ucsnlen s maxlen = ucsnlen_loop maxlen s 0"

definition ntfs_name_upcase :: "uchars \<Rightarrow> nat \<Rightarrow> uchars \<Rightarrow> nat \<Rightarrow> uchars" where
  "ntfs_name_upcase name name_len upcase upcase_len =
     fold (\<lambda>i name. if unat (name i) < upcase_len then name(i := upcase (unat (name i))) else name) [0..<name_len] name"

definition ntfs_name_locase :: "uchars \<Rightarrow> nat \<Rightarrow> uchars option \<Rightarrow> nat \<Rightarrow> uchars" where
  "ntfs_name_locase name name_len locase locase_len =
     (case locase of
        None \<Rightarrow> name
      | Some lc \<Rightarrow> fold (\<lambda>i name. if unat (name i) < locase_len then name(i := lc (unat (name i))) else name) [0..<name_len] name)"

definition ntfs_ucsndup :: "bool \<Rightarrow> uchars \<Rightarrow> uchars \<Rightarrow> nat \<Rightarrow> uchars option" where
  "ntfs_ucsndup alloc fresh s maxlen =
     (let len = ntfs_ucsnlen s maxlen in
      if alloc then Some ((\<lambda>i. if i < len then s i else fresh i)(len := 0)) else None)"

section \<open>Names that are not allowed\<close>

definition mainset :: u32 where
  "mainset = push_bit 2 1 OR push_bit 10 1 OR push_bit 15 1 OR push_bit 26 1 OR push_bit 28 1 OR push_bit 30 1 OR push_bit 31 1"

definition forbidden_char :: "ntfschar \<Rightarrow> bool" where
  "forbidden_char ch \<longleftrightarrow> ch < 0x20 \<or> ch < 0x40 \<and> bit mainset (unat (ch - 0x20)) \<or> ch = 0x5c \<or> ch = 0x7c"

definition ntfs_forbidden_chars :: "uchars \<Rightarrow> nat \<Rightarrow> bool \<Rightarrow> bool" where
  "ntfs_forbidden_chars name len strict =
     fold (\<lambda>i forbidden. if forbidden_char (name i) then True else forbidden) [0..<len]
       (len = 0 \<or> strict \<and> (name (len - 1) = 0x20 \<or> name (len - 1) = 0x2e))"

text \<open>The code compares with names of three letters; this is such a name as an array.\<close>

definition name3 :: "ntfschar \<Rightarrow> ntfschar \<Rightarrow> ntfschar \<Rightarrow> uchars" where
  "name3 a b c = (\<lambda>_. 0)(0 := a, 1 := b, 2 := c)"

definition ntfs_forbidden_names :: "uchars \<Rightarrow> nat \<Rightarrow> uchars \<Rightarrow> nat \<Rightarrow> bool \<Rightarrow> bool" where
  "ntfs_forbidden_names upcase upcase_len name len strict =
     (let forbidden = ntfs_forbidden_chars name len strict;
          eq3 = (\<lambda>a b c. ntfs_ucsncasecmp name (name3 a b c) 3 upcase upcase_len = 0);
          ended = len = 3 \<or> name 3 = 0x2e;
          numbered = len > 3 \<and> name 3 \<ge> 0x31 \<and> name 3 \<le> 0x39 \<and> (len = 4 \<or> name 4 = 0x2e) in
      if \<not> forbidden \<and> len \<ge> 3 then
        let h = (unat (name 0 AND 31) * 48) XOR (unat (name 1 AND 31) * 165); c = name 2 AND NOT 0x20 in
        if h mod 23 = 17 then
          if c = 0x4e then ended \<and> (eq3 0x63 0x6f 0x6e \<or> eq3 0x70 0x72 0x6e)
          else if c = 0x58 then ended \<and> eq3 0x61 0x75 0x78
          else if c = 0x4c then ended \<and> eq3 0x6e 0x75 0x6c
          else if c = 0x4d then numbered \<and> eq3 0x63 0x6f 0x6d
          else if c = 0x54 then numbered \<and> eq3 0x6c 0x70 0x74
          else False
        else False
      else forbidden)"

primrec collapsible_loop :: "nat \<Rightarrow> uchars \<Rightarrow> nat \<Rightarrow> uchars \<Rightarrow> uchars \<Rightarrow> nat \<Rightarrow> bool" where
  "collapsible_loop 0 upcase upcase_len shortname longname i = True"
| "collapsible_loop (Suc n) upcase upcase_len shortname longname i =
     (let ch = longname i; cs = shortname i in
      if cs \<noteq> ch \<and> (unat ch \<ge> upcase_len \<or> unat cs \<ge> upcase_len \<or> upcase (unat cs) \<noteq> upcase (unat ch)) then False
      else collapsible_loop n upcase upcase_len shortname longname (i + 1))"

definition ntfs_collapsible_chars :: "uchars \<Rightarrow> nat \<Rightarrow> uchars \<Rightarrow> nat \<Rightarrow> uchars \<Rightarrow> nat \<Rightarrow> bool" where
  "ntfs_collapsible_chars upcase upcase_len shortname shortlen longname longlen =
     (shortlen = longlen \<and> collapsible_loop shortlen upcase upcase_len shortname longname 0)"

section \<open>Collation is an order\<close>

text \<open>The units of a name.\<close>

definition units :: "uchars \<Rightarrow> nat \<Rightarrow> ntfschar list" where
  "units name n = map name [0..<n]"

lemma three_way_same [simp]: "three_way x x r = r"
  by (simp add: three_way_def)

lemma three_way_pair: "three_way (a, b) (c, d) r = three_way a c (three_way b d r)"
  by (auto simp: three_way_def less_prod_def')

lemma three_way_Cons: "three_way (a # x) (b # y) r = three_way a b (three_way x y r)"
  by (auto simp: three_way_def)

lemma three_way_append:
  "length a = length b \<Longrightarrow> three_way (a @ x) (b @ y) r = three_way a b (three_way x y r)"
  by (induction a b rule: list_induct2) (auto simp: three_way_Cons)

lemma three_way_Nil: "three_way [] y r = three_way 0 (length y) r" "three_way x [] r = three_way (length x) 0 r"
  by (cases y; auto simp: three_way_def) (cases x; auto simp: three_way_def)

lemma three_way_cong: "(x = y \<Longrightarrow> r = r') \<Longrightarrow> three_way x y r = three_way x y r'"
  by (auto simp: three_way_def)

definition mapped :: "uchars \<Rightarrow> nat \<Rightarrow> uchars \<Rightarrow> nat \<Rightarrow> nat \<Rightarrow> ntfschar list" where
  "mapped upcase n name i j = map (\<lambda>k. upcased upcase n (name k)) [i..<j]"

lemma mapped_Cons: "i < j \<Longrightarrow> mapped upcase n name i j = upcased upcase n (name i) # mapped upcase n name (Suc i) j"
  by (simp add: mapped_def upt_conv_Cons)

lemma mapped_append: "i \<le> j \<Longrightarrow> j \<le> k \<Longrightarrow> mapped upcase n name i k = mapped upcase n name i j @ mapped upcase n name j k"
  by (simp add: mapped_def) (metis map_append upt_add_eq_append le_add_diff_inverse)

lemma length_mapped [simp]: "length (mapped upcase n name i j) = j - i"
  by (simp add: mapped_def)

lemma mapped_units: "mapped upcase n name 0 k = map (upcased upcase n) (units name k)"
  by (simp add: mapped_def units_def)

lemma collate_loop_three_way:
  "0 < cnt \<Longrightarrow> collate_loop cnt n1 n2 i upcase n = (u1, u2) \<Longrightarrow>
     three_way u1 u2 r = three_way (mapped upcase n n1 i (i + cnt)) (mapped upcase n n2 i (i + cnt)) r"
proof (induction cnt arbitrary: i)
  case (Suc cnt)
  show ?case
  proof (cases "upcased upcase n (n1 i) = upcased upcase n (n2 i) \<and> cnt \<noteq> 0")
    case True
    then show ?thesis using Suc.IH [of "i + 1"] Suc.prems(2) by (simp add: mapped_Cons three_way_Cons)
  next
    case False
    then have u: "u1 = upcased upcase n (n1 i)" "u2 = upcased upcase n (n2 i)" using Suc.prems(2) by (auto simp: Let_def)
    have "three_way u1 u2 r = three_way u1 u2 (three_way (mapped upcase n n1 (Suc i) (i + Suc cnt)) (mapped upcase n n2 (Suc i) (i + Suc cnt)) r)"
      using False u by (intro three_way_cong) (auto simp: mapped_def)
    then show ?thesis using u by (simp add: mapped_Cons three_way_Cons)
  qed
qed simp

lemma skip_equal_ok:
  "0 < cnt \<Longrightarrow> skip_equal cnt n1 n2 i = (c, j) \<Longrightarrow>
     i \<le> j \<and> j + Suc c = i + cnt \<and> (\<forall>k. i \<le> k \<and> k < j \<longrightarrow> n1 k = n2 k) \<and> (c = 0 \<or> n1 j \<noteq> n2 j)"
proof (induction cnt arbitrary: i)
  case (Suc cnt)
  show ?case
  proof (cases "cnt \<noteq> 0 \<and> n1 i = n2 i")
    case True
    then have "skip_equal cnt n1 n2 (i + 1) = (c, j)" using Suc.prems(2) by simp
    note ih = Suc.IH [OF _ this]
    have "n1 k = n2 k" if "i \<le> k" "k < j" for k using ih True that by (cases "k = i") auto
    then show ?thesis using ih True by auto
  next
    case False
    then show ?thesis using Suc.prems(2) by auto
  qed
qed simp

text \<open>Names of which the shorter one ends the comparison of their units.\<close>

lemma three_way_shorter:
  assumes "m = min l1 l2"
  shows "three_way (mapped upcase n n1 0 l1) (mapped upcase n n2 0 l2) r =
     three_way (mapped upcase n n1 0 m) (mapped upcase n n2 0 m) (three_way l1 l2 r)"
proof -
  have "three_way (mapped upcase n n1 m l1) (mapped upcase n n2 m l2) r = three_way l1 l2 r"
  proof (cases "l1 \<le> l2")
    case True
    then have "mapped upcase n n1 m l1 = []" using assms by (simp add: mapped_def)
    then show ?thesis using True assms by (simp only: three_way_Nil length_mapped) (auto simp: three_way_def)
  next
    case False
    then have "mapped upcase n n2 m l2 = []" using assms by (simp add: mapped_def)
    then show ?thesis using False assms by (simp only: three_way_Nil length_mapped) (auto simp: three_way_def)
  qed
  then show ?thesis
    using assms mapped_append [of 0 m l1 upcase n n1] mapped_append [of 0 m l2 upcase n n2]
    by (simp add: three_way_append)
qed

text \<open>The units up to the first difference, and what the comparison of whole names comes to there.\<close>

lemma three_way_at:
  assumes "j < m" "\<And>k. k < j \<Longrightarrow> n1 k = n2 k" "m = Suc j \<or> n1 j \<noteq> n2 j"
  shows "three_way (units n1 m) (units n2 m) 0 = three_way (n1 j) (n2 j) 0"
proof -
  have u: "units n m = units n j @ n j # map n [Suc j..<m]" for n :: uchars
    using assms(1) upt_add_eq_append [of 0 j "m - j"] by (simp add: units_def upt_conv_Cons)
  have "units n1 j = units n2 j" using assms(2) by (simp add: units_def)
  then have "three_way (units n1 m) (units n2 m) 0 = three_way (n1 j) (n2 j) (three_way (map n1 [Suc j..<m]) (map n2 [Suc j..<m]) 0)"
    by (simp add: u three_way_append three_way_Cons)
  also have "\<dots> = three_way (n1 j) (n2 j) 0" using assms(3) by (intro three_way_cong) auto
  finally show ?thesis .
qed

lemma collate_sensitive:
  assumes "0 < m" "m = min l1 l2"
  shows "ntfs_names_full_collate n1 l1 n2 l2 CASE_SENSITIVE upcase n =
     three_way (mapped upcase n n1 0 l1) (mapped upcase n n2 0 l2) (three_way (units n1 l1) (units n2 l2) 0)"
proof -
  let ?up = "upcased upcase n"
  obtain c j where sk: "skip_equal m n1 n2 0 = (c, j)" by (meson surj_pair)
  note s = skip_equal_ok [OF assms(1) sk]
  obtain u1 u2 where u: "collate_loop (Suc c) n1 n2 j upcase n = (u1, u2)" by (meson surj_pair)
  have "ntfs_names_full_collate n1 l1 n2 l2 CASE_SENSITIVE upcase n = three_way u1 u2 (three_way l1 l2 (three_way (n1 j) (n2 j) 0))"
    using u assms sk unfolding ntfs_names_full_collate_def by (auto simp: Let_def split: if_splits)
  also have "\<dots> = three_way (mapped upcase n n1 j m) (mapped upcase n n2 j m) (three_way l1 l2 (three_way (n1 j) (n2 j) 0))"
    using collate_loop_three_way [OF _ u] s by simp
  also have "\<dots> = three_way (mapped upcase n n1 0 m) (mapped upcase n n2 0 m) (three_way l1 l2 (three_way (n1 j) (n2 j) 0))"
  proof -
    have "mapped upcase n n1 0 j = mapped upcase n n2 0 j" using s by (simp add: mapped_def)
    then show ?thesis
      using s mapped_append [of 0 j m upcase n n1] mapped_append [of 0 j m upcase n n2] by (simp add: three_way_append)
  qed
  also have "\<dots> = three_way (mapped upcase n n1 0 m) (mapped upcase n n2 0 m) (three_way l1 l2 (three_way (units n1 l1) (units n2 l2) 0))"
  proof (intro three_way_cong)
    assume "l1 = l2"
    then show "three_way (n1 j) (n2 j) 0 = three_way (units n1 l1) (units n2 l2) 0"
      using assms(2) s three_way_at [of j m n1 n2] by auto
  qed
  finally show ?thesis using three_way_shorter [OF assms(2)] by simp
qed

lemma collate_ignoring:
  assumes "0 < m" "m = min l1 l2"
  shows "ntfs_names_full_collate n1 l1 n2 l2 IGNORE_CASE upcase n = three_way (mapped upcase n n1 0 l1) (mapped upcase n n2 0 l2) 0"
proof -
  obtain u1 u2 where u: "collate_loop m n1 n2 0 upcase n = (u1, u2)" by (meson surj_pair)
  then have "ntfs_names_full_collate n1 l1 n2 l2 IGNORE_CASE upcase n = three_way u1 u2 (three_way l1 l2 0)"
    using assms unfolding ntfs_names_full_collate_def by (auto simp: Let_def)
  then show ?thesis using collate_loop_three_way [OF assms(1) u] three_way_shorter [OF assms(2)] by simp
qed

lemma collate_empty:
  assumes "min l1 l2 = 0"
  shows "ntfs_names_full_collate n1 l1 n2 l2 ic upcase n = three_way (units n1 l1) (units n2 l2) 0"
    "three_way (mapped upcase n n1 0 l1) (mapped upcase n n2 0 l2) r = three_way (units n1 l1) (units n2 l2) r"
proof -
  have l: "length (units m k) = k" for m k by (simp add: units_def)
  have "units m 0 = []" "mapped upcase n m 0 0 = []" for m by (simp_all add: units_def mapped_def)
  then have e: "three_way (units n1 l1) (units n2 l2) r = three_way l1 l2 r" for r
    using assms by (cases "l1 = 0"; cases "l2 = 0") (auto simp: three_way_Nil l)
  show "ntfs_names_full_collate n1 l1 n2 l2 ic upcase n = three_way (units n1 l1) (units n2 l2) 0"
    unfolding e using assms by (auto simp: ntfs_names_full_collate_def Let_def)
  show "three_way (mapped upcase n n1 0 l1) (mapped upcase n n2 0 l2) r = three_way (units n1 l1) (units n2 l2) r"
    unfolding e using three_way_shorter [of 0 l1 l2] assms by (simp add: mapped_def)
qed

lemma collate_keys:
  "ntfs_names_full_collate name1 len1 name2 len2 CASE_SENSITIVE upcase n =
     three_way (map (upcased upcase n) (units name1 len1), units name1 len1) (map (upcased upcase n) (units name2 len2), units name2 len2) 0"
  "ntfs_names_full_collate name1 len1 name2 len2 IGNORE_CASE upcase n =
     three_way (map (upcased upcase n) (units name1 len1)) (map (upcased upcase n) (units name2 len2)) 0"
proof -
  let ?up = "map (upcased upcase n)"
  let ?x = "units name1 len1"
  let ?y = "units name2 len2"
  have idem: "three_way ?x ?y (three_way ?x ?y 0) = three_way ?x ?y 0" by (simp add: three_way_def)
  show "ntfs_names_full_collate name1 len1 name2 len2 CASE_SENSITIVE upcase n = three_way (?up ?x, ?x) (?up ?y, ?y) 0"
    "ntfs_names_full_collate name1 len1 name2 len2 IGNORE_CASE upcase n = three_way (?up ?x) (?up ?y) 0"
  proof (cases "min len1 len2 = 0", goal_cases)
    case 1
    then show ?case using collate_empty(1) [OF 1] collate_empty(2) [OF 1, of upcase n] idem by (simp add: three_way_pair mapped_units)
  next
    case 2
    then show ?case using collate_sensitive [of "min len1 len2" len1 len2] by (simp add: three_way_pair mapped_units)
  next
    case 3
    then show ?case
      using collate_empty(1) [of len1 len2] collate_empty(2) [of len1 len2 upcase n] collate_ignoring [of "min len1 len2" len1 len2]
      by (cases "min len1 len2 = 0") (simp_all add: mapped_units)
  qed
qed

text \<open>
  C28. Collation of names with regard to case, which stops at the first difference and skips common
  units, is the lexicographic order of the names mapped to upper case, and the lexicographic order
  of the names themselves where these are equal; without regard to case it is the first of the two
  alone. This holds for any upper case table.
\<close>

theorem full_collate_order:
  "ntfs_names_full_collate name1 len1 name2 len2 ic upcase n =
     (let up = map (upcased upcase n); x = units name1 len1; y = units name2 len2 in
      if ic = CASE_SENSITIVE then three_way (up x, x) (up y, y) 0 else three_way (up x) (up y) 0)"
  by (cases ic) (simp_all add: Let_def collate_keys)

section \<open>Equality of names\<close>

definition upto_nul :: "ntfschar list \<Rightarrow> ntfschar list" where
  "upto_nul = takeWhile (\<lambda>c. c \<noteq> 0)"

lemma ucsncmp_loop_0: "ucsncmp_loop n s1 s2 i = 0 \<longleftrightarrow> upto_nul (map s1 [i..<i + n]) = upto_nul (map s2 [i..<i + n])"
proof (induction n arbitrary: i)
  case (Suc n)
  then show ?case by (auto simp: upto_nul_def upt_conv_Cons simp del: upt_Suc)
qed (simp add: upto_nul_def)

lemma ucsncasecmp_loop_0:
  "ucsncasecmp_loop n s1 s2 i upcase k = 0 \<longleftrightarrow> upto_nul (mapped upcase k s1 i (i + n)) = upto_nul (mapped upcase k s2 i (i + n))"
proof (induction n arbitrary: i)
  case (Suc n)
  then show ?case by (auto simp: upto_nul_def mapped_def upt_conv_Cons Let_def simp del: upt_Suc)
qed (simp add: upto_nul_def mapped_def)

text \<open>
  C29. Two names are equal for \<open>ntfs_names_are_equal\<close> if they have the same length and the same units,
  after mapping to upper case if case is ignored, up to the first null unit: what follows one inside
  the names is not compared.
\<close>

theorem names_equal_upto_nul:
  "ntfs_names_are_equal s1 len1 s2 len2 ic upcase n \<longleftrightarrow>
     len1 = len2 \<and>
     (let f = (if ic = CASE_SENSITIVE then id else map (upcased upcase n)) in
      upto_nul (f (units s1 len1)) = upto_nul (f (units s2 len2)))"
proof -
  have "upto_nul (units s1 0) = upto_nul (units s2 0)" by (simp add: units_def)
  then show ?thesis
    using ucsncmp_loop_0 [of len2 s1 s2 0] ucsncasecmp_loop_0 [of len2 s1 s2 0 upcase n]
    by (cases "len2 = 0"; cases ic)
      (auto simp: ntfs_names_are_equal_def ntfs_ucsncmp_def ntfs_ucsncasecmp_def Let_def mapped_units units_def)
qed

section \<open>Forbidden characters\<close>

text \<open>The characters a Win32 name must not have, besides control characters.\<close>

definition win32_forbidden :: "ntfschar set" where
  "win32_forbidden = {0x22, 0x2a, 0x2f, 0x3a, 0x3c, 0x3e, 0x3f, 0x5c, 0x7c}"

lemma bit_shifted_1: "a < 32 \<Longrightarrow> bit (push_bit a 1 :: u32) k \<longleftrightarrow> k = a"
  by (auto simp: bit_simps)

lemma bit_mainset: "bit mainset k \<longleftrightarrow> k \<in> {2, 10, 15, 26, 28, 30, 31}"
proof -
  have t: "(2 :: nat) < 32" "(10 :: nat) < 32" "(15 :: nat) < 32" "(26 :: nat) < 32" "(28 :: nat) < 32" "(30 :: nat) < 32" "(31 :: nat) < 32"
    by simp_all
  have "bit mainset k \<longleftrightarrow> k = 2 \<or> k = 10 \<or> k = 15 \<or> k = 26 \<or> k = 28 \<or> k = 30 \<or> k = 31"
    unfolding mainset_def bit_or_iff t [THEN bit_shifted_1] by blast
  then show ?thesis by simp
qed

lemma forbidden_char_iff: "forbidden_char c \<longleftrightarrow> c < 0x20 \<or> c \<in> win32_forbidden"
proof (cases "0x20 \<le> c \<and> c < 0x40")
  case True
  then have c: "unat (c - 0x20) = unat c - 32" by (simp add: unat_sub)
  have u: "32 \<le> unat c" using True by (simp add: word_le_nat_alt)
  have "unat c < 64" using True by (simp add: word_less_nat_alt)
  moreover have "forbidden_char c \<longleftrightarrow> unat c - 32 \<in> {2, 10, 15, 26, 28, 30, 31} \<or> c = 0x5c \<or> c = 0x7c"
    using True by (auto simp: forbidden_char_def bit_mainset c)
  moreover have "c \<in> win32_forbidden \<longleftrightarrow> unat c \<in> {34, 42, 47, 58, 60, 62, 63, 92, 124}"
    by (simp add: win32_forbidden_def word_unat_eq_iff)
  moreover have "c = 0x5c \<longleftrightarrow> unat c = 92" "c = 0x7c \<longleftrightarrow> unat c = 124" by (simp_all add: word_unat_eq_iff)
  moreover have "\<not> c < 0x20" using True by auto
  moreover have "n - 32 \<in> {2, 10, 15, 26, 28, 30, 31} \<longleftrightarrow> n \<in> {34, 42, 47, 58, 60, 62, 63}" if "32 \<le> n" for n :: nat
  proof -
    obtain k where "n = 32 + k" using \<open>32 \<le> n\<close> le_Suc_ex by blast
    then show ?thesis by simp
  qed
  ultimately show ?thesis using u by simp
next
  case False
  then have "c < 0x20 \<or> \<not> c < 0x40" by auto
  moreover have "c \<notin> {0x22, 0x2a, 0x2f, 0x3a, 0x3c, 0x3e, 0x3f}" if "\<not> c < 0x40" using that by auto
  ultimately show ?thesis unfolding forbidden_char_def win32_forbidden_def by blast
qed

lemma fold_or: "fold (\<lambda>i b. if P i then True else b) xs b \<longleftrightarrow> b \<or> (\<exists>i\<in>set xs. P i)"
  by (induction xs arbitrary: b) auto

text \<open>
  C30. A name is refused by \<open>ntfs_forbidden_chars\<close> exactly if it is empty, or has a control character
  or one of the nine characters forbidden in Win32 names, or, if checking is strict, ends in a
  space or a dot.
\<close>

theorem forbidden_chars_set:
  "ntfs_forbidden_chars name len strict \<longleftrightarrow>
     (let x = units name len in
      x = [] \<or> (\<exists>c\<in>set x. c < 0x20 \<or> c \<in> win32_forbidden) \<or> strict \<and> (last x = 0x20 \<or> last x = 0x2e))"
proof -
  have "last (units name len) = name (len - 1)" if "len \<noteq> 0" using that by (simp add: units_def last_map)
  moreover have "units name len = [] \<longleftrightarrow> len = 0" "set (units name len) = name ` {0..<len}" by (simp_all add: units_def)
  ultimately show ?thesis
    unfolding ntfs_forbidden_chars_def fold_or forbidden_char_iff Let_def by (cases "len = 0") auto
qed

end
