(* ===== verification/NtCollate.thy ===== *)
theory NtCollate
  imports NtUnistr
begin

text \<open>
  The collation rules of indexes, \<open>collate.c\<close>. A key is a buffer, an offset and a length. The
  interface \<open>collation\<close> is what an index needs of a rule; every rule that the code compares itself
  provides it.
\<close>

section \<open>The code\<close>

definition COLLATION_BINARY :: u32 where
  "COLLATION_BINARY = 0"

definition COLLATION_FILE_NAME :: u32 where
  "COLLATION_FILE_NAME = 1"

definition COLLATION_NTOFS_ULONG :: u32 where
  "COLLATION_NTOFS_ULONG = 16"

definition COLLATION_NTOFS_SECURITY_HASH :: u32 where
  "COLLATION_NTOFS_SECURITY_HASH = 18"

definition COLLATION_NTOFS_ULONGS :: u32 where
  "COLLATION_NTOFS_ULONGS = 19"

definition NTFS_COLLATION_ERROR :: int where
  "NTFS_COLLATION_ERROR = -2"

type_synonym collate = "mem \<Rightarrow> nat \<Rightarrow> int \<Rightarrow> mem \<Rightarrow> nat \<Rightarrow> int \<Rightarrow> int"

text \<open>
  Of \<open>memcmp\<close> the language fixes only the sign of the result, so it is an argument.
\<close>

definition ntfs_collate_binary :: "(mem \<Rightarrow> nat \<Rightarrow> mem \<Rightarrow> nat \<Rightarrow> int \<Rightarrow> int) \<Rightarrow> collate" where
  "ntfs_collate_binary memcmp data1 p1 data1_len data2 p2 data2_len =
     (let rc = memcmp data1 p1 data2 p2 (min data1_len data2_len) in
      if rc = 0 \<and> data1_len \<noteq> data2_len then (if data1_len < data2_len then -1 else 1) else rc)"

definition ntfs_collate_ntofs_ulong :: collate where
  "ntfs_collate_ntofs_ulong data1 p1 data1_len data2 p2 data2_len =
     (if data1_len \<noteq> data2_len \<or> data1_len \<noteq> 4 then NTFS_COLLATION_ERROR
      else
        let d1 = le32_at data1 p1; d2 = le32_at data2 p2 in
        if d1 < d2 then -1 else if d1 = d2 then 0 else 1)"

text \<open>The loop runs once for every four bytes that are left after the first four.\<close>

primrec ulongs_loop :: "nat \<Rightarrow> mem \<Rightarrow> nat \<Rightarrow> mem \<Rightarrow> nat \<Rightarrow> u32 \<times> u32" where
  "ulongs_loop 0 data1 p1 data2 p2 = (le32_at data1 p1, le32_at data2 p2)"
| "ulongs_loop (Suc n) data1 p1 data2 p2 =
     (let d1 = le32_at data1 p1; d2 = le32_at data2 p2 in
      if d1 = d2 then ulongs_loop n data1 (p1 + 4) data2 (p2 + 4) else (d1, d2))"

definition ntfs_collate_ntofs_ulongs :: collate where
  "ntfs_collate_ntofs_ulongs data1 p1 data1_len data2 p2 data2_len =
     (if data1_len \<noteq> data2_len \<or> data1_len \<le> 0 \<or> data1_len AND 3 \<noteq> 0 then NTFS_COLLATION_ERROR
      else
        let (d1, d2) = ulongs_loop (nat ((data1_len - 4) div 4)) data1 p1 data2 p2 in
        if d1 < d2 then -1 else if d1 = d2 then 0 else 1)"

definition ntfs_collate_ntofs_security_hash :: collate where
  "ntfs_collate_ntofs_security_hash data1 p1 data1_len data2 p2 data2_len =
     (if data1_len \<noteq> data2_len \<or> data1_len \<noteq> 8 then NTFS_COLLATION_ERROR
      else
        let d1 = le32_at data1 p1; d2 = le32_at data2 p2 in
        if d1 < d2 then -1
        else if d1 > d2 then 1
        else
          let d1 = le32_at data1 (p1 + 4); d2 = le32_at data2 (p2 + 4) in
          if d1 < d2 then -1 else if d1 > d2 then 1 else 0)"

text \<open>The fields \<open>file_name_length\<close> and \<open>file_name\<close> of \<open>FILE_NAME_ATTR\<close>.\<close>

definition file_name_length :: "mem \<Rightarrow> nat \<Rightarrow> nat" where
  "file_name_length m p = unat (m (p + 0x40))"

definition file_name :: "mem \<Rightarrow> nat \<Rightarrow> uchars" where
  "file_name m p i = le16_at m (p + 0x42 + 2 * i)"

definition ntfs_collate_file_name :: "uchars \<Rightarrow> nat \<Rightarrow> collate" where
  "ntfs_collate_file_name upcase upcase_len data1 p1 data1_len data2 p2 data2_len =
     ntfs_names_full_collate (file_name data1 p1) (file_name_length data1 p1)
       (file_name data2 p2) (file_name_length data2 p2) CASE_SENSITIVE upcase upcase_len"

definition ntfs_get_collate_function ::
  "(mem \<Rightarrow> nat \<Rightarrow> mem \<Rightarrow> nat \<Rightarrow> int \<Rightarrow> int) \<Rightarrow> uchars \<Rightarrow> nat \<Rightarrow> u32 \<Rightarrow> collate option"
where
  "ntfs_get_collate_function memcmp upcase upcase_len cr =
     (if cr = COLLATION_BINARY then Some (ntfs_collate_binary memcmp)
      else if cr = COLLATION_FILE_NAME then Some (ntfs_collate_file_name upcase upcase_len)
      else if cr = COLLATION_NTOFS_SECURITY_HASH then Some ntfs_collate_ntofs_security_hash
      else if cr = COLLATION_NTOFS_ULONG then Some ntfs_collate_ntofs_ulong
      else if cr = COLLATION_NTOFS_ULONGS then Some ntfs_collate_ntofs_ulongs
      else None)"

section \<open>What an index needs of a rule\<close>

text \<open>
  A three-way comparison into a total preorder. Its clients are searches in lists that ascend
  strictly: the search for the first key that is not before the one looked for.
\<close>

locale collation =
  fixes cmp :: "'k \<Rightarrow> 'k \<Rightarrow> int"
  assumes cmp_range: "cmp x y = -1 \<or> cmp x y = 0 \<or> cmp x y = 1"
    and cmp_swap: "cmp y x = - cmp x y"
    and cmp_trans: "cmp x y = -1 \<Longrightarrow> cmp y z = -1 \<Longrightarrow> cmp x z = -1"
    and cmp_same: "cmp x y = 0 \<Longrightarrow> cmp x z = cmp y z"
begin

abbreviation ascending :: "'k list \<Rightarrow> bool" where
  "ascending \<equiv> sorted_wrt (\<lambda>a b. cmp a b = -1)"

definition place :: "'k \<Rightarrow> 'k list \<Rightarrow> nat" where
  "place k ks = length (takeWhile (\<lambda>x. cmp k x = 1) ks)"

lemma place_simps: "place k [] = 0" "place k (x # ks) = (if cmp k x = 1 then Suc (place k ks) else 0)"
  by (simp_all add: place_def)

lemma place_le: "place k ks \<le> length ks"
  by (simp add: place_def length_takeWhile_le)

lemma before_place:
  assumes "j < place k ks"
  shows "cmp k (ks ! j) = 1"
proof -
  have j: "j < length (takeWhile (\<lambda>x. cmp k x = 1) ks)" using assms by (simp add: place_def)
  then have "takeWhile (\<lambda>x. cmp k x = 1) ks ! j \<in> set (takeWhile (\<lambda>x. cmp k x = 1) ks)" by (rule nth_mem)
  then show ?thesis unfolding takeWhile_nth [OF j] by (blast dest: set_takeWhileD)
qed

lemma at_place: "place k ks < length ks \<Longrightarrow> cmp k (ks ! place k ks) \<noteq> 1"
  unfolding place_def by (rule nth_length_takeWhile)

lemma after_less:
  assumes "ascending ks" "i < j" "j < length ks" "cmp k (ks ! i) \<noteq> 1"
  shows "cmp k (ks ! j) = -1"
proof -
  have ij: "cmp (ks ! i) (ks ! j) = -1" using assms by (simp add: sorted_wrt_iff_nth_less)
  consider "cmp k (ks ! i) = -1" | "cmp k (ks ! i) = 0" using assms(4) cmp_range [of k "ks ! i"] by blast
  then show ?thesis
  proof cases
    case 1
    then show ?thesis using ij by (rule cmp_trans)
  next
    case 2
    then show ?thesis using cmp_same [OF 2, of "ks ! j"] ij by simp
  qed
qed

lemma from_place:
  assumes "ascending ks" "place k ks \<le> j" "j < length ks" "cmp k (ks ! place k ks) \<noteq> 0"
  shows "cmp k (ks ! j) = -1"
proof (cases "j = place k ks")
  case True
  then show ?thesis using at_place [of k ks] assms(3,4) cmp_range [of k "ks ! j"] by blast
next
  case False
  then show ?thesis using after_less [OF assms(1), of "place k ks" j k] at_place [of k ks] assms by linarith
qed

lemma place_found:
  assumes "ascending ks" "i < length ks" "cmp k (ks ! i) = 0"
  shows "place k ks = i"
proof -
  have "\<not> i < place k ks" using before_place [of i k ks] assms(3) by auto
  moreover have "\<not> place k ks < i"
    using after_less [OF assms(1) _ assms(2), of "place k ks" k] at_place [of k ks] assms(2,3) by linarith
  ultimately show ?thesis by linarith
qed

lemma ascending_insert:
  assumes "ascending ks" "\<And>x. x \<in> set ks \<Longrightarrow> cmp k x \<noteq> 0"
  shows "ascending (take (place k ks) ks @ k # drop (place k ks) ks)"
proof -
  let ?i = "place k ks"
  have 1: "cmp x k = -1" if x: "x \<in> set (take ?i ks)" for x
  proof -
    obtain j where "j < ?i" "x = ks ! j" using x by (auto simp: in_set_conv_nth)
    then show ?thesis using before_place [of j k ks] cmp_swap [of x k] by simp
  qed
  have 2: "cmp k x = -1" if x: "x \<in> set (drop ?i ks)" for x
  proof -
    obtain j where j: "j < length ks - ?i" "x = ks ! (?i + j)" using x by (auto simp: in_set_conv_nth)
    then have "cmp k (ks ! ?i) \<noteq> 0" by (intro assms(2) nth_mem) linarith
    then show ?thesis using from_place [OF assms(1), of k "?i + j"] j by simp
  qed
  have 3: "ascending (take ?i ks @ drop ?i ks)" using assms(1) by simp
  then have "cmp x y = -1" if "x \<in> set (take ?i ks)" "y \<in> set (drop ?i ks)" for x y
    using that unfolding sorted_wrt_append by blast
  then show ?thesis using 1 2 3 unfolding sorted_wrt_append by simp
qed

end

text \<open>Comparison by a key in a linear order provides the interface.\<close>

lemma three_way_collation: "collation (\<lambda>x y. three_way (f x) (f y) 0)"
  by unfold_locales (auto simp: three_way_def split: if_splits)

lemma three_way_eq: "(if x < y then -1 else if x = y then 0 else 1) = three_way x (y :: 'a::linorder) 0"
  by (auto simp: three_way_def)

lemma collation_by:
  assumes "\<And>x y. cmp x y = three_way (f x) (f y) 0"
  shows "collation cmp"
proof -
  have "cmp = (\<lambda>x y. three_way (f x) (f y) 0)" using assms by blast
  then show ?thesis using three_way_collation by simp
qed

section \<open>The rules provide it\<close>

lemma units_nth [simp]: "units ((!) xs) (length xs) = xs"
  by (simp add: units_def map_nth)

text \<open>The names of directory entries.\<close>

definition fname :: "mem \<Rightarrow> nat \<Rightarrow> ntfschar list" where
  "fname m p = units (file_name m p) (file_name_length m p)"

definition name_cmp :: "uchars \<Rightarrow> nat \<Rightarrow> ntfschar list \<Rightarrow> ntfschar list \<Rightarrow> int" where
  "name_cmp upcase n x y = ntfs_names_full_collate ((!) x) (length x) ((!) y) (length y) CASE_SENSITIVE upcase n"

lemma name_cmp_key: "name_cmp upcase n x y = three_way (map (upcased upcase n) x, x) (map (upcased upcase n) y, y) 0"
  by (simp add: name_cmp_def collate_keys)

interpretation names: collation "name_cmp upcase n" for upcase n
  by (rule collation_by) (rule name_cmp_key)

lemma name_cmp_0: "name_cmp upcase n x y = 0 \<longleftrightarrow> x = y"
  by (auto simp: name_cmp_key three_way_def)

lemma collate_file_name_cmp:
  "ntfs_collate_file_name upcase n k kp kl m p l = name_cmp upcase n (fname k kp) (fname m p)"
  by (simp add: ntfs_collate_file_name_def collate_keys name_cmp_key fname_def)

text \<open>The keys of the other indexes, as the numbers they hold.\<close>

primrec dwords :: "nat \<Rightarrow> mem \<Rightarrow> nat \<Rightarrow> u32 list" where
  "dwords 0 m p = []"
| "dwords (Suc n) m p = le32_at m p # dwords n m (p + 4)"

lemma length_dwords [simp]: "length (dwords n m p) = n"
  by (induction n arbitrary: p) auto

lemma ulongs_loop_three_way:
  "ulongs_loop n a p b q = (d1, d2) \<Longrightarrow> three_way d1 d2 0 = three_way (dwords (Suc n) a p) (dwords (Suc n) b q) 0"
proof (induction n arbitrary: p q)
  case (Suc n)
  show ?case
  proof (cases "le32_at a p = le32_at b q")
    case True
    then show ?thesis using Suc.IH [of "p + 4" "q + 4"] Suc.prems by (simp add: three_way_Cons)
  next
    case False
    then show ?thesis using Suc.prems by (auto simp: three_way_def)
  qed
qed (auto simp: three_way_def)

lemma collate_ulongs:
  "ntfs_collate_ntofs_ulongs a p (4 * int (Suc n)) b q (4 * int (Suc n)) = three_way (dwords (Suc n) a p) (dwords (Suc n) b q) 0"
proof -
  have m: "x AND 3 = x mod 4" for x :: int using take_bit_eq_mask [of 2 x] by (simp add: take_bit_eq_mod mask_eq_exp_minus_1)
  have "nat ((4 * int (Suc n) - 4) div 4) = n" by simp
  moreover obtain d1 d2 where "ulongs_loop n a p b q = (d1, d2)" by (meson surj_pair)
  ultimately show ?thesis
    using ulongs_loop_three_way [of n a p b q d1 d2]
    by (simp add: ntfs_collate_ntofs_ulongs_def m three_way_eq del: dwords.simps)
qed

lemma collate_ulong: "ntfs_collate_ntofs_ulong a p 4 b q 4 = three_way (le32_at a p) (le32_at b q) 0"
  by (auto simp: ntfs_collate_ntofs_ulong_def three_way_def Let_def)

lemma collate_security_hash:
  "ntfs_collate_ntofs_security_hash a p 8 b q 8 = three_way (le32_at a p, le32_at a (p + 4)) (le32_at b q, le32_at b (q + 4)) 0"
  by (auto simp: ntfs_collate_ntofs_security_hash_def three_way_pair three_way_def Let_def)

interpretation ulong: collation "\<lambda>(a, p) (b, q). ntfs_collate_ntofs_ulong a p 4 b q 4"
  by (rule collation_by [of _ "\<lambda>(a, p). le32_at a p"]) (simp only: collate_ulong split_paired_all prod.case)

interpretation security_hash: collation "\<lambda>(a, p) (b, q). ntfs_collate_ntofs_security_hash a p 8 b q 8"
  by (rule collation_by [of _ "\<lambda>(a, p). (le32_at a p, le32_at a (p + 4))"]) (simp only: collate_security_hash split_paired_all prod.case)

interpretation ulongs: collation "\<lambda>(a, p) (b, q). ntfs_collate_ntofs_ulongs a p (4 * int (Suc n)) b q (4 * int (Suc n))" for n
  by (rule collation_by [of _ "\<lambda>(a, p). dwords (Suc n) a p"]) (simp only: collate_ulongs split_paired_all prod.case)

end
