(* ===== verification/NtIndex.thy ===== *)
theory NtIndex
  imports NtCollate
begin

text \<open>
  The entries of one node of an index, \<open>index.c\<close>. A node is an \<open>INDEX_HEADER\<close> at an offset of a
  buffer, with index entries behind it: in the index root, or in an index block. Pointers to
  entries are offsets in the same buffer. The operations that go from node to node work on the
  attributes of an inode and are not part of this model.
\<close>

section \<open>The code\<close>

definition magic_INDX :: u32 where
  "magic_INDX = 0x58444e49"

definition INDEX_ENTRY_NODE :: u16 where
  "INDEX_ENTRY_NODE = 1"

definition INDEX_ENTRY_END :: u16 where
  "INDEX_ENTRY_END = 2"

text \<open>The fields of \<open>INDEX_HEADER\<close>.\<close>

definition entries_offset :: "mem \<Rightarrow> nat \<Rightarrow> u32" where
  "entries_offset m ih = le32_at m ih"

definition index_length :: "mem \<Rightarrow> nat \<Rightarrow> u32" where
  "index_length m ih = le32_at m (ih + 4)"

definition allocated_size :: "mem \<Rightarrow> nat \<Rightarrow> u32" where
  "allocated_size m ih = le32_at m (ih + 8)"

text \<open>The fields of \<open>INDEX_ENTRY\<close>; the key is at offset 16.\<close>

definition data_offset :: "mem \<Rightarrow> nat \<Rightarrow> u16" where
  "data_offset m ie = le16_at m ie"

definition data_length :: "mem \<Rightarrow> nat \<Rightarrow> u16" where
  "data_length m ie = le16_at m (ie + 2)"

definition ie_length :: "mem \<Rightarrow> nat \<Rightarrow> nat" where
  "ie_length m ie = unat (le16_at m (ie + 8))"

definition key_length :: "mem \<Rightarrow> nat \<Rightarrow> nat" where
  "key_length m ie = unat (le16_at m (ie + 10))"

definition ie_flags :: "mem \<Rightarrow> nat \<Rightarrow> u16" where
  "ie_flags m ie = le16_at m (ie + 12)"

definition ntfs_ie_get_vcn_addr :: "mem \<Rightarrow> nat \<Rightarrow> nat" where
  "ntfs_ie_get_vcn_addr m ie = ie + ie_length m ie - 8"

definition ntfs_ie_get_vcn :: "mem \<Rightarrow> nat \<Rightarrow> VCN" where
  "ntfs_ie_get_vcn m ie = sint (le64_at m (ntfs_ie_get_vcn_addr m ie))"

definition ntfs_ie_get_first :: "mem \<Rightarrow> nat \<Rightarrow> nat" where
  "ntfs_ie_get_first m ih = ih + unat (entries_offset m ih)"

definition ntfs_ie_get_next :: "mem \<Rightarrow> nat \<Rightarrow> nat" where
  "ntfs_ie_get_next m ie = ie + ie_length m ie"

definition ntfs_ie_get_end :: "mem \<Rightarrow> nat \<Rightarrow> nat" where
  "ntfs_ie_get_end m ih = ih + unat (index_length m ih)"

definition ntfs_ie_end :: "mem \<Rightarrow> nat \<Rightarrow> bool" where
  "ntfs_ie_end m ie \<longleftrightarrow> ie_flags m ie AND INDEX_ENTRY_END \<noteq> 0 \<or> ie_length m ie = 0"

function ntfs_ie_get_last :: "mem \<Rightarrow> nat \<Rightarrow> nat \<Rightarrow> nat" where
  "ntfs_ie_get_last m ie ies_end =
     (if ie < ies_end \<and> \<not> ntfs_ie_end m ie then ntfs_ie_get_last m (ntfs_ie_get_next m ie) ies_end else ie)"
  by pat_completeness auto
termination
  by (relation "measure (\<lambda>(m, ie, ies_end). ies_end - ie)") (auto simp: ntfs_ie_end_def ntfs_ie_get_next_def)

primrec get_by_pos_loop :: "nat \<Rightarrow> mem \<Rightarrow> nat \<Rightarrow> nat" where
  "get_by_pos_loop 0 m ie = ie"
| "get_by_pos_loop (Suc pos) m ie = get_by_pos_loop pos m (ntfs_ie_get_next m ie)"

definition ntfs_ie_get_by_pos :: "mem \<Rightarrow> nat \<Rightarrow> int \<Rightarrow> nat" where
  "ntfs_ie_get_by_pos m ih pos = get_by_pos_loop (nat pos) m (ntfs_ie_get_first m ih)"

function numof_loop :: "mem \<Rightarrow> nat \<Rightarrow> nat \<Rightarrow> nat \<Rightarrow> nat" where
  "numof_loop m e ie n =
     (if \<not> ntfs_ie_end m ie \<and> ie < e then numof_loop m e (ntfs_ie_get_next m ie) (n + 1) else n)"
  by pat_completeness auto
termination
  by (relation "measure (\<lambda>(m, e, ie, n). e - ie)") (auto simp: ntfs_ie_end_def ntfs_ie_get_next_def)

definition ntfs_ih_numof_entries :: "mem \<Rightarrow> nat \<Rightarrow> nat" where
  "ntfs_ih_numof_entries m ih = numof_loop m (ntfs_ie_get_end m ih) (ntfs_ie_get_first m ih) 0"

definition ntfs_ih_one_entry :: "mem \<Rightarrow> nat \<Rightarrow> bool" where
  "ntfs_ih_one_entry m ih \<longleftrightarrow> ntfs_ih_numof_entries m ih = 1"

definition ntfs_ih_zero_entry :: "mem \<Rightarrow> nat \<Rightarrow> bool" where
  "ntfs_ih_zero_entry m ih \<longleftrightarrow> ntfs_ih_numof_entries m ih = 0"

text \<open>
  The size given to \<open>memmove\<close> is computed in 64 bits from the 32-bit length and the distance of
  the pointers, and is a \<open>size_t\<close>.
\<close>

definition size_t :: "int \<Rightarrow> nat" where
  "size_t x = unat (word_of_int x :: u64)"

definition ntfs_ie_delete :: "mem \<Rightarrow> nat \<Rightarrow> nat \<Rightarrow> mem" where
  "ntfs_ie_delete m ih ie =
     (let new_size = index_length m ih - of_nat (ie_length m ie);
          m = put_le32 m (ih + 4) new_size in
      mem_cpy m ie m (ie + ie_length m ie) (size_t (int (unat new_size) - (int ie - int ih))))"

definition ntfs_ie_set_vcn :: "mem \<Rightarrow> nat \<Rightarrow> VCN \<Rightarrow> mem" where
  "ntfs_ie_set_vcn m ie vcn = st_qword m (ntfs_ie_get_vcn_addr m ie) (word_of_int vcn)"

text \<open>The new entry is in a buffer of its own.\<close>

definition ntfs_ie_insert :: "mem \<Rightarrow> nat \<Rightarrow> mem \<Rightarrow> nat \<Rightarrow> nat \<Rightarrow> mem" where
  "ntfs_ie_insert m ih e ie pos =
     (let ie_size = ie_length e ie;
          m = put_le32 m (ih + 4) (index_length m ih + of_nat ie_size);
          m = mem_cpy m (pos + ie_size) m pos (size_t (int (unat (index_length m ih)) - (int pos - int ih) - int ie_size)) in
      mem_cpy m pos e ie ie_size)"

text \<open>A copy is in fresh memory, whose contents and whether it is there are arguments.\<close>

definition ntfs_ie_dup :: "mem option \<Rightarrow> mem \<Rightarrow> nat \<Rightarrow> mem option" where
  "ntfs_ie_dup alloc m ie = map_option (\<lambda>fresh. mem_cpy fresh 0 m ie (ie_length m ie)) alloc"

definition ntfs_ie_dup_novcn :: "mem option \<Rightarrow> mem \<Rightarrow> nat \<Rightarrow> mem option" where
  "ntfs_ie_dup_novcn alloc m ie =
     (let sz = int (ie_length m ie);
          sz = (if ie_flags m ie AND INDEX_ENTRY_NODE \<noteq> 0 then sz - 8 else sz) in
      map_option (\<lambda>fresh.
        let dup = mem_cpy fresh 0 m ie (size_t sz);
            dup = put_le16 dup 12 (ie_flags dup 0 AND NOT INDEX_ENTRY_NODE) in
        put_le16 dup 8 (word_of_int sz)) alloc)"

definition ntfs_index_block_inconsistent :: "mem \<Rightarrow> u32 \<Rightarrow> VCN \<Rightarrow> bool" where
  "ntfs_index_block_inconsistent ib block_size vcn =
     (let ib_size = allocated_size ib 24 + 24 in
      if le32_at ib 0 \<noteq> magic_INDX then True
      else if sint (le64_at ib 16) \<noteq> vcn then True
      else if ib_size \<noteq> block_size then True
      else if entries_offset ib 24 < 16 then True
      else if index_length ib 24 \<le> entries_offset ib 24 then True
      else if allocated_size ib 24 < index_length ib 24 then True
      else False)"

definition ntfs_index_entry_inconsistent :: "mem \<Rightarrow> nat \<Rightarrow> u32 \<Rightarrow> bool" where
  "ntfs_index_entry_inconsistent m ie collation_rule =
     (if key_length m ie \<noteq> 0 \<and> key_length m ie + 16 > ie_length m ie then True
      else if collation_rule = COLLATION_FILE_NAME then
        16 + 0x42 + file_name_length m (ie + 16) * 2 > ie_length m ie
      else
        data_length m ie \<noteq> 0 \<and> unat (data_offset m ie) + unat (data_length m ie) > ie_length m ie)"

text \<open>
  What a lookup in a node returns: the entry found and its number, which the code leaves in
  \<open>parent_pos\<close>; the insertion point; the node to go on with and the number of the entry that
  refers to it; or an error.
\<close>

datatype lookup_status =
    STATUS_OK nat nat
  | STATUS_NOT_FOUND nat
  | STATUS_KEEP_SEARCHING VCN nat
  | STATUS_ERROR errno

definition lookup_missed :: "mem \<Rightarrow> nat \<Rightarrow> nat \<Rightarrow> lookup_status" where
  "lookup_missed m ie item =
     (if ie_flags m ie AND INDEX_ENTRY_NODE = 0 then STATUS_NOT_FOUND ie
      else
        let vcn = ntfs_ie_get_vcn m ie in
        if vcn < 0 then STATUS_ERROR EINVAL else STATUS_KEEP_SEARCHING vcn item)"

function lookup_loop ::
  "mem \<Rightarrow> nat \<Rightarrow> int \<Rightarrow> collate option \<Rightarrow> u32 \<Rightarrow> mem \<Rightarrow> nat \<Rightarrow> nat \<Rightarrow> nat \<Rightarrow> lookup_status"
where
  "lookup_loop key kp key_len col rule m index_end ie item =
     (if ie + 16 > index_end \<or> ie + ie_length m ie > index_end then STATUS_ERROR ERANGE
      else if ntfs_ie_end m ie then lookup_missed m ie item
      else case col of
        None \<Rightarrow> STATUS_ERROR EOPNOTSUPP
      | Some f \<Rightarrow>
          if ntfs_index_entry_inconsistent m ie rule then STATUS_ERROR EIO
          else
            let rc = f key kp key_len m (ie + 16) (int (key_length m ie)) in
            if rc = NTFS_COLLATION_ERROR then STATUS_ERROR ERANGE
            else if rc = -1 then lookup_missed m ie item
            else if rc = 0 then STATUS_OK ie item
            else lookup_loop key kp key_len col rule m index_end (ntfs_ie_get_next m ie) (item + 1))"
  by pat_completeness auto
termination
  by (relation "measure (\<lambda>(key, kp, key_len, col, rule, m, index_end, ie, item). index_end - ie)")
    (auto simp: ntfs_ie_end_def ntfs_ie_get_next_def)

definition ntfs_ie_lookup :: "mem \<Rightarrow> nat \<Rightarrow> int \<Rightarrow> collate option \<Rightarrow> u32 \<Rightarrow> mem \<Rightarrow> nat \<Rightarrow> lookup_status" where
  "ntfs_ie_lookup key kp key_len col rule m ih =
     lookup_loop key kp key_len col rule m (ntfs_ie_get_end m ih) (ntfs_ie_get_first m ih) 0"

function median_count :: "mem \<Rightarrow> nat \<Rightarrow> nat \<Rightarrow> nat \<Rightarrow> nat" where
  "median_count m ie_end ie i =
     (if ie < ie_end \<and> \<not> ntfs_ie_end m ie then median_count m ie_end (ntfs_ie_get_next m ie) (i + 1) else i)"
  by pat_completeness auto
termination
  by (relation "measure (\<lambda>(m, ie_end, ie, i). ie_end - ie)") (auto simp: ntfs_ie_end_def ntfs_ie_get_next_def)

text \<open>The last loop of the code takes \<open>median + 1\<close> steps, \<open>i / 2\<close> of the number of entries.\<close>

definition ntfs_ie_get_median :: "mem \<Rightarrow> nat \<Rightarrow> nat" where
  "ntfs_ie_get_median m ih =
     (let ie_start = ntfs_ie_get_first m ih;
          i = median_count m (ntfs_ie_get_end m ih) ie_start 0;
          median = int i div 2 - 1 in
      get_by_pos_loop (nat (median + 1)) m ie_start)"

text \<open>\<open>realloc\<close> keeps the bytes of the entry; the eight bytes added are those of the fresh memory.\<close>

definition ntfs_ie_add_vcn :: "mem option \<Rightarrow> mem \<Rightarrow> mem option" where
  "ntfs_ie_add_vcn alloc old =
     (let old_length = ie_length old 0;
          old = put_le16 old 8 (of_nat (old_length + 8)) in
      map_option (\<lambda>fresh.
        let p = mem_cpy fresh 0 old 0 old_length in
        put_le16 p 12 (ie_flags p 0 OR INDEX_ENTRY_NODE)) alloc)"

definition ntfs_ih_insert :: "mem option \<Rightarrow> mem option \<Rightarrow> mem \<Rightarrow> nat \<Rightarrow> mem \<Rightarrow> nat \<Rightarrow> VCN \<Rightarrow> int \<Rightarrow> mem option" where
  "ntfs_ih_insert alloc1 alloc2 m ih e orig_ie new_vcn pos =
     (case ntfs_ie_dup alloc1 e orig_ie of
        None \<Rightarrow> None
      | Some ie \<Rightarrow>
          (case (if ie_flags ie 0 AND INDEX_ENTRY_NODE = 0 then ntfs_ie_add_vcn alloc2 ie else Some ie) of
             None \<Rightarrow> None
           | Some ie \<Rightarrow>
               let ie_node = ntfs_ie_get_by_pos m ih pos;
                   old_vcn = ntfs_ie_get_vcn m ie_node;
                   m = ntfs_ie_set_vcn m ie_node new_vcn;
                   m = ntfs_ie_insert m ih ie 0 ie_node in
               Some (ntfs_ie_set_vcn m ie_node old_vcn)))"

declare ntfs_ie_get_last.simps [simp del] numof_loop.simps [simp del] lookup_loop.simps [simp del] median_count.simps [simp del]

section \<open>Nodes of directories\<close>

text \<open>
  A full entry with a name inside the first \<open>stop\<close> bytes; a row of such entries from one offset to
  another; and the entry that ends a node.
\<close>

definition full_entry :: "mem \<Rightarrow> nat \<Rightarrow> nat \<Rightarrow> bool" where
  "full_entry m stop ie \<longleftrightarrow> ie + 16 \<le> stop \<and> ie + ie_length m ie \<le> stop \<and> \<not> ntfs_ie_end m ie \<and>
     \<not> ntfs_index_entry_inconsistent m ie COLLATION_FILE_NAME"

primrec entries :: "mem \<Rightarrow> nat \<Rightarrow> nat list \<Rightarrow> nat \<Rightarrow> nat \<Rightarrow> bool" where
  "entries m stop [] ie p \<longleftrightarrow> ie = p"
| "entries m stop (x # xs) ie p \<longleftrightarrow> x = ie \<and> full_entry m stop ie \<and> entries m stop xs (ie + ie_length m ie) p"

definition end_entry :: "mem \<Rightarrow> nat \<Rightarrow> nat \<Rightarrow> bool" where
  "end_entry m stop ie \<longleftrightarrow> ie + 16 \<le> stop \<and> ie + ie_length m ie \<le> stop \<and> ntfs_ie_end m ie"

definition ename :: "mem \<Rightarrow> nat \<Rightarrow> ntfschar list" where
  "ename m ie = fname m (ie + 16)"

text \<open>A node of a directory: its entries have names that ascend, and one that ends it is behind them.\<close>

definition dir_node :: "uchars \<Rightarrow> nat \<Rightarrow> mem \<Rightarrow> nat \<Rightarrow> nat list \<Rightarrow> nat \<Rightarrow> bool" where
  "dir_node upcase n m ih xs z \<longleftrightarrow>
     16 \<le> unat (entries_offset m ih) \<and>
     entries m (ntfs_ie_get_end m ih) xs (ntfs_ie_get_first m ih) z \<and>
     end_entry m (ntfs_ie_get_end m ih) z \<and>
     sorted_wrt (\<lambda>a b. name_cmp upcase n a b = -1) (map (ename m) xs)"

lemma full_entry_size:
  assumes "full_entry m stop ie"
  shows "82 + 2 * file_name_length m (ie + 16) \<le> ie_length m ie"
  using assms by (auto simp: full_entry_def ntfs_index_entry_inconsistent_def split: if_splits)

lemma header_shift:
  assumes "\<And>i. i < 16 \<Longrightarrow> m' (q + i) = m (p + i)"
  shows "ie_length m' q = ie_length m p" "key_length m' q = key_length m p" "ie_flags m' q = ie_flags m p"
    "ntfs_ie_end m' q = ntfs_ie_end m p"
proof -
  have f: "ld_word m' (q + k) = ld_word m (p + k)" if "k + 2 \<le> 16" for k
    by (rule wd.ld_shift) (use that assms [of "k + _"] in \<open>simp add: add.assoc\<close>)
  show l: "ie_length m' q = ie_length m p" "key_length m' q = key_length m p" "ie_flags m' q = ie_flags m p"
    by (simp_all add: ie_length_def key_length_def ie_flags_def f)
  then show "ntfs_ie_end m' q = ntfs_ie_end m p" by (simp add: ntfs_ie_end_def)
qed

lemma ename_shift:
  assumes "\<And>i. i < k \<Longrightarrow> m' (q + i) = m (p + i)" "82 + 2 * file_name_length m (p + 16) \<le> k"
  shows "ename m' q = ename m p" "file_name_length m' (q + 16) = file_name_length m (p + 16)"
proof -
  show l: "file_name_length m' (q + 16) = file_name_length m (p + 16)"
    using assms(1) [of 80] assms(2) by (simp add: file_name_length_def add.commute)
  have "file_name m' (q + 16) i = file_name m (p + 16) i" if "i < file_name_length m (p + 16)" for i
    unfolding file_name_def
  proof (rule wd.ld_shift)
    fix j :: nat assume "j < 2"
    then have "82 + 2 * i + j < k" using that assms(2) by linarith
    from assms(1) [OF this] show "m' (q + 16 + 66 + 2 * i + j) = m (p + 16 + 66 + 2 * i + j)" by (simp add: add.assoc)
  qed
  then show "ename m' q = ename m p" by (simp add: ename_def fname_def units_def l)
qed

text \<open>Entries stay entries where their bytes are copied to.\<close>

lemma full_entry_shift:
  assumes "full_entry m stop p" "\<And>i. i < ie_length m p \<Longrightarrow> m' (q + i) = m (p + i)" "q + ie_length m p \<le> stop'"
  shows "full_entry m' stop' q \<and> ie_length m' q = ie_length m p \<and> ename m' q = ename m p"
proof -
  note z = full_entry_size [OF assms(1)]
  note h = header_shift [of m' q m p, OF assms(2)] and e = ename_shift [OF assms(2) z]
  show ?thesis
    using assms(1,3) z h e by (auto simp: full_entry_def ntfs_index_entry_inconsistent_def)
qed

lemma end_entry_shift:
  assumes "end_entry m stop p" "\<And>i. i < stop - p \<Longrightarrow> m' (q + i) = m (p + i)" "q + (stop - p) \<le> stop'"
  shows "end_entry m' stop' q"
  using assms(1,3) header_shift [of m' q m p, OF assms(2)] by (auto simp: end_entry_def)

lemma entries_le: "entries m stop xs ie p \<Longrightarrow> ie \<le> p"
  by (induction xs arbitrary: ie) force+

lemma entries_mem: "entries m stop xs ie p \<Longrightarrow> x \<in> set xs \<Longrightarrow> ie \<le> x \<and> x + ie_length m x \<le> p \<and> full_entry m stop x"
proof (induction xs arbitrary: ie)
  case (Cons y xs)
  then show ?case using entries_le [of m stop xs "ie + ie_length m ie" p] by force
qed simp

lemma entries_append: "entries m stop (xs @ ys) ie p \<longleftrightarrow> (\<exists>q. entries m stop xs ie q \<and> entries m stop ys q p)"
  by (induction xs arbitrary: ie) auto

lemma entries_shift:
  assumes "entries m stop xs p r" "\<And>i. i < r - p \<Longrightarrow> m' (q + i) = m (p + i)" "q + (r - p) \<le> stop'"
  shows "entries m' stop' (map (\<lambda>x. q + (x - p)) xs) q (q + (r - p)) \<and>
    map (ename m') (map (\<lambda>x. q + (x - p)) xs) = map (ename m) xs"
  using assms
proof (induction xs arbitrary: p q)
  case (Cons x xs)
  let ?l = "ie_length m p"
  have x: "x = p" "full_entry m stop p" and t: "entries m stop xs (p + ?l) r" using Cons.prems(1) by auto
  have r: "p + ?l \<le> r" using entries_le [OF t] .
  have f: "full_entry m' stop' q \<and> ie_length m' q = ?l \<and> ename m' q = ename m p"
    using Cons.prems(2,3) r by (intro full_entry_shift [OF x(2)]) auto
  have b: "m' (q + ?l + i) = m (p + ?l + i)" if "i < r - (p + ?l)" for i
    using Cons.prems(2) [of "?l + i"] that by (simp add: add.assoc)
  have mp: "map (\<lambda>x. q + ?l + (x - (p + ?l))) xs = map (\<lambda>x. q + (x - p)) xs"
  proof (intro map_cong refl)
    fix y assume "y \<in> set xs"
    then show "q + ?l + (y - (p + ?l)) = q + (y - p)" using entries_mem [OF t, of y] by auto
  qed
  have e: "q + ?l + (r - (p + ?l)) = q + (r - p)" using r by simp
  show ?case using Cons.IH [OF t b] Cons.prems(3) f x(1) unfolding mp e by simp
qed simp

section \<open>Lookup\<close>

abbreviation dir_lookup :: "uchars \<Rightarrow> nat \<Rightarrow> mem \<Rightarrow> nat \<Rightarrow> int \<Rightarrow> mem \<Rightarrow> nat \<Rightarrow> lookup_status" where
  "dir_lookup upcase n key kp kl m ih \<equiv> ntfs_ie_lookup key kp kl (Some (ntfs_collate_file_name upcase n)) COLLATION_FILE_NAME m ih"

lemma lookup_loop_entries:
  assumes "entries m stop xs ie p" "end_entry m stop p" "i = names.place upcase n (fname key kp) (map (ename m) xs)"
  shows "lookup_loop key kp kl (Some (ntfs_collate_file_name upcase n)) COLLATION_FILE_NAME m stop ie item =
    (if i < length xs \<and> ename m (xs ! i) = fname key kp then STATUS_OK (xs ! i) (item + i)
     else lookup_missed m ((xs @ [p]) ! i) (item + i))"
  using assms
proof (induction xs arbitrary: ie item i)
  case Nil
  then show ?case by (subst lookup_loop.simps) (simp add: end_entry_def names.place_simps)
next
  case (Cons x xs)
  let ?c = "name_cmp upcase n (fname key kp) (ename m x)"
  have x: "x = ie" "full_entry m stop ie" and t: "entries m stop xs (ie + ie_length m ie) p" using Cons.prems(1) by auto
  have c: "ntfs_collate_file_name upcase n key kp kl m (ie + 16) l = ?c" for l
    by (simp add: collate_file_name_cmp x ename_def)
  consider "?c = -1" | "?c = 0" | "?c = 1" using names.cmp_range [of upcase n "fname key kp" "ename m x"] by blast
  then show ?case
  proof cases
    case 1
    then have "fname key kp \<noteq> ename m x" "i = 0" using name_cmp_0 [of upcase n "fname key kp" "ename m x"] Cons.prems(3) by (auto simp: names.place_simps)
    then show ?thesis using 1 x c by (subst lookup_loop.simps) (auto simp: full_entry_def NTFS_COLLATION_ERROR_def)
  next
    case 2
    then have "fname key kp = ename m x" "i = 0" using name_cmp_0 [of upcase n "fname key kp" "ename m x"] Cons.prems(3) by (auto simp: names.place_simps)
    then show ?thesis using 2 x c by (subst lookup_loop.simps) (auto simp: full_entry_def NTFS_COLLATION_ERROR_def)
  next
    case 3
    then have "i = Suc (names.place upcase n (fname key kp) (map (ename m) xs))" using Cons.prems(3) by (simp add: names.place_simps)
    then show ?thesis using 3 x c Cons.IH [OF t Cons.prems(2) refl, of "item + 1"]
      by (subst lookup_loop.simps) (simp add: full_entry_def NTFS_COLLATION_ERROR_def ntfs_ie_get_next_def)
  qed
qed

lemma dir_lookup_place:
  assumes "dir_node upcase n m ih xs z" "i = names.place upcase n (fname key kp) (map (ename m) xs)"
  shows "dir_lookup upcase n key kp kl m ih =
    (if i < length xs \<and> ename m (xs ! i) = fname key kp then STATUS_OK (xs ! i) i else lookup_missed m ((xs @ [z]) ! i) i)"
  using lookup_loop_entries [of m _ xs _ z i upcase n key kp kl 0] assms by (simp add: dir_node_def ntfs_ie_lookup_def)

text \<open>A name is found exactly if an entry has it.\<close>

lemma dir_lookup_found:
  assumes "dir_node upcase n m ih xs z" "i < length xs" "ename m (xs ! i) = fname key kp"
  shows "dir_lookup upcase n key kp kl m ih = STATUS_OK (xs ! i) i"
proof -
  have "names.place upcase n (fname key kp) (map (ename m) xs) = i"
    using assms by (intro names.place_found) (auto simp: dir_node_def name_cmp_0)
  then show ?thesis using dir_lookup_place [OF assms(1), of i key kp kl] assms(2,3) by simp
qed

lemma dir_lookup_absent:
  assumes "dir_node upcase n m ih xs z" "fname key kp \<notin> ename m ` set xs"
    and "i = names.place upcase n (fname key kp) (map (ename m) xs)"
  shows "dir_lookup upcase n key kp kl m ih = lookup_missed m ((xs @ [z]) ! i) i" "i \<le> length xs"
    "\<And>j. j < i \<Longrightarrow> name_cmp upcase n (fname key kp) (ename m (xs ! j)) = 1"
    "\<And>j. i \<le> j \<Longrightarrow> j < length xs \<Longrightarrow> name_cmp upcase n (fname key kp) (ename m (xs ! j)) = -1"
proof -
  have x: "fname key kp \<noteq> ename m (xs ! j)" if "j < length xs" for j
    using assms(2) nth_mem [OF that] by blast
  show i: "i \<le> length xs" using names.place_le [of upcase n "fname key kp" "map (ename m) xs"] assms(3) by simp
  show "dir_lookup upcase n key kp kl m ih = lookup_missed m ((xs @ [z]) ! i) i"
    using dir_lookup_place [OF assms(1,3)] x [of i] by auto
  show "name_cmp upcase n (fname key kp) (ename m (xs ! j)) = 1" if "j < i" for j
    using names.before_place [of j upcase n "fname key kp" "map (ename m) xs"] that i assms(3) by simp
  show "name_cmp upcase n (fname key kp) (ename m (xs ! j)) = -1" if j: "i \<le> j" "j < length xs" for j
    using names.from_place [of upcase n "map (ename m) xs" "fname key kp" j] j assms x [of i]
    by (simp add: dir_node_def name_cmp_0)
qed

section \<open>Insertion and removal\<close>

lemma size_t_nat: "x < 2 ^ 64 \<Longrightarrow> size_t (int x) = x"
  by (simp add: size_t_def unsigned_of_nat take_bit_nat_eq_self)

lemma of_nat_unat_add:
  assumes "unat a + l < 2 ^ 32"
  shows "unat ((a :: u32) + of_nat l) = unat a + l"
  using assms by (simp add: unat_word_ariths unat_of_nat)

lemma of_nat_unat_diff:
  assumes "l \<le> unat (a :: u32)"
  shows "unat (a - of_nat l) = unat a - l"
proof -
  have "l < 2 ^ 32" using assms unat_dword_less [of a] by simp
  then have "unat (of_nat l :: u32) = l" by (simp add: unsigned_of_nat take_bit_nat_eq_self)
  then show ?thesis using assms by (simp add: unat_sub word_le_nat_alt)
qed

text \<open>The bytes of a node after an insertion, and after a removal.\<close>

lemma ie_insert_bytes:
  fixes m e :: mem
  assumes "ih + 16 \<le> pos" "pos \<le> ntfs_ie_get_end m ih" "unat (index_length m ih) + ie_length e ie < 2 ^ 32"
  defines "m' \<equiv> ntfs_ie_insert m ih e ie pos" and "l \<equiv> ie_length e ie"
  shows "ntfs_ie_get_end m' ih = ntfs_ie_get_end m ih + l" "entries_offset m' ih = entries_offset m ih"
    "\<And>i. i < l \<Longrightarrow> m' (pos + i) = e (ie + i)"
    "\<And>i. i < ntfs_ie_get_end m ih - pos \<Longrightarrow> m' (pos + l + i) = m (pos + i)"
    "\<And>i. i < pos \<Longrightarrow> i < ih + 4 \<or> ih + 8 \<le> i \<Longrightarrow> m' i = m i"
proof -
  let ?m1 = "put_le32 m (ih + 4) (index_length m ih + of_nat l)"
  let ?k = "ntfs_ie_get_end m ih - pos"
  have il: "unat (index_length ?m1 ih) = unat (index_length m ih) + l"
    using of_nat_unat_add [OF assms(3)] by (simp add: index_length_def l_def)
  have "int (unat (index_length m ih) + l) - (int pos - int ih) - int l = int ?k"
    using assms(2) by (simp add: ntfs_ie_get_end_def)
  moreover have "?k < 2 ^ 64" using unat_dword_less [of "index_length m ih"] assms(1) by (simp add: ntfs_ie_get_end_def)
  ultimately have k: "size_t (int (unat (index_length ?m1 ih)) - (int pos - int ih) - int l) = ?k" unfolding il by (simp only: size_t_nat)
  have m': "m' = mem_cpy (mem_cpy ?m1 (pos + l) ?m1 pos ?k) pos e ie l"
    unfolding m'_def ntfs_ie_insert_def Let_def l_def [symmetric] k ..
  have st: "?m1 i = m i" if "i < ih + 4 \<or> ih + 8 \<le> i" for i using that by (auto intro: dw.st_outside)
  show "m' (pos + i) = e (ie + i)" if "i < l" for i using that by (simp add: m')
  show "m' (pos + l + i) = m (pos + i)" if "i < ?k" for i using that assms(1) by (simp add: m' st)
  show out: "m' i = m i" if "i < pos" "i < ih + 4 \<or> ih + 8 \<le> i" for i using that by (simp add: m' st)
  show "entries_offset m' ih = entries_offset m ih"
    unfolding entries_offset_def by (rule dw.ld_cong) (use assms(1) in \<open>auto intro!: out\<close>)
  have "le32_at m' (ih + 4) = le32_at ?m1 (ih + 4)" by (rule dw.ld_cong) (use assms(1) in \<open>simp add: m'\<close>)
  then have "index_length m' ih = index_length ?m1 ih" unfolding index_length_def [of m'] index_length_def [of ?m1] .
  then show "ntfs_ie_get_end m' ih = ntfs_ie_get_end m ih + l" using il by (simp add: ntfs_ie_get_end_def)
qed

lemma ie_delete_bytes:
  fixes m :: mem
  assumes "ih + 16 \<le> ie" "ie + ie_length m ie \<le> ntfs_ie_get_end m ih"
  defines "m' \<equiv> ntfs_ie_delete m ih ie" and "l \<equiv> ie_length m ie"
  shows "ntfs_ie_get_end m' ih = ntfs_ie_get_end m ih - l" "entries_offset m' ih = entries_offset m ih"
    "\<And>i. i < ntfs_ie_get_end m ih - (ie + l) \<Longrightarrow> m' (ie + i) = m (ie + l + i)"
    "\<And>i. i < ie \<Longrightarrow> i < ih + 4 \<or> ih + 8 \<le> i \<Longrightarrow> m' i = m i"
    "index_length m' ih = index_length m ih - of_nat l"
proof -
  let ?m1 = "put_le32 m (ih + 4) (index_length m ih - of_nat l)"
  let ?k = "ntfs_ie_get_end m ih - (ie + l)"
  have lt: "l \<le> unat (index_length m ih)" using assms by (simp add: ntfs_ie_get_end_def)
  have st: "?m1 i = m i" if "i < ih + 4 \<or> ih + 8 \<le> i" for i using that by (auto intro: dw.st_outside)
  have "?m1 (ie + i) = m (ie + i)" for i by (rule st) (use assms(1) in simp)
  then have l1: "ie_length ?m1 ie = l" using header_shift(1) [of ?m1 ie m ie] l_def by metis
  have il: "unat (index_length m ih - of_nat l) = unat (index_length m ih) - l" by (rule of_nat_unat_diff [OF lt])
  have "int (unat (index_length m ih) - l) - (int ie - int ih) = int ?k"
    using assms(2) lt by (simp add: ntfs_ie_get_end_def l_def)
  moreover have "?k < 2 ^ 64" using unat_dword_less [of "index_length m ih"] assms(1) by (simp add: ntfs_ie_get_end_def)
  ultimately have k: "size_t (int (unat (index_length m ih - of_nat l)) - (int ie - int ih)) = ?k" unfolding il by (simp only: size_t_nat)
  have m': "m' = mem_cpy ?m1 ie ?m1 (ie + l) ?k"
    unfolding m'_def ntfs_ie_delete_def Let_def l_def [symmetric] k l1 ..
  show "m' (ie + i) = m (ie + l + i)" if "i < ?k" for i using that assms(1) by (simp add: m' st)
  show out: "m' i = m i" if "i < ie" "i < ih + 4 \<or> ih + 8 \<le> i" for i using that by (simp add: m' st)
  show "entries_offset m' ih = entries_offset m ih"
    unfolding entries_offset_def by (rule dw.ld_cong) (use assms(1) in \<open>auto intro!: out\<close>)
  have "le32_at m' (ih + 4) = le32_at ?m1 (ih + 4)" by (rule dw.ld_cong) (use assms(1) in \<open>simp add: m'\<close>)
  then show "index_length m' ih = index_length m ih - of_nat l" unfolding index_length_def [of m'] by simp
  then show "ntfs_ie_get_end m' ih = ntfs_ie_get_end m ih - l" using il lt by (simp add: ntfs_ie_get_end_def)
qed

lemma entries_same:
  assumes "entries m stop xs p r" "\<And>i. p \<le> i \<Longrightarrow> i < r \<Longrightarrow> m' i = m i" "r \<le> stop'"
  shows "entries m' stop' xs p r \<and> map (ename m') xs = map (ename m) xs"
proof -
  have "map (\<lambda>x. p + (x - p)) xs = xs" using entries_mem [OF assms(1)] by (intro map_idI) auto
  then show ?thesis using entries_shift [OF assms(1), of m' p stop'] assms(2,3) entries_le [OF assms(1)] by auto
qed

text \<open>The entries of a node before and from one of its entries on, the ending one included.\<close>

lemma entries_split:
  assumes "entries m stop xs p z" "i \<le> length xs" "q = (xs @ [z]) ! i"
  shows "entries m stop (take i xs) p q" "entries m stop (drop i xs) q z" "p \<le> q" "q \<le> z"
proof -
  obtain r where r: "entries m stop (take i xs) p r" "entries m stop (drop i xs) r z"
    using assms(1) entries_append [of m stop "take i xs" "drop i xs" p z] by auto
  have "r = q"
  proof (cases "i < length xs")
    case True
    then show ?thesis using r(2) assms(3) by (simp add: Cons_nth_drop_Suc [symmetric] nth_append)
  next
    case False
    then show ?thesis using r(2) assms(2,3) by (simp add: nth_append)
  qed
  then show "entries m stop (take i xs) p q" "entries m stop (drop i xs) q z" "p \<le> q" "q \<le> z"
    using r entries_le [OF r(1)] entries_le [OF r(2)] by auto
qed

lemma dir_node_insert:
  assumes d: "dir_node upcase n m ih xs z" and e: "full_entry e (ie + ie_length e ie) ie"
    and new: "ename e ie \<notin> ename m ` set xs"
    and i: "i = names.place upcase n (ename e ie) (map (ename m) xs)" and pos: "pos = (xs @ [z]) ! i"
    and room: "unat (index_length m ih) + ie_length e ie < 2 ^ 32"
  defines "m' \<equiv> ntfs_ie_insert m ih e ie pos" and "xs' \<equiv> take i xs @ pos # map (\<lambda>x. x + ie_length e ie) (drop i xs)"
  shows "dir_node upcase n m' ih xs' (z + ie_length e ie)"
    "map (ename m') xs' = take i (map (ename m) xs) @ ename e ie # drop i (map (ename m) xs)"
proof -
  let ?l = "ie_length e ie"
  let ?stop = "ntfs_ie_get_end m ih"
  let ?p = "ntfs_ie_get_first m ih"
  have il: "i \<le> length xs" using names.place_le [of upcase n "ename e ie" "map (ename m) xs"] i by simp
  have ent: "entries m ?stop xs ?p z" "end_entry m ?stop z" using d by (simp_all add: dir_node_def)
  note sp = entries_split [OF ent(1) il pos]
  have zs: "z + 16 \<le> ?stop" using ent(2) by (simp add: end_entry_def)
  have fst: "ih + 16 \<le> ?p" using d by (simp add: dir_node_def ntfs_ie_get_first_def)
  have le: "ih + 16 \<le> pos" "pos \<le> ?stop" using fst sp(3,4) zs by linarith+
  note b = ie_insert_bytes [OF le room, folded m'_def]
  have 1: "entries m' (?stop + ?l) (take i xs) ?p pos \<and> map (ename m') (take i xs) = map (ename m) (take i xs)"
    using b(5) fst le by (intro entries_same [OF sp(1)]) auto
  have 2: "full_entry m' (?stop + ?l) pos \<and> ie_length m' pos = ?l \<and> ename m' pos = ename e ie"
    using b(3) le by (intro full_entry_shift [OF e]) auto
  have mp: "map (\<lambda>x. pos + ?l + (x - pos)) (drop i xs) = map (\<lambda>x. x + ?l) (drop i xs)"
    using entries_mem [OF sp(2)] by (intro map_cong) auto
  have ez: "pos + ?l + (z - pos) = z + ?l" using sp(4) by simp
  have 3: "entries m' (?stop + ?l) (map (\<lambda>x. x + ?l) (drop i xs)) (pos + ?l) (z + ?l) \<and>
      map (ename m') (map (\<lambda>x. x + ?l) (drop i xs)) = map (ename m) (drop i xs)"
    using entries_shift [OF sp(2), of m' "pos + ?l" "?stop + ?l"] b(4) sp(4) zs unfolding mp ez by simp
  have 4: "end_entry m' (?stop + ?l) (z + ?l)"
  proof (rule end_entry_shift [OF ent(2)])
    show "m' (z + ?l + j) = m (z + j)" if "j < ?stop - z" for j
    proof -
      have j: "pos + ?l + (z - pos + j) = z + ?l + j" "pos + (z - pos + j) = z + j" using sp(4) by simp_all
      have "z - pos + j < ?stop - pos" using that sp(4) by linarith
      then show ?thesis using b(4) [of "z - pos + j"] unfolding j by blast
    qed
  qed (use zs in simp)
  show nm: "map (ename m') xs' = take i (map (ename m) xs) @ ename e ie # drop i (map (ename m) xs)"
    using 1 2 3 by (simp add: xs'_def take_map drop_map)
  have "sorted_wrt (\<lambda>a b. name_cmp upcase n a b = -1) (map (ename m') xs')"
    unfolding nm i using d new by (intro names.ascending_insert) (auto simp: dir_node_def name_cmp_0)
  moreover have "entries m' (ntfs_ie_get_end m' ih) xs' (ntfs_ie_get_first m' ih) (z + ?l)"
    using 1 2 3 b(1,2) by (auto simp: xs'_def entries_append ntfs_ie_get_first_def)
  ultimately show "dir_node upcase n m' ih xs' (z + ?l)"
    using 4 b(1,2) d unfolding dir_node_def by simp
qed

lemma dir_node_delete:
  assumes d: "dir_node upcase n m ih xs z" and i: "i < length xs"
  defines "m' \<equiv> ntfs_ie_delete m ih (xs ! i)" and "l \<equiv> ie_length m (xs ! i)"
  defines "xs' \<equiv> take i xs @ map (\<lambda>x. x - l) (drop (Suc i) xs)"
  shows "dir_node upcase n m' ih xs' (z - l)"
    "map (ename m') xs' = take i (map (ename m) xs) @ drop (Suc i) (map (ename m) xs)"
proof -
  let ?x = "xs ! i"
  let ?stop = "ntfs_ie_get_end m ih"
  let ?p = "ntfs_ie_get_first m ih"
  have ent: "entries m ?stop xs ?p z" "end_entry m ?stop z" using d by (simp_all add: dir_node_def)
  have "?x = (xs @ [z]) ! i" using i by (simp add: nth_append)
  note sp = entries_split [OF ent(1) less_imp_le [OF i] this]
  have r: "entries m ?stop (drop (Suc i) xs) (?x + l) z" "full_entry m ?stop ?x"
    using sp(2) i by (simp_all add: Cons_nth_drop_Suc [symmetric] l_def)
  have zs: "?x + l \<le> z" "z + 16 \<le> ?stop" using entries_le [OF r(1)] ent(2) by (simp_all add: end_entry_def)
  have fst: "ih + 16 \<le> ?p" using d by (simp add: dir_node_def ntfs_ie_get_first_def)
  have le: "ih + 16 \<le> ?x" "?x + ie_length m ?x \<le> ?stop" using fst sp(3) zs by (simp_all add: l_def)
  note b = ie_delete_bytes [OF le, folded m'_def l_def]
  have 1: "entries m' (?stop - l) (take i xs) ?p ?x \<and> map (ename m') (take i xs) = map (ename m) (take i xs)"
    using b(4) fst le zs by (intro entries_same [OF sp(1)]) auto
  have mp: "map (\<lambda>y. ?x + (y - (?x + l))) (drop (Suc i) xs) = map (\<lambda>x. x - l) (drop (Suc i) xs)"
    using entries_mem [OF r(1)] by (intro map_cong) auto
  have ez: "?x + (z - (?x + l)) = z - l" using zs by simp
  have 2: "entries m' (?stop - l) (map (\<lambda>x. x - l) (drop (Suc i) xs)) ?x (z - l) \<and>
      map (ename m') (map (\<lambda>x. x - l) (drop (Suc i) xs)) = map (ename m) (drop (Suc i) xs)"
    using entries_shift [OF r(1), of m' ?x "?stop - l"] b(3) zs unfolding mp ez by simp
  have 3: "end_entry m' (?stop - l) (z - l)"
  proof (rule end_entry_shift [OF ent(2)])
    show "m' (z - l + j) = m (z + j)" if "j < ?stop - z" for j
    proof -
      have j: "?x + (z - (?x + l) + j) = z - l + j" "?x + l + (z - (?x + l) + j) = z + j" using zs by simp_all
      have "z - (?x + l) + j < ?stop - (?x + l)" using that zs by linarith
      then show ?thesis using b(3) [of "z - (?x + l) + j"] unfolding j by blast
    qed
  qed (use zs in simp)
  show nm: "map (ename m') xs' = take i (map (ename m) xs) @ drop (Suc i) (map (ename m) xs)"
    using 1 2 by (simp add: xs'_def take_map drop_map)
  have "sorted_wrt (\<lambda>a b. name_cmp upcase n a b = -1) (take i (map (ename m) xs) @ drop i (map (ename m) xs))"
    using d by (simp add: dir_node_def)
  then have "sorted_wrt (\<lambda>a b. name_cmp upcase n a b = -1) (map (ename m') xs')"
    unfolding nm using i by (simp add: sorted_wrt_append Cons_nth_drop_Suc [symmetric] del: append_take_drop_id)
  moreover have "entries m' (ntfs_ie_get_end m' ih) xs' (ntfs_ie_get_first m' ih) (z - l)"
    using 1 2 b(1,2) by (auto simp: xs'_def entries_append ntfs_ie_get_first_def)
  ultimately show "dir_node upcase n m' ih xs' (z - l)"
    using 3 b(1,2) d unfolding dir_node_def by simp
qed

section \<open>A lookup reads the node only\<close>

text \<open>
  Two buffers that are the same before the end of a node; nothing is said of what the node holds.
\<close>

lemma entry_same:
  fixes m m' :: mem
  assumes "\<And>i. i < stop \<Longrightarrow> m' i = m i" "ie + 16 \<le> stop" "ie + ie_length m ie \<le> stop"
  shows "ntfs_index_entry_inconsistent m' ie COLLATION_FILE_NAME = ntfs_index_entry_inconsistent m ie COLLATION_FILE_NAME"
    "\<not> ntfs_index_entry_inconsistent m ie COLLATION_FILE_NAME \<Longrightarrow> ename m' ie = ename m ie"
    "lookup_missed m' ie item = lookup_missed m ie item"
proof -
  have h: "ie_length m' ie = ie_length m ie" "key_length m' ie = key_length m ie" "ie_flags m' ie = ie_flags m ie"
    using header_shift [of m' ie m ie] assms(1,2) by simp_all
  have fl: "file_name_length m' (ie + 16) = file_name_length m (ie + 16)" if "81 \<le> ie_length m ie"
    using assms(1) [of "ie + 80"] assms(3) that by (simp add: file_name_length_def add.commute)
  then show "ntfs_index_entry_inconsistent m' ie COLLATION_FILE_NAME = ntfs_index_entry_inconsistent m ie COLLATION_FILE_NAME"
    by (cases "81 \<le> ie_length m ie") (simp_all add: ntfs_index_entry_inconsistent_def h)
  show "ename m' ie = ename m ie" if "\<not> ntfs_index_entry_inconsistent m ie COLLATION_FILE_NAME"
    using that assms by (intro ename_shift [of "ie_length m ie"]) (auto simp: ntfs_index_entry_inconsistent_def split: if_splits)
  have "le64_at m' (ie + ie_length m ie - 8) = le64_at m (ie + ie_length m ie - 8)"
    by (rule qw.ld_cong) (use assms in \<open>auto intro!: assms(1)\<close>)
  then show "lookup_missed m' ie item = lookup_missed m ie item"
    by (simp add: lookup_missed_def h ntfs_ie_get_vcn_def ntfs_ie_get_vcn_addr_def)
qed

lemma lookup_loop_same:
  fixes m m' :: mem
  assumes "\<And>i. i < stop \<Longrightarrow> m' i = m i"
  shows "lookup_loop key kp kl (Some (ntfs_collate_file_name upcase n)) COLLATION_FILE_NAME m' stop ie item =
    lookup_loop key kp kl (Some (ntfs_collate_file_name upcase n)) COLLATION_FILE_NAME m stop ie item"
proof (induction "stop - ie" arbitrary: ie item rule: less_induct)
  case less
  show ?case
  proof (cases "ie + 16 \<le> stop")
    case True
    have h: "ie_length m' ie = ie_length m ie" "ntfs_ie_end m' ie = ntfs_ie_end m ie"
      using header_shift [of m' ie m ie] assms True by simp_all
    show ?thesis
    proof (cases "ie + ie_length m ie \<le> stop \<and> \<not> ntfs_ie_end m ie")
      case False
      then show ?thesis using True h entry_same(3) [OF assms True]
        by (subst (1 2) lookup_loop.simps) auto
    next
      case t: True
      then have "stop - (ie + ie_length m ie) < stop - ie" using True by (auto simp: ntfs_ie_end_def)
      note ih = less.hyps [OF this]
      have le: "ie + ie_length m ie \<le> stop" using t by blast
      show ?thesis using True t h entry_same [OF assms True le] ih
        by (subst (1 2) lookup_loop.simps) (simp add: Let_def ntfs_ie_get_next_def collate_file_name_cmp ename_def [symmetric])
    qed
  qed (subst (1 2) lookup_loop.simps, simp)
qed

lemma lookup_loop_inside:
  "lookup_loop key kp kl col rule m stop ie item = r \<Longrightarrow> r = STATUS_OK x i \<or> r = STATUS_NOT_FOUND x \<Longrightarrow>
     ie \<le> x \<and> x + 16 \<le> stop \<and> x + ie_length m x \<le> stop"
proof (induction key kp kl col rule m stop ie item arbitrary: r rule: lookup_loop.induct)
  case (1 key kp kl col rule m stop ie item)
  show ?case
    using 1(2,3) 1(1) [OF _ _ _ _ refl _ _ _ refl]
    by (subst (asm) lookup_loop.simps)
      (force simp: Let_def lookup_missed_def ntfs_ie_get_next_def split: if_splits option.splits)
qed

section \<open>An example\<close>

text \<open>
  A directory with the entries \<open>B\<close> and \<open>D\<close>, an entry \<open>c\<close> and a table that maps the small letters.
\<close>

definition put_entry :: "nat \<Rightarrow> ntfschar \<Rightarrow> mem \<Rightarrow> mem" where
  "put_entry ie c m = put_le16 ((put_le16 (put_le16 m (ie + 8) 88) (ie + 10) 68)(ie + 80 := 1)) (ie + 82) c"

definition demo_dir :: mem where
  "demo_dir = put_entry 16 0x42 (put_entry 104 0x44
     (put_le16 (put_le16 (put_le32 (put_le32 (\<lambda>_. 0) 0 16) 4 208) 200 16) 204 2))"

definition demo_new :: mem where
  "demo_new = put_entry 0 0x63 (\<lambda>_. 0)"

definition demo_upcase :: uchars where
  "demo_upcase i = of_nat (if 0x61 \<le> i \<and> i \<le> 0x7a then i - 32 else i)"

lemma demo_dir_node: "dir_node demo_upcase 128 demo_dir 0 [16, 104] 192"
  by code_simp

lemma get_collate_file_name: "ntfs_get_collate_function memcmp upcase n COLLATION_FILE_NAME = Some (ntfs_collate_file_name upcase n)"
  by (simp add: ntfs_get_collate_function_def COLLATION_FILE_NAME_def COLLATION_BINARY_def)

section \<open>Properties\<close>



text \<open>
  C24. When a name is not found, inserting an entry with this name at the insertion point gives a node
  of a directory again, whose names are the old ones and the new one; a lookup of the name then
  finds the new entry.
\<close>

theorem dir_insert_lookup:
  assumes "dir_node upcase n m ih xs z"
    and "ntfs_ie_lookup key kp kl (ntfs_get_collate_function memcmp upcase n COLLATION_FILE_NAME) COLLATION_FILE_NAME m ih = STATUS_NOT_FOUND pos"
    and "full_entry e (ie + ie_length e ie) ie" "ename e ie = fname key kp"
    and "unat (index_length m ih) + ie_length e ie < 2 ^ 32"
    and "m' = ntfs_ie_insert m ih e ie pos"
  shows "\<exists>xs' z' i. dir_node upcase n m' ih xs' z' \<and> length xs' = Suc (length xs) \<and>
    ename m' ` set xs' = insert (fname key kp) (ename m ` set xs) \<and>
    ntfs_ie_lookup key kp kl (ntfs_get_collate_function memcmp upcase n COLLATION_FILE_NAME) COLLATION_FILE_NAME m' ih = STATUS_OK pos i"
proof -
  let ?k = "fname key kp"
  let ?i = "names.place upcase n ?k (map (ename m) xs)"
  let ?xs = "take ?i xs @ pos # map (\<lambda>x. x + ie_length e ie) (drop ?i xs)"
  note lk = assms(2) [unfolded get_collate_file_name]
  have new: "?k \<notin> ename m ` set xs"
  proof
    assume "?k \<in> ename m ` set xs"
    then obtain j where "j < length xs" "ename m (xs ! j) = ?k" by (auto simp: in_set_conv_nth)
    from dir_lookup_found [OF assms(1) this, of kl] show False using lk by simp
  qed
  note ab = dir_lookup_absent [OF assms(1) new refl]
  have il: "?i \<le> length xs" by (rule ab(2))
  have pos: "pos = (xs @ [z]) ! ?i"
    using ab(1) [of kl] lk by (simp add: lookup_missed_def Let_def split: if_splits)
  note dn = dir_node_insert [OF assms(1,3), unfolded assms(4), OF new refl pos assms(5), folded assms(6)]
  have "set (map (ename m') ?xs) = insert ?k (set (take ?i (map (ename m) xs) @ drop ?i (map (ename m) xs)))"
    unfolding dn(2) by (simp del: append_take_drop_id)
  then have 1: "ename m' ` set ?xs = insert ?k (ename m ` set xs)" unfolding append_take_drop_id set_map .
  have 2: "?i < length ?xs" "?xs ! ?i = pos" "length ?xs = Suc (length xs)" using il by (simp_all add: nth_append)
  have "map (ename m') ?xs ! ?i = ?k" unfolding dn(2) using il by (simp add: nth_append)
  then have "ename m' (?xs ! ?i) = ?k" using 2(1) by (simp only: nth_map)
  from dir_lookup_found [OF dn(1) 2(1) this, of kl] show ?thesis
    using dn(1) 1 2 unfolding get_collate_file_name by metis
qed

theorem dir_insert_lookup_witness:
  "\<exists>xs' z'. dir_node demo_upcase 128 (ntfs_ie_insert demo_dir 0 demo_new 0 104) 0 xs' z' \<and> length xs' = 3 \<and>
     [0x63] \<in> ename (ntfs_ie_insert demo_dir 0 demo_new 0 104) ` set xs'"
proof -
  have 1: "ntfs_ie_lookup demo_new 16 0 (ntfs_get_collate_function (\<lambda>_ _ _ _ _. 0) demo_upcase 128 COLLATION_FILE_NAME)
      COLLATION_FILE_NAME demo_dir 0 = STATUS_NOT_FOUND 104" by code_simp
  have 2: "full_entry demo_new (0 + ie_length demo_new 0) 0" by code_simp
  have 3: "ename demo_new 0 = fname demo_new 16" by (simp add: ename_def)
  have "unat (index_length demo_dir 0) = 208" "ie_length demo_new 0 = 88" by code_simp+
  then have 4: "unat (index_length demo_dir 0) + ie_length demo_new 0 < 2 ^ 32" by simp
  have k: "fname demo_new 16 = [0x63]" by code_simp
  let ?m = "ntfs_ie_insert demo_dir 0 demo_new 0 104"
  obtain xs' z' where d: "dir_node demo_upcase 128 ?m 0 xs' z'" and l: "length xs' = Suc (length [16, 104 :: nat])"
    and e: "ename ?m ` set xs' = insert (fname demo_new 16) (ename demo_dir ` set [16, 104])"
    using dir_insert_lookup [OF demo_dir_node 1 2 3 4 refl] by blast
  have "length xs' = 3" using l by simp
  moreover have "[0x63] \<in> ename ?m ` set xs'" unfolding e k by (rule insertI1)
  ultimately show ?thesis using d by blast
qed

text \<open>
  C26. Removing an entry of a node of a directory gives a node of a directory again, with all other
  names in their order; a lookup of the name of the entry does not find it any more.
\<close>

theorem dir_delete_lookup:
  assumes "dir_node upcase n m ih xs z" "i < length xs" "m' = ntfs_ie_delete m ih (xs ! i)"
  shows "\<exists>xs' z'. dir_node upcase n m' ih xs' z' \<and>
    map (ename m') xs' = take i (map (ename m) xs) @ drop (Suc i) (map (ename m) xs) \<and>
    (\<forall>key kp kl x j. fname key kp = ename m (xs ! i) \<longrightarrow>
      ntfs_ie_lookup key kp kl (ntfs_get_collate_function memcmp upcase n COLLATION_FILE_NAME) COLLATION_FILE_NAME m' ih \<noteq> STATUS_OK x j)"
proof -
  note dn = dir_node_delete [OF assms(1,2), folded assms(3)]
  let ?xs = "take i xs @ map (\<lambda>x. x - ie_length m (xs ! i)) (drop (Suc i) xs)"
  have "sorted_wrt (\<lambda>a b. name_cmp upcase n a b = -1) (take i (map (ename m) xs) @ drop i (map (ename m) xs))"
    using assms(1) by (simp add: dir_node_def)
  then have "name_cmp upcase n (ename m (xs ! i)) a = -1 \<or> name_cmp upcase n a (ename m (xs ! i)) = -1"
    if "a \<in> set (map (ename m') ?xs)" for a
    using that assms(2) unfolding dn(2)
    by (auto simp: sorted_wrt_append Cons_nth_drop_Suc [symmetric] simp del: append_take_drop_id)
  then have "ename m (xs ! i) \<notin> set (map (ename m') ?xs)" using name_cmp_0 [of upcase n "ename m (xs ! i)" "ename m (xs ! i)"] by force
  then have gone: "ename m (xs ! i) \<notin> ename m' ` set ?xs" unfolding set_map .
  have "dir_lookup upcase n key kp kl m' ih \<noteq> STATUS_OK x j" if "fname key kp = ename m (xs ! i)" for key kp kl x j
    using dir_lookup_absent(1) [OF dn(1) gone [folded that] refl, of kl] by (auto simp: lookup_missed_def Let_def)
  then show ?thesis using dn unfolding get_collate_file_name by blast
qed

theorem dir_delete_lookup_witness:
  "\<exists>xs' z'. dir_node demo_upcase 128 (ntfs_ie_delete demo_dir 0 16) 0 xs' z' \<and>
     map (ename (ntfs_ie_delete demo_dir 0 16)) xs' = [[0x44]]"
proof -
  have e: "take 0 (map (ename demo_dir) [16, 104]) @ drop (Suc 0) (map (ename demo_dir) [16, 104]) = [[0x44]]" by code_simp
  have "0 < length [16, 104 :: nat]" "ntfs_ie_delete demo_dir 0 16 = ntfs_ie_delete demo_dir 0 ([16, 104] ! 0)" by simp_all
  from dir_delete_lookup [where memcmp = "\<lambda>_ _ _ _ _. 0", OF demo_dir_node this, unfolded e] show ?thesis
    by (elim exE conjE) (intro exI conjI; assumption)
qed

text \<open>
  C27. Whatever bytes a node of a directory has, what a lookup returns depends on the bytes before its
  end only (the header is at least read), and an entry it returns is inside the node.
\<close>

theorem dir_lookup_bounded:
  assumes "r = ntfs_ie_lookup key kp kl (ntfs_get_collate_function memcmp upcase n COLLATION_FILE_NAME) COLLATION_FILE_NAME m ih"
  shows "(\<forall>m'. (\<forall>i<max (ih + 8) (ntfs_ie_get_end m ih). m' i = m i) \<longrightarrow>
      ntfs_ie_lookup key kp kl (ntfs_get_collate_function memcmp upcase n COLLATION_FILE_NAME) COLLATION_FILE_NAME m' ih = r) \<and>
    (\<forall>x i. r = STATUS_OK x i \<or> r = STATUS_NOT_FOUND x \<longrightarrow>
      ntfs_ie_get_first m ih \<le> x \<and> x + max 16 (ie_length m x) \<le> ntfs_ie_get_end m ih)"
proof (intro conjI allI impI)
  fix m' :: mem assume a: "\<forall>i<max (ih + 8) (ntfs_ie_get_end m ih). m' i = m i"
  have "entries_offset m' ih = entries_offset m ih" "index_length m' ih = index_length m ih"
    unfolding entries_offset_def index_length_def using a by (auto intro!: dw.ld_cong)
  then have "ntfs_ie_get_first m' ih = ntfs_ie_get_first m ih" "ntfs_ie_get_end m' ih = ntfs_ie_get_end m ih"
    by (simp_all add: ntfs_ie_get_first_def ntfs_ie_get_end_def)
  then show "ntfs_ie_lookup key kp kl (ntfs_get_collate_function memcmp upcase n COLLATION_FILE_NAME) COLLATION_FILE_NAME m' ih = r"
    using lookup_loop_same [of "ntfs_ie_get_end m ih" m' m] a unfolding assms get_collate_file_name ntfs_ie_lookup_def by simp
next
  fix x i assume "r = STATUS_OK x i \<or> r = STATUS_NOT_FOUND x"
  then show "ntfs_ie_get_first m ih \<le> x" "x + max 16 (ie_length m x) \<le> ntfs_ie_get_end m ih"
    using lookup_loop_inside [OF assms [unfolded ntfs_ie_lookup_def, symmetric], of x i] by auto
qed

theorem dir_lookup_bounded_witness:
  "ntfs_ie_lookup demo_new 16 0 (ntfs_get_collate_function (\<lambda>_ _ _ _ _. 0) demo_upcase 128 COLLATION_FILE_NAME)
     COLLATION_FILE_NAME (demo_dir(208 := 7)) 0 = STATUS_NOT_FOUND 104"
proof -
  have r: "STATUS_NOT_FOUND 104 = ntfs_ie_lookup demo_new 16 0 (ntfs_get_collate_function (\<lambda>_ _ _ _ _. 0) demo_upcase 128 COLLATION_FILE_NAME)
      COLLATION_FILE_NAME demo_dir 0" by code_simp
  have "ntfs_ie_get_end demo_dir 0 = 208" by code_simp
  then show ?thesis using conjunct1 [OF dir_lookup_bounded [OF r], THEN spec, of "demo_dir(208 := 7)"] by simp
qed

end
