(* ===== verification/Spec2Isabelle.thy ===== *)
theory Spec2Isabelle
  imports FfDemo FfApi FfMkfs FfLfn FfWriteOk NtRlIo NtCompressOk NtIndex
begin

text \<open>
  \<^bold>\<open>The program.\<close> usbsas copies files from untrusted USB mass storage to clean devices. Its
  processes are written in Rust and exchange messages; the file systems of the devices are read
  and written by two C libraries the repository carries and links: FatFs (\<open>ff/src/ff\<close>), for FAT and
  exFAT volumes, and libntfs-3g (\<open>ntfs3g/src/ntfs-3g\<close>), for NTFS volumes. Each library reaches the
  device through a few callbacks implemented in Rust (\<open>ff/src/ff_extern.rs\<close>,
  \<open>ntfs3g/src/n3g_extern.rs\<close>). What comes from the device is hostile input. This development models
  FatFs in the configuration of \<open>ffconf.h\<close> (exFAT, long names on the heap, UTF-16 strings, one
  volume, 32-bit sector numbers), the parts of libntfs-3g listed below, and the callbacks.

  \<^bold>\<open>Conventions.\<close> Unsigned integers are words of their width; a signed 64-bit integer is an \<open>int\<close> whose
  overflowing operations are wrapped explicitly. A C buffer is a function from offsets to bytes
  (\<open>mem\<close>), a pointer into it is an offset. State is passed explicitly: an operation takes the records
  it works on and returns them. Error codes are results: \<open>FRESULT\<close> in FatFs, an \<open>errno\<close> value in
  libntfs-3g. Whether an allocation succeeds, and what fresh memory holds, are arguments or fields
  of the device record. Log messages are left out.

  \<^bold>\<open>Shared theories.\<close>
    \<^item> \<open>Prelude\<close>: integer types, buffers, word lemmas, and the interface \<open>field_codec\<close> of a little-endian
      field: what a load returns after a store, which bytes a store touches.
    \<^item> \<open>FfBytes\<close>: the loads and stores of \<open>ff.c\<close> (\<open>ld_word\<close> to \<open>st_qword\<close>), three interpretations of
      \<open>field_codec\<close>; libntfs-3g's little-endian fields are the same.

  \<^bold>\<open>FatFs.\<close>
    \<^item> \<open>FfTypes\<close>: the structures of \<open>ff.h\<close> (\<open>FATFS\<close>, \<open>FFOBJID\<close>, \<open>FIL\<close>, \<open>DIR\<close> as \<open>FDIR\<close>) as records, the result
      codes, and the device behind the Rust wrapper: its contents and its answers.
    \<^item> \<open>DiskIo\<close>: \<open>diskio.c\<close> and \<open>ff_extern.rs\<close>. The interface \<open>sector_device\<close>, which the window relies on,
      is provided where the device reports every failed read (\<open>reads_ok\<close>); \<open>ff_disk_read\<close> itself turns
      an error of the reader into zeroes and success.
    \<^item> \<open>FfWindow\<close>: \<open>sync_window\<close>, \<open>move_window\<close>, \<open>sync_fs\<close>, \<open>clst2sect\<close>; the window as a coherent write-back cache.
    \<^item> \<open>FfFat\<close>: \<open>get_fat\<close> and \<open>put_fat\<close>; the interface \<open>fat_layout\<close>, provided by the four entry layouts.
      The table as a function of the volume is \<open>fat_entry\<close>.
    \<^item> \<open>FfChain\<close>: the exFAT bitmap, deferred exFAT chains, \<open>create_chain\<close>, \<open>remove_chain\<close>.
    \<^item> \<open>FfLinks\<close>: the interface \<open>link_table\<close> of a table of links, with lemmas on extending, cutting and freeing
      chains; the table behind \<open>get_fat\<close> and \<open>put_fat\<close> provides it, and the contracts of the allocator on
      FAT12/16/32 volumes, the exact free count included, rest on that.
    \<^item> \<open>FfGeom\<close>: the frame of the geometry, for every operation of the window, the table and the allocator.
    \<^item> \<open>FfUnicode\<close>, \<open>FfName\<close>, \<open>FfDir\<close>, \<open>FfFind\<close>, \<open>FfPath\<close>: code page conversion and case folding, the name parts of
      directory entries, directory tables, finding, registering and removing objects, paths.
    \<^item> \<open>FfLfn\<close>: a long name put into entries is read back.
    \<^item> \<open>FfMount\<close>: \<open>check_fs\<close>, \<open>find_volume\<close>, \<open>mount_volume\<close>, \<open>validate\<close>, \<open>f_mount\<close>. \<open>FfMountOk\<close>: what a successful mount
      establishes (the invariant \<open>fat_vol\<close> and the separation of FATs and clusters), under which side
      conditions on the boot sector, and what happens without them.
    \<^item> \<open>FfFile\<close>: \<open>f_open\<close> to \<open>f_expand\<close>. \<open>FfFileOk\<close>, \<open>FfReadOk\<close>, \<open>FfWriteOk\<close>: an open file as a chain and a sequence of
      bytes, its invariant \<open>fil_ok\<close>, and what \<open>f_read\<close> and \<open>f_write\<close> do to it on every branch.
    \<^item> \<open>FfApi\<close>: directories, status, free space, unlink, mkdir, rename, attributes, times. \<open>FfMkfs\<close>: formatting.
    \<^item> \<open>FfDemo\<close>: a small volume the hypotheses of the properties are tried on.

  \<^bold>\<open>libntfs-3g.\<close>
    \<^item> \<open>NtTypes\<close>: integer types, error codes, field access. \<open>NtMst\<close>: \<open>mst.c\<close>; protection is undone by reading,
      and torn writes are detected.
    \<^item> \<open>NtRunlist\<close>, \<open>NtRlMerge\<close>, \<open>NtPairs\<close>: \<open>runlist.c\<close>; lookup, merging, and the mapping pairs array with its round
      trip and its exact size.
    \<^item> \<open>NtDevice\<close>: \<open>device.c\<close>, \<open>unix_io.c\<close> and \<open>n3g_extern.rs\<close>; the interface \<open>byte_device\<close>, provided by \<open>ntfs_pread\<close> and
      \<open>ntfs_pwrite\<close>. \<open>NtRlIo\<close>: input and output through a runlist over that interface, truncation, growth.
    \<^item> \<open>NtCompress\<close>, \<open>NtCompressOk\<close>: \<open>compress.c\<close>, one sub-block compressed and a compression block decompressed;
      the round trip, and the bounds of the decompressor on any input.
    \<^item> \<open>NtUnistr\<close>: comparison and collation of names in \<open>unistr.c\<close>, forbidden names. \<open>NtCollate\<close>: \<open>collate.c\<close>; the
      interface \<open>collation\<close> of a rule, provided by the file name, number, numbers and hash rules.
      \<open>NtIndex\<close>: the entries of one node of an index (\<open>index.c\<close>): lookup, insertion and removal in a
      directory keep its order, and a lookup does not depend on bytes outside the node.

  \<^bold>\<open>Loops, fuel and bounds.\<close> Most loops recurse on their data or have a measure. The loops that follow
  the table take fuel: \<open>find_free\<close> the number of entries (it tests each once), \<open>remove_loop\<close> twice that
  number (a cluster freed is not met again); that both are enough on FAT12/16/32 volumes, cycles
  included, is proved. The loops of \<open>f_read\<close> and \<open>f_write\<close> take as many steps as the transfer can touch
  sectors, proved enough with the properties. The bitmap loops take the number of entries, the loops
  over name buffers the number of cells; for these no claim is made. In \<open>NtRlIo\<close> and \<open>NtRlMerge\<close> a loop
  that does not return, or a read past an array, is the result \<open>None\<close>; the properties state that there
  is a result.

  \<^bold>\<open>Scope of the properties.\<close> Those on allocation, mounting, reading and writing are about FAT12/16/32
  volumes; the exFAT branches are in the definitions, but only the access to the table and the
  window are proved for them too. They assume \<open>reads_ok\<close>; failed writes and reported failures of reads
  are covered. The answers of a device are a function of the request, so a request that fails once
  fails again; a device that changes its answers over time is not expressed. The volume an
  operation works on is always there, so the null pointer checks of \<open>validate\<close> have no counterpart for
  it. A shift of 1 by a number of 32 or more, which C leaves undefined, is taken modulo 32 as
  on the processors the program is built for. The two conversion tables of \<open>ffunicode.c\<close> and the upper
  case table of an NTFS volume are arguments.

  \<^bold>\<open>Not modelled.\<close> Of libntfs-3g: the attribute, MFT, inode, volume, log file, security and reparse point
  code, the bitmaps and the cluster allocator, the operations on whole index trees, the conversions
  of names from and to UTF-8, the attribute operations around compression, and \<open>mkntfs\<close>: they work on
  the state of a whole volume. The Rust processes around the libraries, the bindings that only forward
  calls, the front ends, and code that only calls the operating system.
\<close>

section \<open>The sector window\<close>

text \<open>C22. Moving the window keeps the window invariant, every logical sector outside the second
  copy of the FAT, the geometry and the allocation state, whatever transfers fail, short of a read that
  ends in an error of the reader (which the disk layer does not report). On success the window
  shows the requested sector; the only failure is a disk error.\<close>

theorem move_window_coherent:
  assumes "win_ok fs" and "move_window fs s = (r, fs')"
  shows "win_ok fs' \<and> vol_eq fs fs' \<and> geom_eq fs fs' \<and> alloc_eq fs fs' \<and>
    (if r = FR_OK then winsect fs' = s \<and> (s \<noteq> -1 \<longrightarrow> \<not> in_fat2 fs s \<longrightarrow> (\<forall>i<SSn fs. win fs' i = lsect fs s i))
     else r = FR_DISK_ERR)"
  using move_window_ok [OF assms] move_window_shows [OF assms(1)] assms(2) by auto

theorem move_window_coherent_witness:
  "fst (move_window demo_fs 1) = FR_OK \<and> win (snd (move_window demo_fs 1)) 4 = 0xFF \<and>
   vol_eq demo_fs (snd (move_window demo_fs 1))"
proof -
  have "fst (move_window demo_fs 1) = FR_OK" "win (snd (move_window demo_fs 1)) 4 = 0xFF" by code_simp+
  then show ?thesis using move_window_coherent [OF demo_win_ok prod.collapse [symmetric], of 1] by simp
qed

section \<open>The file allocation table\<close>

text \<open>C19. Where the chain of an object is recorded in the table, \<open>get_fat\<close> returns the entry of
  the on-disk table (12, 16, 28 or 31 bits, across a sector boundary if need be), or
  0xFFFFFFFF for a disk error, a value no entry has; the volume does not change.\<close>

theorem get_fat_reads_table:
  assumes "fat_ok fs" "win_ok fs" "2 \<le> c" "c < n_fatent fs" "via_table fs obj c"
    and "get_fat fs obj c = (v, fs')"
  shows "(v = fat_get (fs_type fs) (fatmem fs) (unat c) \<or> v = 0xFFFFFFFF) \<and>
    fat_get (fs_type fs) (fatmem fs) (unat c) \<noteq> 0xFFFFFFFF \<and> same_vol fs fs'"
  using get_fat_table [OF assms] fat_entry_range [of fs c] by (auto simp: fat_entry_def)

theorem get_fat_reads_table_witness:
  "fst (get_fat demo_fs demo_obj 2) = 0xFFFF \<and>
   fat_get 2 (fatmem demo_fs) 2 = 0xFFFF \<and> same_vol demo_fs (snd (get_fat demo_fs demo_obj 2))"
proof -
  have g: "fst (get_fat demo_fs demo_obj 2) = 0xFFFF" by code_simp
  have "2 < n_fatent demo_fs" "via_table demo_fs demo_obj 2" "fs_type demo_fs = 2"
    by (simp_all add: demo_fs_def via_table_def)
  then show ?thesis
    using get_fat_reads_table [OF demo_fat_ok demo_win_ok _ _ _ prod.collapse [symmetric], of 2 demo_obj] g by auto
qed

text \<open>C18. \<open>put_fat\<close> on a valid cluster sets its entry to the value cut to the width of the layout
  and leaves every other entry and every sector outside the FATs as it was; if the disk
  fails, all other entries are still intact.\<close>

theorem put_fat_sets_entry:
  assumes "fat_ok fs" "win_ok fs" "fs_known fs" "2 \<le> c" "c < n_fatent fs"
    and "put_fat fs c v = (r, fs')"
  shows "win_ok fs' \<and> geom_eq fs fs' \<and> alloc_eq fs fs' \<and> data_eq fs fs' \<and> (r = FR_OK \<or> r = FR_DISK_ERR) \<and>
    (r = FR_OK \<longrightarrow> fat_entry fs' c = v AND fat_mask (fs_type fs)) \<and>
    (\<forall>c'<n_fatent fs. c' \<noteq> c \<longrightarrow> fat_entry fs' c' = fat_entry fs c')"
  using put_fat_upd [OF assms] by (simp add: fat_upd_def fat_step_def)

theorem put_fat_sets_entry_witness:
  "fst (put_fat demo_fs 3 0x12345) = FR_OK \<and> fat_entry (snd (put_fat demo_fs 3 0x12345)) 3 = 0x2345 \<and>
   fat_entry (snd (put_fat demo_fs 3 0x12345)) 2 = 0xFFFF"
proof -
  have g: "fst (put_fat demo_fs 3 0x12345) = FR_OK" "fat_entry demo_fs 2 = 0xFFFF" by code_simp+
  have "3 < n_fatent demo_fs" "fs_known demo_fs" "fs_type demo_fs = 2" "n_fatent demo_fs = 12"
    by (simp_all add: demo_fs_def fs_known_def)
  then show ?thesis
    using put_fat_sets_entry [OF demo_fat_ok demo_win_ok _ _ _ prod.collapse [symmetric], of 3 "0x12345"] g
    by (simp add: fat_mask_def)
qed

section \<open>Cluster chains on FAT12/16/32 volumes\<close>

text \<open>C15. On FAT12/16/32 volumes, stretching a chain from its last cluster with a cluster number as result appends that
  cluster: it was free, it is in no chain of the old table, the chain now ends in it, and
  every chain not through the old last cluster is unchanged.\<close>

theorem create_chain_stretches:
  assumes "fat_vol fs" and "is_chain (fat_entry fs) (n_fatent fs) c (xs @ [l])"
    and "create_chain fs obj l = (r, fs', obj')" and "2 \<le> r" "r < n_fatent fs"
  shows "is_chain (fat_entry fs') (n_fatent fs') c (xs @ [l, r]) \<and> fat_entry fs r = 0 \<and>
    (\<forall>d ds. is_chain (fat_entry fs) (n_fatent fs) d ds \<longrightarrow>
       r \<notin> set ds \<and> (l \<notin> set ds \<longrightarrow> is_chain (fat_entry fs') (n_fatent fs') d ds))"
proof -
  have l: "2 \<le> l" "l < n_fatent fs" using is_chain_range [OF assms(2), of l] by auto
  then have l0: "l = 0 \<or> 2 \<le> l \<and> l < n_fatent fs" "l \<noteq> 0" by auto
  have ln: "linked fs l r fs'"
    using create_result_linked [OF assms(1) create_chain_ok(1) [OF assms(1) l0(1) assms(3)] assms(4,5)]
      is_chain_end [OF assms(2)] by blast
  note lc = linked_chains [OF assms(1) l0(1) ln, unfolded ft.chain_def]
  have "fat_entry fs r = 0" using ln by (simp add: linked_def)
  then show ?thesis using lc(1) [OF assms(2) l0(2)] lc(2,4) by blast
qed

theorem create_chain_stretches_witness:
  "fst (create_chain demo_fs demo_obj 2) = 3 \<and>
   is_chain (fat_entry (fst (snd (create_chain demo_fs demo_obj 2)))) 12 2 [2, 3]"
proof -
  obtain r fs' obj' where cc: "create_chain demo_fs demo_obj 2 = (r, fs', obj')" by (metis prod.collapse)
  have r: "fst (create_chain demo_fs demo_obj 2) = 3" "n_fatent (fst (snd (create_chain demo_fs demo_obj 2))) = 12"
    by code_simp+
  have "is_chain (fat_entry demo_fs) (n_fatent demo_fs) 2 ([] @ [2])" by code_simp
  moreover have "r = 3" "n_fatent fs' = 12" "n_fatent demo_fs = 12" using r cc by (simp_all add: demo_fs_def)
  ultimately have "is_chain (fat_entry fs') (n_fatent fs') 2 ([] @ [2, r])"
    by (intro conjunct1 [OF create_chain_stretches [OF demo_vol _ cc]]) simp_all
  then show ?thesis using cc \<open>r = 3\<close> \<open>n_fatent fs' = 12\<close> by auto
qed

text \<open>C16. The complete contract of \<open>create_chain\<close> on FAT12/16/32 volumes: it returns the successor a cluster already has;
  or 0 with nothing changed, only if the free count is 0 or no entry is free; or 1 with
  nothing changed, only if an entry is inconsistent; or 0xFFFFFFFF for a disk error, with
  every cluster in use but \<open>clst\<close> intact and at most one free one taken; or a free cluster which it has linked. The search
  always ends.\<close>

theorem create_chain_contract:
  assumes "fat_vol fs" and "clst = 0 \<or> 2 \<le> clst \<and> clst < n_fatent fs"
    and "create_chain fs obj clst = (r, fs', obj')"
  shows "create_result fs clst r fs' \<and> obj' = obj"
  using create_chain_ok [OF assms] by blast

theorem create_chain_contract_witness:
  "create_result demo_fs 0 (fst (create_chain demo_fs demo_obj 0)) (fst (snd (create_chain demo_fs demo_obj 0))) \<and>
   fst (create_chain demo_fs demo_obj 0) = 3"
proof -
  obtain r fs' obj' where cc: "create_chain demo_fs demo_obj 0 = (r, fs', obj')" by (metis prod.collapse)
  have "fst (create_chain demo_fs demo_obj 0) = 3" by code_simp
  then show ?thesis using create_chain_contract [OF demo_vol _ cc] cc by simp
qed

text \<open>C17. On FAT12/16/32 volumes, removing a chain frees exactly its clusters: on success their entries are 0, the
  predecessor given is marked as the end of its chain, and no other entry and no sector
  outside the FATs changes; on a disk error the other entries are intact all the same.\<close>

theorem remove_chain_frees:
  assumes "fat_vol fs" and "is_chain (fat_entry fs) (n_fatent fs) clst xs" "xs \<noteq> []"
    and "pclst = 0 \<or> 2 \<le> pclst \<and> pclst < n_fatent fs \<and> pclst \<notin> set xs"
    and "remove_chain fs obj clst pclst = (r, fs', obj')"
  shows "(r = FR_OK \<or> r = FR_DISK_ERR) \<and> fat_frame fs fs' \<and>
    (\<forall>c<n_fatent fs. c \<notin> set xs \<longrightarrow> c \<noteq> pclst \<longrightarrow> fat_entry fs' c = fat_entry fs c) \<and>
    (r = FR_OK \<longrightarrow> (\<forall>c\<in>set xs. fat_entry fs' c = 0) \<and> (pclst \<noteq> 0 \<longrightarrow> n_fatent fs \<le> fat_entry fs' pclst))"
  using remove_chain_ok [OF assms] by blast

theorem remove_chain_frees_witness:
  "fst (remove_chain demo_fs demo_obj 2 0) = FR_OK \<and>
   fat_entry (fst (snd (remove_chain demo_fs demo_obj 2 0))) 2 = 0"
proof -
  obtain r fs' obj' where rc: "remove_chain demo_fs demo_obj 2 0 = (r, fs', obj')" by (metis prod.collapse)
  have "fst (remove_chain demo_fs demo_obj 2 0) = FR_OK" by code_simp
  moreover have "is_chain (fat_entry demo_fs) (n_fatent demo_fs) 2 [2]" by code_simp
  ultimately show ?thesis using remove_chain_frees [OF demo_vol _ _ _ rc, of "[2]"] rc by simp
qed

text \<open>C21. On FAT12/16/32 volumes \<open>remove_chain\<close> ends whatever the table holds, cycles included.\<close>

theorem remove_chain_ends:
  assumes "fat_vol fs" and "pclst = 0 \<or> 2 \<le> pclst \<and> pclst < n_fatent fs"
  shows "fst (remove_chain fs obj clst pclst) \<noteq> FR_TIMEOUT"
  using remove_chain_terminates [OF assms] by (metis prod.collapse)

theorem remove_chain_ends_witness: "fst (remove_chain demo_fs demo_obj 2 0) \<noteq> FR_TIMEOUT"
  using remove_chain_ends [OF demo_vol, of 0 demo_obj 2] by simp

text \<open>C20. The free cluster count on FAT12/16/32 volumes. Let it be exact or unknown. After creating or
  stretching a chain, and after removing a chain or cutting it off behind a cluster in use, on any
  table, it is still so for every result but a disk error. After a disk error the count, which then
  does not follow the entry being written, differs from the number of free entries by at most one.\<close>

theorem free_count_exact:
  assumes "fat_vol fs" and "count_ok fs"
  shows "((clst = 0 \<or> 2 \<le> clst \<and> clst < n_fatent fs) \<and> create_chain fs obj clst = (r, fs1, obj1) \<longrightarrow>
        count_after (r = 0xFFFFFFFF) fs1) \<and>
    ((pclst = 0 \<or> 2 \<le> pclst \<and> pclst < n_fatent fs \<and> fat_entry fs pclst \<noteq> 0) \<and>
        remove_chain fs obj clst pclst = (q, fs2, obj2) \<longrightarrow> count_after (q = FR_DISK_ERR) fs2)"
proof (intro conjI impI; elim conjE)
  assume c: "clst = 0 \<or> 2 \<le> clst \<and> clst < n_fatent fs" and cc: "create_chain fs obj clst = (r, fs1, obj1)"
  have "count_ok fs1" if "same_vol fs fs1" using count_ok_same [OF assms(1) that] assms(2) by simp
  moreover have "count_ok fs1" if "linked fs clst r fs1" using linked_count(1) [OF assms(1) c that assms(2)] .
  ultimately show "count_after (r = 0xFFFFFFFF) fs1"
    using create_chain_ok(1) [OF assms(1) c cc] create_error_count [OF assms(2), of fs1 clst]
    unfolding create_result_def by (elim disjE conjE exE) (auto intro: count_afterI)
next
  assume "pclst = 0 \<or> 2 \<le> pclst \<and> pclst < n_fatent fs \<and> fat_entry fs pclst \<noteq> 0" "remove_chain fs obj clst pclst = (q, fs2, obj2)"
  then show "count_after (q = FR_DISK_ERR) fs2" by (rule remove_chain_count [OF assms])
qed

theorem free_count_exact_witness:
  "count_ok (fst (snd (create_chain demo_fs demo_obj 2))) \<and> count_ok (fst (snd (remove_chain demo_fs demo_obj 2 0)))"
proof -
  obtain r fs1 o1 where cc: "create_chain demo_fs demo_obj 2 = (r, fs1, o1)" by (metis prod.collapse)
  obtain q fs2 o2 where rc: "remove_chain demo_fs demo_obj 2 0 = (q, fs2, o2)" by (metis prod.collapse)
  have "fst (create_chain demo_fs demo_obj 2) = 3" "fst (remove_chain demo_fs demo_obj 2 0) = FR_OK" by code_simp+
  moreover have "2 < n_fatent demo_fs" by (simp add: demo_fs_def)
  ultimately show ?thesis
    using free_count_exact [OF demo_vol demo_count, of 2 demo_obj r fs1 o1 0 q fs2 o2] cc rc by (auto simp: count_after_def)
qed

end
